(* ===== verification/Nelix_Prelude.thy ===== *)
theory Nelix_Prelude
  imports Complex_Main "HOL-Library.AList"
begin

text \<open>
  What every other theory of the development shares: the error codes of
  \<^verbatim>\<open>nelix_contracts/errors.py\<close>, exceptions as values of a sum type with a bind
  for straight-line code, the Python values a dynamically checked argument may be,
  insertion-ordered dictionaries as association lists, and a locale for state machines
  given by a step function (runs, invariants, frame properties).
\<close>

named_theorems step_defs \<open>definitions that unfold one operation of a component\<close>
named_theorems inv_intros \<open>preservation lemmas of the invariants\<close>

section \<open>errors.py: machine error codes\<close>

datatype error_code =
    OWNER_MISMATCH | UNKNOWN_SESSION | CURSOR_EXPIRED | BOARD_CHANGED | BOARD_INCOMPLETE
  | ARCHIVE_INCOMPLETE | UNSUPPORTED_BY_GENERATION | CONCURRENCY_LIMIT | DUPLICATE_START
  | GENERATION_UNAVAILABLE | ORPHAN_REAPED | GENERATION_LOST | INVALID_REQUEST
  | SCHEMA_TOO_NEW | IDEMPOTENCY_CONFLICT | STORE_CORRUPT | STORE_UNAVAILABLE
  | STORE_UNSUPPORTED | INTERNAL_ERROR | ADMISSION_UNAVAILABLE | REBUILDING
  | STALE_RECONCILIATION_ID | TERMINAL_EXPIRED

text \<open>The table \<open>_RETRYABLE\<close>: the same call, unchanged, may succeed later.\<close>

fun retryable :: "error_code \<Rightarrow> bool" where
  "retryable BOARD_INCOMPLETE = True"
| "retryable ARCHIVE_INCOMPLETE = True"
| "retryable GENERATION_UNAVAILABLE = True"
| "retryable CONCURRENCY_LIMIT = True"
| "retryable ADMISSION_UNAVAILABLE = True"
| "retryable REBUILDING = True"
| "retryable STALE_RECONCILIATION_ID = True"
| "retryable STORE_UNAVAILABLE = True"
| "retryable _ = False"

section \<open>Exceptions as values\<close>

text \<open>
  \<open>NelixError code\<close> is the contract exception; its human-readable message is not
  modelled, since callers branch on \<open>code\<close> only. The other constructors are the
  Python exceptions the modelled code can let escape or catches itself.
\<close>

datatype exn =
    NelixError error_code
  | InvalidId
  | UnknownOperation
  | ValueError
  | TypeError
  | OverflowError
  | UnicodeEncodeError
  | AttributeError
  | RouterUnavailable
  | RuntimeError

type_synonym 'a res = "exn + 'a"

definition rbind :: "'a res \<Rightarrow> ('a \<Rightarrow> 'b res) \<Rightarrow> 'b res" where
  "rbind m f = (case m of Inl e \<Rightarrow> Inl e | Inr x \<Rightarrow> f x)"

definition require :: "bool \<Rightarrow> exn \<Rightarrow> unit res" where
  "require c e = (if c then Inr () else Inl e)"

text \<open>\<open>except InvalidId as e: raise NelixError(INVALID_REQUEST, str(e)) from None\<close>.\<close>

definition invalid_id_as_request :: "'a res \<Rightarrow> 'a res" where
  "invalid_id_as_request m =
     (case m of Inl InvalidId \<Rightarrow> Inl (NelixError INVALID_REQUEST) | _ \<Rightarrow> m)"

lemma rbind_simps [simp]:
  "rbind (Inl e) f = Inl e"
  "rbind (Inr x) f = f x"
  by (simp_all add: rbind_def)

lemma rbind_eq_Inr [simp]: "rbind m f = Inr y \<longleftrightarrow> (\<exists>x. m = Inr x \<and> f x = Inr y)"
  by (cases m) auto

lemma rbind_eq_Inl: "rbind m f = Inl e \<longleftrightarrow> m = Inl e \<or> (\<exists>x. m = Inr x \<and> f x = Inl e)"
  by (cases m) auto

lemma rbind_assoc [simp]: "rbind (rbind m f) g = rbind m (\<lambda>x. rbind (f x) g)"
  by (cases m) auto

lemma rbind_cong [fundef_cong]:
  "m = m' \<Longrightarrow> (\<And>x. m' = Inr x \<Longrightarrow> f x = f' x) \<Longrightarrow> rbind m f = rbind m' f'"
  by (cases m') auto

lemma require_eq [simp]:
  "require c e = Inr u \<longleftrightarrow> c"
  "require c e = Inl e' \<longleftrightarrow> \<not> c \<and> e' = e"
  by (auto simp: require_def)

lemma require_True [simp]: "require True e = Inr ()" and require_False [simp]: "require False e = Inl e"
  by (simp_all add: require_def)

lemma invalid_id_as_request_eq [simp]:
  "invalid_id_as_request m = Inr x \<longleftrightarrow> m = Inr x"
  "invalid_id_as_request (Inl InvalidId) = Inl (NelixError INVALID_REQUEST)"
  "invalid_id_as_request (Inr x) = Inr x"
  by (auto simp: invalid_id_as_request_def split: sum.splits exn.splits)

section \<open>Python values an argument may hold\<close>

text \<open>
  Floats are exact rationals or one of the three non-finite values; rounding is not
  modelled. Strings are HOL strings, one character per code point. Dictionaries are the
  JSON objects the code receives, keyed by strings, in insertion order.
\<close>

datatype fl = Fin rat | PosInf | NegInf | NaN

datatype pyval =
    VNone
  | VBool bool
  | VInt int
  | VFloat fl
  | VStr string
  | VList "pyval list"
  | VTuple "pyval list"
  | VDict "(string \<times> pyval) list"

fun is_str :: "pyval \<Rightarrow> bool" where
  "is_str (VStr _) = True"
| "is_str _ = False"

text \<open>\<open>isinstance(v, str) and v\<close>: a non-empty string.\<close>

fun is_nonempty_str :: "pyval \<Rightarrow> bool" where
  "is_nonempty_str (VStr s) = (s \<noteq> [])"
| "is_nonempty_str _ = False"

text \<open>
  \<open>isinstance(v, int) and not isinstance(v, bool) and v >= 0\<close>: the check the code
  repeats for every count and sequence number.
\<close>

fun nonneg_int :: "pyval \<Rightarrow> bool" where
  "nonneg_int (VInt n) = (0 \<le> n)"
| "nonneg_int _ = False"

fun the_int :: "pyval \<Rightarrow> int" where
  "the_int (VInt n) = n"
| "the_int _ = 0"

lemma nonneg_int_iff: "nonneg_int v \<longleftrightarrow> (\<exists>n\<ge>0. v = VInt n)"
  by (cases v) auto

lemma is_nonempty_str_iff: "is_nonempty_str v \<longleftrightarrow> (\<exists>s. s \<noteq> [] \<and> v = VStr s)"
  by (cases v) auto

lemma is_str_iff: "is_str v \<longleftrightarrow> (\<exists>s. v = VStr s)"
  by (cases v) auto

section \<open>Insertion-ordered dictionaries\<close>

text \<open>
  A Python \<open>dict\<close> whose iteration order or size the code uses is an association list
  with distinct keys: \<open>d[k] = v\<close> is \<^const>\<open>AList.update\<close> (in place when the key
  exists, at the end otherwise), \<open>d.pop(k, None)\<close> is \<^const>\<open>AList.delete\<close>,
  \<open>d.get(k)\<close> is \<^const>\<open>map_of\<close>.
\<close>

type_synonym ('k, 'v) dict = "('k \<times> 'v) list"

abbreviation keys :: "('k, 'v) dict \<Rightarrow> 'k list" where
  "keys d \<equiv> map fst d"

abbreviation dict_ok :: "('k, 'v) dict \<Rightarrow> bool" where
  "dict_ok d \<equiv> distinct (keys d)"

lemma dict_get_update [simp]: "map_of (AList.update k v d) = (map_of d)(k \<mapsto> v)"
  by (simp add: update_conv')

lemma dict_get_delete [simp]: "map_of (AList.delete k d) = (map_of d)(k := None)"
  by (simp add: delete_conv')

lemma dict_ok_update [intro, simp]: "dict_ok d \<Longrightarrow> dict_ok (AList.update k v d)"
  by (simp add: distinct_update)

lemma dict_ok_delete [intro, simp]: "dict_ok d \<Longrightarrow> dict_ok (AList.delete k d)"
  by (simp add: distinct_delete)

lemma dict_set_conv: "dict_ok d \<Longrightarrow> (k, v) \<in> set d \<longleftrightarrow> map_of d k = Some v"
  by (simp add: eq_commute)

declare map_of_eq_Some_iff [simp del] Some_eq_map_of_iff [simp del]

lemma dict_update_new: "map_of d k = None \<Longrightarrow> AList.update k v d = d @ [(k, v)]"
  by (induction d) auto

lemma dict_delete_absent [simp]: "map_of d k = None \<Longrightarrow> AList.delete k d = d"
  by (induction d) (auto simp: AList.delete_eq)

lemma dict_update_empty_iff [simp]: "AList.update k v d \<noteq> []"
  by (cases d) auto

lemma dict_filter_update_new:
  "map_of d k = None \<Longrightarrow> filter P (AList.update k v d) = filter P d @ (if P (k, v) then [(k, v)] else [])"
  by (simp add: dict_update_new)

lemma dict_filter_delete:
  assumes "dict_ok d" "map_of d k = Some v"
  shows "length (filter P (AList.delete k d)) + (if P (k, v) then 1 else 0) = length (filter P d)"
  using assms
proof (induction d)
  case Nil
  then show ?case by simp
next
  case (Cons p d)
  show ?case
  proof (cases "fst p = k")
    case True
    then have "k \<notin> set (keys d)" using Cons.prems by auto
    then have "map_of d k = None" by (simp add: map_of_eq_None_iff)
    then have "AList.delete k d = d" by (rule dict_delete_absent)
    moreover have "p = (k, v)" using True Cons.prems by (cases p) auto
    ultimately show ?thesis by (simp add: AList.delete_eq)
  next
    case False
    with Cons show ?thesis by (auto simp: AList.delete_eq)
  qed
qed

section \<open>Machines given by a step function\<close>

text \<open>
  A component is a state and a total step per operation; a run folds the steps. The
  locale is interpreted once per component, and gives its invariant along every run.
\<close>

locale step_machine =
  fixes step :: "'s \<Rightarrow> 'op \<Rightarrow> 's"
    and legal :: "'s \<Rightarrow> 'op \<Rightarrow> bool"
    and inv :: "'s \<Rightarrow> bool"
  assumes inv_step: "inv s \<Longrightarrow> legal s op \<Longrightarrow> inv (step s op)"
begin

primrec run :: "'s \<Rightarrow> 'op list \<Rightarrow> 's" where
  "run s [] = s"
| "run s (op # ops) = run (step s op) ops"

primrec legal_run :: "'s \<Rightarrow> 'op list \<Rightarrow> bool" where
  "legal_run s [] = True"
| "legal_run s (op # ops) = (legal s op \<and> legal_run (step s op) ops)"

lemma run_append: "run s (xs @ ys) = run (run s xs) ys"
  by (induction xs arbitrary: s) auto

lemma run_inv: "inv s \<Longrightarrow> legal_run s ops \<Longrightarrow> inv (run s ops)"
  by (induction ops arbitrary: s) (auto intro: inv_step)

lemma run_stable:
  assumes "\<And>t op. inv t \<Longrightarrow> P t \<Longrightarrow> legal t op \<Longrightarrow> P (step t op)"
    and "inv s" "P s" "legal_run s ops"
  shows "P (run s ops)"
  using assms(2-4) by (induction ops arbitrary: s) (auto intro: assms(1) inv_step)

end

end
