(* ===== verification/Nelix_Lifecycle.thy ===== *)
theory Nelix_Lifecycle
  imports Nelix_Prelude
begin

text \<open>
  \<^verbatim>\<open>nelix_contracts/lifecycle.py\<close> (the generation state machine) and
  \<^verbatim>\<open>nelix_contracts/routing.py\<close> (operation classes). Both work on strings; the
  datatype \<open>lifecycle\<close> names the five states and orders them, so that the state
  machine can be shown to move forward only.
\<close>

section \<open>lifecycle.py\<close>

definition ALL_STATES :: "string list" where
  "ALL_STATES = [''ready'', ''active'', ''draining'', ''retiring'', ''retired'']"

definition LEGAL_TRANSITIONS :: "(string \<times> string) list" where
  "LEGAL_TRANSITIONS =
     [(''ready'', ''active''), (''active'', ''draining''),
      (''draining'', ''retiring''), (''retiring'', ''retired'')]"

definition validate_transition :: "string \<Rightarrow> string \<Rightarrow> unit res" where
  "validate_transition current next_state =
     (if current \<notin> set ALL_STATES then Inl ValueError
      else if next_state \<notin> set ALL_STATES then Inl ValueError
      else if current = next_state then Inr ()
      else if (current, next_state) \<notin> set LEGAL_TRANSITIONS then Inl ValueError
      else Inr ())"

datatype lifecycle = Ready | Active | Draining | Retiring | Retired

fun state_name :: "lifecycle \<Rightarrow> string" where
  "state_name Ready = ''ready''"
| "state_name Active = ''active''"
| "state_name Draining = ''draining''"
| "state_name Retiring = ''retiring''"
| "state_name Retired = ''retired''"

fun rank :: "lifecycle \<Rightarrow> nat" where
  "rank Ready = 0"
| "rank Active = 1"
| "rank Draining = 2"
| "rank Retiring = 3"
| "rank Retired = 4"

lemma rank_inject: "rank x = rank y \<longleftrightarrow> x = y"
  by (cases x; cases y) auto

instantiation lifecycle :: linorder
begin

definition less_eq_lifecycle :: "lifecycle \<Rightarrow> lifecycle \<Rightarrow> bool" where
  "x \<le> y \<longleftrightarrow> rank x \<le> rank y"

definition less_lifecycle :: "lifecycle \<Rightarrow> lifecycle \<Rightarrow> bool" where
  "x < y \<longleftrightarrow> rank x < rank y"

instance
  by standard (auto simp: less_eq_lifecycle_def less_lifecycle_def rank_inject)

end

lemma all_states_names: "s \<in> set ALL_STATES \<longleftrightarrow> (\<exists>x. s = state_name x)"
proof
  assume "s \<in> set ALL_STATES"
  then have "s \<in> state_name ` {Ready, Active, Draining, Retiring, Retired}"
    by (simp add: ALL_STATES_def)
  then show "\<exists>x. s = state_name x" by blast
next
  assume "\<exists>x. s = state_name x"
  then obtain x where "s = state_name x" ..
  then show "s \<in> set ALL_STATES" by (cases x) (simp_all add: ALL_STATES_def)
qed

lemma legal_transition_iff:
  "(state_name x, state_name y) \<in> set LEGAL_TRANSITIONS \<longleftrightarrow> rank y = Suc (rank x)"
  by (cases x; cases y) (simp_all add: LEGAL_TRANSITIONS_def)

lemma state_name_inject [simp]: "state_name x = state_name y \<longleftrightarrow> x = y"
  by (cases x; cases y) simp_all

lemma validate_transition_iff:
  "validate_transition c n = Inr () \<longleftrightarrow>
     (\<exists>x y. c = state_name x \<and> n = state_name y \<and> (y = x \<or> rank y = Suc (rank x)))"
  by (auto simp: validate_transition_def all_states_names legal_transition_iff split: if_splits)

text \<open>A history of a generation's lifecycle: each step passes \<open>validate_transition\<close>.\<close>

fun lifecycle_history :: "string \<Rightarrow> string list \<Rightarrow> bool" where
  "lifecycle_history s [] = True"
| "lifecycle_history s (t # ts) = (validate_transition s t = Inr () \<and> lifecycle_history t ts)"

lemma lifecycle_history_monotone:
  "lifecycle_history (state_name x) ts \<Longrightarrow> s \<in> set ts \<Longrightarrow> \<exists>y. s = state_name y \<and> x \<le> y"
proof (induction ts arbitrary: x)
  case Nil
  then show ?case by simp
next
  case (Cons t ts)
  then obtain y where y: "t = state_name y" "x \<le> y"
    by (auto simp: validate_transition_iff less_eq_lifecycle_def)
  show ?case
  proof (cases "s = t")
    case True
    with y show ?thesis by blast
  next
    case False
    with Cons.prems y have "lifecycle_history (state_name y) ts" "s \<in> set ts" by auto
    from Cons.IH [OF this] y show ?thesis by (metis order_trans)
  qed
qed

section \<open>routing.py\<close>

datatype op_class = ACTIVE_GENERATION | SESSION_KEYED | FAN_OUT | OPERATOR

definition OPERATION_CLASS :: "(string, op_class) dict" where
  "OPERATION_CLASS =
     [(''start'', ACTIVE_GENERATION), (''respond'', SESSION_KEYED), (''stop'', SESSION_KEYED),
      (''restart'', SESSION_KEYED), (''screen'', SESSION_KEYED), (''dialog'', SESSION_KEYED),
      (''ack_terminal'', SESSION_KEYED), (''hook'', SESSION_KEYED), (''message'', SESSION_KEYED),
      (''status'', FAN_OUT), (''wait'', FAN_OUT),
      (''generation_install'', OPERATOR), (''generation_activate'', OPERATOR),
      (''generation_retire'', OPERATOR), (''generation_list'', OPERATOR),
      (''capabilities'', OPERATOR)]"

definition classify :: "string \<Rightarrow> op_class res" where
  "classify operation =
     (case map_of OPERATION_CLASS operation of None \<Rightarrow> Inl UnknownOperation | Some c \<Rightarrow> Inr c)"

end
