(* ===== verification/Nelix_Ids.thy ===== *)
theory Nelix_Ids
  imports Nelix_Prelude
begin

text \<open>
  \<^verbatim>\<open>nelix_contracts/ids.py\<close>: the identifier formats and their validators. The four
  regular expressions are anchored with \<open>^\<close> and \<open>$\<close> and applied with \<open>re.match\<close>;
  Python's \<open>$\<close> matches at the end and also just before one final newline.
\<close>

definition newline :: char where
  "newline = CHR 0x0A"

definition dollar :: "string \<Rightarrow> bool" where
  "dollar rest \<longleftrightarrow> rest = [] \<or> rest = [newline]"

definition is_hex :: "char \<Rightarrow> bool" where
  "is_hex c \<longleftrightarrow> c \<in> set ''0123456789abcdef''"

definition is_alnum :: "char \<Rightarrow> bool" where
  "is_alnum c \<longleftrightarrow> c \<in> set ''ABCDEFGHIJKLMNOPQRSTUVWXYZabcdefghijklmnopqrstuvwxyz0123456789''"

definition is_owner_char :: "char \<Rightarrow> bool" where
  "is_owner_char c \<longleftrightarrow> is_alnum c \<or> c \<in> set ''._:-''"

definition match_hex_id :: "char \<Rightarrow> string \<Rightarrow> bool" where
  "match_hex_id p s \<longleftrightarrow>
     take 2 s = [p, CHR ''-''] \<and>
     length (take 32 (drop 2 s)) = 32 \<and> list_all is_hex (take 32 (drop 2 s)) \<and>
     dollar (drop 34 s)"

definition match_owner :: "string \<Rightarrow> bool" where
  "match_owner s =
     (case s of [] \<Rightarrow> False
      | c # rest \<Rightarrow> is_alnum c \<and> length (takeWhile is_owner_char rest) \<le> 127
                  \<and> dollar (dropWhile is_owner_char rest))"

definition check_id :: "pyval \<Rightarrow> (string \<Rightarrow> bool) \<Rightarrow> string res" where
  "check_id v rx = (case v of VStr s \<Rightarrow> if rx s then Inr s else Inl InvalidId | _ \<Rightarrow> Inl InvalidId)"

definition validate_session_id :: "pyval \<Rightarrow> string res" where
  "validate_session_id v = check_id v (match_hex_id (CHR ''s''))"

definition validate_orchestration_id :: "pyval \<Rightarrow> string res" where
  "validate_orchestration_id v = check_id v (match_hex_id (CHR ''o''))"

definition validate_generation_id :: "pyval \<Rightarrow> string res" where
  "validate_generation_id v = check_id v (match_hex_id (CHR ''g''))"

definition validate_owner_id :: "pyval \<Rightarrow> string res" where
  "validate_owner_id v = check_id v match_owner"

lemmas validate_id_defs = validate_session_id_def validate_orchestration_id_def
  validate_generation_id_def validate_owner_id_def

text \<open>The minters, with the 32 hexadecimal digits of \<open>uuid.uuid4().hex\<close> as argument.\<close>

definition new_session_id :: "string \<Rightarrow> string" where
  "new_session_id hex = ''s-'' @ hex"

definition new_orchestration_id :: "string \<Rightarrow> string" where
  "new_orchestration_id hex = ''o-'' @ hex"

definition new_generation_id :: "string \<Rightarrow> string" where
  "new_generation_id hex = ''g-'' @ hex"

definition uuid_hex :: "string \<Rightarrow> bool" where
  "uuid_hex h \<longleftrightarrow> length h = 32 \<and> list_all is_hex h"

lemma check_id_eq_Inr [simp]: "check_id v rx = Inr s \<longleftrightarrow> v = VStr s \<and> rx s"
  by (cases v) (auto simp: check_id_def)

lemma check_id_error: "check_id v rx = Inl e \<Longrightarrow> e = InvalidId"
  by (cases v) (auto simp: check_id_def split: if_splits)

lemma check_id_str [simp]: "check_id (VStr s) rx = (if rx s then Inr s else Inl InvalidId)"
  by (simp add: check_id_def)

lemma match_hex_id_iff:
  "match_hex_id p s \<longleftrightarrow> (\<exists>h. uuid_hex h \<and> (s = p # CHR ''-'' # h \<or> s = p # CHR ''-'' # h @ [newline]))"
proof
  assume m: "match_hex_id p s"
  let ?h = "take 32 (drop 2 s)"
  have "drop 2 s = ?h @ drop 34 s"
    using append_take_drop_id [of 32 "drop 2 s"] by simp
  then have "s = take 2 s @ ?h @ drop 34 s"
    by (metis append_take_drop_id)
  then have "s = [p, CHR ''-''] @ ?h @ drop 34 s" using m by (simp add: match_hex_id_def)
  moreover have "uuid_hex ?h" using m by (simp add: match_hex_id_def uuid_hex_def)
  moreover have "drop 34 s = [] \<or> drop 34 s = [newline]" using m by (simp add: match_hex_id_def dollar_def)
  ultimately show "\<exists>h. uuid_hex h \<and> (s = p # CHR ''-'' # h \<or> s = p # CHR ''-'' # h @ [newline])"
    by (metis append_Cons append_Nil append_Nil2)
next
  assume "\<exists>h. uuid_hex h \<and> (s = p # CHR ''-'' # h \<or> s = p # CHR ''-'' # h @ [newline])"
  then show "match_hex_id p s"
    by (auto simp: match_hex_id_def uuid_hex_def dollar_def)
qed

end
