(* ===== verification/Nelix_Records.thy ===== *)
theory Nelix_Records
  imports Nelix_Ids
begin

text \<open>
  \<^verbatim>\<open>nelix_contracts/records.py\<close>: the durable records and their validation. A
  constructor takes the Python values it is given, runs \<open>__post_init__\<close> in the
  source's order and returns a typed record or the exception. A number is kept as its
  rational value; \<open>float(n)\<close> and \<open>math.isfinite(n)\<close> of an integer beyond the range
  of a double raise \<open>OverflowError\<close>.
\<close>

definition SCHEMA_VERSION :: int where
  "SCHEMA_VERSION = 4"

definition float_overflow :: "int \<Rightarrow> bool" where
  "float_overflow n \<longleftrightarrow> 2 ^ 1024 - 2 ^ 970 \<le> \<bar>n\<bar>"

abbreviation invalid :: "'a res" where
  "invalid \<equiv> Inl (NelixError INVALID_REQUEST)"

section \<open>Field validators\<close>

definition text_field :: "pyval \<Rightarrow> string res" where
  "text_field v = (case v of VStr s \<Rightarrow> Inr s | _ \<Rightarrow> invalid)"

fun timestamp :: "bool \<Rightarrow> pyval \<Rightarrow> rat option res" where
  "timestamp opt VNone = (if opt then Inr None else invalid)"
| "timestamp opt (VInt n) = (if float_overflow n then Inl OverflowError else Inr (Some (of_int n)))"
| "timestamp opt (VFloat (Fin r)) = Inr (Some r)"
| "timestamp opt _ = invalid"

text \<open>A required timestamp is a number.\<close>

definition moment :: "pyval \<Rightarrow> rat res" where
  "moment v = rbind (timestamp False v) (\<lambda>t. case t of None \<Rightarrow> invalid | Some r \<Rightarrow> Inr r)"

fun version_field :: "pyval \<Rightarrow> int res" where
  "version_field (VInt n) =
     (if n < 1 then invalid
      else if SCHEMA_VERSION < n then Inl (NelixError SCHEMA_TOO_NEW)
      else Inr n)"
| "version_field _ = invalid"

text \<open>\<open>_check_version\<close> accepts a \<open>bool\<close>, an \<open>int\<close> subclass; \<open>_version\<close> does not.\<close>

definition check_version :: "(string, pyval) dict \<Rightarrow> unit res" where
  "check_version d =
     (case map_of d ''schema_version'' of
        Some (VInt n) \<Rightarrow> require (n \<le> SCHEMA_VERSION) (NelixError SCHEMA_TOO_NEW)
      | Some (VBool b) \<Rightarrow> Inr ()
      | _ \<Rightarrow> invalid)"

definition ids_field :: "pyval \<Rightarrow> pyval \<Rightarrow> pyval \<Rightarrow> pyval \<Rightarrow> (string \<times> string \<times> string \<times> string) res" where
  "ids_field sid own orch gen =
     invalid_id_as_request
       (rbind (validate_session_id sid) (\<lambda>s.
        rbind (validate_owner_id own) (\<lambda>ow.
        rbind (validate_orchestration_id orch) (\<lambda>r.
        rbind (validate_generation_id gen) (\<lambda>g. Inr (s, ow, r, g))))))"

definition optional_text :: "pyval \<Rightarrow> string option res" where
  "optional_text v = (if v = VNone then Inr None else rbind (text_field v) (\<lambda>s. Inr (Some s)))"

fun id_or_empty :: "pyval \<Rightarrow> string option res" where
  "id_or_empty VNone = Inr None"
| "id_or_empty (VStr s) = (if s = [] then invalid else Inr (Some s))"
| "id_or_empty _ = invalid"

definition count_field :: "pyval \<Rightarrow> int res" where
  "count_field v = (if nonneg_int v then Inr (the_int v) else invalid)"

definition optional_count :: "pyval \<Rightarrow> int option res" where
  "optional_count v = (if v = VNone then Inr None else rbind (count_field v) (\<lambda>n. Inr (Some n)))"

section \<open>The four records\<close>

record session_record =
  sr_session_id :: string
  sr_owner_id :: string
  sr_orchestration_id :: string
  sr_generation_id :: string
  sr_generation_epoch :: string
  sr_state :: string
  sr_executor :: string
  sr_task :: string
  sr_cwd :: string
  sr_model :: "string option"
  sr_created_at :: rat
  sr_schema_version :: int

record terminal_record =
  tr_session_id :: string
  tr_owner_id :: string
  tr_orchestration_id :: string
  tr_generation_id :: string
  tr_generation_epoch :: string
  tr_terminal_kind :: string
  tr_summary :: string
  tr_ended_at :: rat
  tr_published_at :: rat
  tr_terminal_seq :: int
  tr_acknowledged_at :: "rat option"
  tr_expired_at :: "rat option"
  tr_expire_reason :: "string option"
  tr_schema_version :: int

record generation_record =
  gr_generation_id :: string
  gr_build_id :: "string option"
  gr_lifecycle_state :: string
  gr_current_epoch :: "string option"
  gr_capability_snapshot :: "string option"
  gr_created_at :: rat

record epoch_record =
  er_generation_epoch :: string
  er_generation_id :: string
  er_process_state :: string
  er_retirement_state :: string
  er_certificate :: "string option"
  er_final_high_water :: "int option"
  er_incarnation_meta :: "string option"
  er_created_at :: rat

definition SessionRecord ::
  "pyval \<Rightarrow> pyval \<Rightarrow> pyval \<Rightarrow> pyval \<Rightarrow> pyval \<Rightarrow> pyval \<Rightarrow> pyval \<Rightarrow> pyval \<Rightarrow> pyval \<Rightarrow> pyval \<Rightarrow> pyval \<Rightarrow> pyval
   \<Rightarrow> session_record res" where
  "SessionRecord sid own orch gen epoch st ex tk cw md created ver =
     rbind (version_field ver) (\<lambda>v.
     rbind (ids_field sid own orch gen) (\<lambda>(s, ow, r, g).
     rbind (invalid_id_as_request (validate_generation_id epoch)) (\<lambda>ep.
     rbind (text_field st) (\<lambda>st'.
     rbind (text_field ex) (\<lambda>ex'.
     rbind (text_field tk) (\<lambda>tk'.
     rbind (text_field cw) (\<lambda>cw'.
     rbind (optional_text md) (\<lambda>md'.
     rbind (moment created) (\<lambda>cr.
       Inr \<lparr>sr_session_id = s, sr_owner_id = ow, sr_orchestration_id = r, sr_generation_id = g,
            sr_generation_epoch = ep, sr_state = st', sr_executor = ex', sr_task = tk',
            sr_cwd = cw', sr_model = md', sr_created_at = cr, sr_schema_version = v\<rparr>)))))))))"

definition TerminalRecord ::
  "pyval \<Rightarrow> pyval \<Rightarrow> pyval \<Rightarrow> pyval \<Rightarrow> pyval \<Rightarrow> pyval \<Rightarrow> pyval \<Rightarrow> pyval \<Rightarrow> pyval \<Rightarrow> pyval \<Rightarrow> pyval \<Rightarrow> pyval
   \<Rightarrow> pyval \<Rightarrow> pyval \<Rightarrow> terminal_record res" where
  "TerminalRecord sid own orch gen epoch kind summary ended published tseq acked expired reason ver =
     rbind (version_field ver) (\<lambda>v.
     rbind (ids_field sid own orch gen) (\<lambda>(s, ow, r, g).
     rbind (invalid_id_as_request (validate_generation_id epoch)) (\<lambda>ep.
     rbind (text_field kind) (\<lambda>k.
     rbind (text_field summary) (\<lambda>sm.
     rbind (moment ended) (\<lambda>en.
     rbind (moment published) (\<lambda>pu.
     rbind (count_field tseq) (\<lambda>ts.
     rbind (timestamp True acked) (\<lambda>ak.
     rbind (timestamp True expired) (\<lambda>xp.
     rbind (optional_text reason) (\<lambda>rs.
       Inr \<lparr>tr_session_id = s, tr_owner_id = ow, tr_orchestration_id = r, tr_generation_id = g,
            tr_generation_epoch = ep, tr_terminal_kind = k, tr_summary = sm, tr_ended_at = en,
            tr_published_at = pu, tr_terminal_seq = ts, tr_acknowledged_at = ak,
            tr_expired_at = xp, tr_expire_reason = rs, tr_schema_version = v\<rparr>)))))))))))"

definition GenerationRecord ::
  "pyval \<Rightarrow> pyval \<Rightarrow> pyval \<Rightarrow> pyval \<Rightarrow> pyval \<Rightarrow> pyval \<Rightarrow> generation_record res" where
  "GenerationRecord gen build life cur cap created =
     rbind (text_field gen) (\<lambda>g.
     rbind (optional_text build) (\<lambda>b.
     rbind (text_field life) (\<lambda>l.
     rbind (id_or_empty cur) (\<lambda>c.
     rbind (id_or_empty cap) (\<lambda>p.
     rbind (moment created) (\<lambda>cr.
       Inr \<lparr>gr_generation_id = g, gr_build_id = b, gr_lifecycle_state = l, gr_current_epoch = c,
            gr_capability_snapshot = p, gr_created_at = cr\<rparr>))))))"

definition EpochRecord ::
  "pyval \<Rightarrow> pyval \<Rightarrow> pyval \<Rightarrow> pyval \<Rightarrow> pyval \<Rightarrow> pyval \<Rightarrow> pyval \<Rightarrow> pyval \<Rightarrow> epoch_record res" where
  "EpochRecord epoch gen proc ret cert final meta created =
     rbind (text_field epoch) (\<lambda>e.
     rbind (text_field gen) (\<lambda>g.
     rbind (text_field proc) (\<lambda>p.
     rbind (text_field ret) (\<lambda>r.
     rbind (id_or_empty cert) (\<lambda>c.
     rbind (optional_count final) (\<lambda>f.
     rbind (id_or_empty meta) (\<lambda>m.
     rbind (moment created) (\<lambda>cr.
       Inr \<lparr>er_generation_epoch = e, er_generation_id = g, er_process_state = p,
            er_retirement_state = r, er_certificate = c, er_final_high_water = f,
            er_incarnation_meta = m, er_created_at = cr\<rparr>))))))))"

section \<open>to_dict and from_dict\<close>

definition opt_str :: "string option \<Rightarrow> pyval" where
  "opt_str x = (case x of None \<Rightarrow> VNone | Some s \<Rightarrow> VStr s)"

definition opt_num :: "rat option \<Rightarrow> pyval" where
  "opt_num x = (case x of None \<Rightarrow> VNone | Some r \<Rightarrow> VFloat (Fin r))"

definition opt_int :: "int option \<Rightarrow> pyval" where
  "opt_int x = (case x of None \<Rightarrow> VNone | Some n \<Rightarrow> VInt n)"

definition session_to_dict :: "session_record \<Rightarrow> (string, pyval) dict" where
  "session_to_dict r =
     [(''session_id'', VStr (sr_session_id r)), (''owner_id'', VStr (sr_owner_id r)),
      (''orchestration_id'', VStr (sr_orchestration_id r)),
      (''generation_id'', VStr (sr_generation_id r)),
      (''generation_epoch'', VStr (sr_generation_epoch r)), (''state'', VStr (sr_state r)),
      (''executor'', VStr (sr_executor r)), (''task'', VStr (sr_task r)),
      (''cwd'', VStr (sr_cwd r)), (''model'', opt_str (sr_model r)),
      (''created_at'', VFloat (Fin (sr_created_at r))),
      (''schema_version'', VInt (sr_schema_version r))]"

definition terminal_to_dict :: "terminal_record \<Rightarrow> (string, pyval) dict" where
  "terminal_to_dict r =
     [(''session_id'', VStr (tr_session_id r)), (''owner_id'', VStr (tr_owner_id r)),
      (''orchestration_id'', VStr (tr_orchestration_id r)),
      (''generation_id'', VStr (tr_generation_id r)),
      (''generation_epoch'', VStr (tr_generation_epoch r)),
      (''terminal_kind'', VStr (tr_terminal_kind r)), (''summary'', VStr (tr_summary r)),
      (''ended_at'', VFloat (Fin (tr_ended_at r))),
      (''published_at'', VFloat (Fin (tr_published_at r))),
      (''terminal_seq'', VInt (tr_terminal_seq r)),
      (''acknowledged_at'', opt_num (tr_acknowledged_at r)),
      (''expired_at'', opt_num (tr_expired_at r)),
      (''expire_reason'', opt_str (tr_expire_reason r)),
      (''schema_version'', VInt (tr_schema_version r))]"

text \<open>
  \<open>cls(**d)\<close>: a key the constructor does not have, or a missing one without a default,
  is a \<open>TypeError\<close>, which \<open>from_dict\<close> turns into \<open>INVALID_REQUEST\<close>.
\<close>

definition kwargs_ok :: "string list \<Rightarrow> string list \<Rightarrow> (string, pyval) dict \<Rightarrow> bool" where
  "kwargs_ok allowed req d \<longleftrightarrow>
     list_all (\<lambda>k. k \<in> set allowed) (keys d) \<and> list_all (\<lambda>k. k \<in> set (keys d)) req"

definition kw :: "(string, pyval) dict \<Rightarrow> pyval \<Rightarrow> string \<Rightarrow> pyval" where
  "kw d dflt k = (case map_of d k of None \<Rightarrow> dflt | Some v \<Rightarrow> v)"

definition session_required :: "string list" where
  "session_required =
     [''session_id'', ''owner_id'', ''orchestration_id'', ''generation_id'', ''generation_epoch'',
      ''state'', ''executor'', ''task'', ''cwd'', ''model'', ''created_at'']"

definition session_from_dict :: "pyval \<Rightarrow> session_record res" where
  "session_from_dict v =
     (case v of VDict d \<Rightarrow>
        rbind (check_version d) (\<lambda>_.
          if \<not> kwargs_ok (session_required @ [''schema_version'']) session_required d then invalid
          else SessionRecord (kw d VNone ''session_id'') (kw d VNone ''owner_id'')
                 (kw d VNone ''orchestration_id'') (kw d VNone ''generation_id'')
                 (kw d VNone ''generation_epoch'') (kw d VNone ''state'') (kw d VNone ''executor'')
                 (kw d VNone ''task'') (kw d VNone ''cwd'') (kw d VNone ''model'')
                 (kw d VNone ''created_at'') (kw d (VInt SCHEMA_VERSION) ''schema_version''))
      | _ \<Rightarrow> invalid)"

definition terminal_required :: "string list" where
  "terminal_required =
     [''session_id'', ''owner_id'', ''orchestration_id'', ''generation_id'', ''generation_epoch'',
      ''terminal_kind'', ''summary'', ''ended_at'', ''published_at'']"

definition terminal_defaulted :: "string list" where
  "terminal_defaulted =
     [''terminal_seq'', ''acknowledged_at'', ''expired_at'', ''expire_reason'', ''schema_version'']"

definition terminal_from_dict :: "pyval \<Rightarrow> terminal_record res" where
  "terminal_from_dict v =
     (case v of VDict d \<Rightarrow>
        rbind (check_version d) (\<lambda>_.
          if \<not> kwargs_ok (terminal_required @ terminal_defaulted) terminal_required d then invalid
          else TerminalRecord (kw d VNone ''session_id'') (kw d VNone ''owner_id'')
                 (kw d VNone ''orchestration_id'') (kw d VNone ''generation_id'')
                 (kw d VNone ''generation_epoch'') (kw d VNone ''terminal_kind'')
                 (kw d VNone ''summary'') (kw d VNone ''ended_at'') (kw d VNone ''published_at'')
                 (kw d (VInt 0) ''terminal_seq'') (kw d VNone ''acknowledged_at'')
                 (kw d VNone ''expired_at'') (kw d VNone ''expire_reason'')
                 (kw d (VInt SCHEMA_VERSION) ''schema_version''))
      | _ \<Rightarrow> invalid)"

definition generation_to_dict :: "generation_record \<Rightarrow> (string, pyval) dict" where
  "generation_to_dict r =
     [(''generation_id'', VStr (gr_generation_id r)), (''build_id'', opt_str (gr_build_id r)),
      (''lifecycle_state'', VStr (gr_lifecycle_state r)), (''current_epoch'', opt_str (gr_current_epoch r)),
      (''capability_snapshot'', opt_str (gr_capability_snapshot r)),
      (''created_at'', VFloat (Fin (gr_created_at r)))]"

definition generation_fields :: "string list" where
  "generation_fields = [''generation_id'', ''build_id'', ''lifecycle_state'', ''current_epoch'',
     ''capability_snapshot'', ''created_at'']"

definition generation_from_dict :: "pyval \<Rightarrow> generation_record res" where
  "generation_from_dict v =
     (case v of VDict d \<Rightarrow>
        if \<not> kwargs_ok generation_fields generation_fields d then invalid
        else GenerationRecord (kw d VNone ''generation_id'') (kw d VNone ''build_id'')
               (kw d VNone ''lifecycle_state'') (kw d VNone ''current_epoch'')
               (kw d VNone ''capability_snapshot'') (kw d VNone ''created_at'')
      | _ \<Rightarrow> invalid)"

definition epoch_to_dict :: "epoch_record \<Rightarrow> (string, pyval) dict" where
  "epoch_to_dict r =
     [(''generation_epoch'', VStr (er_generation_epoch r)), (''generation_id'', VStr (er_generation_id r)),
      (''process_state'', VStr (er_process_state r)), (''retirement_state'', VStr (er_retirement_state r)),
      (''certificate'', opt_str (er_certificate r)), (''final_high_water'', opt_int (er_final_high_water r)),
      (''incarnation_meta'', opt_str (er_incarnation_meta r)), (''created_at'', VFloat (Fin (er_created_at r)))]"

definition epoch_fields :: "string list" where
  "epoch_fields = [''generation_epoch'', ''generation_id'', ''process_state'', ''retirement_state'',
     ''certificate'', ''final_high_water'', ''incarnation_meta'', ''created_at'']"

definition epoch_from_dict :: "pyval \<Rightarrow> epoch_record res" where
  "epoch_from_dict v =
     (case v of VDict d \<Rightarrow>
        if \<not> kwargs_ok epoch_fields epoch_fields d then invalid
        else EpochRecord (kw d VNone ''generation_epoch'') (kw d VNone ''generation_id'')
               (kw d VNone ''process_state'') (kw d VNone ''retirement_state'') (kw d VNone ''certificate'')
               (kw d VNone ''final_high_water'') (kw d VNone ''incarnation_meta'') (kw d VNone ''created_at'')
      | _ \<Rightarrow> invalid)"

definition assert_owner :: "string \<Rightarrow> string \<Rightarrow> unit res" where
  "assert_owner record_owner owner_id =
     (if record_owner \<noteq> owner_id then Inl (NelixError OWNER_MISMATCH) else Inr ())"

section \<open>Lemmas\<close>

lemma text_field_eq [simp]: "text_field v = Inr s \<longleftrightarrow> v = VStr s"
  by (cases v) (auto simp: text_field_def)

lemma text_field_VStr [simp]: "text_field (VStr s) = Inr s"
  by simp

lemma moment_VFloat [simp]: "moment (VFloat (Fin r)) = Inr r"
  by (simp add: moment_def)

lemma version_field_eq [simp]: "version_field v = Inr n \<longleftrightarrow> v = VInt n \<and> 1 \<le> n \<and> n \<le> SCHEMA_VERSION"
  by (cases v) auto

lemma count_field_eq [simp]: "count_field v = Inr n \<longleftrightarrow> v = VInt n \<and> 0 \<le> n"
  by (cases v) (auto simp: count_field_def)

lemma opt_str_simps [simp]: "opt_str None = VNone" "opt_str (Some s) = VStr s"
  by (simp_all add: opt_str_def)

lemma opt_num_simps [simp]: "opt_num None = VNone" "opt_num (Some r) = VFloat (Fin r)"
  by (simp_all add: opt_num_def)

lemma opt_int_simps [simp]: "opt_int None = VNone" "opt_int (Some n) = VInt n"
  by (simp_all add: opt_int_def)

lemma optional_text_eq [simp]: "optional_text v = Inr x \<longleftrightarrow> v = opt_str x"
  by (cases v; cases x) (auto simp: optional_text_def)

lemma timestamp_opt_num [simp]: "timestamp True (opt_num x) = Inr x"
  by (cases x) auto

lemma id_or_empty_eq [simp]: "id_or_empty v = Inr x \<longleftrightarrow> v = opt_str x \<and> x \<noteq> Some []"
  by (cases v; cases x) auto

lemma optional_count_eq [simp]:
  "optional_count v = Inr x \<longleftrightarrow> v = opt_int x \<and> (case x of None \<Rightarrow> True | Some n \<Rightarrow> 0 \<le> n)"
  by (cases v; cases x) (auto simp: optional_count_def)

lemma ids_field_eq [simp]:
  "ids_field a b c d = Inr (s, ow, r, g) \<longleftrightarrow>
     a = VStr s \<and> b = VStr ow \<and> c = VStr r \<and> d = VStr g \<and>
     match_hex_id (CHR ''s'') s \<and> match_owner ow \<and> match_hex_id (CHR ''o'') r \<and> match_hex_id (CHR ''g'') g"
  by (auto simp: ids_field_def validate_id_defs)

lemma SessionRecord_of_record:
  assumes "SessionRecord a b c d e f g h i j k l = Inr r"
  shows "SessionRecord (VStr (sr_session_id r)) (VStr (sr_owner_id r)) (VStr (sr_orchestration_id r))
           (VStr (sr_generation_id r)) (VStr (sr_generation_epoch r)) (VStr (sr_state r))
           (VStr (sr_executor r)) (VStr (sr_task r)) (VStr (sr_cwd r)) (opt_str (sr_model r))
           (VFloat (Fin (sr_created_at r))) (VInt (sr_schema_version r)) = Inr r
         \<and> sr_schema_version r \<le> SCHEMA_VERSION"
  using assms by (auto simp: SessionRecord_def validate_id_defs)

lemma TerminalRecord_of_record:
  assumes "TerminalRecord a b c d e f g h i j k l m n = Inr r"
  shows "TerminalRecord (VStr (tr_session_id r)) (VStr (tr_owner_id r)) (VStr (tr_orchestration_id r))
           (VStr (tr_generation_id r)) (VStr (tr_generation_epoch r)) (VStr (tr_terminal_kind r))
           (VStr (tr_summary r)) (VFloat (Fin (tr_ended_at r))) (VFloat (Fin (tr_published_at r)))
           (VInt (tr_terminal_seq r)) (opt_num (tr_acknowledged_at r)) (opt_num (tr_expired_at r))
           (opt_str (tr_expire_reason r)) (VInt (tr_schema_version r)) = Inr r
         \<and> tr_schema_version r \<le> SCHEMA_VERSION"
  using assms by (auto simp: TerminalRecord_def validate_id_defs)

lemma session_dict_kw:
  "check_version (session_to_dict r) = require (sr_schema_version r \<le> SCHEMA_VERSION) (NelixError SCHEMA_TOO_NEW)"
  "kwargs_ok (session_required @ [''schema_version'']) session_required (session_to_dict r)"
  by (simp_all add: check_version_def session_to_dict_def kwargs_ok_def session_required_def)

lemma session_from_to_dict:
  "session_from_dict (VDict (session_to_dict r)) =
     rbind (require (sr_schema_version r \<le> SCHEMA_VERSION) (NelixError SCHEMA_TOO_NEW)) (\<lambda>_.
       SessionRecord (VStr (sr_session_id r)) (VStr (sr_owner_id r)) (VStr (sr_orchestration_id r))
           (VStr (sr_generation_id r)) (VStr (sr_generation_epoch r)) (VStr (sr_state r))
           (VStr (sr_executor r)) (VStr (sr_task r)) (VStr (sr_cwd r)) (opt_str (sr_model r))
           (VFloat (Fin (sr_created_at r))) (VInt (sr_schema_version r)))"
  unfolding session_from_dict_def by (simp add: session_dict_kw) (simp add: session_to_dict_def kw_def)

lemma terminal_dict_kw:
  "check_version (terminal_to_dict r) = require (tr_schema_version r \<le> SCHEMA_VERSION) (NelixError SCHEMA_TOO_NEW)"
  "kwargs_ok (terminal_required @ terminal_defaulted) terminal_required (terminal_to_dict r)"
  by (simp_all add: check_version_def terminal_to_dict_def kwargs_ok_def terminal_required_def
      terminal_defaulted_def)

lemma terminal_from_to_dict:
  "terminal_from_dict (VDict (terminal_to_dict r)) =
     rbind (require (tr_schema_version r \<le> SCHEMA_VERSION) (NelixError SCHEMA_TOO_NEW)) (\<lambda>_.
       TerminalRecord (VStr (tr_session_id r)) (VStr (tr_owner_id r)) (VStr (tr_orchestration_id r))
           (VStr (tr_generation_id r)) (VStr (tr_generation_epoch r)) (VStr (tr_terminal_kind r))
           (VStr (tr_summary r)) (VFloat (Fin (tr_ended_at r))) (VFloat (Fin (tr_published_at r)))
           (VInt (tr_terminal_seq r)) (opt_num (tr_acknowledged_at r)) (opt_num (tr_expired_at r))
           (opt_str (tr_expire_reason r)) (VInt (tr_schema_version r)))"
  unfolding terminal_from_dict_def by (simp add: terminal_dict_kw) (simp add: terminal_to_dict_def kw_def)

lemma generation_from_to_dict:
  "generation_from_dict (VDict (generation_to_dict r)) =
     (if gr_current_epoch r = Some [] \<or> gr_capability_snapshot r = Some [] then invalid else Inr r)"
  by (cases "gr_current_epoch r"; cases "gr_capability_snapshot r")
    (auto simp: generation_from_dict_def generation_to_dict_def kwargs_ok_def generation_fields_def kw_def
      GenerationRecord_def optional_text_def opt_str_def split: option.splits)

lemma epoch_from_to_dict:
  "epoch_from_dict (VDict (epoch_to_dict r)) =
     (if er_certificate r = Some [] \<or> er_incarnation_meta r = Some [] \<or>
         (\<exists>n<0. er_final_high_water r = Some n) then invalid else Inr r)"
  by (cases "er_certificate r"; cases "er_incarnation_meta r"; cases "er_final_high_water r")
    (auto simp: epoch_from_dict_def epoch_to_dict_def kwargs_ok_def epoch_fields_def kw_def
      EpochRecord_def optional_count_def count_field_def split: option.splits)

end
