(* ===== verification/Nelix_Cursor.thy ===== *)
theory Nelix_Cursor
  imports Nelix_Ids Nelix_Records "HOL-Library.List_Lexorder" "HOL-Library.Char_ord" "HOL-Library.Multiset"
begin

text \<open>
  \<^verbatim>\<open>nelix_contracts/cursor.py\<close>: the vector cursor, one position per generation plus
  one typed archive position. Encoding is modelled down to the JSON object
  (\<open>encode_obj\<close>); the text layer (compact JSON, base64url) is the pair of parameters
  \<open>dumps\<close> and \<open>loads\<close>, where \<open>loads t = None\<close> is any exception of that layer.
  The object is given with its keys in the order \<open>sort_keys=True\<close> writes them.
\<close>

section \<open>The cursor and its validation\<close>

record cursor =
  cu_router_epoch :: string
  cu_topology_revision :: int
  cu_positions :: "(string, string \<times> int) dict"
  cu_archive :: "(int \<times> int) option"

fun position_ok :: "pyval \<Rightarrow> bool" where
  "position_ok (VTuple [VStr e, VInt n]) = (0 \<le> n)"
| "position_ok _ = False"

fun the_position :: "pyval \<Rightarrow> string \<times> int" where
  "the_position (VTuple [VStr e, VInt n]) = (e, n)"
| "the_position _ = ([], 0)"

primrec positions_field :: "(string, pyval) dict \<Rightarrow> (string, string \<times> int) dict res" where
  "positions_field [] = Inr []"
| "positions_field (p # ps) =
     rbind (invalid_id_as_request (validate_generation_id (VStr (fst p)))) (\<lambda>g.
     if \<not> position_ok (snd p) then invalid
     else rbind (positions_field ps) (\<lambda>qs. Inr ((g, the_position (snd p)) # qs)))"

fun archive_field :: "pyval \<Rightarrow> (int \<times> int) option res" where
  "archive_field VNone = Inr None"
| "archive_field (VTuple [VInt e, VInt n]) = (if n < 0 then invalid else Inr (Some (e, n)))"
| "archive_field _ = invalid"

text \<open>\<open>Cursor(...)\<close> with \<open>__post_init__\<close>.\<close>

definition Cursor :: "pyval \<Rightarrow> pyval \<Rightarrow> (string, pyval) dict \<Rightarrow> pyval \<Rightarrow> cursor res" where
  "Cursor router_epoch topology_revision positions archive =
     (if \<not> is_nonempty_str router_epoch then invalid
      else if \<not> nonneg_int topology_revision then invalid
      else
        rbind (positions_field positions) (\<lambda>ps.
        rbind (archive_field archive) (\<lambda>ar.
          Inr \<lparr>cu_router_epoch = (case router_epoch of VStr s \<Rightarrow> s | _ \<Rightarrow> []),
               cu_topology_revision = the_int topology_revision,
               cu_positions = ps, cu_archive = ar\<rparr>)))"

definition cursor_ok :: "cursor \<Rightarrow> bool" where
  "cursor_ok c \<longleftrightarrow>
     cu_router_epoch c \<noteq> [] \<and> 0 \<le> cu_topology_revision c \<and> dict_ok (cu_positions c) \<and>
     (\<forall>(g, e, n) \<in> set (cu_positions c). match_hex_id (CHR ''g'') g \<and> 0 \<le> n) \<and>
     (case cu_archive c of None \<Rightarrow> True | Some (e, n) \<Rightarrow> 0 \<le> n)"

definition new_cursor :: "string \<Rightarrow> int \<Rightarrow> cursor res" where
  "new_cursor router_epoch topology_revision =
     Cursor (VStr router_epoch) (VInt topology_revision) [] VNone"

definition position_for :: "cursor \<Rightarrow> string \<Rightarrow> (string \<times> int) option" where
  "position_for c generation_id = map_of (cu_positions c) generation_id"

definition advance :: "cursor \<Rightarrow> pyval \<Rightarrow> string \<Rightarrow> pyval \<Rightarrow> cursor res" where
  "advance c generation_id epoch sq =
     rbind (invalid_id_as_request (validate_generation_id generation_id)) (\<lambda>g.
     if \<not> nonneg_int sq then invalid
     else if (case map_of (cu_positions c) g of
                None \<Rightarrow> False | Some (e, n) \<Rightarrow> e = epoch \<and> the_int sq < n) then invalid
     else Inr (c\<lparr>cu_positions := AList.update g (epoch, the_int sq) (cu_positions c)\<rparr>))"

definition advance_archive :: "cursor \<Rightarrow> pyval \<Rightarrow> pyval \<Rightarrow> cursor res" where
  "advance_archive c archive_epoch sq =
     (if \<not> nonneg_int sq then invalid
      else case archive_epoch of
             VInt e \<Rightarrow> Inr (c\<lparr>cu_archive := Some (e, the_int sq)\<rparr>)
           | _ \<Rightarrow> invalid)"

section \<open>The token\<close>

definition V :: int where
  "V = 2"

definition MAX_TOKEN :: nat where
  "MAX_TOKEN = 64 * 1024"

definition encode_obj :: "cursor \<Rightarrow> (string, pyval) dict" where
  "encode_obj c =
     (case cu_archive c of None \<Rightarrow> [] | Some (e, n) \<Rightarrow> [(''a'', VList [VInt e, VInt n])]) @
     [(''p'', VDict (map (\<lambda>(g, e, n). (g, VList [VStr e, VInt n])) (sort_key fst (cu_positions c)))),
      (''re'', VStr (cu_router_epoch c)), (''tr'', VInt (cu_topology_revision c)), (''v'', VInt V)]"

definition encode :: "(pyval \<Rightarrow> string) \<Rightarrow> cursor \<Rightarrow> string" where
  "encode dumps c = dumps (VDict (encode_obj c))"

text \<open>
  The body of \<open>decode\<close> inside its second \<open>try\<close>: every failure there becomes
  \<open>INVALID_REQUEST\<close>, so it is an option. \<open>py_str\<close> is Python's \<open>str\<close>, applied to the
  stored epoch and router epoch.
\<close>

fun decode_position :: "(pyval \<Rightarrow> string) \<Rightarrow> string \<times> pyval \<Rightarrow> (string \<times> pyval) option" where
  "decode_position py_str (g, VList [e, VInt n]) =
     (if 0 \<le> n \<and> match_hex_id (CHR ''g'') g then Some (g, VTuple [VStr (py_str e), VInt n]) else None)"
| "decode_position py_str _ = None"

primrec decode_positions :: "(pyval \<Rightarrow> string) \<Rightarrow> (string, pyval) dict \<Rightarrow> (string, pyval) dict option" where
  "decode_positions py_str [] = Some []"
| "decode_positions py_str (p # ps) =
     (case decode_position py_str p of
        None \<Rightarrow> None
      | Some q \<Rightarrow> map_option (Cons q) (decode_positions py_str ps))"

fun decode_archive :: "pyval option \<Rightarrow> pyval option" where
  "decode_archive None = Some VNone"
| "decode_archive (Some VNone) = Some VNone"
| "decode_archive (Some (VList [VInt e, VInt n])) =
     (if 0 \<le> n then Some (VTuple [VInt e, VInt n]) else None)"
| "decode_archive _ = None"

definition decode_body :: "(pyval \<Rightarrow> string) \<Rightarrow> (string, pyval) dict \<Rightarrow> cursor option" where
  "decode_body py_str obj =
     (case (map_of obj ''p'', map_of obj ''tr'', map_of obj ''re'') of
        (Some (VDict raw), Some (VInt tr), Some re) \<Rightarrow>
          (case (decode_positions py_str raw, decode_archive (map_of obj ''a'')) of
             (Some ps, Some ar) \<Rightarrow>
               (case Cursor (VStr (py_str re)) (VInt tr) ps ar of
                  Inr c \<Rightarrow> Some c | Inl _ \<Rightarrow> None)
           | _ \<Rightarrow> None)
      | _ \<Rightarrow> None)"

definition decode ::
  "(pyval \<Rightarrow> string) \<Rightarrow> (string \<Rightarrow> pyval option) \<Rightarrow> pyval \<Rightarrow> string \<Rightarrow> int \<Rightarrow> cursor res" where
  "decode py_str loads token router_epoch topology_revision =
     (case token of VStr t \<Rightarrow>
        if t = [] \<or> MAX_TOKEN < length t then invalid
        else (case loads t of
          Some (VDict obj) \<Rightarrow>
            if map_of obj ''v'' \<noteq> Some (VInt V) then Inl (NelixError CURSOR_EXPIRED)
            else (case decode_body py_str obj of
              None \<Rightarrow> invalid
            | Some c \<Rightarrow>
                if cu_router_epoch c \<noteq> router_epoch then Inl (NelixError CURSOR_EXPIRED)
                else if cu_topology_revision c \<noteq> topology_revision then Inl (NelixError BOARD_CHANGED)
                else Inr c)
        | _ \<Rightarrow> invalid)
      | _ \<Rightarrow> invalid)"

section \<open>Lemmas\<close>

lemma advance_eq_Inr:
  "advance c v e sq = Inr c' \<longleftrightarrow>
     (\<exists>g n. v = VStr g \<and> match_hex_id (CHR ''g'') g \<and> sq = VInt n \<and> 0 \<le> n \<and>
        (case position_for c g of None \<Rightarrow> True | Some (e0, m) \<Rightarrow> e0 = e \<longrightarrow> m \<le> n) \<and>
        c' = c\<lparr>cu_positions := AList.update g (e, n) (cu_positions c)\<rparr>)"
  by (cases sq)
     (auto simp: advance_def validate_id_defs position_for_def split: option.splits if_splits)

lemma dict_update_setD: "x \<in> set (AList.update k v d) \<Longrightarrow> x = (k, v) \<or> x \<in> set d"
  by (induction d) (auto split: if_splits)

lemma advance_ok:
  assumes "cursor_ok c" "advance c v e sq = Inr c'"
  shows "cursor_ok c'"
  using assms by (fastforce simp: advance_eq_Inr cursor_ok_def dest!: dict_update_setD)

lemma decode_positions_encode:
  assumes "\<And>s. py_str (VStr s) = s"
    and "\<forall>(g, e, n) \<in> set ps. match_hex_id (CHR ''g'') g \<and> 0 \<le> n"
  shows "decode_positions py_str (map (\<lambda>(g, e, n). (g, VList [VStr e, VInt n])) ps) =
     Some (map (\<lambda>(g, e, n). (g, VTuple [VStr e, VInt n])) ps)"
  using assms(2) by (induction ps) (auto simp: assms(1))

lemma positions_field_tuples:
  assumes "\<forall>(g, e, n) \<in> set ps. match_hex_id (CHR ''g'') g \<and> 0 \<le> n"
  shows "positions_field (map (\<lambda>(g, e, n). (g, VTuple [VStr e, VInt n])) ps) = Inr ps"
  using assms by (induction ps) (auto simp: validate_id_defs)

lemma encode_obj_lookups [simp]:
  "map_of (encode_obj c) ''v'' = Some (VInt V)"
  "map_of (encode_obj c) ''re'' = Some (VStr (cu_router_epoch c))"
  "map_of (encode_obj c) ''tr'' = Some (VInt (cu_topology_revision c))"
  "map_of (encode_obj c) ''p'' =
     Some (VDict (map (\<lambda>(g, e, n). (g, VList [VStr e, VInt n])) (sort_key fst (cu_positions c))))"
  "map_of (encode_obj c) ''a'' = map_option (\<lambda>(e, n). VList [VInt e, VInt n]) (cu_archive c)"
  by (auto simp: encode_obj_def split: option.splits)

lemma decode_body_encode:
  assumes "\<And>s. py_str (VStr s) = s" "cursor_ok c"
  shows "decode_body py_str (encode_obj c) = Some (c\<lparr>cu_positions := sort_key fst (cu_positions c)\<rparr>)"
proof -
  have ps: "\<forall>(g, e, n) \<in> set (sort_key fst (cu_positions c)). match_hex_id (CHR ''g'') g \<and> 0 \<le> n"
    using assms(2) by (simp add: cursor_ok_def)
  show ?thesis
    using assms(2)
    by (cases "cu_archive c")
       (auto simp: decode_body_def decode_positions_encode [OF assms(1) ps] Cursor_def
          positions_field_tuples [OF ps] assms(1) cursor_ok_def)
qed

text \<open>Sorting the positions by generation keeps every lookup.\<close>

lemma position_for_sort:
  assumes "cursor_ok c"
  shows "position_for (c\<lparr>cu_positions := sort_key fst (cu_positions c)\<rparr>) = position_for c"
proof -
  have "dict_ok (cu_positions c)" using assms by (simp add: cursor_ok_def)
  moreover have "mset (map fst (sort_key fst (cu_positions c))) = mset (map fst (cu_positions c))" by simp
  ultimately have "dict_ok (sort_key fst (cu_positions c))" by (metis mset_eq_imp_distinct_iff)
  with \<open>dict_ok (cu_positions c)\<close> have "map_of (sort_key fst (cu_positions c)) = map_of (cu_positions c)"
    by (intro map_of_inject_set [THEN iffD2]) simp_all
  then show ?thesis by (simp add: position_for_def fun_eq_iff)
qed

end
