(* ===== verification/Nelix_Retirement.thy ===== *)
theory Nelix_Retirement
  imports Nelix_Records
begin

text \<open>
  \<^verbatim>\<open>nelix_contracts/retirement.py\<close>: when a generation may exit. The oracle reads a
  store object through three of its methods, which are parameters here; the locale
  \<open>retirement_store\<close> states what the oracle needs of them, and the store's theory
  interprets it. Labels of the blockers are a datatype instead of formatted strings.
\<close>

section \<open>The watermark predicate\<close>

datatype blocker = LivePtys | StartsInFlight | TerminalRecordsNotYetVisible

definition count_arg :: "pyval \<Rightarrow> int res" where
  "count_arg v = (if nonneg_int v then Inr (the_int v) else Inl ValueError)"

definition retirement_blockers :: "pyval \<Rightarrow> pyval \<Rightarrow> pyval \<Rightarrow> pyval \<Rightarrow> blocker list res" where
  "retirement_blockers live_pty_count inflight_or_starting_count
     terminal_persisted_high_water router_visible_high_water =
     rbind (count_arg live_pty_count) (\<lambda>live.
     rbind (count_arg inflight_or_starting_count) (\<lambda>inflight.
     rbind (count_arg terminal_persisted_high_water) (\<lambda>persisted.
     rbind (count_arg router_visible_high_water) (\<lambda>visible.
       Inr ((if live > 0 then [LivePtys] else []) @
            (if inflight > 0 then [StartsInFlight] else []) @
            (if visible < persisted then [TerminalRecordsNotYetVisible] else []))))))"

definition may_retire :: "pyval \<Rightarrow> pyval \<Rightarrow> pyval \<Rightarrow> pyval \<Rightarrow> bool res" where
  "may_retire live inflight persisted visible =
     rbind (retirement_blockers live inflight persisted visible) (\<lambda>bs. Inr (bs = []))"

lemma count_arg_eq [simp]: "count_arg v = Inr n \<longleftrightarrow> v = VInt n \<and> 0 \<le> n"
  by (cases v) (auto simp: count_arg_def)

lemma count_arg_VInt [simp]: "count_arg (VInt n) = (if 0 \<le> n then Inr n else Inl ValueError)"
  by (simp add: count_arg_def)

lemma may_retire_True_iff:
  "may_retire a b c d = Inr True \<longleftrightarrow>
     (\<exists>p v. a = VInt 0 \<and> b = VInt 0 \<and> c = VInt p \<and> d = VInt v \<and> 0 \<le> p \<and> p \<le> v)"
  (is "?l \<longleftrightarrow> ?r")
proof
  show "?l \<Longrightarrow> ?r" by (auto simp: may_retire_def retirement_blockers_def split: if_splits)
  show "?r \<Longrightarrow> ?l" by (auto simp: may_retire_def retirement_blockers_def simp del: rbind_eq_Inr)
qed

section \<open>The generation-level oracle\<close>

datatype oracle_blocker =
    HasCurrentEpoch
  | NoEpochs
  | EpochNotCertified string
  | ConfirmedBelowFinal string int "int option"

definition final_or_zero :: "int option \<Rightarrow> int" where
  "final_or_zero f = (case f of None \<Rightarrow> 0 | Some n \<Rightarrow> n)"

definition epoch_blockers :: "(string \<Rightarrow> int res) \<Rightarrow> epoch_record \<Rightarrow> oracle_blocker list res" where
  "epoch_blockers confirmed_high_water ep =
     (if er_retirement_state ep \<noteq> ''certified'' then Inr [EpochNotCertified (er_generation_epoch ep)]
      else rbind (confirmed_high_water (er_generation_epoch ep)) (\<lambda>confirmed.
        if confirmed < final_or_zero (er_final_high_water ep)
        then Inr [ConfirmedBelowFinal (er_generation_epoch ep) confirmed (er_final_high_water ep)]
        else Inr []))"

primrec epochs_blockers :: "(string \<Rightarrow> int res) \<Rightarrow> epoch_record list \<Rightarrow> oracle_blocker list res" where
  "epochs_blockers confirmed_high_water [] = Inr []"
| "epochs_blockers confirmed_high_water (ep # eps) =
     rbind (epoch_blockers confirmed_high_water ep) (\<lambda>b.
     rbind (epochs_blockers confirmed_high_water eps) (\<lambda>bs. Inr (b @ bs)))"

definition generation_retirement_oracle_blockers ::
  "(string \<Rightarrow> generation_record res) \<Rightarrow> (string \<Rightarrow> epoch_record list res) \<Rightarrow> (string \<Rightarrow> int res)
   \<Rightarrow> string \<Rightarrow> oracle_blocker list res" where
  "generation_retirement_oracle_blockers get_generation list_epochs confirmed_high_water gid =
     rbind (get_generation gid) (\<lambda>gen.
     rbind (list_epochs gid) (\<lambda>epochs.
       let cur = (if gr_current_epoch gen \<noteq> None then [HasCurrentEpoch] else []) in
       if epochs = [] then Inr (cur @ [NoEpochs])
       else rbind (epochs_blockers confirmed_high_water epochs) (\<lambda>bs. Inr (cur @ bs))))"

definition generation_may_retire ::
  "(string \<Rightarrow> generation_record res) \<Rightarrow> (string \<Rightarrow> epoch_record list res) \<Rightarrow> (string \<Rightarrow> int res)
   \<Rightarrow> string \<Rightarrow> bool res" where
  "generation_may_retire get_generation list_epochs confirmed_high_water gid =
     rbind (generation_retirement_oracle_blockers get_generation list_epochs confirmed_high_water gid)
       (\<lambda>bs. Inr (bs = []))"

text \<open>What an epoch needs for the oracle to be silent about it.\<close>

definition epoch_clear :: "(string \<Rightarrow> int res) \<Rightarrow> epoch_record \<Rightarrow> bool" where
  "epoch_clear confirmed_high_water ep \<longleftrightarrow>
     er_retirement_state ep = ''certified'' \<and>
     (\<exists>c. confirmed_high_water (er_generation_epoch ep) = Inr c \<and> final_or_zero (er_final_high_water ep) \<le> c)"

lemma epoch_blockers_Nil_iff: "epoch_blockers hw ep = Inr [] \<longleftrightarrow> epoch_clear hw ep"
  by (cases "hw (er_generation_epoch ep)") (auto simp: epoch_blockers_def epoch_clear_def)

lemma epochs_blockers_Nil_iff: "epochs_blockers hw eps = Inr [] \<longleftrightarrow> (\<forall>ep\<in>set eps. epoch_clear hw ep)"
  by (induction eps) (auto simp: epoch_blockers_Nil_iff)

lemma oracle_Nil_iff:
  "generation_retirement_oracle_blockers get eps hw gid = Inr [] \<longleftrightarrow>
     (\<exists>gen es. get gid = Inr gen \<and> eps gid = Inr es \<and> gr_current_epoch gen = None \<and> es \<noteq> [] \<and>
        (\<forall>ep\<in>set es. epoch_clear hw ep))"
  by (auto simp: generation_retirement_oracle_blockers_def Let_def epochs_blockers_Nil_iff
      split: if_splits)

text \<open>
  The interface the oracle reads: lookups that are total on the store's own epochs. What
  it promises its callers (the retiring operator, the garbage collector) is that a clear
  oracle certifies every epoch of the generation with its watermark confirmed, and that
  a clear verdict is not withdrawn by raising confirmed watermarks.
\<close>

locale retirement_store =
  fixes get_generation :: "'s \<Rightarrow> string \<Rightarrow> generation_record res"
    and list_epochs :: "'s \<Rightarrow> string \<Rightarrow> epoch_record list res"
    and confirmed :: "'s \<Rightarrow> string \<Rightarrow> int res"
    and confirm :: "'s \<Rightarrow> string \<Rightarrow> int \<Rightarrow> 's"
    and store_ok :: "'s \<Rightarrow> bool"
  assumes confirm_generation: "get_generation (confirm s e n) g = get_generation s g"
    and confirm_epochs: "list_epochs (confirm s e n) g = list_epochs s g"
    and confirm_monotone: "store_ok s \<Longrightarrow> confirmed s e' = Inr c \<Longrightarrow>
          \<exists>c'\<ge>c. confirmed (confirm s e n) e' = Inr c'"
begin

abbreviation blockers :: "'s \<Rightarrow> string \<Rightarrow> oracle_blocker list res" where
  "blockers s \<equiv> generation_retirement_oracle_blockers (get_generation s) (list_epochs s) (confirmed s)"

lemma clear_is_stable:
  assumes "store_ok s" "blockers s g = Inr []"
  shows "blockers (confirm s e n) g = Inr []"
proof -
  have "epoch_clear (confirmed (confirm s e n)) ep" if "epoch_clear (confirmed s) ep" for ep
    using that confirm_monotone [OF assms(1)] unfolding epoch_clear_def by (meson order_trans)
  with assms(2) show ?thesis
    unfolding oracle_Nil_iff confirm_generation confirm_epochs by blast
qed

end

end
