(* ===== verification/Nelix_Contract_Props.thy ===== *)
theory Nelix_Contract_Props
  imports Nelix_Lifecycle Nelix_Cursor Nelix_Retirement
begin

text \<open>
  What the contracts package promises: which identifiers the validators accept, that the
  lifecycle only moves forward, that records survive their dictionary form, that cursors
  advance without rewinding and survive their encoding, and when a generation may retire.
\<close>

text \<open>
  The identifier validators are exact. Session, orchestration and generation ids are
  accepted iff they are a string of their prefix and 32 lower-case hexadecimal digits,
  alone or followed by one newline (Python's \<open>$\<close>); every other value of any type is
  refused with \<open>InvalidId\<close>, and every minted id is accepted unchanged.
\<close>

theorem id_validators_exact:
  "(\<forall>s. validate_session_id v = Inr s \<longleftrightarrow>
      v = VStr s \<and> (\<exists>h. uuid_hex h \<and> (s = new_session_id h \<or> s = new_session_id h @ [newline]))) \<and>
   (\<forall>s. validate_orchestration_id v = Inr s \<longleftrightarrow>
      v = VStr s \<and> (\<exists>h. uuid_hex h \<and> (s = new_orchestration_id h \<or> s = new_orchestration_id h @ [newline]))) \<and>
   (\<forall>s. validate_generation_id v = Inr s \<longleftrightarrow>
      v = VStr s \<and> (\<exists>h. uuid_hex h \<and> (s = new_generation_id h \<or> s = new_generation_id h @ [newline]))) \<and>
   (\<forall>e. validate_session_id v = Inl e \<or> validate_orchestration_id v = Inl e \<or>
        validate_generation_id v = Inl e \<or> validate_owner_id v = Inl e \<longrightarrow> e = InvalidId)"
  by (auto simp: validate_id_defs match_hex_id_iff new_session_id_def new_orchestration_id_def
      new_generation_id_def dest: check_id_error)

theorem id_validators_exact_witness:
  "validate_session_id (VStr (new_session_id (replicate 32 (CHR ''a'')))) =
     Inr (new_session_id (replicate 32 (CHR ''a'')))"
proof -
  have "uuid_hex (replicate 32 (CHR ''a''))" by code_simp
  with id_validators_exact [of "VStr (new_session_id (replicate 32 (CHR ''a'')))"] show ?thesis by blast
qed

text \<open>
  The lifecycle only moves forward, one state at a time. A transition is accepted
  iff both names are states and the second is the first or its immediate successor; along
  any accepted history no state is earlier than the first, and a retired generation stays
  retired.
\<close>

theorem lifecycle_moves_forward:
  "(validate_transition c n = Inr () \<longleftrightarrow>
      (\<exists>x y. c = state_name x \<and> n = state_name y \<and> (y = x \<or> rank y = Suc (rank x)))) \<and>
   (lifecycle_history (state_name x0) ts \<longrightarrow>
      (\<forall>s\<in>set ts. \<exists>y\<ge>x0. s = state_name y)) \<and>
   (lifecycle_history ''retired'' ts \<longrightarrow> set ts \<subseteq> {''retired''})"
proof (intro conjI impI)
  show "validate_transition c n = Inr () \<longleftrightarrow>
      (\<exists>x y. c = state_name x \<and> n = state_name y \<and> (y = x \<or> rank y = Suc (rank x)))"
    by (rule validate_transition_iff)
  show "\<forall>s\<in>set ts. \<exists>y\<ge>x0. s = state_name y" if "lifecycle_history (state_name x0) ts"
    using lifecycle_history_monotone [OF that] by blast
  assume r: "lifecycle_history ''retired'' ts"
  show "set ts \<subseteq> {''retired''}"
  proof
    fix s assume "s \<in> set ts"
    then obtain y where y: "s = state_name y" "Retired \<le> y"
      using lifecycle_history_monotone [of Retired ts s] r by auto
    then have "y = Retired" by (cases y) (simp_all add: less_eq_lifecycle_def)
    with y show "s \<in> {''retired''}" by simp
  qed
qed

theorem lifecycle_moves_forward_witness:
  "(\<exists>y. Active \<le> y \<and> ''draining'' = state_name y) \<and> (\<exists>y. Active \<le> y \<and> ''retiring'' = state_name y)"
proof -
  have "lifecycle_history (state_name Active) [''draining'', ''retiring'']" by code_simp
  with lifecycle_moves_forward [of "''ready''" "''ready''" Active "[''draining'', ''retiring'']"] show ?thesis by simp
qed

text \<open>
  Durable records survive their dictionary form. A session or terminal record that
  the constructor accepted is rebuilt, equal in every field, from the dictionary
  \<open>to_dict\<close> gives.
\<close>

theorem records_round_trip:
  "(SessionRecord a b c d e f g h i j k l = Inr r \<longrightarrow> session_from_dict (VDict (session_to_dict r)) = Inr r) \<and>
   (TerminalRecord a' b' c' d' e' f' g' h' i' j' k' l' m' n' = Inr t \<longrightarrow>
      terminal_from_dict (VDict (terminal_to_dict t)) = Inr t)"
  using SessionRecord_of_record [of a b c d e f g h i j k l r]
    TerminalRecord_of_record [of a' b' c' d' e' f' g' h' i' j' k' l' m' n' t]
  by (simp add: session_from_to_dict terminal_from_to_dict del: rbind_eq_Inr)

definition demo_session :: "session_record" where
  "demo_session =
     \<lparr>sr_session_id = new_session_id (replicate 32 (CHR ''0'')), sr_owner_id = ''me'',
      sr_orchestration_id = new_orchestration_id (replicate 32 (CHR ''1'')),
      sr_generation_id = new_generation_id (replicate 32 (CHR ''2'')),
      sr_generation_epoch = new_generation_id (replicate 32 (CHR ''3'')), sr_state = ''running'',
      sr_executor = ''x'', sr_task = ''t'', sr_cwd = ''c'', sr_model = None, sr_created_at = 1,
      sr_schema_version = 4\<rparr>"

theorem records_round_trip_witness:
  "session_from_dict (VDict (session_to_dict demo_session)) = Inr demo_session"
proof -
  have "SessionRecord (VStr (sr_session_id demo_session)) (VStr (sr_owner_id demo_session))
      (VStr (sr_orchestration_id demo_session)) (VStr (sr_generation_id demo_session))
      (VStr (sr_generation_epoch demo_session)) (VStr (sr_state demo_session))
      (VStr (sr_executor demo_session)) (VStr (sr_task demo_session)) (VStr (sr_cwd demo_session))
      (opt_str (sr_model demo_session)) (VFloat (Fin (sr_created_at demo_session)))
      (VInt (sr_schema_version demo_session)) = Inr demo_session"
    by code_simp
  then show ?thesis by (rule records_round_trip [THEN conjunct1, THEN mp])
qed

text \<open>
  C40: a cursor never rewinds. An accepted advance sets the one component it names and no
  other, keeps the router epoch, the topology revision and the archive component, and is
  refused when it would move backwards within one generation epoch.
\<close>

theorem cursor_never_rewinds:
  assumes "cursor_ok c" "advance c v e sq = Inr c'"
  shows "\<exists>g n. v = VStr g \<and> sq = VInt n \<and> position_for c' = (position_for c)(g \<mapsto> (e, n)) \<and>
    (\<forall>m. position_for c g = Some (e, m) \<longrightarrow> m \<le> n) \<and>
    cu_router_epoch c' = cu_router_epoch c \<and> cu_topology_revision c' = cu_topology_revision c \<and>
    cu_archive c' = cu_archive c \<and> cursor_ok c'"
  using assms advance_ok [OF assms]
  by (auto simp: advance_eq_Inr position_for_def fun_eq_iff split: option.splits prod.splits)

definition demo_gen :: string where
  "demo_gen = new_generation_id (replicate 32 (CHR ''2''))"

definition demo_cursor :: cursor where
  "demo_cursor = \<lparr>cu_router_epoch = ''re'', cu_topology_revision = 1,
     cu_positions = [(demo_gen, (''e'', 3))], cu_archive = Some (0, 2)\<rparr>"

lemma demo_cursor_ok: "cursor_ok demo_cursor"
  by code_simp

theorem cursor_never_rewinds_witness:
  "position_for (demo_cursor\<lparr>cu_positions := [(demo_gen, (''e'', 5))]\<rparr>) = (position_for demo_cursor)(demo_gen \<mapsto> (''e'', 5))"
proof -
  have "advance demo_cursor (VStr demo_gen) ''e'' (VInt 5) = Inr (demo_cursor\<lparr>cu_positions := [(demo_gen, (''e'', 5))]\<rparr>)"
    by code_simp
  from cursor_never_rewinds [OF demo_cursor_ok this] show ?thesis by auto
qed

text \<open>
  A cursor survives its encoding, and only in the world it was minted in. Decoding
  the object an accepted cursor encodes to gives back the same router epoch, revision,
  archive component and position of every generation; the same token is refused as
  expired after a router restart, and as a changed board after a topology change.
\<close>

theorem cursor_round_trip:
  assumes "\<And>s. py_str (VStr s) = s" "loads t = Some (VDict (encode_obj c))" "cursor_ok c"
    "t \<noteq> []" "length t \<le> MAX_TOKEN"
  shows "case decode py_str loads (VStr t) re tr of
      Inr c' \<Rightarrow> re = cu_router_epoch c \<and> tr = cu_topology_revision c \<and>
        cu_router_epoch c' = cu_router_epoch c \<and> cu_topology_revision c' = cu_topology_revision c \<and>
        cu_archive c' = cu_archive c \<and> position_for c' = position_for c
    | Inl x \<Rightarrow> (re \<noteq> cu_router_epoch c \<and> x = NelixError CURSOR_EXPIRED) \<or>
        (re = cu_router_epoch c \<and> tr \<noteq> cu_topology_revision c \<and> x = NelixError BOARD_CHANGED)"
  using assms(2-5) position_for_sort [OF assms(3)]
  by (auto simp: decode_def decode_body_encode [OF assms(1,3)])

theorem cursor_round_trip_witness:
  "\<exists>c'. decode (\<lambda>v. case v of VStr s \<Rightarrow> s | _ \<Rightarrow> []) (\<lambda>_. Some (VDict (encode_obj demo_cursor))) (VStr ''t'') ''re'' 1 = Inr c' \<and>
     position_for c' = position_for demo_cursor"
proof -
  let ?d = "decode (\<lambda>v. case v of VStr s \<Rightarrow> s | _ \<Rightarrow> []) (\<lambda>_. Some (VDict (encode_obj demo_cursor))) (VStr ''t'') ''re'' 1"
  have "case ?d of Inr c' \<Rightarrow> position_for c' = position_for demo_cursor
      | Inl x \<Rightarrow> (''re'' \<noteq> cu_router_epoch demo_cursor) \<or> (1 \<noteq> cu_topology_revision demo_cursor)"
    using cursor_round_trip [of "\<lambda>v. case v of VStr s \<Rightarrow> s | _ \<Rightarrow> []" "\<lambda>_. Some (VDict (encode_obj demo_cursor))" "''t''" demo_cursor "''re''" 1]
      demo_cursor_ok by (auto simp: MAX_TOKEN_def split: sum.splits)
  then show ?thesis by (cases ?d) (simp_all add: demo_cursor_def)
qed

text \<open>
  When a generation may exit. The watermark predicate says yes exactly when it was
  given four non-negative integers, no live terminal, no start in flight, and a visible
  watermark that reached the persisted one; any other kind of argument is an error, never
  a yes.
\<close>

theorem may_retire_exact:
  "(may_retire a b c d = Inr True \<longleftrightarrow>
      (\<exists>p v. a = VInt 0 \<and> b = VInt 0 \<and> c = VInt p \<and> d = VInt v \<and> 0 \<le> p \<and> p \<le> v)) \<and>
   (may_retire a b c d = Inl x \<longrightarrow>
      x = ValueError \<and> \<not> (nonneg_int a \<and> nonneg_int b \<and> nonneg_int c \<and> nonneg_int d))"
  by (auto simp: may_retire_True_iff)
    (auto simp: may_retire_def retirement_blockers_def rbind_eq_Inl count_arg_def split: if_splits)

theorem may_retire_exact_witness: "may_retire (VInt 0) (VInt 0) (VInt 2) (VInt 2) = Inr True"
  using may_retire_exact [of "VInt 0" "VInt 0" "VInt 2" "VInt 2"] by simp

end
