(* ===== verification/Nelix_Events.thy ===== *)
theory Nelix_Events
  imports Nelix_Prelude
begin

text \<open>
  \<^verbatim>\<open>daemon/events.py\<close>: the shared event queue. \<open>Event\<close> objects are mutable and
  shared between the ordered log and the indices, so the model keeps them in a heap
  (\<open>q_obj\<close>) addressed by their sequence number, which is unique, and every index holds
  addresses. Heap entries are never erased: an address not in \<open>q_events\<close> is an event
  that was evicted or forgotten, and stays readable for specifications.

  The eight hexadecimal digits of \<open>uuid.uuid4()\<close> are an argument of \<open>publish\<close>
  (the whole event id); an owner resolver that raises and one that returns \<open>None\<close> are
  the same to the code, so the resolver is a partial map. A waiter that sleeps in
  \<open>_cv.wait\<close> is modelled by the sequence of queue states it wakes up to.
\<close>

section \<open>Events and the queue\<close>

record event =
  ev_seq :: nat
  ev_event_id :: string
  ev_session_id :: string
  ev_executor :: string
  ev_kind :: string
  ev_summary :: string
  ev_state :: string
  ev_resolved_reason :: "string option"
  ev_decision_id :: "string option"
  ev_turn_index :: int
  ev_range :: "int \<times> int"
  ev_hint :: "string option"
  ev_hung :: bool
  ev_task_delivery :: string
  ev_requires_response :: bool
  ev_screen_excerpt :: string
  ev_owner :: "string option"

type_synonym ref = nat

record queue =
  q_bound :: int
  q_owner_floor :: int
  q_next :: nat
  q_obj :: "ref \<Rightarrow> event"
  q_events :: "ref list"
  q_by_id :: "string \<rightharpoonup> ref"
  q_pinned :: "(string, ref) dict"
  q_by_decision :: "string \<rightharpoonup> (string, ref) dict"
  q_owner_hist :: "string option \<rightharpoonup> ref list"
  q_evictable_count :: int
  q_owner_cache :: "string \<rightharpoonup> string"
  q_last_seq :: nat
  q_last_seq_by_session :: "string \<rightharpoonup> nat"
  q_evicted_high :: nat
  q_evicted_high_by_session :: "string \<rightharpoonup> nat"

type_synonym owner_resolver = "string \<rightharpoonup> string"

definition RESPONDABLE_KINDS :: "string list" where
  "RESPONDABLE_KINDS = [''waiting_for_user'', ''blocked'']"

definition DEFAULT_MAX_HISTORY :: int where
  "DEFAULT_MAX_HISTORY = 2048"

definition DEFAULT_OWNER_FLOOR :: int where
  "DEFAULT_OWNER_FLOOR = 64"

definition blank_event :: event where
  "blank_event =
     \<lparr>ev_seq = 0, ev_event_id = [], ev_session_id = [], ev_executor = [], ev_kind = [],
      ev_summary = [], ev_state = [], ev_resolved_reason = None, ev_decision_id = None,
      ev_turn_index = 0, ev_range = (0, 0), ev_hint = None, ev_hung = False,
      ev_task_delivery = ''delivered'', ev_requires_response = False, ev_screen_excerpt = [],
      ev_owner = None\<rparr>"

definition EventQueue :: "int \<Rightarrow> int \<Rightarrow> queue" where
  "EventQueue max_history owner_floor =
     \<lparr>q_bound = max_history, q_owner_floor = owner_floor, q_next = 1,
      q_obj = (\<lambda>_. blank_event), q_events = [], q_by_id = Map.empty, q_pinned = [],
      q_by_decision = Map.empty, q_owner_hist = Map.empty, q_evictable_count = 0,
      q_owner_cache = Map.empty, q_last_seq = 0, q_last_seq_by_session = Map.empty,
      q_evicted_high = 0, q_evicted_high_by_session = Map.empty\<rparr>"

section \<open>Internals\<close>

definition is_pinned :: "event \<Rightarrow> bool" where
  "is_pinned e \<longleftrightarrow> ev_kind e \<in> set RESPONDABLE_KINDS \<and> ev_resolved_reason e = None"

definition owner_of :: "owner_resolver \<Rightarrow> string \<Rightarrow> queue \<Rightarrow> string option \<times> queue" where
  "owner_of resolve_owner session_id q =
     (case q_owner_cache q session_id of
        Some cached \<Rightarrow> (Some cached, q)
      | None \<Rightarrow>
          (case resolve_owner session_id of
             None \<Rightarrow> (None, q)
           | Some resolved \<Rightarrow>
               (Some resolved, q\<lparr>q_owner_cache := (q_owner_cache q)(session_id \<mapsto> resolved)\<rparr>)))"

text \<open>\<open>bisect.insort\<close> with the sequence number as key, read linearly.\<close>

fun insort_right :: "ref \<Rightarrow> ref list \<Rightarrow> ref list" where
  "insort_right r [] = [r]"
| "insort_right r (y # ys) = (if r < y then r # y # ys else y # insort_right r ys)"

definition index_evictable :: "ref \<Rightarrow> queue \<Rightarrow> queue" where
  "index_evictable r q =
     (let owner_id = ev_owner (q_obj q r);
          hist = (case q_owner_hist q owner_id of None \<Rightarrow> [] | Some h \<Rightarrow> h);
          hist' = (if hist \<noteq> [] \<and> r > last hist then hist @ [r] else insort_right r hist)
      in q\<lparr>q_owner_hist := (q_owner_hist q)(owner_id \<mapsto> hist'),
           q_evictable_count := q_evictable_count q + 1\<rparr>)"

definition pin :: "ref \<Rightarrow> queue \<Rightarrow> queue" where
  "pin r q =
     (let e = q_obj q r;
          q1 = q\<lparr>q_pinned := AList.update (ev_event_id e) r (q_pinned q)\<rparr>
      in case ev_decision_id e of
           None \<Rightarrow> q1
         | Some d \<Rightarrow>
             (let m = (case q_by_decision q d of None \<Rightarrow> [] | Some m \<Rightarrow> m)
              in q1\<lparr>q_by_decision := (q_by_decision q)(d \<mapsto> AList.update (ev_event_id e) r m)\<rparr>))"

definition index_new :: "ref \<Rightarrow> queue \<Rightarrow> queue" where
  "index_new r q = (if is_pinned (q_obj q r) then pin r q else index_evictable r q)"

text \<open>Removing one event id from the decision index; an emptied entry is deleted.\<close>

definition undecide :: "string option \<Rightarrow> string \<Rightarrow> (string \<rightharpoonup> (string, ref) dict) \<Rightarrow> (string \<rightharpoonup> (string, ref) dict)" where
  "undecide decision_id event_id bd =
     (case decision_id of
        None \<Rightarrow> bd
      | Some d \<Rightarrow>
          (case bd d of
             None \<Rightarrow> bd
           | Some m \<Rightarrow>
               (let m' = AList.delete event_id m in if m' = [] then bd(d := None) else bd(d \<mapsto> m'))))"

definition unpin :: "ref \<Rightarrow> queue \<Rightarrow> queue" where
  "unpin r q =
     (let e = q_obj q r in
      index_evictable r
        (q\<lparr>q_pinned := AList.delete (ev_event_id e) (q_pinned q),
           q_by_decision := undecide (ev_decision_id e) (ev_event_id e) (q_by_decision q)\<rparr>))"

definition is_victim :: "queue \<Rightarrow> ref \<Rightarrow> bool" where
  "is_victim q r \<longleftrightarrow>
     map_of (q_pinned q) (ev_event_id (q_obj q r)) = None \<and>
     (case q_owner_hist q (ev_owner (q_obj q r)) of
        None \<Rightarrow> False
      | Some hist \<Rightarrow> q_owner_floor q < int (length hist) \<and> r \<in> set hist)"

definition pick_victim :: "queue \<Rightarrow> ref option" where
  "pick_victim q = List.find (is_victim q) (q_events q)"

definition drop_event :: "ref \<Rightarrow> queue \<Rightarrow> queue" where
  "drop_event victim q =
     (let e = q_obj q victim;
          owner_id = ev_owner e;
          sid = ev_session_id e;
          hists = (case q_owner_hist q owner_id of
                     None \<Rightarrow> q_owner_hist q
                   | Some h \<Rightarrow>
                       (let h' = remove1 victim h
                        in if h' = [] then (q_owner_hist q)(owner_id := None)
                           else (q_owner_hist q)(owner_id \<mapsto> h')))
      in q\<lparr>q_events := remove1 victim (q_events q),
           q_by_id := (q_by_id q)(ev_event_id e := None),
           q_owner_hist := hists,
           q_evictable_count := q_evictable_count q - 1,
           q_evicted_high := max (q_evicted_high q) victim,
           q_evicted_high_by_session := (q_evicted_high_by_session q)
             (sid \<mapsto> max (case q_evicted_high_by_session q sid of None \<Rightarrow> 0 | Some n \<Rightarrow> n) victim)\<rparr>)"

lemma pick_victim_Some:
  "pick_victim q = Some v \<Longrightarrow> v \<in> set (q_events q) \<and> is_victim q v"
  by (auto simp: pick_victim_def find_Some_iff)

lemma drop_event_events: "q_events (drop_event v q) = remove1 v (q_events q)"
  by (simp add: drop_event_def Let_def)

function evict_if_needed :: "queue \<Rightarrow> queue" where
  "evict_if_needed q =
     (if q_bound q < q_evictable_count q
      then (case pick_victim q of None \<Rightarrow> q | Some victim \<Rightarrow> evict_if_needed (drop_event victim q))
      else q)"
  by pat_completeness auto

termination
proof (relation "measure (\<lambda>q. length (q_events q))")
  fix q v
  assume "pick_victim q = Some v"
  then have "v \<in> set (q_events q)" by (simp add: pick_victim_Some)
  moreover from this have "0 < length (q_events q)" by (rule length_pos_if_in_set)
  ultimately have "length (remove1 v (q_events q)) < length (q_events q)"
    by (simp add: length_remove1)
  then show "(drop_event v q, q) \<in> measure (\<lambda>q. length (q_events q))" by (simp add: drop_event_events)
qed simp

declare evict_if_needed.simps [simp del]

section \<open>Cursors and scopes\<close>

text \<open>The three forms of \<open>sessions\<close>: \<open>None\<close>, one session, a set of sessions.\<close>

datatype scope = AnySession | One string | Many "string list"

definition in_scope :: "event \<Rightarrow> scope \<Rightarrow> bool" where
  "in_scope e sessions =
     (case sessions of
        AnySession \<Rightarrow> True
      | One s \<Rightarrow> ev_session_id e = s
      | Many ss \<Rightarrow> ev_session_id e \<in> set ss)"

definition first_after :: "queue \<Rightarrow> int \<Rightarrow> scope \<Rightarrow> ref option" where
  "first_after q after_seq sessions =
     List.find (\<lambda>r. int r > after_seq \<and> in_scope (q_obj q r) sessions) (q_events q)"

definition evicted_high_of :: "queue \<Rightarrow> string \<Rightarrow> nat" where
  "evicted_high_of q s = (case q_evicted_high_by_session q s of None \<Rightarrow> 0 | Some n \<Rightarrow> n)"

definition last_seq_of :: "queue \<Rightarrow> string \<Rightarrow> nat" where
  "last_seq_of q s = (case q_last_seq_by_session q s of None \<Rightarrow> 0 | Some n \<Rightarrow> n)"

definition scope_high :: "queue \<Rightarrow> scope \<Rightarrow> nat" where
  "scope_high q sessions =
     (case sessions of
        AnySession \<Rightarrow> q_evicted_high q
      | One s \<Rightarrow> evicted_high_of q s
      | Many ss \<Rightarrow> foldr max (map (evicted_high_of q) ss) 0)"

definition expired :: "queue \<Rightarrow> int \<Rightarrow> scope \<Rightarrow> bool" where
  "expired q after_seq sessions \<longleftrightarrow> after_seq < int (scope_high q sessions)"

section \<open>Public operations\<close>

text \<open>
  \<open>publish\<close> in two halves, with the \<open>on_publish\<close> hook between them. The template
  carries the caller's arguments; sequence number, event id, owner and resolution are set
  here. The second half is the \<open>finally\<close> block: it runs whether or not the hook raised.
\<close>

definition publish_begin :: "owner_resolver \<Rightarrow> string \<Rightarrow> event \<Rightarrow> queue \<Rightarrow> ref \<times> queue" where
  "publish_begin resolve_owner event_id args q =
     (let sid = ev_session_id args;
          (own, q1) = owner_of resolve_owner sid q;
          r = q_next q1;
          e = args\<lparr>ev_seq := r, ev_event_id := event_id, ev_resolved_reason := None, ev_owner := own\<rparr>
      in (r, q1\<lparr>q_next := Suc r,
                q_obj := (q_obj q1)(r := e),
                q_events := q_events q1 @ [r],
                q_by_id := (q_by_id q1)(event_id \<mapsto> r),
                q_last_seq := r,
                q_last_seq_by_session := (q_last_seq_by_session q1)(sid \<mapsto> r)\<rparr>))"

definition publish_end :: "ref \<Rightarrow> queue \<Rightarrow> queue" where
  "publish_end r q = evict_if_needed (index_new r q)"

definition publish ::
  "owner_resolver \<Rightarrow> (ref \<Rightarrow> queue \<Rightarrow> queue \<times> exn option) \<Rightarrow> string \<Rightarrow> event \<Rightarrow> queue \<Rightarrow> queue \<times> ref res" where
  "publish resolve_owner on_publish event_id args q =
     (let (r, q1) = publish_begin resolve_owner event_id args q;
          (q2, raised) = on_publish r q1;
          q3 = publish_end r q2
      in (q3, case raised of None \<Rightarrow> Inr r | Some e \<Rightarrow> Inl e))"

definition set_resolved :: "ref \<Rightarrow> string \<Rightarrow> queue \<Rightarrow> queue" where
  "set_resolved r reason q =
     q\<lparr>q_obj := (q_obj q)(r := (q_obj q r)\<lparr>ev_resolved_reason := Some reason\<rparr>)\<rparr>"

definition mark_answered :: "string \<Rightarrow> queue \<Rightarrow> queue \<times> nat option" where
  "mark_answered event_id q =
     (case q_by_id q event_id of
        None \<Rightarrow> (q, None)
      | Some r \<Rightarrow>
          (let was_pinned = (map_of (q_pinned q) event_id \<noteq> None);
               q1 = set_resolved r ''answered'' q;
               q2 = (if was_pinned then evict_if_needed (unpin r q1) else q1)
           in (q2, Some r)))"

primrec settle_all :: "string \<Rightarrow> ref list \<Rightarrow> queue \<Rightarrow> queue" where
  "settle_all reason [] q = q"
| "settle_all reason (r # rs) q = settle_all reason rs (unpin r (set_resolved r reason q))"

definition resolve_decision :: "string \<Rightarrow> string \<Rightarrow> queue \<Rightarrow> queue \<times> nat option" where
  "resolve_decision decision_id reason q =
     (case q_by_decision q decision_id of
        None \<Rightarrow> (q, None)
      | Some d \<Rightarrow>
          if d = [] then (q, None)
          else (evict_if_needed (settle_all reason (map snd d) q), Some (foldr max (map snd d) 0)))"

definition pending :: "queue \<Rightarrow> string option \<Rightarrow> ref option" where
  "pending q session_id =
     foldl (\<lambda>best r.
        if session_id = None \<or> session_id = Some (ev_session_id (q_obj q r))
        then (case best of None \<Rightarrow> Some r | Some b \<Rightarrow> if r > b then Some r else best)
        else best) None (map snd (q_pinned q))"

definition latest_seq :: "queue \<Rightarrow> string option \<Rightarrow> nat" where
  "latest_seq q session_id =
     (case session_id of None \<Rightarrow> q_last_seq q | Some s \<Rightarrow> last_seq_of q s)"

definition latest_seqs :: "queue \<Rightarrow> string list \<Rightarrow> (string \<times> nat) list" where
  "latest_seqs q session_ids = map (\<lambda>s. (s, last_seq_of q s)) (remdups session_ids)"

datatype delivery = CursorExpired | Deliver ref | Nothing_newer

definition latest_after :: "queue \<Rightarrow> int \<Rightarrow> scope \<Rightarrow> delivery" where
  "latest_after q after_seq sessions =
     (if expired q after_seq sessions then CursorExpired
      else case first_after q after_seq sessions of None \<Rightarrow> Nothing_newer | Some r \<Rightarrow> Deliver r)"

text \<open>
  \<open>wait_event\<close> and \<open>wait_event_any\<close>: the loop under the condition variable, over the
  states (and clock readings, relative to the deadline) the waiter observes. \<open>None\<close> is
  still blocked at the end of the observations; \<open>Some Nothing_newer\<close> is the timeout.
\<close>

fun wait_loop :: "(queue \<times> rat) list \<Rightarrow> int \<Rightarrow> scope \<Rightarrow> delivery option" where
  "wait_loop [] after_seq sessions = None"
| "wait_loop ((q, remaining) # obs) after_seq sessions =
     (case latest_after q after_seq sessions of
        Nothing_newer \<Rightarrow> if remaining \<le> 0 then Some Nothing_newer else wait_loop obs after_seq sessions
      | d \<Rightarrow> Some d)"

definition wait_event :: "(queue \<times> rat) list \<Rightarrow> int \<Rightarrow> pyval \<Rightarrow> delivery option res" where
  "wait_event obs after_seq session_id =
     (case session_id of
        VStr s \<Rightarrow> if s = [] then Inl ValueError else Inr (wait_loop obs after_seq (One s))
      | _ \<Rightarrow> Inl ValueError)"

definition wait_event_any :: "(queue \<times> rat) list \<Rightarrow> int \<Rightarrow> string list \<Rightarrow> delivery option res" where
  "wait_event_any obs after_seq session_ids =
     (if session_ids = [] then Inl ValueError else Inr (wait_loop obs after_seq (Many session_ids)))"

text \<open>The body of the loop of \<open>forget_session\<close>, and the operation.\<close>

definition forget_event :: "ref \<Rightarrow> queue \<Rightarrow> queue" where
  "forget_event r q =
     (let e = q_obj q r;
          q1 = q\<lparr>q_by_id := (q_by_id q)(ev_event_id e := None)\<rparr>
      in if map_of (q_pinned q) (ev_event_id e) \<noteq> None
         then q1\<lparr>q_pinned := AList.delete (ev_event_id e) (q_pinned q),
                 q_by_decision := undecide (ev_decision_id e) (ev_event_id e) (q_by_decision q)\<rparr>
         else (case q_owner_hist q (ev_owner e) of
                 None \<Rightarrow> q1
               | Some h \<Rightarrow>
                   if r \<in> set h
                   then (let h' = remove1 r h
                         in q1\<lparr>q_owner_hist := (if h' = [] then (q_owner_hist q)(ev_owner e := None)
                                                else (q_owner_hist q)(ev_owner e \<mapsto> h')),
                               q_evictable_count := q_evictable_count q - 1\<rparr>)
                   else q1))"

definition forget_session :: "string \<Rightarrow> queue \<Rightarrow> queue" where
  "forget_session session_id q =
     (let q1 = fold forget_event (filter (\<lambda>r. ev_session_id (q_obj q r) = session_id) (q_events q)) q
      in q1\<lparr>q_events := filter (\<lambda>r. ev_session_id (q_obj q1 r) \<noteq> session_id) (q_events q1),
            q_owner_cache := (q_owner_cache q1)(session_id := None),
            q_last_seq_by_session := (q_last_seq_by_session q1)(session_id := None),
            q_evicted_high_by_session := (q_evicted_high_by_session q1)(session_id := None)\<rparr>)"

section \<open>Hooks and sequences of operations\<close>

text \<open>
  What an \<open>on_publish\<close> hook does to the queue while it holds the reentrant lock: resolve
  or answer indexed events, mark the event being published superseded, publish again with
  a hook of its own, or raise. \<open>Session._install\<close> uses the first and the third.
\<close>

datatype hook_op =
    HResolve string string
  | HAnswer string
  | HSupersede
  | HRaise exn
  | HPublish string event "hook_op list"

fun run_hook :: "owner_resolver \<Rightarrow> hook_op list \<Rightarrow> ref \<Rightarrow> queue \<Rightarrow> queue \<times> exn option" where
  "run_hook rs [] own q = (q, None)"
| "run_hook rs (HResolve d reason # ops) own q = run_hook rs ops own (fst (resolve_decision d reason q))"
| "run_hook rs (HAnswer event_id # ops) own q = run_hook rs ops own (fst (mark_answered event_id q))"
| "run_hook rs (HSupersede # ops) own q = run_hook rs ops own (set_resolved own ''superseded'' q)"
| "run_hook rs (HRaise e # ops) own q = (q, Some e)"
| "run_hook rs (HPublish event_id args inner # ops) own q =
     (let (r, q1) = publish_begin rs event_id args q;
          (q2, raised) = run_hook rs inner r q1;
          q3 = publish_end r q2
      in case raised of Some e \<Rightarrow> (q3, Some e) | None \<Rightarrow> run_hook rs ops own q3)"

datatype queue_op =
    Publish_op string event "hook_op list"
  | Answer_op string
  | Resolve_op string string
  | Forget_op string

definition queue_step :: "owner_resolver \<Rightarrow> queue \<Rightarrow> queue_op \<Rightarrow> queue" where
  "queue_step rs q op =
     (case op of
        Publish_op event_id args hook \<Rightarrow> fst (publish rs (run_hook rs hook) event_id args q)
      | Answer_op event_id \<Rightarrow> fst (mark_answered event_id q)
      | Resolve_op d reason \<Rightarrow> fst (resolve_decision d reason q)
      | Forget_op s \<Rightarrow> forget_session s q)"

end
