(* ===== verification/Nelix_Events_Inv.thy ===== *)
theory Nelix_Events_Inv
  imports Nelix_Events
begin

text \<open>
  The queue's invariant: every index is a function of the ordered log and of the heap.
  \<open>pend\<close> is the set of events reserved by a running \<open>publish\<close> whose hook has not
  finished, which are in the log and in no index; it is empty between operations.
\<close>

section \<open>Sorted lists of addresses\<close>

lemma insort_right_set [simp]: "set (insort_right r xs) = insert r (set xs)"
  by (induction xs) auto

lemma insort_right_snoc: "\<forall>x\<in>set xs. x < r \<Longrightarrow> insort_right r xs = xs @ [r]"
  by (induction xs) auto

lemma insort_right_filter:
  assumes "sorted_wrt (<) xs" "r \<in> set xs" "\<not> P r"
  shows "insort_right r (filter P xs) = filter (\<lambda>x. x = r \<or> P x) xs"
  using assms
proof (induction xs)
  case Nil
  then show ?case by simp
next
  case (Cons x xs)
  show ?case
  proof (cases "x = r")
    case True
    then have "\<forall>y\<in>set xs. r < y \<and> y \<noteq> r" using Cons.prems by auto
    then have "filter (\<lambda>y. y = r \<or> P y) xs = filter P xs" "\<forall>y\<in>set (filter P xs). r < y"
      by (auto intro!: filter_cong)
    moreover from this(2) have "insort_right r (filter P xs) = r # filter P xs"
      by (cases "filter P xs") auto
    ultimately show ?thesis using True Cons.prems by simp
  next
    case False
    then have "r \<in> set xs" "x < r" using Cons.prems by auto
    with False Cons show ?thesis by auto
  qed
qed

lemma append_or_insort:
  assumes "sorted_wrt (<) xs"
  shows "(if xs \<noteq> [] \<and> r > last xs then xs @ [r] else insort_right r xs) = insort_right r xs"
proof (cases xs rule: rev_cases)
  case Nil
  then show ?thesis by simp
next
  case (snoc ys y)
  with assms have "\<forall>x\<in>set ys. x < y" by (simp add: sorted_wrt_append)
  then have "y < r \<Longrightarrow> \<forall>x\<in>set xs. x < r" using snoc by auto
  then show ?thesis using snoc insort_right_snoc [of xs r] by auto
qed

section \<open>The invariant\<close>

definition live :: "ref set \<Rightarrow> queue \<Rightarrow> ref set" where
  "live pend q = set (q_events q) - pend"

text \<open>The pinned events of a decision, and an owner's evictable history, as specifications.\<close>

definition decided :: "ref set \<Rightarrow> queue \<Rightarrow> string \<Rightarrow> ref set" where
  "decided pend q d =
     {r \<in> live pend q. is_pinned (q_obj q r) \<and> ev_decision_id (q_obj q r) = Some d}"

definition evictable :: "ref set \<Rightarrow> queue \<Rightarrow> ref \<Rightarrow> bool" where
  "evictable pend q r \<longleftrightarrow> r \<notin> pend \<and> \<not> is_pinned (q_obj q r)"

definition history :: "ref set \<Rightarrow> queue \<Rightarrow> string option \<Rightarrow> ref list" where
  "history pend q own =
     filter (\<lambda>r. evictable pend q r \<and> ev_owner (q_obj q r) = own) (q_events q)"

definition log_ok :: "ref set \<Rightarrow> queue \<Rightarrow> bool" where
  "log_ok pend q \<longleftrightarrow>
     sorted_wrt (<) (q_events q) \<and> pend \<subseteq> set (q_events q) \<and>
     (\<forall>r\<in>set (q_events q). 0 < r \<and> r < q_next q \<and> ev_seq (q_obj q r) = r) \<and> 0 < q_next q"

definition by_id_ok :: "queue \<Rightarrow> bool" where
  "by_id_ok q \<longleftrightarrow>
     (\<forall>i r. q_by_id q i = Some r \<longleftrightarrow> r \<in> set (q_events q) \<and> ev_event_id (q_obj q r) = i)"

definition pinned_ok :: "ref set \<Rightarrow> queue \<Rightarrow> bool" where
  "pinned_ok pend q \<longleftrightarrow>
     dict_ok (q_pinned q) \<and>
     (\<forall>i r. map_of (q_pinned q) i = Some r \<longleftrightarrow>
        r \<in> live pend q \<and> is_pinned (q_obj q r) \<and> ev_event_id (q_obj q r) = i)"

text \<open>One entry of the decision index lists exactly the events of \<open>S\<close> by their id.\<close>

definition entry_ok :: "ref set \<Rightarrow> (ref \<Rightarrow> string) \<Rightarrow> (string, ref) dict option \<Rightarrow> bool" where
  "entry_ok S eid entry =
     (case entry of
        None \<Rightarrow> S = {}
      | Some m \<Rightarrow> m \<noteq> [] \<and> dict_ok m \<and> (\<forall>i r. map_of m i = Some r \<longleftrightarrow> r \<in> S \<and> eid r = i))"

definition decision_ok :: "ref set \<Rightarrow> queue \<Rightarrow> bool" where
  "decision_ok pend q \<longleftrightarrow>
     (\<forall>d. entry_ok (decided pend q d) (\<lambda>r. ev_event_id (q_obj q r)) (q_by_decision q d))"

definition hist_ok :: "ref set \<Rightarrow> queue \<Rightarrow> bool" where
  "hist_ok pend q \<longleftrightarrow>
     (\<forall>own. q_owner_hist q own =
        (if history pend q own = [] then None else Some (history pend q own)))"

definition count_ok :: "ref set \<Rightarrow> queue \<Rightarrow> bool" where
  "count_ok pend q \<longleftrightarrow> q_evictable_count q = int (length (filter (evictable pend q) (q_events q)))"

definition marks_ok :: "queue \<Rightarrow> bool" where
  "marks_ok q \<longleftrightarrow>
     Suc (q_last_seq q) = q_next q \<and> q_evicted_high q \<le> q_last_seq q \<and>
     (\<forall>s. evicted_high_of q s \<le> last_seq_of q s \<and> last_seq_of q s \<le> q_last_seq q \<and>
          evicted_high_of q s \<le> q_evicted_high q) \<and>
     (\<forall>r\<in>set (q_events q). r \<le> last_seq_of q (ev_session_id (q_obj q r)))"

definition queue_ok :: "ref set \<Rightarrow> queue \<Rightarrow> bool" where
  "queue_ok pend q \<longleftrightarrow>
     log_ok pend q \<and> by_id_ok q \<and> pinned_ok pend q \<and> decision_ok pend q \<and> hist_ok pend q \<and>
     count_ok pend q \<and> marks_ok q"

lemmas queue_ok_defs = log_ok_def by_id_ok_def pinned_ok_def decision_ok_def hist_ok_def
  count_ok_def marks_ok_def

lemma queue_ok_init: "queue_ok {} (EventQueue bound owner_floor)"
  by (simp add: entry_ok_def queue_ok_def queue_ok_defs EventQueue_def live_def decided_def history_def
      evicted_high_of_def last_seq_of_def)

lemma queue_okD:
  assumes "queue_ok pend q"
  shows "log_ok pend q" "by_id_ok q" "pinned_ok pend q" "decision_ok pend q" "hist_ok pend q"
    "count_ok pend q" "marks_ok q"
  using assms by (simp_all add: queue_ok_def)

lemma event_id_inject:
  assumes "by_id_ok q" "r \<in> set (q_events q)" "r' \<in> set (q_events q)"
    "ev_event_id (q_obj q r) = ev_event_id (q_obj q r')"
  shows "r = r'"
  using assms unfolding by_id_ok_def by (metis option.inject)

lemma pinned_lookup:
  assumes "queue_ok pend q" "r \<in> live pend q"
  shows "map_of (q_pinned q) (ev_event_id (q_obj q r)) = (if is_pinned (q_obj q r) then Some r else None)"
proof (cases "is_pinned (q_obj q r)")
  case True
  then show ?thesis using assms by (simp add: queue_ok_def pinned_ok_def)
next
  case False
  have "map_of (q_pinned q) (ev_event_id (q_obj q r)) \<noteq> Some r'" for r'
  proof
    assume "map_of (q_pinned q) (ev_event_id (q_obj q r)) = Some r'"
    then have "r' \<in> live pend q" "is_pinned (q_obj q r')" "ev_event_id (q_obj q r') = ev_event_id (q_obj q r)"
      using assms by (auto simp: queue_ok_def pinned_ok_def)
    then show False
      using event_id_inject [of q r r'] assms False by (auto simp: queue_ok_def live_def)
  qed
  with False show ?thesis by (cases "map_of (q_pinned q) (ev_event_id (q_obj q r))") auto
qed

lemma history_lookup:
  "hist_ok pend q \<Longrightarrow> (case q_owner_hist q own of None \<Rightarrow> [] | Some h \<Rightarrow> h) = history pend q own"
  by (simp add: hist_ok_def)

lemma history_sorted: "log_ok pend q \<Longrightarrow> sorted_wrt (<) (history pend q own)"
  by (simp add: log_ok_def history_def sorted_wrt_filter)

section \<open>Elementary moves\<close>

lemma entry_ok_insert:
  assumes "entry_ok S eid entry" "\<forall>x\<in>S. eid x \<noteq> eid r"
  shows "entry_ok (insert r S) eid
    (Some (AList.update (eid r) r (case entry of None \<Rightarrow> [] | Some m \<Rightarrow> m)))"
  using assms by (auto simp: entry_ok_def split: option.splits)

lemma entry_ok_remove:
  assumes "entry_ok S eid (Some m)" "inj_on eid S" "r \<in> S"
  shows "entry_ok (S - {r}) eid
    (if AList.delete (eid r) m = [] then None else Some (AList.delete (eid r) m))"
proof -
  let ?m = "AList.delete (eid r) m"
  have m: "dict_ok m" "\<And>i x. map_of m i = Some x \<longleftrightarrow> x \<in> S \<and> eid x = i"
    using assms(1) by (auto simp: entry_ok_def)
  have m': "map_of ?m i = Some x \<longleftrightarrow> x \<in> S - {r} \<and> eid x = i" for i x
    using m(2) assms(2,3) by (auto simp: inj_on_def)
  show ?thesis
  proof (cases "?m = []")
    case True
    then have "S - {r} = {}" using m' by (auto simp del: dict_get_delete)
    with True show ?thesis by (simp add: entry_ok_def)
  next
    case False
    with m(1) m' show ?thesis by (simp add: entry_ok_def del: dict_get_delete)
  qed
qed

lemma live_insert: "r \<in> set (q_events q) \<Longrightarrow> r \<notin> pend \<Longrightarrow> live pend q = insert r (live (insert r pend) q)"
  by (auto simp: live_def)

lemma live_notin [simp]: "r \<notin> live (insert r pend) q"
  by (simp add: live_def)

text \<open>An unresolved-free event joins its owner's history.\<close>

lemma index_evictable_eq:
  assumes "hist_ok pend q" "log_ok pend q"
  shows "index_evictable r q =
    q\<lparr>q_owner_hist := (q_owner_hist q)(ev_owner (q_obj q r) \<mapsto>
         insort_right r (history pend q (ev_owner (q_obj q r)))),
      q_evictable_count := q_evictable_count q + 1\<rparr>"
  by (simp add: index_evictable_def Let_def history_lookup [OF assms(1)]
      append_or_insort [OF history_sorted [OF assms(2)]] del: not_Cons_self)

lemma history_insert_pend:
  assumes "log_ok (insert r pend) q" "r \<notin> pend" "\<not> is_pinned (q_obj q r)"
  shows "history pend q own =
    (if own = ev_owner (q_obj q r) then insort_right r (history (insert r pend) q own)
     else history (insert r pend) q own)"
proof -
  have s: "sorted_wrt (<) (q_events q)" "r \<in> set (q_events q)" using assms(1) by (auto simp: log_ok_def)
  show ?thesis
  proof (cases "own = ev_owner (q_obj q r)")
    case True
    have "insort_right r (history (insert r pend) q own) =
      filter (\<lambda>x. x = r \<or> evictable (insert r pend) q x \<and> ev_owner (q_obj q x) = own) (q_events q)"
      unfolding history_def by (rule insort_right_filter [OF s]) (simp add: evictable_def)
    also have "\<dots> = history pend q own"
      unfolding history_def by (rule filter_cong) (use assms True in \<open>auto simp: evictable_def\<close>)
    finally show ?thesis using True by simp
  next
    case False
    then show ?thesis unfolding history_def by (auto simp: evictable_def intro!: filter_cong)
  qed
qed

lemma count_insert_pend:
  assumes "sorted_wrt (<) (q_events q)" "r \<in> set (q_events q)" "r \<notin> pend" "\<not> is_pinned (q_obj q r)"
  shows "length (filter (evictable pend q) (q_events q)) =
    Suc (length (filter (evictable (insert r pend) q) (q_events q)))"
proof -
  have d: "distinct (q_events q)" using assms(1) by (simp add: strict_sorted_iff)
  have "set (filter (evictable pend q) (q_events q)) =
    insert r (set (filter (evictable (insert r pend) q) (q_events q)))"
    using assms by (auto simp: evictable_def)
  moreover have "r \<notin> set (filter (evictable (insert r pend) q) (q_events q))"
    by (simp add: evictable_def)
  ultimately have "card (set (filter (evictable pend q) (q_events q))) =
    Suc (card (set (filter (evictable (insert r pend) q) (q_events q))))"
    by simp
  with d show ?thesis by (simp only: distinct_card distinct_filter)
qed

lemma index_evictable_ok:
  assumes ok: "queue_ok (insert r pend) q" and r: "r \<notin> pend" "\<not> is_pinned (q_obj q r)"
  shows "queue_ok pend (index_evictable r q)"
proof -
  let ?q = "index_evictable r q"
  note parts = queue_okD [OF ok]
  have ev: "r \<in> set (q_events q)" using parts(1) by (simp add: log_ok_def)
  note eq = index_evictable_eq [OF parts(5,1), of r]
  have same: "q_events ?q = q_events q" "q_obj ?q = q_obj q" "q_by_id ?q = q_by_id q"
    "q_pinned ?q = q_pinned q" "q_by_decision ?q = q_by_decision q" "q_next ?q = q_next q"
    by (simp_all add: eq)
  have d: "decided pend ?q dd = decided (insert r pend) q dd" for dd
    using r by (auto simp: decided_def live_def same)
  have h: "history pend ?q own = history pend q own" for own
    by (simp add: history_def evictable_def [abs_def] same)
  have "log_ok pend ?q" using parts(1) by (simp add: log_ok_def same)
  moreover have "by_id_ok ?q" using parts(2) by (simp add: by_id_ok_def same)
  moreover have "pinned_ok pend ?q"
    using parts(3) r by (auto simp: pinned_ok_def same live_def)
  moreover have "decision_ok pend ?q"
    using parts(4) by (simp add: decision_ok_def d same)
  moreover have "hist_ok pend ?q"
    unfolding hist_ok_def h using parts(5) history_insert_pend [OF parts(1) r]
    by (auto simp: eq hist_ok_def dest: arg_cong [where f = set])
  moreover have "count_ok pend ?q"
    using parts(6) count_insert_pend [OF _ ev r] parts(1)
    by (simp add: count_ok_def eq log_ok_def evictable_def [abs_def])
  moreover have "marks_ok ?q"
    using parts(7) by (simp add: marks_ok_def eq evicted_high_of_def last_seq_of_def)
  ultimately show ?thesis by (simp add: queue_ok_def)
qed

text \<open>An unresolved decision is pinned.\<close>

lemma pin_ok:
  assumes ok: "queue_ok (insert r pend) q" and r: "r \<notin> pend" "is_pinned (q_obj q r)"
  shows "queue_ok pend (pin r q)"
proof -
  let ?q = "pin r q" and ?i = "ev_event_id (q_obj q r)"
  note parts = queue_okD [OF ok]
  have ev: "r \<in> set (q_events q)" using parts(1) by (simp add: log_ok_def)
  have same: "q_events ?q = q_events q" "q_obj ?q = q_obj q" "q_by_id ?q = q_by_id q"
    "q_owner_hist ?q = q_owner_hist q" "q_evictable_count ?q = q_evictable_count q"
    "q_next ?q = q_next q" "q_last_seq ?q = q_last_seq q" "q_evicted_high ?q = q_evicted_high q"
    "q_last_seq_by_session ?q = q_last_seq_by_session q"
    "q_evicted_high_by_session ?q = q_evicted_high_by_session q"
    "q_pinned ?q = AList.update ?i r (q_pinned q)"
    by (simp_all add: pin_def Let_def split: option.splits)
  have lv: "live pend q = insert r (live (insert r pend) q)" by (rule live_insert [OF ev r(1)])
  have uniq: "r' = r" if "r' \<in> live (insert r pend) q" "ev_event_id (q_obj q r') = ?i" for r'
    using event_id_inject [OF parts(2), of r' r] that ev by (auto simp: live_def)
  have ev': "evictable pend ?q x = evictable (insert r pend) q x" for x
    using r by (auto simp: evictable_def same)
  have "log_ok pend ?q" using parts(1) by (simp add: log_ok_def same)
  moreover have "by_id_ok ?q" using parts(2) by (simp add: by_id_ok_def same)
  moreover have "pinned_ok pend ?q"
    using parts(3) r uniq lv by (auto simp: pinned_ok_def same live_def [of pend ?q] live_def [of pend q])
  moreover have "hist_ok pend ?q"
    using parts(5) by (simp add: hist_ok_def history_def ev' same)
  moreover have "count_ok pend ?q"
    using parts(6) by (simp add: count_ok_def ev' [abs_def] same)
  moreover have "marks_ok ?q"
    using parts(7) by (simp add: marks_ok_def evicted_high_of_def last_seq_of_def same)
  moreover have "decision_ok pend ?q"
    unfolding decision_ok_def
  proof
    fix d
    let ?S = "decided (insert r pend) q d"
    have old: "entry_ok ?S (\<lambda>x. ev_event_id (q_obj q x)) (q_by_decision q d)"
      using parts(4) by (simp add: decision_ok_def)
    show "entry_ok (decided pend ?q d) (\<lambda>x. ev_event_id (q_obj ?q x)) (q_by_decision ?q d)"
    proof (cases "ev_decision_id (q_obj q r) = Some d")
      case True
      then have "decided pend ?q d = insert r ?S"
        using r lv by (auto simp: decided_def live_def same)
      moreover have "\<forall>x\<in>?S. ev_event_id (q_obj q x) \<noteq> ?i"
        by (auto simp: decided_def) (metis uniq live_notin)
      ultimately show ?thesis
        using entry_ok_insert [OF old, of r] True by (simp add: same pin_def Let_def)
    next
      case False
      then have "decided pend ?q d = ?S"
        using r lv by (auto simp: decided_def live_def same)
      with old False show ?thesis by (simp add: same pin_def Let_def split: option.splits)
    qed
  qed
  ultimately show ?thesis by (simp add: queue_ok_def)
qed

text \<open>Taking a pinned event out of the pin indices; it is then in no index.\<close>

definition detach :: "ref \<Rightarrow> queue \<Rightarrow> queue" where
  "detach r q =
     (let e = q_obj q r in
      q\<lparr>q_pinned := AList.delete (ev_event_id e) (q_pinned q),
        q_by_decision := undecide (ev_decision_id e) (ev_event_id e) (q_by_decision q)\<rparr>)"

lemma detach_same [simp]:
  "q_events (detach r q) = q_events q" "q_obj (detach r q) = q_obj q"
  "q_by_id (detach r q) = q_by_id q" "q_owner_hist (detach r q) = q_owner_hist q"
  "q_evictable_count (detach r q) = q_evictable_count q" "q_next (detach r q) = q_next q"
  "q_last_seq (detach r q) = q_last_seq q" "q_evicted_high (detach r q) = q_evicted_high q"
  "q_last_seq_by_session (detach r q) = q_last_seq_by_session q"
  "q_evicted_high_by_session (detach r q) = q_evicted_high_by_session q"
  "q_bound (detach r q) = q_bound q" "q_owner_floor (detach r q) = q_owner_floor q"
  by (simp_all add: detach_def Let_def)

lemma detach_ok:
  assumes ok: "queue_ok pend q" and r: "r \<in> live pend q" "is_pinned (q_obj q r)"
  shows "queue_ok (insert r pend) (detach r q)"
proof -
  let ?q = "detach r q" and ?eid = "\<lambda>x. ev_event_id (q_obj q x)"
  note parts = queue_okD [OF ok]
  have ev: "r \<in> set (q_events q)" "r \<notin> pend" using r by (auto simp: live_def)
  have lv: "live pend q = insert r (live (insert r pend) q)" by (rule live_insert [OF ev])
  have inj: "inj_on ?eid (set (q_events q))"
    by (auto intro!: inj_onI intro: event_id_inject [OF parts(2)])
  have ev': "evictable (insert r pend) ?q x = evictable pend q x" for x
    using r by (auto simp: evictable_def)
  have "log_ok (insert r pend) ?q" using parts(1) ev by (simp add: log_ok_def)
  moreover have "by_id_ok ?q" using parts(2) by (simp add: by_id_ok_def)
  moreover have "pinned_ok (insert r pend) ?q"
    unfolding pinned_ok_def
  proof (intro conjI allI)
    show "dict_ok (q_pinned ?q)" using parts(3) by (simp add: pinned_ok_def detach_def Let_def)
    fix i x
    have "map_of (q_pinned q) i = Some x \<longleftrightarrow> x \<in> live pend q \<and> is_pinned (q_obj q x) \<and> ?eid x = i"
      using parts(3) by (simp add: pinned_ok_def)
    moreover have "x \<in> live pend q \<Longrightarrow> ?eid x = ?eid r \<longleftrightarrow> x = r"
      using inj ev by (auto simp: inj_on_def live_def)
    ultimately show "map_of (q_pinned ?q) i = Some x \<longleftrightarrow>
        x \<in> live (insert r pend) ?q \<and> is_pinned (q_obj ?q x) \<and> ev_event_id (q_obj ?q x) = i"
      by (auto simp: detach_def Let_def live_def)
  qed
  moreover have "decision_ok (insert r pend) ?q"
    unfolding decision_ok_def
  proof
    fix d
    have old: "entry_ok (decided pend q d) ?eid (q_by_decision q d)"
      using parts(4) by (simp add: decision_ok_def)
    have new: "decided (insert r pend) ?q d = decided pend q d - {r}"
      by (auto simp: decided_def live_def)
    show "entry_ok (decided (insert r pend) ?q d) (\<lambda>x. ev_event_id (q_obj ?q x)) (q_by_decision ?q d)"
    proof (cases "ev_decision_id (q_obj q r) = Some d")
      case True
      with r have rd: "r \<in> decided pend q d" by (simp add: decided_def)
      then obtain m where m: "q_by_decision q d = Some m"
        using old by (cases "q_by_decision q d") (auto simp: entry_ok_def)
      have "inj_on ?eid (decided pend q d)"
        by (rule inj_on_subset [OF inj]) (auto simp: decided_def live_def)
      note rem = entry_ok_remove [OF old [unfolded m] this rd]
      have "q_by_decision ?q d =
          (if AList.delete (?eid r) m = [] then None else Some (AList.delete (?eid r) m))"
        using True m by (simp add: detach_def Let_def undecide_def)
      with rem show ?thesis by (simp only: new detach_same)
    next
      case False
      then have "decided pend q d - {r} = decided pend q d" by (auto simp: decided_def)
      with old False show ?thesis
        by (simp add: new) (auto simp: detach_def Let_def undecide_def split: option.splits)
    qed
  qed
  moreover have "hist_ok (insert r pend) ?q" using parts(5) by (simp add: hist_ok_def history_def ev')
  moreover have "count_ok (insert r pend) ?q" using parts(6) by (simp add: count_ok_def ev' [abs_def])
  moreover have "marks_ok ?q" using parts(7) by (simp add: marks_ok_def evicted_high_of_def last_seq_of_def)
  ultimately show ?thesis by (simp add: queue_ok_def)
qed

text \<open>Resolving an event that is in no pin index changes no index.\<close>

lemma set_resolved_same [simp]:
  "q_events (set_resolved r x q) = q_events q" "q_by_id (set_resolved r x q) = q_by_id q"
  "q_pinned (set_resolved r x q) = q_pinned q" "q_by_decision (set_resolved r x q) = q_by_decision q"
  "q_owner_hist (set_resolved r x q) = q_owner_hist q"
  "q_evictable_count (set_resolved r x q) = q_evictable_count q"
  "q_next (set_resolved r x q) = q_next q" "q_last_seq (set_resolved r x q) = q_last_seq q"
  "q_evicted_high (set_resolved r x q) = q_evicted_high q"
  "q_last_seq_by_session (set_resolved r x q) = q_last_seq_by_session q"
  "q_evicted_high_by_session (set_resolved r x q) = q_evicted_high_by_session q"
  "q_bound (set_resolved r x q) = q_bound q" "q_owner_floor (set_resolved r x q) = q_owner_floor q"
  "ev_seq (q_obj (set_resolved r x q) y) = ev_seq (q_obj q y)"
  "ev_event_id (q_obj (set_resolved r x q) y) = ev_event_id (q_obj q y)"
  "ev_session_id (q_obj (set_resolved r x q) y) = ev_session_id (q_obj q y)"
  "ev_decision_id (q_obj (set_resolved r x q) y) = ev_decision_id (q_obj q y)"
  "ev_owner (q_obj (set_resolved r x q) y) = ev_owner (q_obj q y)"
  "ev_kind (q_obj (set_resolved r x q) y) = ev_kind (q_obj q y)"
  by (simp_all add: set_resolved_def)

lemma is_pinned_set_resolved [simp]:
  "is_pinned (q_obj (set_resolved r x q) y) \<longleftrightarrow> y \<noteq> r \<and> is_pinned (q_obj q y)"
  by (simp add: set_resolved_def is_pinned_def)

lemma set_resolved_ok:
  assumes ok: "queue_ok pend q" and r: "r \<in> pend \<or> \<not> is_pinned (q_obj q r)"
  shows "queue_ok pend (set_resolved r x q)"
proof -
  let ?q = "set_resolved r x q"
  have lv: "live pend ?q = live pend q" by (simp add: live_def)
  have dec: "decided pend ?q d = decided pend q d" for d
    using r by (auto simp: decided_def live_def)
  have ev: "evictable pend ?q y = evictable pend q y" for y
    using r by (auto simp: evictable_def)
  have pin: "y \<in> live pend q \<and> is_pinned (q_obj ?q y) \<longleftrightarrow> y \<in> live pend q \<and> is_pinned (q_obj q y)" for y
    using r by (auto simp: live_def)
  note parts = queue_okD [OF ok]
  have "log_ok pend ?q" using parts(1) by (simp add: log_ok_def)
  moreover have "by_id_ok ?q" using parts(2) by (simp add: by_id_ok_def)
  moreover have "pinned_ok pend ?q"
    using parts(3) pin unfolding pinned_ok_def lv set_resolved_same by blast
  moreover have "decision_ok pend ?q" using parts(4) by (simp add: decision_ok_def dec)
  moreover have "hist_ok pend ?q" using parts(5) by (simp add: hist_ok_def history_def ev)
  moreover have "count_ok pend ?q" using parts(6) by (simp add: count_ok_def ev [abs_def])
  moreover have "marks_ok ?q" using parts(7) by (simp add: marks_ok_def evicted_high_of_def last_seq_of_def)
  ultimately show ?thesis by (simp add: queue_ok_def)
qed

definition settle :: "string \<Rightarrow> ref \<Rightarrow> queue \<Rightarrow> queue" where
  "settle reason r q = unpin r (set_resolved r reason q)"

lemma settle_eq: "settle reason r q = index_evictable r (set_resolved r reason (detach r q))"
  by (cases q) (simp add: settle_def unpin_def Let_def detach_def set_resolved_def)

lemma settle_ok:
  assumes "queue_ok pend q" "r \<in> live pend q" "is_pinned (q_obj q r)"
  shows "queue_ok pend (settle reason r q)"
  unfolding settle_eq
proof (rule index_evictable_ok)
  show "queue_ok (insert r pend) (set_resolved r reason (detach r q))"
    by (rule set_resolved_ok [OF detach_ok [OF assms]]) simp
  show "r \<notin> pend" using assms by (simp add: live_def)
  show "\<not> is_pinned (q_obj (set_resolved r reason (detach r q)) r)" by simp
qed

section \<open>Eviction\<close>

lemma log_distinct: "log_ok pend q \<Longrightarrow> distinct (q_events q)"
  by (simp add: log_ok_def strict_sorted_iff)

lemma remove1_filter: "distinct xs \<Longrightarrow> remove1 v xs = filter (\<lambda>x. x \<noteq> v) xs"
  by (induction xs) (auto simp: filter_id_conv intro: sym)

lemma length_filter_neq:
  "distinct xs \<Longrightarrow> v \<in> set xs \<Longrightarrow> P v \<Longrightarrow>
     Suc (length (filter (\<lambda>x. x \<noteq> v \<and> P x) xs)) = length (filter P xs)"
proof (induction xs)
  case (Cons x xs)
  show ?case
  proof (cases "x = v")
    case True
    with Cons.prems have "filter (\<lambda>x. x \<noteq> v \<and> P x) xs = filter P xs" by (auto intro!: filter_cong)
    with True Cons.prems show ?thesis by simp
  next
    case False
    with Cons show ?thesis by auto
  qed
qed simp

lemma victim_live:
  assumes "queue_ok pend q" "is_victim q v"
  shows "v \<in> set (q_events q)" "evictable pend q v"
    "q_owner_hist q (ev_owner (q_obj q v)) = Some (history pend q (ev_owner (q_obj q v)))"
    "v \<in> set (history pend q (ev_owner (q_obj q v)))"
    "q_owner_floor q < int (length (history pend q (ev_owner (q_obj q v))))"
  using assms queue_okD(5) [OF assms(1)]
  by (auto simp: is_victim_def hist_ok_def history_def split: option.splits if_splits)

lemma drop_event_eq:
  assumes ok: "queue_ok pend q" and v: "is_victim q v"
  defines "e \<equiv> q_obj q v"
  shows "drop_event v q =
    q\<lparr>q_events := filter (\<lambda>x. x \<noteq> v) (q_events q),
      q_by_id := (q_by_id q)(ev_event_id e := None),
      q_owner_hist := (q_owner_hist q)(ev_owner e :=
        (let h = filter (\<lambda>x. x \<noteq> v) (history pend q (ev_owner e)) in if h = [] then None else Some h)),
      q_evictable_count := q_evictable_count q - 1,
      q_evicted_high := max (q_evicted_high q) v,
      q_evicted_high_by_session := (q_evicted_high_by_session q)
        (ev_session_id e \<mapsto> max (evicted_high_of q (ev_session_id e)) v)\<rparr>"
proof -
  have d: "distinct (q_events q)" by (rule log_distinct [OF queue_okD(1) [OF ok]])
  then have "distinct (history pend q own)" for own by (simp add: history_def)
  with d victim_live(3) [OF ok v] show ?thesis
    by (simp add: drop_event_def Let_def remove1_filter e_def evicted_high_of_def)
qed

lemma drop_event_ok:
  assumes ok: "queue_ok pend q" and v: "is_victim q v"
  shows "queue_ok pend (drop_event v q)"
proof -
  let ?q = "drop_event v q" and ?e = "q_obj q v"
  note parts = queue_okD [OF ok] and vic = victim_live [OF ok v] and eq = drop_event_eq [OF ok v]
  have d: "distinct (q_events q)" by (rule log_distinct [OF parts(1)])
  have np: "v \<notin> pend" "\<not> is_pinned ?e" using vic(2) by (simp_all add: evictable_def)
  have same: "q_obj ?q = q_obj q" "q_pinned ?q = q_pinned q" "q_by_decision ?q = q_by_decision q"
    "q_next ?q = q_next q" "q_last_seq ?q = q_last_seq q"
    "q_last_seq_by_session ?q = q_last_seq_by_session q"
    "q_events ?q = filter (\<lambda>x. x \<noteq> v) (q_events q)"
    "evictable pend ?q = evictable pend q"
    by (simp_all add: eq evictable_def [abs_def])
  have lv: "live pend ?q = live pend q - {v}" by (auto simp: live_def same)
  have hist: "history pend ?q own = filter (\<lambda>x. x \<noteq> v) (history pend q own)" for own
    by (auto simp: history_def same intro: filter_cong)
  have other: "filter (\<lambda>x. x \<noteq> v) (history pend q own) = history pend q own" if "own \<noteq> ev_owner ?e" for own
    using that by (auto simp: history_def intro!: filter_cong)
  have "log_ok pend ?q"
    using parts(1) np by (auto simp: log_ok_def same sorted_wrt_filter)
  moreover have "by_id_ok ?q"
    unfolding by_id_ok_def
  proof (intro allI)
    fix i r
    show "q_by_id ?q i = Some r \<longleftrightarrow> r \<in> set (q_events ?q) \<and> ev_event_id (q_obj ?q r) = i"
      using parts(2) event_id_inject [OF parts(2), of r v] vic(1)
      by (auto simp: eq by_id_ok_def)
  qed
  moreover have "pinned_ok pend ?q"
    using parts(3) np unfolding pinned_ok_def same lv by blast
  moreover have "decision_ok pend ?q"
  proof -
    have "decided pend ?q dd = decided pend q dd" for dd
      using np by (auto simp: decided_def lv same)
    with parts(4) show ?thesis by (simp add: decision_ok_def same)
  qed
  moreover have "hist_ok pend ?q"
  proof -
    let ?h = "filter (\<lambda>x. x \<noteq> v) (history pend q (ev_owner ?e))"
    have "q_owner_hist ?q = (q_owner_hist q)(ev_owner ?e := (if ?h = [] then None else Some ?h))"
      by (simp add: eq Let_def)
    with parts(5) show ?thesis by (simp add: hist_ok_def hist other)
  qed
  moreover have "count_ok pend ?q"
  proof -
    have "q_evictable_count ?q = q_evictable_count q - 1" by (simp add: eq)
    with parts(6) length_filter_neq [of "q_events q" v "evictable pend q", OF d vic(1,2)] show ?thesis
      by (simp add: count_ok_def same conj_commute)
  qed
  moreover have "marks_ok ?q"
  proof -
    have v: "0 < v" "v \<le> last_seq_of q (ev_session_id ?e)" "v \<le> q_last_seq q"
      using parts(1,7) vic(1) by (auto simp: log_ok_def marks_ok_def intro: order_trans)
    have high: "evicted_high_of ?q s =
        (if s = ev_session_id ?e then max (evicted_high_of q s) v else evicted_high_of q s)"
      "last_seq_of ?q s = last_seq_of q s" for s
      by (simp_all add: evicted_high_of_def last_seq_of_def eq)
    have "q_evicted_high ?q = max (q_evicted_high q) v" by (simp add: eq)
    moreover have "evicted_high_of q s \<le> q_evicted_high q" for s
      using parts(7) by (simp add: marks_ok_def)
    ultimately show ?thesis
      using parts(7) v by (auto simp: marks_ok_def same high intro: max.coboundedI1 max.mono)
  qed
  ultimately show ?thesis by (simp add: queue_ok_def)
qed

text \<open>Rule for facts kept by eviction: enough that dropping a victim keeps them.\<close>

lemma evict_induct:
  assumes "queue_ok pend q" "P q"
    and "\<And>q v. queue_ok pend q \<Longrightarrow> P q \<Longrightarrow> q_bound q < q_evictable_count q \<Longrightarrow> pick_victim q = Some v \<Longrightarrow>
           P (drop_event v q)"
  shows "queue_ok pend (evict_if_needed q) \<and> P (evict_if_needed q)"
  using assms(1,2)
proof (induction q rule: evict_if_needed.induct)
  case (1 q)
  show ?case
  proof (cases "q_bound q < q_evictable_count q \<and> pick_victim q \<noteq> None")
    case True
    then obtain v where v: "q_bound q < q_evictable_count q" "pick_victim q = Some v" by auto
    have "queue_ok pend (drop_event v q)"
      using drop_event_ok [OF "1.prems"(1)] pick_victim_Some [OF v(2)] by simp
    with "1.IH" [OF v] assms(3) [OF "1.prems" v] show ?thesis
      by (simp add: evict_if_needed.simps [of q] v)
  next
    case False
    with "1.prems" show ?thesis
      by (auto simp: evict_if_needed.simps [of q] split: option.splits)
  qed
qed

lemma evict_ok: "queue_ok pend q \<Longrightarrow> queue_ok pend (evict_if_needed q)"
  using evict_induct [of pend q "\<lambda>_. True"] by simp

section \<open>publish and resolve_decision\<close>

lemma owner_of_same:
  assumes "owner_of rs sid q = (own, q')"
  shows "q_events q' = q_events q" "q_obj q' = q_obj q" "q_by_id q' = q_by_id q"
    "q_pinned q' = q_pinned q" "q_by_decision q' = q_by_decision q"
    "q_owner_hist q' = q_owner_hist q" "q_evictable_count q' = q_evictable_count q"
    "q_next q' = q_next q" "q_last_seq q' = q_last_seq q" "q_evicted_high q' = q_evicted_high q"
    "q_last_seq_by_session q' = q_last_seq_by_session q"
    "q_evicted_high_by_session q' = q_evicted_high_by_session q"
    "q_bound q' = q_bound q" "q_owner_floor q' = q_owner_floor q"
  using assms by (auto simp: owner_of_def split: option.splits)

lemma publish_begin_same:
  assumes "publish_begin rs i args q = (r, q')"
  shows "r = q_next q" "q_events q' = q_events q @ [r]" "q_by_id q' = (q_by_id q)(i \<mapsto> r)"
    "q_pinned q' = q_pinned q" "q_by_decision q' = q_by_decision q"
    "q_owner_hist q' = q_owner_hist q" "q_evictable_count q' = q_evictable_count q"
    "q_next q' = Suc r" "q_last_seq q' = r" "q_evicted_high q' = q_evicted_high q"
    "q_last_seq_by_session q' = (q_last_seq_by_session q)(ev_session_id args \<mapsto> r)"
    "q_evicted_high_by_session q' = q_evicted_high_by_session q"
    "q_bound q' = q_bound q" "q_owner_floor q' = q_owner_floor q"
    "x \<noteq> r \<Longrightarrow> q_obj q' x = q_obj q x"
    "ev_seq (q_obj q' r) = r" "ev_event_id (q_obj q' r) = i"
    "ev_session_id (q_obj q' r) = ev_session_id args" "ev_kind (q_obj q' r) = ev_kind args"
    "ev_decision_id (q_obj q' r) = ev_decision_id args" "ev_resolved_reason (q_obj q' r) = None"
proof -
  obtain own q1 where o: "owner_of rs (ev_session_id args) q = (own, q1)" by fastforce
  note s = owner_of_same [OF o]
  from assms o have eq: "r = q_next q1"
    "q' = q1\<lparr>q_next := Suc (q_next q1),
            q_obj := (q_obj q1)(q_next q1 := args\<lparr>ev_seq := q_next q1, ev_event_id := i,
                        ev_resolved_reason := None, ev_owner := own\<rparr>),
            q_events := q_events q1 @ [q_next q1], q_by_id := (q_by_id q1)(i \<mapsto> q_next q1),
            q_last_seq := q_next q1,
            q_last_seq_by_session := (q_last_seq_by_session q1)(ev_session_id args \<mapsto> q_next q1)\<rparr>"
    by (auto simp: publish_begin_def Let_def)
  show "r = q_next q" "q_events q' = q_events q @ [r]" "q_by_id q' = (q_by_id q)(i \<mapsto> r)"
    "q_pinned q' = q_pinned q" "q_by_decision q' = q_by_decision q"
    "q_owner_hist q' = q_owner_hist q" "q_evictable_count q' = q_evictable_count q"
    "q_next q' = Suc r" "q_last_seq q' = r" "q_evicted_high q' = q_evicted_high q"
    "q_last_seq_by_session q' = (q_last_seq_by_session q)(ev_session_id args \<mapsto> r)"
    "q_evicted_high_by_session q' = q_evicted_high_by_session q"
    "q_bound q' = q_bound q" "q_owner_floor q' = q_owner_floor q"
    "x \<noteq> r \<Longrightarrow> q_obj q' x = q_obj q x"
    "ev_seq (q_obj q' r) = r" "ev_event_id (q_obj q' r) = i"
    "ev_session_id (q_obj q' r) = ev_session_id args" "ev_kind (q_obj q' r) = ev_kind args"
    "ev_decision_id (q_obj q' r) = ev_decision_id args" "ev_resolved_reason (q_obj q' r) = None"
    by (simp_all add: eq s)
qed

lemma publish_begin_ok:
  assumes ok: "queue_ok pend q" and fresh: "q_by_id q i = None"
    and b: "publish_begin rs i args q = (r, q')"
  shows "queue_ok (insert r pend) q'" "r \<notin> set (q_events q)" "r \<in> set (q_events q')"
proof -
  note parts = queue_okD [OF ok] and same = publish_begin_same [OF b]
  have lt: "\<forall>x\<in>set (q_events q). x < r" and pos: "0 < r" and pend: "pend \<subseteq> set (q_events q)"
    using parts(1) by (auto simp: log_ok_def same(1))
  then show r: "r \<notin> set (q_events q)" by blast
  show "r \<in> set (q_events q')" by (simp add: same(2))
  have obj: "q_obj q' x = q_obj q x" if "x \<in> set (q_events q)" for x
    using that r same(15) by metis
  have lv: "live (insert r pend) q' = live pend q" using r pend by (auto simp: live_def same(2))
  have obj_live: "q_obj q' x = q_obj q x" if "x \<in> live pend q" for x
    using that obj by (simp add: live_def)
  have "log_ok (insert r pend) q'"
    using parts(1) lt pos obj same(16) by (auto simp: log_ok_def same(2,8) sorted_wrt_append less_Suc_eq)
  moreover have "by_id_ok q'"
    unfolding by_id_ok_def
  proof (intro allI)
    fix j x
    show "q_by_id q' j = Some x \<longleftrightarrow> x \<in> set (q_events q') \<and> ev_event_id (q_obj q' x) = j"
    proof (cases "x = r")
      case True
      then show ?thesis using r parts(2) by (auto simp: same(2,3,17) by_id_ok_def)
    next
      case False
      have "q_by_id q j = Some x \<longleftrightarrow> x \<in> set (q_events q) \<and> ev_event_id (q_obj q x) = j"
        using parts(2) by (simp add: by_id_ok_def)
      with False fresh obj show ?thesis by (auto simp: same(2,3))
    qed
  qed
  moreover have "pinned_ok (insert r pend) q'"
    using parts(3) obj_live unfolding pinned_ok_def lv same(4) by metis
  moreover have "decision_ok (insert r pend) q'"
  proof -
    have "decided (insert r pend) q' d = decided pend q d" for d
      using obj_live by (auto simp: decided_def lv)
    moreover have "entry_ok (decided pend q d) (\<lambda>x. ev_event_id (q_obj q' x)) m =
        entry_ok (decided pend q d) (\<lambda>x. ev_event_id (q_obj q x)) m" for d m
      using obj_live by (auto simp: entry_ok_def decided_def split: option.splits)
    ultimately show ?thesis using parts(4) by (simp add: decision_ok_def same(5))
  qed
  moreover have "history (insert r pend) q' own = history pend q own" for own
    using r obj by (auto simp: history_def same(2) evictable_def intro!: filter_cong)
  then have "hist_ok (insert r pend) q'" using parts(5) by (simp add: hist_ok_def same(6))
  moreover have "filter (evictable (insert r pend) q') (q_events q') = filter (evictable pend q) (q_events q)"
    using r obj by (auto simp: same(2) evictable_def intro!: filter_cong)
  then have "count_ok (insert r pend) q'" using parts(6) by (simp add: count_ok_def same(7))
  moreover have "marks_ok q'"
  proof -
    have high: "evicted_high_of q' s = evicted_high_of q s"
      "last_seq_of q' s = (if s = ev_session_id args then r else last_seq_of q s)" for s
      by (simp_all add: evicted_high_of_def last_seq_of_def same(11,12))
    have lr: "Suc (q_last_seq q) = r" using parts(7) same(1) by (simp add: marks_ok_def)
    have "evicted_high_of q s \<le> q_last_seq q" "last_seq_of q s \<le> q_last_seq q" for s
      using parts(7) by (auto simp: marks_ok_def intro: order_trans)
    then have "evicted_high_of q s \<le> r" "last_seq_of q s \<le> r" for s
      using lr by (meson le_SucI order_trans order_refl)+
    with parts(7) lt obj same(18) lr show ?thesis
      by (auto simp: marks_ok_def high same(2,8,9,10) less_imp_le)
  qed
  ultimately show "queue_ok (insert r pend) q'" by (simp add: queue_ok_def)
qed

lemma index_new_ok:
  assumes "queue_ok (insert r pend) q" "r \<notin> pend"
  shows "queue_ok pend (index_new r q)"
  using assms pin_ok index_evictable_ok by (simp add: index_new_def)

lemma publish_end_ok: "queue_ok (insert r pend) q \<Longrightarrow> r \<notin> pend \<Longrightarrow> queue_ok pend (publish_end r q)"
  by (simp add: publish_end_def evict_ok index_new_ok)

lemma index_evictable_same [simp]:
  "q_events (index_evictable r q) = q_events q" "q_obj (index_evictable r q) = q_obj q"
  "q_by_id (index_evictable r q) = q_by_id q" "q_next (index_evictable r q) = q_next q"
  "q_last_seq (index_evictable r q) = q_last_seq q"
  "q_last_seq_by_session (index_evictable r q) = q_last_seq_by_session q"
  "q_evicted_high (index_evictable r q) = q_evicted_high q"
  "q_evicted_high_by_session (index_evictable r q) = q_evicted_high_by_session q"
  "q_bound (index_evictable r q) = q_bound q" "q_owner_floor (index_evictable r q) = q_owner_floor q"
  by (simp_all add: index_evictable_def Let_def)

lemma settle_same [simp]:
  "q_events (settle x r q) = q_events q" "q_by_id (settle x r q) = q_by_id q"
  "q_next (settle x r q) = q_next q" "q_last_seq (settle x r q) = q_last_seq q"
  "q_last_seq_by_session (settle x r q) = q_last_seq_by_session q"
  "q_evicted_high (settle x r q) = q_evicted_high q"
  "q_evicted_high_by_session (settle x r q) = q_evicted_high_by_session q"
  "q_bound (settle x r q) = q_bound q" "q_owner_floor (settle x r q) = q_owner_floor q"
  "ev_event_id (q_obj (settle x r q) y) = ev_event_id (q_obj q y)"
  "ev_session_id (q_obj (settle x r q) y) = ev_session_id (q_obj q y)"
  "ev_decision_id (q_obj (settle x r q) y) = ev_decision_id (q_obj q y)"
  "is_pinned (q_obj (settle x r q) y) \<longleftrightarrow> y \<noteq> r \<and> is_pinned (q_obj q y)"
  by (simp_all add: settle_eq)

lemma settle_all_eq: "settle_all x rs q = fold (settle x) rs q"
  by (induction rs arbitrary: q) (simp_all add: settle_def)

lemma settle_all_ok:
  assumes "queue_ok pend q" "distinct rs" "\<forall>r\<in>set rs. r \<in> live pend q \<and> is_pinned (q_obj q r)"
  shows "queue_ok pend (settle_all x rs q)"
  unfolding settle_all_eq using assms
proof (induction rs arbitrary: q)
  case (Cons r rs)
  have "queue_ok pend (settle x r q)" using settle_ok [OF Cons.prems(1)] Cons.prems(3) by simp
  moreover have "\<forall>y\<in>set rs. y \<in> live pend (settle x r q) \<and> is_pinned (q_obj (settle x r q) y)"
    using Cons.prems by (auto simp: live_def)
  ultimately show ?case using Cons.IH Cons.prems(2) by simp
qed simp

lemma settle_all_same [simp]:
  "q_events (settle_all x rs q) = q_events q" "q_by_id (settle_all x rs q) = q_by_id q"
  "q_next (settle_all x rs q) = q_next q" "q_last_seq (settle_all x rs q) = q_last_seq q"
  "q_last_seq_by_session (settle_all x rs q) = q_last_seq_by_session q"
  "q_evicted_high (settle_all x rs q) = q_evicted_high q"
  "q_evicted_high_by_session (settle_all x rs q) = q_evicted_high_by_session q"
  "q_bound (settle_all x rs q) = q_bound q" "q_owner_floor (settle_all x rs q) = q_owner_floor q"
  "ev_event_id (q_obj (settle_all x rs q) y) = ev_event_id (q_obj q y)"
  "ev_session_id (q_obj (settle_all x rs q) y) = ev_session_id (q_obj q y)"
  "ev_decision_id (q_obj (settle_all x rs q) y) = ev_decision_id (q_obj q y)"
  "is_pinned (q_obj (settle_all x rs q) y) \<longleftrightarrow> y \<notin> set rs \<and> is_pinned (q_obj q y)"
  unfolding settle_all_eq by (induction rs arbitrary: q) auto

text \<open>The events \<open>resolve_decision\<close> walks: exactly the decision's pinned events, each once.\<close>

lemma decision_events:
  assumes "queue_ok pend q" "q_by_decision q d = Some m"
  shows "m \<noteq> []" "set (map snd m) = decided pend q d" "distinct (map snd m)"
proof -
  have m: "m \<noteq> []" "dict_ok m"
      "\<And>i r. map_of m i = Some r \<longleftrightarrow> r \<in> decided pend q d \<and> ev_event_id (q_obj q r) = i"
    using queue_okD(4) [OF assms(1)] assms(2) by (auto simp: decision_ok_def entry_ok_def dest!: spec [of _ d])
  have pair: "(i, r) \<in> set m \<longleftrightarrow> r \<in> decided pend q d \<and> ev_event_id (q_obj q r) = i" for i r
    using m(3) [of i r] dict_set_conv [OF m(2), of i r] by (simp only:)
  show "m \<noteq> []" by (rule m(1))
  show "set (map snd m) = decided pend q d"
  proof (intro equalityI subsetI)
    fix r assume "r \<in> decided pend q d"
    then have "(ev_event_id (q_obj q r), r) \<in> set m" by (simp add: pair)
    then show "r \<in> set (map snd m)" by force
  next
    fix r assume "r \<in> set (map snd m)"
    then obtain i where "(i, r) \<in> set m" by auto
    then show "r \<in> decided pend q d" by (simp add: pair)
  qed
  show "distinct (map snd m)"
    unfolding distinct_map
  proof
    show "distinct m" using m(2) by (simp add: distinct_map)
    show "inj_on snd (set m)"
      by (auto simp: inj_on_def pair)
  qed
qed

lemma resolve_decision_cases:
  assumes "queue_ok pend q"
  obtains "q_by_decision q d = None" "decided pend q d = {}" "resolve_decision d x q = (q, None)"
  | rs where "set rs = decided pend q d" "distinct rs" "rs \<noteq> []"
      "resolve_decision d x q = (evict_if_needed (settle_all x rs q), Some (foldr max rs 0))"
proof (cases "q_by_decision q d")
  case None
  then have "decided pend q d = {}"
    using queue_okD(4) [OF assms] by (auto simp: decision_ok_def entry_ok_def dest!: spec [of _ d])
  with None show ?thesis by (intro that(1)) (simp_all add: resolve_decision_def)
next
  case (Some m)
  from decision_events [OF assms Some] show ?thesis
    by (intro that(2) [of "map snd m"]) (simp_all add: resolve_decision_def Some)
qed

end
