(* ===== verification/Nelix_Events_Runs.thy ===== *)
theory Nelix_Events_Runs
  imports Nelix_Events_Inv
begin

text \<open>
  Every public operation of the queue keeps its invariant, hooks and
  \<open>forget_session\<close> included, and so does every sequence of operations whose event ids
  are fresh; together with what a step may change of the events already published.
\<close>

section \<open>forget_session\<close>

text \<open>Taking an evictable event out of its owner's history; it is then in no index.\<close>

definition unhist :: "ref \<Rightarrow> queue \<Rightarrow> queue" where
  "unhist r q =
     (let own = ev_owner (q_obj q r); h = filter (\<lambda>x. x \<noteq> r) (case q_owner_hist q own of None \<Rightarrow> [] | Some h \<Rightarrow> h)
      in q\<lparr>q_owner_hist := (q_owner_hist q)(own := (if h = [] then None else Some h)),
           q_evictable_count := q_evictable_count q - 1\<rparr>)"

lemma unhist_same [simp]:
  "q_events (unhist r q) = q_events q" "q_obj (unhist r q) = q_obj q"
  "q_by_id (unhist r q) = q_by_id q" "q_pinned (unhist r q) = q_pinned q"
  "q_by_decision (unhist r q) = q_by_decision q" "q_next (unhist r q) = q_next q"
  "q_last_seq (unhist r q) = q_last_seq q" "q_evicted_high (unhist r q) = q_evicted_high q"
  "q_last_seq_by_session (unhist r q) = q_last_seq_by_session q"
  "q_evicted_high_by_session (unhist r q) = q_evicted_high_by_session q"
  "q_evictable_count (unhist r q) = q_evictable_count q - 1"
  "q_bound (unhist r q) = q_bound q" "q_owner_floor (unhist r q) = q_owner_floor q"
  by (simp_all add: unhist_def Let_def)

lemma unhist_ok:
  assumes ok: "queue_ok pend q" and r: "r \<in> live pend q" "\<not> is_pinned (q_obj q r)"
  shows "queue_ok (insert r pend) (unhist r q)"
proof -
  let ?q = "unhist r q" and ?own = "ev_owner (q_obj q r)"
  note parts = queue_okD [OF ok]
  have ev: "r \<in> set (q_events q)" "r \<notin> pend" using r by (auto simp: live_def)
  have h: "history (insert r pend) ?q own = filter (\<lambda>x. x \<noteq> r) (history pend q own)" for own
    by (auto simp: history_def evictable_def intro!: filter_cong)
  have other: "filter (\<lambda>x. x \<noteq> r) (history pend q own) = history pend q own" if "own \<noteq> ?own" for own
    using that by (auto simp: history_def intro!: filter_cong)
  have "log_ok (insert r pend) ?q" using parts(1) ev by (simp add: log_ok_def)
  moreover have "by_id_ok ?q" using parts(2) by (simp add: by_id_ok_def)
  moreover have "pinned_ok (insert r pend) ?q"
    using parts(3) r unfolding pinned_ok_def by (auto simp: live_def)
  moreover have "decision_ok (insert r pend) ?q"
  proof -
    have "decided (insert r pend) ?q d = decided pend q d" for d
      using r by (auto simp: decided_def live_def)
    with parts(4) show ?thesis by (simp add: decision_ok_def)
  qed
  moreover have "hist_ok (insert r pend) ?q"
  proof -
    let ?h = "filter (\<lambda>x. x \<noteq> r) (history pend q ?own)"
    have "q_owner_hist ?q = (q_owner_hist q)(?own := (if ?h = [] then None else Some ?h))"
      by (simp add: unhist_def Let_def history_lookup [OF parts(5)])
    with parts(5) show ?thesis by (simp add: hist_ok_def h other)
  qed
  moreover have "count_ok (insert r pend) ?q"
    using parts(6) count_insert_pend [OF _ ev r(2)] parts(1)
    by (simp add: count_ok_def log_ok_def evictable_def [abs_def])
  moreover have "marks_ok ?q" using parts(7) by (simp add: marks_ok_def evicted_high_of_def last_seq_of_def)
  ultimately show ?thesis by (simp add: queue_ok_def)
qed

text \<open>An event that is in no index leaves the log.\<close>

definition unlog :: "ref \<Rightarrow> queue \<Rightarrow> queue" where
  "unlog r q = q\<lparr>q_events := filter (\<lambda>x. x \<noteq> r) (q_events q),
                 q_by_id := (q_by_id q)(ev_event_id (q_obj q r) := None)\<rparr>"

lemma unlog_same [simp]:
  "q_obj (unlog r q) = q_obj q" "q_pinned (unlog r q) = q_pinned q"
  "q_by_decision (unlog r q) = q_by_decision q" "q_next (unlog r q) = q_next q"
  "q_owner_hist (unlog r q) = q_owner_hist q" "q_evictable_count (unlog r q) = q_evictable_count q"
  "q_last_seq (unlog r q) = q_last_seq q" "q_evicted_high (unlog r q) = q_evicted_high q"
  "q_last_seq_by_session (unlog r q) = q_last_seq_by_session q"
  "q_evicted_high_by_session (unlog r q) = q_evicted_high_by_session q"
  "q_events (unlog r q) = filter (\<lambda>x. x \<noteq> r) (q_events q)"
  "q_bound (unlog r q) = q_bound q" "q_owner_floor (unlog r q) = q_owner_floor q"
  by (simp_all add: unlog_def)

lemma unlog_ok:
  assumes ok: "queue_ok (insert r pend) q" and r: "r \<notin> pend"
  shows "queue_ok pend (unlog r q)"
proof -
  let ?q = "unlog r q"
  note parts = queue_okD [OF ok]
  have ev: "r \<in> set (q_events q)" using parts(1) by (simp add: log_ok_def)
  have lv: "live pend ?q = live (insert r pend) q" by (auto simp: live_def)
  have h: "history pend ?q own = history (insert r pend) q own" for own
    by (auto simp: history_def evictable_def intro!: filter_cong)
  have cnt: "filter (evictable pend ?q) (q_events ?q) = filter (evictable (insert r pend) q) (q_events q)"
    by (auto simp: evictable_def intro!: filter_cong)
  have "log_ok pend ?q" using parts(1) r by (auto simp: log_ok_def sorted_wrt_filter)
  moreover have "by_id_ok ?q"
    unfolding by_id_ok_def
  proof (intro allI)
    fix i x
    show "q_by_id ?q i = Some x \<longleftrightarrow> x \<in> set (q_events ?q) \<and> ev_event_id (q_obj ?q x) = i"
      using parts(2) event_id_inject [OF parts(2), of x r] ev by (auto simp: by_id_ok_def unlog_def)
  qed
  moreover have "pinned_ok pend ?q" using parts(3) by (simp add: pinned_ok_def lv)
  moreover have "decision_ok pend ?q" using parts(4) by (simp add: decision_ok_def decided_def lv)
  moreover have "hist_ok pend ?q" using parts(5) by (simp add: hist_ok_def h)
  moreover have "count_ok pend ?q" using parts(6) cnt by (simp add: count_ok_def)
  moreover have "marks_ok ?q" using parts(7) by (auto simp: marks_ok_def evicted_high_of_def last_seq_of_def)
  ultimately show ?thesis by (simp add: queue_ok_def)
qed

text \<open>
  \<open>erase\<close> removes one event everywhere, as one round of the loop followed by its share
  of the final filter of the log; a fold of \<open>erase\<close> is the loop followed by the filter.
\<close>

definition erase :: "ref \<Rightarrow> queue \<Rightarrow> queue" where
  "erase r q = (forget_event r q)\<lparr>q_events := filter (\<lambda>x. x \<noteq> r) (q_events q)\<rparr>"

lemma forget_event_same [simp]:
  "q_obj (forget_event r q) = q_obj q" "q_events (forget_event r q) = q_events q"
  "q_next (forget_event r q) = q_next q" "q_last_seq (forget_event r q) = q_last_seq q"
  "q_evicted_high (forget_event r q) = q_evicted_high q"
  "q_last_seq_by_session (forget_event r q) = q_last_seq_by_session q"
  "q_evicted_high_by_session (forget_event r q) = q_evicted_high_by_session q"
  "q_bound (forget_event r q) = q_bound q" "q_owner_floor (forget_event r q) = q_owner_floor q"
  by (simp_all add: forget_event_def Let_def split: option.split)

lemma forget_event_with_events:
  "forget_event r (q\<lparr>q_events := es\<rparr>) = (forget_event r q)\<lparr>q_events := es\<rparr>"
  by (cases q) (simp add: forget_event_def Let_def split: option.split)

lemma fold_erase:
  "fold erase rs q =
     (fold forget_event rs q)\<lparr>q_events := filter (\<lambda>x. x \<notin> set rs) (q_events q)\<rparr>"
proof (induction rs arbitrary: q)
  case Nil
  then show ?case by simp
next
  case (Cons r rs)
  have f: "fold forget_event rs (q\<lparr>q_events := es\<rparr>) = (fold forget_event rs q)\<lparr>q_events := es\<rparr>" for q es
    by (induction rs arbitrary: q) (simp_all add: forget_event_with_events)
  show ?case by (simp add: Cons erase_def [of r] f conj_commute)
qed

lemma erase_ok:
  assumes ok: "queue_ok pend q" and r: "r \<in> live pend q"
  shows "queue_ok pend (erase r q)"
proof (cases "is_pinned (q_obj q r)")
  case True
  then have "erase r q = unlog r (detach r q)"
    using pinned_lookup [OF ok r]
    by (cases q) (simp add: erase_def forget_event_def unlog_def detach_def Let_def)
  with unlog_ok [OF detach_ok [OF ok r True]] r show ?thesis by (simp add: live_def)
next
  case False
  let ?h = "history pend q (ev_owner (q_obj q r))"
  have mem: "r \<in> set ?h" using r False by (simp add: history_def evictable_def live_def)
  then have h: "q_owner_hist q (ev_owner (q_obj q r)) = Some ?h"
    using queue_okD(5) [OF ok] by (auto simp: hist_ok_def)
  have "distinct ?h" using log_distinct [OF queue_okD(1) [OF ok]] by (simp add: history_def)
  with h mem False have "erase r q = unlog r (unhist r q)"
    using pinned_lookup [OF ok r]
    by (cases q) (auto simp: erase_def forget_event_def unlog_def unhist_def Let_def remove1_filter)
  with unlog_ok [OF unhist_ok [OF ok r False]] r show ?thesis by (simp add: live_def)
qed

lemma erase_same [simp]:
  "q_obj (erase r q) = q_obj q" "q_events (erase r q) = filter (\<lambda>x. x \<noteq> r) (q_events q)"
  by (simp_all add: erase_def)

lemma fold_erase_ok:
  assumes "queue_ok {} q" "distinct rs" "set rs \<subseteq> set (q_events q)"
  shows "queue_ok {} (fold erase rs q)"
  using assms
proof (induction rs arbitrary: q)
  case (Cons r rs)
  have "queue_ok {} (erase r q)" using erase_ok [OF Cons.prems(1), of r] Cons.prems(3) by (simp add: live_def)
  moreover have "set rs \<subseteq> set (q_events (erase r q))" using Cons.prems by auto
  ultimately show ?case using Cons.IH Cons.prems(2) by simp
qed simp

text \<open>With no event of a session left in the log, its own marks may be dropped.\<close>

lemma drop_marks_ok:
  assumes ok: "queue_ok {} q" and none: "\<forall>r\<in>set (q_events q). ev_session_id (q_obj q r) \<noteq> s"
  shows "queue_ok {} (q\<lparr>q_owner_cache := c, q_last_seq_by_session := (q_last_seq_by_session q)(s := None),
           q_evicted_high_by_session := (q_evicted_high_by_session q)(s := None)\<rparr>)"
    (is "queue_ok {} ?q")
proof -
  note parts = queue_okD [OF ok]
  have high: "evicted_high_of ?q t = (if t = s then 0 else evicted_high_of q t)"
    "last_seq_of ?q t = (if t = s then 0 else last_seq_of q t)" for t
    by (simp_all add: evicted_high_of_def last_seq_of_def)
  have "log_ok {} ?q" using parts(1) by (simp add: log_ok_def)
  moreover have "by_id_ok ?q" using parts(2) by (simp add: by_id_ok_def)
  moreover have "pinned_ok {} ?q" using parts(3) by (simp add: pinned_ok_def live_def)
  moreover have "decision_ok {} ?q" using parts(4) by (simp add: decision_ok_def decided_def live_def)
  moreover have "hist_ok {} ?q" using parts(5) by (simp add: hist_ok_def history_def evictable_def [abs_def])
  moreover have "count_ok {} ?q" using parts(6) by (simp add: count_ok_def evictable_def [abs_def])
  moreover have "marks_ok ?q"
    unfolding marks_ok_def high using parts(7) none by (auto simp: marks_ok_def)
  ultimately show ?thesis by (simp add: queue_ok_def)
qed

lemma fold_forget_obj [simp]: "q_obj (fold forget_event rs q) = q_obj q" "q_events (fold forget_event rs q) = q_events q"
  by (induction rs arbitrary: q) simp_all

lemma forget_session_eq:
  "forget_session s q =
     (let q1 = fold erase (filter (\<lambda>r. ev_session_id (q_obj q r) = s) (q_events q)) q
      in q1\<lparr>q_owner_cache := (q_owner_cache q1)(s := None),
            q_last_seq_by_session := (q_last_seq_by_session q1)(s := None),
            q_evicted_high_by_session := (q_evicted_high_by_session q1)(s := None)\<rparr>)"
proof -
  have "filter (\<lambda>x. x \<notin> set (filter (\<lambda>r. ev_session_id (q_obj q r) = s) (q_events q))) (q_events q) =
    filter (\<lambda>r. ev_session_id (q_obj q r) \<noteq> s) (q_events q)"
    by (auto intro!: filter_cong)
  then show ?thesis
    by (simp only: forget_session_def fold_erase fold_forget_obj Let_def) simp
qed

lemma fold_erase_same [simp]:
  "q_obj (fold erase rs q) = q_obj q"
  "q_events (fold erase rs q) = filter (\<lambda>x. x \<notin> set rs) (q_events q)"
  by (simp_all add: fold_erase)

lemma forget_session_ok:
  assumes ok: "queue_ok {} q"
  shows "queue_ok {} (forget_session s q)"
proof -
  let ?rs = "filter (\<lambda>r. ev_session_id (q_obj q r) = s) (q_events q)"
  have "queue_ok {} (fold erase ?rs q)"
    by (rule fold_erase_ok [OF ok]) (use log_distinct [OF queue_okD(1) [OF ok]] in auto)
  moreover have "\<forall>r\<in>set (q_events (fold erase ?rs q)). ev_session_id (q_obj (fold erase ?rs q) r) \<noteq> s"
    by auto
  ultimately show ?thesis unfolding forget_session_eq Let_def by (rule drop_marks_ok)
qed

section \<open>Hooks and runs\<close>

text \<open>The event ids an operation uses, and that they are new and different.\<close>

fun hook_ids :: "hook_op list \<Rightarrow> string list" where
  "hook_ids [] = []"
| "hook_ids (HPublish i args inner # ops) = i # hook_ids inner @ hook_ids ops"
| "hook_ids (_ # ops) = hook_ids ops"

definition fresh :: "queue \<Rightarrow> string list \<Rightarrow> bool" where
  "fresh q ids \<longleftrightarrow> distinct ids \<and> (\<forall>i\<in>set ids. q_by_id q i = None)"

text \<open>
  What any operation may do to the events already published: their identity never
  changes, a resolution is final, and the log only loses old entries.
\<close>

definition evolves :: "queue \<Rightarrow> queue \<Rightarrow> bool" where
  "evolves q q' \<longleftrightarrow>
     q_next q \<le> q_next q' \<and> q_bound q' = q_bound q \<and> q_owner_floor q' = q_owner_floor q \<and>
     (\<forall>r<q_next q. ev_session_id (q_obj q' r) = ev_session_id (q_obj q r) \<and>
        ev_event_id (q_obj q' r) = ev_event_id (q_obj q r) \<and>
        ev_decision_id (q_obj q' r) = ev_decision_id (q_obj q r) \<and>
        (is_pinned (q_obj q' r) \<longrightarrow> is_pinned (q_obj q r)) \<and>
        (r \<in> set (q_events q') \<longrightarrow> r \<in> set (q_events q)))"

lemma evolves_refl [simp]: "evolves q q"
  by (simp add: evolves_def)

lemma evolves_trans: "evolves q q' \<Longrightarrow> evolves q' q'' \<Longrightarrow> evolves q q''"
  unfolding evolves_def by (metis order_less_le_trans order_trans)

text \<open>
  The ghost history, since the heap keeps every published event: a published event not of
  a forgotten session is in the log or counted as evicted, an unresolved decision is in
  the log, and the eviction marks name events that really left it.
\<close>

definition published :: "queue \<Rightarrow> ref \<Rightarrow> bool" where
  "published q r \<longleftrightarrow> 0 < r \<and> r < q_next q"

definition accounted :: "string set \<Rightarrow> queue \<Rightarrow> bool" where
  "accounted forgotten q \<longleftrightarrow>
     (\<forall>r. published q r \<and> ev_session_id (q_obj q r) \<notin> forgotten \<longrightarrow>
        (r \<in> set (q_events q) \<or> r \<le> evicted_high_of q (ev_session_id (q_obj q r))) \<and>
        (is_pinned (q_obj q r) \<longrightarrow> r \<in> set (q_events q))) \<and>
     (\<forall>s. 0 < evicted_high_of q s \<longrightarrow>
        published q (evicted_high_of q s) \<and> evicted_high_of q s \<notin> set (q_events q) \<and>
        ev_session_id (q_obj q (evicted_high_of q s)) = s) \<and>
     (0 < q_evicted_high q \<longrightarrow> published q (q_evicted_high q) \<and> q_evicted_high q \<notin> set (q_events q))"

lemma drop_event_same:
  assumes "queue_ok pend q" "is_victim q v"
  shows "q_obj (drop_event v q) = q_obj q" "q_next (drop_event v q) = q_next q"
    "q_bound (drop_event v q) = q_bound q" "q_owner_floor (drop_event v q) = q_owner_floor q"
    "q_events (drop_event v q) = filter (\<lambda>x. x \<noteq> v) (q_events q)"
    "q_by_id (drop_event v q) = (q_by_id q)(ev_event_id (q_obj q v) := None)"
    "evicted_high_of (drop_event v q) s =
       (if s = ev_session_id (q_obj q v) then max (evicted_high_of q s) v else evicted_high_of q s)"
    "last_seq_of (drop_event v q) s = last_seq_of q s"
    "q_evicted_high (drop_event v q) = max (q_evicted_high q) v"
  by (simp_all add: drop_event_eq [OF assms] evicted_high_of_def last_seq_of_def)

lemma drop_event_evolves: "queue_ok pend q \<Longrightarrow> is_victim q v \<Longrightarrow> evolves q (drop_event v q)"
  by (simp add: evolves_def drop_event_same)

lemma drop_event_accounted:
  assumes ok: "queue_ok pend q" and v: "is_victim q v" and acc: "accounted S q"
  shows "accounted S (drop_event v q)"
proof -
  note same = drop_event_same [OF ok v]
  have pub: "published (drop_event v q) r = published q r" for r by (simp add: published_def same)
  have vq: "v \<in> set (q_events q)" "published q v" "\<not> is_pinned (q_obj q v)"
    using victim_live(1,2) [OF ok v] queue_okD(1) [OF ok]
    by (auto simp: log_ok_def published_def evictable_def)
  have high: "evicted_high_of q s \<le> evicted_high_of (drop_event v q) s" for s by (simp add: same)
  have "(r \<in> set (q_events (drop_event v q)) \<or> r \<le> evicted_high_of (drop_event v q) (ev_session_id (q_obj q r))) \<and>
      (is_pinned (q_obj q r) \<longrightarrow> r \<in> set (q_events (drop_event v q)))"
    if r: "published q r" "ev_session_id (q_obj q r) \<notin> S" for r
  proof (cases "r = v")
    case True
    with vq show ?thesis by (simp add: same)
  next
    case False
    have "(r \<in> set (q_events q) \<or> r \<le> evicted_high_of q (ev_session_id (q_obj q r))) \<and>
        (is_pinned (q_obj q r) \<longrightarrow> r \<in> set (q_events q))"
      using acc r by (simp add: accounted_def)
    with False high [of "ev_session_id (q_obj q r)"] show ?thesis by (auto simp: same(5) intro: order_trans)
  qed
  moreover have "published q (evicted_high_of (drop_event v q) s) \<and>
      evicted_high_of (drop_event v q) s \<notin> set (q_events (drop_event v q)) \<and>
      ev_session_id (q_obj q (evicted_high_of (drop_event v q) s)) = s"
    if "0 < evicted_high_of (drop_event v q) s" for s
  proof (cases "s = ev_session_id (q_obj q v) \<and> evicted_high_of q s \<le> v")
    case True
    then have "evicted_high_of (drop_event v q) s = v" by (auto simp: same)
    with True vq show ?thesis by (simp add: same)
  next
    case False
    then have "evicted_high_of (drop_event v q) s = evicted_high_of q s" by (auto simp: same)
    with acc that show ?thesis by (simp add: accounted_def same)
  qed
  moreover have "published q (q_evicted_high (drop_event v q)) \<and>
      q_evicted_high (drop_event v q) \<notin> set (q_events (drop_event v q))"
    using acc vq by (auto simp: same max_def accounted_def)
  ultimately show ?thesis unfolding accounted_def same(1) pub by blast
qed

lemma evict_evolves: "queue_ok pend q \<Longrightarrow> evolves q (evict_if_needed q)"
  using evict_induct [of pend q "evolves q"] evolves_trans drop_event_evolves pick_victim_Some
  by (meson evolves_refl)

lemma evict_accounted: "queue_ok pend q \<Longrightarrow> accounted S q \<Longrightarrow> accounted S (evict_if_needed q)"
  using evict_induct [of pend q "accounted S"] drop_event_accounted pick_victim_Some by meson

lemma evict_by_id:
  assumes "queue_ok pend q" "q_by_id (evict_if_needed q) i = Some x"
  shows "q_by_id q i = Some x"
proof -
  have "\<forall>i x. q_by_id (evict_if_needed q) i = Some x \<longrightarrow> q_by_id q i = Some x"
  proof (rule conjunct2 [OF evict_induct [OF assms(1), where P = "\<lambda>q'. \<forall>i x. q_by_id q' i = Some x \<longrightarrow> q_by_id q i = Some x"]])
    fix q' v
    assume "queue_ok pend q'" "\<forall>i x. q_by_id q' i = Some x \<longrightarrow> q_by_id q i = Some x" "pick_victim q' = Some v"
    then show "\<forall>i x. q_by_id (drop_event v q') i = Some x \<longrightarrow> q_by_id q i = Some x"
      using drop_event_same(6) [of pend q' v] pick_victim_Some by simp
  qed simp
  with assms(2) show ?thesis by blast
qed

text \<open>The four facts every step keeps, bundled so that they compose.\<close>

definition step_ok :: "ref set \<Rightarrow> string set \<Rightarrow> string list \<Rightarrow> queue \<Rightarrow> queue \<Rightarrow> bool" where
  "step_ok pend S ids q q' \<longleftrightarrow>
     queue_ok pend q' \<and> evolves q q' \<and> accounted S q' \<and> dom (q_by_id q') \<subseteq> dom (q_by_id q) \<union> set ids"

lemma step_okD:
  assumes "step_ok pend S ids q q'"
  shows "queue_ok pend q'" "evolves q q'" "accounted S q'" "dom (q_by_id q') \<subseteq> dom (q_by_id q) \<union> set ids"
  using assms by (simp_all add: step_ok_def)

lemma step_ok_refl: "queue_ok pend q \<Longrightarrow> accounted S q \<Longrightarrow> step_ok pend S ids q q"
  by (simp add: step_ok_def)

lemma step_ok_trans:
  "step_ok pend S ids q q' \<Longrightarrow> step_ok pend' S' ids' q' q'' \<Longrightarrow> step_ok pend' S' (ids @ ids') q q''"
  unfolding step_ok_def using evolves_trans by fastforce

lemma fresh_step: "step_ok pend S ids q q' \<Longrightarrow> fresh q (ids @ rest) \<Longrightarrow> fresh q' rest"
  unfolding step_ok_def fresh_def by (auto simp: dom_def subset_iff) 

lemma accounted_cong:
  assumes "accounted S q" "q_events q' = q_events q" "q_next q' = q_next q"
    "\<And>s. evicted_high_of q' s = evicted_high_of q s" "q_evicted_high q' = q_evicted_high q"
    "\<And>r. ev_session_id (q_obj q' r) = ev_session_id (q_obj q r)"
    "\<And>r. is_pinned (q_obj q' r) \<Longrightarrow> is_pinned (q_obj q r)"
  shows "accounted S q'"
  using assms(1,7) unfolding accounted_def published_def assms(2-6) by blast

lemma evict_step:
  assumes "queue_ok pend q" "accounted S q"
  shows "step_ok pend S [] q (evict_if_needed q)"
  using evict_ok [OF assms(1)] evict_evolves [OF assms(1)] evict_accounted [OF assms] evict_by_id [OF assms(1)]
  by (auto simp: step_ok_def)

lemma settle_all_step:
  assumes "queue_ok pend q" "accounted S q" "distinct rs"
    "\<forall>r\<in>set rs. r \<in> live pend q \<and> is_pinned (q_obj q r)"
  shows "step_ok pend S [] q (settle_all x rs q)"
proof -
  have "accounted S (settle_all x rs q)"
    by (rule accounted_cong [OF assms(2)]) (simp_all add: evicted_high_of_def)
  with settle_all_ok [OF assms(1,3,4)] show ?thesis by (simp add: step_ok_def evolves_def)
qed

lemma resolve_decision_step:
  assumes "queue_ok pend q" "accounted S q"
  shows "step_ok pend S [] q (fst (resolve_decision d x q))"
proof (rule resolve_decision_cases [OF assms(1), of d x])
  fix rs
  assume rs: "set rs = decided pend q d" "distinct rs"
    and eq: "resolve_decision d x q = (evict_if_needed (settle_all x rs q), Some (foldr max rs 0))"
  have "\<forall>r\<in>set rs. r \<in> live pend q \<and> is_pinned (q_obj q r)" using rs by (auto simp: decided_def)
  note s = settle_all_step [OF assms rs(2) this]
  from step_ok_trans [OF s evict_step [OF step_okD(1,3) [OF s]]] show ?thesis by (simp add: eq)
qed (use assms in \<open>simp add: step_ok_refl\<close>)

lemma set_resolved_step:
  assumes "queue_ok pend q" "accounted S q" "r \<in> pend \<or> \<not> is_pinned (q_obj q r)"
  shows "step_ok pend S [] q (set_resolved r x q)"
proof -
  have "accounted S (set_resolved r x q)"
    by (rule accounted_cong [OF assms(2)]) (simp_all add: evicted_high_of_def)
  with set_resolved_ok [OF assms(1,3)] show ?thesis by (simp add: step_ok_def evolves_def)
qed

lemma mark_answered_cases:
  assumes ok: "queue_ok pend q"
  obtains "q_by_id q i = None" "mark_answered i q = (q, None)"
  | r where "q_by_id q i = Some r" "r \<in> pend \<or> \<not> is_pinned (q_obj q r)"
      "mark_answered i q = (set_resolved r ''answered'' q, Some r)"
  | r where "q_by_id q i = Some r" "r \<in> live pend q" "is_pinned (q_obj q r)"
      "mark_answered i q = (evict_if_needed (settle_all ''answered'' [r] q), Some r)"
proof (cases "q_by_id q i")
  case None
  then show ?thesis by (intro that(1)) (simp_all add: mark_answered_def)
next
  case (Some r)
  then have r: "r \<in> set (q_events q)" "ev_event_id (q_obj q r) = i"
    using queue_okD(2) [OF ok] by (auto simp: by_id_ok_def)
  show ?thesis
  proof (cases "map_of (q_pinned q) i")
    case None
    then have "r \<in> pend \<or> \<not> is_pinned (q_obj q r)"
      using pinned_lookup [OF ok, of r] r by (auto simp: live_def)
    with Some None show ?thesis by (intro that(2)) (simp_all add: mark_answered_def)
  next
    case (Some r')
    then have r': "r' \<in> live pend q" "is_pinned (q_obj q r')" "ev_event_id (q_obj q r') = i"
      using queue_okD(3) [OF ok] by (auto simp: pinned_ok_def)
    then have "r' = r"
      using event_id_inject [OF queue_okD(2) [OF ok], of r' r] r by (simp add: live_def)
    with r' Some \<open>q_by_id q i = Some r\<close> show ?thesis
      by (intro that(3) [of r]) (simp_all add: mark_answered_def)
  qed
qed

lemma mark_answered_step:
  assumes "queue_ok pend q" "accounted S q"
  shows "step_ok pend S [] q (fst (mark_answered i q))"
proof (rule mark_answered_cases [OF assms(1), of i])
  fix r
  assume r: "r \<in> live pend q" "is_pinned (q_obj q r)"
    and eq: "mark_answered i q = (evict_if_needed (settle_all ''answered'' [r] q), Some r)"
  have s: "step_ok pend S [] q (settle_all ''answered'' [r] q)"
    by (rule settle_all_step [OF assms]) (use r in simp_all)
  from step_ok_trans [OF s evict_step [OF step_okD(1,3) [OF s]]] show ?thesis by (simp add: eq)
qed (use assms in \<open>simp_all add: step_ok_refl set_resolved_step\<close>)

lemma publish_begin_step:
  assumes ok: "queue_ok pend q" and acc: "accounted S q" and fresh: "q_by_id q i = None"
    and b: "publish_begin rs i args q = (r, q')"
  shows "step_ok (insert r pend) S [i] q q'"
proof -
  note same = publish_begin_same [OF b]
  have old: "q_obj q' x = q_obj q x" if "x < q_next q" for x using that same(1,15) by auto
  have high: "evicted_high_of q' s = evicted_high_of q s" for s
    by (simp add: evicted_high_of_def same(12))
  have pos: "0 < q_next q" using queue_okD(1) [OF ok] by (simp add: log_ok_def)
  have lt: "evicted_high_of q s < q_next q" for s
  proof -
    have "evicted_high_of q s \<le> q_evicted_high q" "q_evicted_high q \<le> q_last_seq q"
      "q_next q = Suc (q_last_seq q)"
      using queue_okD(7) [OF ok] by (simp_all add: marks_ok_def)
    then show ?thesis by linarith
  qed
  have "evolves q q'"
    using old by (auto simp: evolves_def same(1,2,8,13,14))
  moreover have "accounted S q'"
  proof -
    have pub: "published q' x \<longleftrightarrow> published q x \<or> x = q_next q" for x
      using pos by (auto simp: published_def same(1,8))
    have "q_evicted_high q < q_next q" using queue_okD(7) [OF ok] by (auto simp: marks_ok_def)
    with acc old lt lt [THEN less_imp_neq] show ?thesis
      unfolding accounted_def high pub same(2,10) by (auto simp: same(1) published_def)
  qed
  ultimately show ?thesis
    using publish_begin_ok(1) [OF ok fresh b] by (auto simp: step_ok_def same(3))
qed

lemma index_new_same [simp]:
  "q_events (index_new r q) = q_events q" "q_obj (index_new r q) = q_obj q"
  "q_by_id (index_new r q) = q_by_id q" "q_next (index_new r q) = q_next q"
  "q_evicted_high_by_session (index_new r q) = q_evicted_high_by_session q"
  "q_evicted_high (index_new r q) = q_evicted_high q"
  "q_bound (index_new r q) = q_bound q" "q_owner_floor (index_new r q) = q_owner_floor q"
  by (simp_all add: index_new_def pin_def Let_def split: option.splits)

lemma publish_end_step:
  assumes "queue_ok (insert r pend) q" "accounted S q" "r \<notin> pend"
  shows "step_ok pend S [] q (publish_end r q)"
proof -
  have "accounted S (index_new r q)"
    by (rule accounted_cong [OF assms(2)]) (simp_all add: evicted_high_of_def)
  with index_new_ok [OF assms(1,3)] have s: "step_ok pend S [] q (index_new r q)"
    by (simp add: step_ok_def evolves_def)
  from step_ok_trans [OF s evict_step [OF step_okD(1,3) [OF s]]] show ?thesis by (simp add: publish_end_def)
qed

lemma run_hook_step:
  assumes "queue_ok pend q" "accounted S q" "own \<in> pend" "fresh q (hook_ids ops)"
  shows "step_ok pend S (hook_ids ops) q (fst (run_hook rs ops own q))"
  using assms
proof (induction rs ops own q arbitrary: pend rule: run_hook.induct)
  case (1 rs own q)
  then show ?case by (simp add: step_ok_refl)
next
  case (2 rs d reason ops own q)
  note s = resolve_decision_step [OF "2.prems"(1,2), of d reason]
  have "fresh (fst (resolve_decision d reason q)) (hook_ids ops)"
    using fresh_step [OF s] "2.prems"(4) by simp
  from step_ok_trans [OF s "2.IH" [OF step_okD(1,3) [OF s] "2.prems"(3) this]] show ?case by simp
next
  case (3 rs i ops own q)
  note s = mark_answered_step [OF "3.prems"(1,2), of i]
  have "fresh (fst (mark_answered i q)) (hook_ids ops)"
    using fresh_step [OF s] "3.prems"(4) by simp
  from step_ok_trans [OF s "3.IH" [OF step_okD(1,3) [OF s] "3.prems"(3) this]] show ?case by simp
next
  case (4 rs ops own q)
  have s: "step_ok pend S [] q (set_resolved own ''superseded'' q)"
    by (rule set_resolved_step [OF "4.prems"(1,2)]) (use "4.prems"(3) in simp)
  have "fresh (set_resolved own ''superseded'' q) (hook_ids ops)"
    using fresh_step [OF s] "4.prems"(4) by simp
  from step_ok_trans [OF s "4.IH" [OF step_okD(1,3) [OF s] "4.prems"(3) this]] show ?case by simp
next
  case (5 rs e ops own q)
  then show ?case by (simp add: step_ok_refl)
next
  case (6 rs i args inner ops own q)
  obtain r q1 where b: "publish_begin rs i args q = (r, q1)" by fastforce
  obtain q2 raised where h: "run_hook rs inner r q1 = (q2, raised)" by fastforce
  have new: "q_by_id q i = None" using "6.prems"(4) by (simp add: fresh_def)
  note s1 = publish_begin_step [OF "6.prems"(1,2) new b]
  have f1: "fresh q1 (hook_ids inner @ hook_ids ops)"
    using fresh_step [OF s1, of "hook_ids inner @ hook_ids ops"] "6.prems"(4) by simp
  then have "fresh q1 (hook_ids inner)" by (simp add: fresh_def)
  from "6.IH"(1) [OF b [symmetric] refl step_okD(1,3) [OF s1] _ this]
  have s2: "step_ok (insert r pend) S (hook_ids inner) q1 q2" by (simp add: h)
  have "r \<notin> set (q_events q)" by (rule publish_begin_ok(2) [OF "6.prems"(1) new b])
  moreover have "pend \<subseteq> set (q_events q)" using queue_okD(1) [OF "6.prems"(1)] by (simp add: log_ok_def)
  ultimately have s3: "step_ok pend S [] q2 (publish_end r q2)"
    using publish_end_step [OF step_okD(1,3) [OF s2]] by blast
  note s13 = step_ok_trans [OF s1 step_ok_trans [OF s2 s3]]
  show ?case
  proof (cases raised)
    case None
    have "fresh (publish_end r q2) (hook_ids ops)"
      using fresh_step [OF s13, of "hook_ids ops"] "6.prems"(4) by simp
    from "6.IH"(2) [OF b [symmetric] refl h [symmetric] refl refl None step_okD(1,3) [OF s3] "6.prems"(3) this]
    show ?thesis using step_ok_trans [OF s13] None by (simp add: b h)
  next
    case (Some e)
    with s13 show ?thesis by (auto simp: b h step_ok_def)
  qed
qed

lemma publish_step:
  assumes "queue_ok {} q" "accounted S q" "fresh q (i # hook_ids hook)"
  shows "step_ok {} S (i # hook_ids hook) q (fst (publish rs (run_hook rs hook) i args q))"
proof -
  obtain r q1 where b: "publish_begin rs i args q = (r, q1)" by fastforce
  obtain q2 raised where h: "run_hook rs hook r q1 = (q2, raised)" by fastforce
  note s1 = publish_begin_step [OF assms(1,2) _ b]
  have new: "q_by_id q i = None" using assms(3) by (simp add: fresh_def)
  have "fresh q1 (hook_ids hook)" using fresh_step [OF s1 [OF new]] assms(3) by simp
  from run_hook_step [OF step_okD(1,3) [OF s1 [OF new]] _ this, of r rs]
  have s2: "step_ok {r} S (hook_ids hook) q1 q2" by (simp add: h)
  have s3: "step_ok {} S [] q2 (publish_end r q2)"
    by (rule publish_end_step [OF step_okD(1,3) [OF s2]]) simp
  from step_ok_trans [OF s1 [OF new] step_ok_trans [OF s2 s3]] show ?thesis by (simp add: publish_def b h)
qed

lemma forget_session_same:
  "q_obj (forget_session s q) = q_obj q" "q_next (forget_session s q) = q_next q"
  "q_bound (forget_session s q) = q_bound q" "q_owner_floor (forget_session s q) = q_owner_floor q"
  "q_events (forget_session s q) = filter (\<lambda>r. ev_session_id (q_obj q r) \<noteq> s) (q_events q)"
  "evicted_high_of (forget_session s q) t = (if t = s then 0 else evicted_high_of q t)"
  "q_evicted_high (forget_session s q) = q_evicted_high q"
proof -
  have f: "q_next (fold forget_event rs q) = q_next q" "q_bound (fold forget_event rs q) = q_bound q"
    "q_owner_floor (fold forget_event rs q) = q_owner_floor q"
    "q_evicted_high_by_session (fold forget_event rs q) = q_evicted_high_by_session q"
    "q_evicted_high (fold forget_event rs q) = q_evicted_high q" for rs
    by (induction rs arbitrary: q) simp_all
  show "q_obj (forget_session s q) = q_obj q" "q_next (forget_session s q) = q_next q"
    "q_bound (forget_session s q) = q_bound q" "q_owner_floor (forget_session s q) = q_owner_floor q"
    "q_events (forget_session s q) = filter (\<lambda>r. ev_session_id (q_obj q r) \<noteq> s) (q_events q)"
    "evicted_high_of (forget_session s q) t = (if t = s then 0 else evicted_high_of q t)"
    "q_evicted_high (forget_session s q) = q_evicted_high q"
    by (simp_all add: forget_session_def Let_def f evicted_high_of_def)
qed

lemma forget_session_by_id: "q_by_id (forget_session s q) i = Some x \<Longrightarrow> q_by_id q i = Some x"
proof -
  have "q_by_id (fold forget_event rs q) i = Some x \<Longrightarrow> q_by_id q i = Some x" for rs
  proof (induction rs arbitrary: q)
    case (Cons r rs)
    from Cons.IH [of "forget_event r q"] Cons.prems have "q_by_id (forget_event r q) i = Some x" by simp
    then show ?case by (auto simp: forget_event_def Let_def split: option.splits if_splits)
  qed simp
  then show "q_by_id (forget_session s q) i = Some x \<Longrightarrow> q_by_id q i = Some x"
    by (simp add: forget_session_def Let_def)
qed

lemma forget_session_step:
  assumes "queue_ok {} q" "accounted S q"
  shows "step_ok {} (insert s S) [] q (forget_session s q)"
proof -
  have "accounted (insert s S) (forget_session s q)"
    using assms(2) unfolding accounted_def published_def forget_session_same by auto
  moreover have "evolves q (forget_session s q)" by (simp add: evolves_def forget_session_same)
  ultimately show ?thesis
    using forget_session_ok [OF assms(1)] forget_session_by_id [of s q] by (auto simp: step_ok_def dom_def)
qed

section \<open>Steps and runs\<close>

fun op_ids :: "queue_op \<Rightarrow> string list" where
  "op_ids (Publish_op i args hook) = i # hook_ids hook"
| "op_ids _ = []"

fun op_forgets :: "queue_op \<Rightarrow> string set" where
  "op_forgets (Forget_op s) = {s}"
| "op_forgets _ = {}"

lemma queue_step_ok:
  assumes "queue_ok {} q" "accounted S q" "fresh q (op_ids op)"
  shows "step_ok {} (op_forgets op \<union> S) (op_ids op) q (queue_step rs q op)"
  using assms publish_step [OF assms(1,2)] mark_answered_step [OF assms(1,2)]
    resolve_decision_step [OF assms(1,2)] forget_session_step [OF assms(1,2)]
  by (cases op) (auto simp: queue_step_def)

text \<open>The machine carries the set of forgotten sessions along as a ghost.\<close>

definition ghost_step :: "owner_resolver \<Rightarrow> queue \<times> string set \<Rightarrow> queue_op \<Rightarrow> queue \<times> string set" where
  "ghost_step rs t op = (queue_step rs (fst t) op, op_forgets op \<union> snd t)"

definition ghost_ok :: "queue \<times> string set \<Rightarrow> bool" where
  "ghost_ok t \<longleftrightarrow> queue_ok {} (fst t) \<and> accounted (snd t) (fst t)"

interpretation queue_machine: step_machine "ghost_step rs" "\<lambda>t op. fresh (fst t) (op_ids op)" ghost_ok
  for rs
  by unfold_locales (auto simp: ghost_ok_def ghost_step_def dest: queue_step_ok step_okD)

definition queue_run :: "owner_resolver \<Rightarrow> queue \<Rightarrow> queue_op list \<Rightarrow> queue" where
  "queue_run rs q ops = foldl (queue_step rs) q ops"

primrec fresh_run :: "owner_resolver \<Rightarrow> queue \<Rightarrow> queue_op list \<Rightarrow> bool" where
  "fresh_run rs q [] = True"
| "fresh_run rs q (op # ops) = (fresh q (op_ids op) \<and> fresh_run rs (queue_step rs q op) ops)"

definition forgotten :: "queue_op list \<Rightarrow> string set" where
  "forgotten ops = (\<Union>op\<in>set ops. op_forgets op)"

lemma machine_run: "queue_machine.run rs (q, S) ops = (queue_run rs q ops, forgotten ops \<union> S)"
  by (induction ops arbitrary: q S) (auto simp: queue_run_def ghost_step_def forgotten_def)

lemma machine_legal: "queue_machine.legal_run rs (q, S) ops = fresh_run rs q ops"
  by (induction ops arbitrary: q S) (auto simp: ghost_step_def)

lemma queue_run_ok:
  assumes "queue_ok {} q" "accounted S q" "fresh_run rs q ops"
  shows "queue_ok {} (queue_run rs q ops)" "accounted (forgotten ops \<union> S) (queue_run rs q ops)"
  using queue_machine.run_inv [of "(q, S)" rs ops] assms
  by (simp_all add: machine_run machine_legal ghost_ok_def)

lemma accounted_init: "accounted S (EventQueue b f)"
  by (simp add: accounted_def published_def EventQueue_def evicted_high_of_def)

lemma queue_run_evolves:
  assumes "queue_ok {} q" "accounted S q" "fresh_run rs q ops"
  shows "evolves q (queue_run rs q ops)"
  using assms
proof (induction ops arbitrary: q S)
  case (Cons op ops)
  from Cons.prems have "fresh q (op_ids op)" by simp
  note s = step_okD [OF queue_step_ok [OF Cons.prems(1,2) this, of rs]]
  have "fresh_run rs (queue_step rs q op) ops" using Cons.prems(3) by simp
  from evolves_trans [OF s(2) Cons.IH [OF s(1,3) this]] show ?case by (simp add: queue_run_def)
qed (simp add: queue_run_def)

end
