(* ===== verification/Nelix_Events_Props.thy ===== *)
theory Nelix_Events_Props
  imports Nelix_Events_Runs
begin

text \<open>
  What the event queue promises to its callers, over every sequence of operations from an
  empty queue: no unresolved decision is lost, delivery has no gap that is not reported as
  an expired cursor, resolution is exact, and eviction is bounded and fair.
\<close>

section \<open>Lookups\<close>

lemma run_facts:
  assumes "fresh_run rs (EventQueue b f) ops"
  shows "queue_ok {} (queue_run rs (EventQueue b f) ops)"
    "accounted (forgotten ops) (queue_run rs (EventQueue b f) ops)"
    "q_bound (queue_run rs (EventQueue b f) ops) = b" "q_owner_floor (queue_run rs (EventQueue b f) ops) = f"
  using queue_run_ok [OF queue_ok_init accounted_init [of "{}"] assms]
    queue_run_evolves [OF queue_ok_init accounted_init [of "{}"] assms]
  by (simp_all add: evolves_def EventQueue_def)

definition scoped :: "queue \<Rightarrow> string option \<Rightarrow> ref \<Rightarrow> bool" where
  "scoped q s r \<longleftrightarrow> s = None \<or> s = Some (ev_session_id (q_obj q r))"

lemma Max_insert_max:
  "finite S \<Longrightarrow> Max (insert b (insert r S)) = Max (insert (max b (r :: nat)) S)"
  by (cases "S = {}") (simp_all add: max.assoc)

lemma pending_foldl:
  "foldl (\<lambda>best r. if P r then (case best of None \<Rightarrow> Some r | Some b \<Rightarrow> if r > b then Some r else best) else best)
     best rs =
   (case best of
      None \<Rightarrow> if filter P rs = [] then None else Some (Max (set (filter P rs)))
    | Some (b :: nat) \<Rightarrow> Some (Max (insert b (set (filter P rs)))))"
proof (induction rs arbitrary: best)
  case Nil
  then show ?case by (cases best) simp_all
next
  case (Cons r rs)
  show ?case
  proof (cases "P r")
    case True
    have "Max (insert b (insert r (set (filter P rs)))) = Max (insert (max b r) (set (filter P rs)))" for b
      by (rule Max_insert_max) simp
    moreover have "max b r = r" if "b < r" for b using that by simp
    moreover have "max b r = b" if "\<not> b < r" for b using that by simp
    ultimately show ?thesis
      using True Cons by (cases best) (auto simp del: set_filter split: if_splits) 
  next
    case False
    then have "filter P (r # rs) = filter P rs" by simp
    with False Cons show ?thesis by (simp only: foldl.simps if_False)
  qed
qed

lemma pinned_refs:
  assumes "queue_ok {} q"
  shows "set (map snd (q_pinned q)) = {r \<in> set (q_events q). is_pinned (q_obj q r)}"
proof -
  have d: "dict_ok (q_pinned q)" and m: "\<And>i r. map_of (q_pinned q) i = Some r \<longleftrightarrow>
      r \<in> set (q_events q) \<and> is_pinned (q_obj q r) \<and> ev_event_id (q_obj q r) = i"
    using queue_okD(3) [OF assms] by (auto simp: pinned_ok_def live_def)
  have p: "(i, r) \<in> set (q_pinned q) \<longleftrightarrow> r \<in> set (q_events q) \<and> is_pinned (q_obj q r) \<and> ev_event_id (q_obj q r) = i" for i r
    using m [of i r] dict_set_conv [OF d, of i r] by (simp only:)
  show ?thesis
  proof (intro equalityI subsetI)
    fix r assume "r \<in> {r \<in> set (q_events q). is_pinned (q_obj q r)}"
    then have "(ev_event_id (q_obj q r), r) \<in> set (q_pinned q)" by (simp add: p)
    then show "r \<in> set (map snd (q_pinned q))" by force
  next
    fix r assume "r \<in> set (map snd (q_pinned q))"
    then obtain i where "(i, r) \<in> set (q_pinned q)" by auto
    then show "r \<in> {r \<in> set (q_events q). is_pinned (q_obj q r)}" by (simp add: p)
  qed
qed

definition unresolved :: "queue \<Rightarrow> string option \<Rightarrow> ref set" where
  "unresolved q s = {r \<in> set (q_events q). is_pinned (q_obj q r) \<and> scoped q s r}"

lemma finite_unresolved [simp]: "finite (unresolved q s)"
  by (simp add: unresolved_def)

lemma pending_eq:
  assumes "queue_ok {} q"
  shows "pending q s = (if unresolved q s = {} then None else Some (Max (unresolved q s)))"
proof -
  have "set (filter (scoped q s) (map snd (q_pinned q))) = unresolved q s"
    using pinned_refs [OF assms] by (auto simp: unresolved_def simp del: set_map)
  moreover have "filter (scoped q s) (map snd (q_pinned q)) = [] \<longleftrightarrow> unresolved q s = {}"
    by (metis calculation set_empty)
  ultimately show ?thesis
    unfolding pending_def scoped_def [symmetric] pending_foldl by (simp del: set_filter)
qed

section \<open>Eviction\<close>

lemma find_first:
  assumes "List.find P xs = Some x" "sorted_wrt (<) xs" "y \<in> set xs" "P y"
  shows "x \<le> (y :: nat)"
  using assms by (induction xs) (auto split: if_splits)

lemma victim_first:
  assumes ok: "queue_ok pend q" and p: "pick_victim q = Some v"
  shows "\<exists>h. history pend q (ev_owner (q_obj q v)) = v # h"
proof -
  let ?own = "ev_owner (q_obj q v)"
  have v: "is_victim q v" using pick_victim_Some [OF p] by simp
  note vic = victim_live [OF ok v]
  have srt: "sorted_wrt (<) (q_events q)" using queue_okD(1) [OF ok] by (simp add: log_ok_def)
  have "v \<le> r" if r: "r \<in> set (history pend q ?own)" for r
  proof -
    have mem: "r \<in> set (q_events q)" "ev_owner (q_obj q r) = ?own" "r \<in> live pend q" "\<not> is_pinned (q_obj q r)"
      using r by (auto simp: history_def evictable_def live_def)
    have "is_victim q r"
      using vic(3,5) r mem(2) pinned_lookup [OF ok mem(3)] mem(4) by (simp add: is_victim_def)
    from find_first [OF p [unfolded pick_victim_def] srt mem(1) this] show ?thesis .
  qed
  moreover have "sorted_wrt (<) (history pend q ?own)" by (rule history_sorted [OF queue_okD(1) [OF ok]])
  ultimately show ?thesis using vic(4) by (cases "history pend q ?own") (auto dest: leD)
qed

lemma drop_history:
  assumes ok: "queue_ok pend q" and p: "pick_victim q = Some v"
  shows "history pend (drop_event v q) own =
    (if own = ev_owner (q_obj q v) then tl (history pend q own) else history pend q own)"
proof -
  have v: "is_victim q v" using pick_victim_Some [OF p] by simp
  have "history pend (drop_event v q) own = filter (\<lambda>x. x \<noteq> v) (history pend q own)"
    by (auto simp: history_def evictable_def drop_event_same [OF ok v] intro!: filter_cong)
  also have "\<dots> = (if own = ev_owner (q_obj q v) then tl (history pend q own) else history pend q own)"
  proof (cases "own = ev_owner (q_obj q v)")
    case True
    obtain h where h: "history pend q own = v # h" using victim_first [OF ok p] True by blast
    moreover have "v \<notin> set h" using history_sorted [OF queue_okD(1) [OF ok], of own] h by auto
    ultimately have "filter (\<lambda>x. x \<noteq> v) h = h" by (auto simp: filter_id_conv)
    with h True show ?thesis by simp
  next
    case False
    then show ?thesis by (auto simp: history_def intro!: filter_cong)
  qed
  finally show ?thesis .
qed

lemma evict_fair:
  assumes ok: "queue_ok pend q"
  shows "\<exists>k. history pend (evict_if_needed q) own = drop k (history pend q own) \<and>
    (k = 0 \<or> q_owner_floor q \<le> int (length (history pend (evict_if_needed q) own)))"
proof -
  let ?P = "\<lambda>q'. q_owner_floor q' = q_owner_floor q \<and> (\<exists>k. history pend q' own = drop k (history pend q own) \<and>
    (k = 0 \<or> q_owner_floor q \<le> int (length (history pend q' own))))"
  have "?P (evict_if_needed q)"
  proof (rule conjunct2 [OF evict_induct [OF ok]])
    show "?P q" by (auto intro!: exI [of _ 0])
  next
    fix q' v
    assume ok': "queue_ok pend q'" and P: "?P q'" and p: "pick_victim q' = Some v"
    have v: "is_victim q' v" using pick_victim_Some [OF p] by simp
    note same = drop_event_same [OF ok' v]
    show "?P (drop_event v q')"
    proof (cases "own = ev_owner (q_obj q' v)")
      case True
      then have "q_owner_floor q < int (length (history pend q' own))"
        using victim_live(5) [OF ok' v] P by simp
      moreover obtain k where "history pend q' own = drop k (history pend q own)" using P by blast
      ultimately show ?thesis
        using P True by (auto simp: drop_history [OF ok' p] same(4) drop_Suc tl_drop [symmetric]
            intro!: exI [of _ "Suc k"])
    next
      case False
      with P show ?thesis by (simp add: drop_history [OF ok' p] same(4))
    qed
  qed
  then show ?thesis by blast
qed

definition bounded :: "queue \<Rightarrow> bool" where
  "bounded q \<longleftrightarrow> q_evictable_count q \<le> q_bound q \<or>
     (\<forall>own. history {} q own = [] \<or> int (length (history {} q own)) \<le> q_owner_floor q)"

lemma evict_bounded:
  assumes "queue_ok {} q"
  shows "bounded (evict_if_needed q)"
  using assms
proof (induction q rule: evict_if_needed.induct)
  case (1 q)
  show ?case
  proof (cases "q_bound q < q_evictable_count q")
    case False
    then show ?thesis by (simp add: evict_if_needed.simps [of q] bounded_def)
  next
    case over: True
    show ?thesis
    proof (cases "pick_victim q")
      case (Some v)
      have "queue_ok {} (drop_event v q)"
        using drop_event_ok [OF "1.prems"] pick_victim_Some [OF Some] by simp
      from "1.IH" [OF over Some this] show ?thesis by (simp add: evict_if_needed.simps [of q] over Some)
    next
      case None
      have "int (length (history {} q own)) \<le> q_owner_floor q" if "history {} q own \<noteq> []" for own
      proof (rule ccontr)
        assume long: "\<not> int (length (history {} q own)) \<le> q_owner_floor q"
        show False
        proof (cases "history {} q own")
          case Nil
          with that show False by simp
        next
          case (Cons r h)
          then have r: "r \<in> set (history {} q own)" by simp
          then have mem: "r \<in> set (q_events q)" "ev_owner (q_obj q r) = own" "r \<in> live {} q" "\<not> is_pinned (q_obj q r)"
            by (auto simp: history_def evictable_def live_def)
          have "q_owner_hist q own = Some (history {} q own)"
            using queue_okD(5) [OF "1.prems"] Cons by (simp add: hist_ok_def)
          then have "is_victim q r"
            using r long mem pinned_lookup [OF "1.prems" mem(3)] by (simp add: is_victim_def)
          with None mem(1) show False by (auto simp: pick_victim_def find_None_iff)
        qed
      qed
      then show ?thesis by (auto simp: evict_if_needed.simps [of q] None bounded_def)
    qed
  qed
qed

lemma bounded_cong:
  assumes "bounded q" "q_evictable_count q' = q_evictable_count q" "q_bound q' = q_bound q"
    "q_owner_floor q' = q_owner_floor q" "\<And>own. history {} q' own = history {} q own"
  shows "bounded q'"
  using assms(1) by (simp add: bounded_def assms(2-5))

lemma step_bounded:
  assumes ok: "queue_ok {} q" and acc: "accounted S q" and fresh: "fresh q (op_ids op)" and bnd: "bounded q"
  shows "bounded (queue_step rs q op)"
proof (cases op)
  case (Publish_op i args hook)
  obtain r q1 where b: "publish_begin rs i args q = (r, q1)" by fastforce
  obtain q2 raised where h: "run_hook rs hook r q1 = (q2, raised)" by fastforce
  have fr: "q_by_id q i = None" "fresh q ([i] @ hook_ids hook)" using fresh Publish_op by (simp_all add: fresh_def)
  note s1 = publish_begin_step [OF ok acc fr(1) b]
  from run_hook_step [OF step_okD(1,3) [OF s1] _ fresh_step [OF s1 fr(2)], of r rs]
  have "queue_ok {r} q2" by (simp add: h step_ok_def)
  then have "queue_ok {} (index_new r q2)" using index_new_ok [of r "{}" q2] by simp
  from evict_bounded [OF this] show ?thesis by (simp add: Publish_op queue_step_def publish_def b h publish_end_def)
next
  case (Answer_op i)
  show ?thesis
  proof (rule mark_answered_cases [OF ok, of i])
    fix r assume "r \<in> {} \<or> \<not> is_pinned (q_obj q r)" "mark_answered i q = (set_resolved r ''answered'' q, Some r)"
    moreover have "bounded (set_resolved r ''answered'' q)" if "\<not> is_pinned (q_obj q r)"
      by (rule bounded_cong [OF bnd]) (use that in \<open>auto simp: history_def evictable_def intro!: filter_cong\<close>)
    ultimately show ?thesis by (simp add: Answer_op queue_step_def)
  next
    fix r assume r: "r \<in> live {} q" "is_pinned (q_obj q r)"
      "mark_answered i q = (evict_if_needed (settle_all ''answered'' [r] q), Some r)"
    have "queue_ok {} (settle_all ''answered'' [r] q)" by (rule settle_all_ok [OF ok]) (use r in simp_all)
    from evict_bounded [OF this] show ?thesis by (simp add: Answer_op queue_step_def r(3))
  qed (use bnd in \<open>simp add: Answer_op queue_step_def\<close>)
next
  case (Resolve_op d x)
  show ?thesis
  proof (rule resolve_decision_cases [OF ok, of d x])
    fix rs' assume r: "set rs' = decided {} q d" "distinct rs'"
      "resolve_decision d x q = (evict_if_needed (settle_all x rs' q), Some (foldr max rs' 0))"
    have "queue_ok {} (settle_all x rs' q)"
      by (rule settle_all_ok [OF ok r(2)]) (use r(1) in \<open>auto simp: decided_def\<close>)
    from evict_bounded [OF this] show ?thesis by (simp add: Resolve_op queue_step_def r(3))
  qed (use bnd in \<open>simp add: Resolve_op queue_step_def\<close>)
next
  case (Forget_op s)
  let ?q = "forget_session s q"
  have "history {} ?q own = filter (\<lambda>r. ev_session_id (q_obj q r) \<noteq> s) (history {} q own)" for own
    by (auto simp: history_def evictable_def forget_session_same intro: filter_cong)
  then have len: "length (history {} ?q own) \<le> length (history {} q own)" for own by simp
  have "filter (evictable {} ?q) (q_events ?q) = filter (\<lambda>r. ev_session_id (q_obj q r) \<noteq> s) (filter (evictable {} q) (q_events q))"
    by (auto simp: evictable_def forget_session_same intro: filter_cong)
  then have "length (filter (evictable {} ?q) (q_events ?q)) \<le> length (filter (evictable {} q) (q_events q))"
    by (metis length_filter_le)
  then have cnt: "q_evictable_count ?q \<le> q_evictable_count q"
    using queue_okD(6) [OF ok] queue_okD(6) [OF forget_session_ok [OF ok]] unfolding count_ok_def by simp
  show ?thesis
  proof (cases "q_evictable_count q \<le> q_bound q")
    case True
    with cnt show ?thesis by (simp add: bounded_def Forget_op queue_step_def forget_session_same)
  next
    case False
    then have "history {} q own = [] \<or> int (length (history {} q own)) \<le> q_owner_floor q" for own
      using bnd by (auto simp: bounded_def)
    then have "history {} ?q own = [] \<or> int (length (history {} ?q own)) \<le> q_owner_floor q" for own
      using len [of own] by (metis le_zero_eq length_0_conv of_nat_mono order_trans)
    then show ?thesis by (simp add: bounded_def Forget_op queue_step_def forget_session_same)
  qed
qed

lemma run_bounded:
  assumes "queue_ok {} q" "accounted S q" "fresh_run rs q ops" "bounded q"
  shows "bounded (queue_run rs q ops)"
  using assms
proof (induction ops arbitrary: q S)
  case (Cons op ops)
  have fresh: "fresh q (op_ids op)" "fresh_run rs (queue_step rs q op) ops" using Cons.prems(3) by simp_all
  note s = step_okD [OF queue_step_ok [OF Cons.prems(1,2) fresh(1), of rs]]
  from Cons.IH [OF s(1,3) fresh(2) step_bounded [OF Cons.prems(1,2) fresh(1) Cons.prems(4)]]
  show ?case by (simp add: queue_run_def)
qed (simp add: queue_run_def)

section \<open>Delivery\<close>

lemma first_after_Some:
  assumes "first_after q a sc = Some r" "sorted_wrt (<) (q_events q)"
  shows "r \<in> set (q_events q)" "int r > a" "in_scope (q_obj q r) sc"
    "r' \<in> set (q_events q) \<Longrightarrow> int r' > a \<Longrightarrow> in_scope (q_obj q r') sc \<Longrightarrow> r \<le> r'"
  using assms find_first [OF assms [unfolded first_after_def], of r'] by (auto simp: first_after_def find_Some_iff)

lemma foldr_max_ge: "x \<in> set xs \<Longrightarrow> x \<le> foldr max xs (0 :: nat)"
  by (induction xs) (auto simp: le_max_iff_disj)

lemma foldr_max_in: "0 < foldr max xs (0 :: nat) \<Longrightarrow> foldr max xs 0 \<in> set xs"
  by (induction xs) (auto simp: max_def)

lemma scope_high_ge:
  assumes "queue_ok {} q" "in_scope (q_obj q r) sc"
  shows "evicted_high_of q (ev_session_id (q_obj q r)) \<le> scope_high q sc"
  using assms queue_okD(7) [OF assms(1)]
  by (auto simp: scope_high_def in_scope_def marks_ok_def intro: foldr_max_ge split: scope.splits)

lemma scope_high_real:
  assumes acc: "accounted S q" and pos: "0 < scope_high q sc"
  shows "published q (scope_high q sc) \<and> scope_high q sc \<notin> set (q_events q) \<and> in_scope (q_obj q (scope_high q sc)) sc"
proof (cases sc)
  case AnySession
  with assms show ?thesis by (simp add: scope_high_def in_scope_def accounted_def)
next
  case (One s)
  with assms show ?thesis by (simp add: scope_high_def in_scope_def accounted_def)
next
  case (Many ss)
  have "scope_high q sc \<in> set (map (evicted_high_of q) ss)"
    using foldr_max_in [of "map (evicted_high_of q) ss"] pos Many by (simp add: scope_high_def)
  then obtain s where "s \<in> set ss" "scope_high q sc = evicted_high_of q s" by auto
  with assms Many show ?thesis by (simp add: in_scope_def accounted_def)
qed

section \<open>Resolution\<close>

lemma settle_all_obj:
  assumes "distinct rs"
  shows "q_obj (settle_all x rs q) r =
    (if r \<in> set rs then (q_obj q r)\<lparr>ev_resolved_reason := Some x\<rparr> else q_obj q r)"
  using assms
proof (induction rs arbitrary: q)
  case (Cons y rs)
  have "q_obj (settle x y q) z = (if z = y then (q_obj q y)\<lparr>ev_resolved_reason := Some x\<rparr> else q_obj q z)" for z
    by (simp add: settle_eq set_resolved_def)
  then show ?case using Cons by (auto simp: settle_def)
qed simp

lemma evict_obj: "queue_ok pend q \<Longrightarrow> q_obj (evict_if_needed q) = q_obj q"
  using evict_induct [of pend q "\<lambda>q'. q_obj q' = q_obj q"] drop_event_same(1) pick_victim_Some by metis

lemma evict_events: "queue_ok pend q \<Longrightarrow> set (q_events (evict_if_needed q)) \<subseteq> set (q_events q)"
  using evict_induct [of pend q "\<lambda>q'. set (q_events q') \<subseteq> set (q_events q)"] drop_event_events pick_victim_Some
  by (metis order_refl order_trans set_remove1_subset)

lemma resolve_decision_events:
  assumes ok: "queue_ok {} q"
  shows "set (q_events (fst (resolve_decision d x q))) \<subseteq> set (q_events q)"
proof (rule resolve_decision_cases [OF ok, of d x])
  fix rs
  assume rs: "set rs = decided {} q d" "distinct rs"
    and eq: "resolve_decision d x q = (evict_if_needed (settle_all x rs q), Some (foldr max rs 0))"
  have "queue_ok {} (settle_all x rs q)"
    by (rule settle_all_ok [OF ok rs(2)]) (use rs(1) in \<open>auto simp: decided_def\<close>)
  from evict_events [OF this] show ?thesis by (simp add: eq)
qed simp

lemma foldr_max_Max: "rs \<noteq> [] \<Longrightarrow> foldr max rs 0 = Max (set rs :: nat set)"
proof (induction rs)
  case (Cons r rs)
  then show ?case by (cases "rs = []") simp_all
qed simp

lemma resolve_decision_result:
  assumes ok: "queue_ok {} q"
  shows "q_obj (fst (resolve_decision d x q)) r =
      (if r \<in> decided {} q d then (q_obj q r)\<lparr>ev_resolved_reason := Some x\<rparr> else q_obj q r)"
    "snd (resolve_decision d x q) = (if decided {} q d = {} then None else Some (Max (decided {} q d)))"
proof -
  have "q_obj (fst (resolve_decision d x q)) r =
      (if r \<in> decided {} q d then (q_obj q r)\<lparr>ev_resolved_reason := Some x\<rparr> else q_obj q r) \<and>
    snd (resolve_decision d x q) = (if decided {} q d = {} then None else Some (Max (decided {} q d)))"
  proof (rule resolve_decision_cases [OF ok, of d x])
    fix rs
    assume rs: "set rs = decided {} q d" "distinct rs" "rs \<noteq> []"
      and eq: "resolve_decision d x q = (evict_if_needed (settle_all x rs q), Some (foldr max rs 0))"
    have "queue_ok {} (settle_all x rs q)"
      by (rule settle_all_ok [OF ok rs(2)]) (use rs(1) in \<open>auto simp: decided_def\<close>)
    then have "q_obj (fst (resolve_decision d x q)) r = q_obj (settle_all x rs q) r"
      by (simp add: eq evict_obj)
    moreover have "decided {} q d \<noteq> {}" using rs(1,3) by auto
    moreover have "snd (resolve_decision d x q) = Some (Max (decided {} q d))"
      using foldr_max_Max [OF rs(3)] rs(1) by (simp add: eq)
    ultimately show ?thesis by (simp add: settle_all_obj [OF rs(2)] rs(1))
  qed simp
  then show "q_obj (fst (resolve_decision d x q)) r =
      (if r \<in> decided {} q d then (q_obj q r)\<lparr>ev_resolved_reason := Some x\<rparr> else q_obj q r)"
    "snd (resolve_decision d x q) = (if decided {} q d = {} then None else Some (Max (decided {} q d)))"
    by blast+
qed

lemma resolve_decision_none:
  assumes "queue_ok {} q" "decided {} q d = {}"
  shows "resolve_decision d x q = (q, None)"
  by (rule resolve_decision_cases [OF assms(1), of d x]) (use assms(2) in auto)

section \<open>Properties\<close>

text \<open>
  Queue invariant. After any sequence of publishes (with any hooks, raising ones
  included), answers, resolutions and forgets with fresh event ids, every index of the
  queue (by id, pinned, by decision, per-owner history, counter, high-water marks)
  agrees with the ordered log and the events themselves.
\<close>

theorem queue_indices_agree:
  assumes "fresh_run rs (EventQueue b f) ops"
  shows "queue_ok {} (queue_run rs (EventQueue b f) ops)"
  using run_facts [OF assms] by simp

definition demo_event :: "string \<Rightarrow> string \<Rightarrow> string option \<Rightarrow> event" where
  "demo_event sid kind d = blank_event\<lparr>ev_session_id := sid, ev_kind := kind, ev_decision_id := d\<rparr>"

definition demo_ops :: "queue_op list" where
  "demo_ops =
     [Publish_op ''a'' (demo_event ''s'' ''blocked'' (Some ''d'')) [],
      Publish_op ''b'' (demo_event ''s'' ''done'' None) [HResolve ''e'' ''superseded''],
      Publish_op ''c'' (demo_event ''s'' ''done'' None) []]"

lemmas queue_eval = demo_ops_def demo_event_def blank_event_def EventQueue_def queue_run_def queue_step_def
  publish_def publish_begin_def publish_end_def owner_of_def resolve_decision_def index_new_def
  is_pinned_def RESPONDABLE_KINDS_def pin_def index_evictable_def evict_if_needed.simps pick_victim_def
  is_victim_def drop_event_def fresh_def forgotten_def published_def mark_answered_def

lemma demo_fresh: "fresh_run Map.empty (EventQueue 0 1) demo_ops"
  by (simp add: queue_eval)

theorem queue_indices_agree_witness: "queue_ok {} (queue_run Map.empty (EventQueue 0 1) demo_ops)"
  by (rule queue_indices_agree [OF demo_fresh])

text \<open>
  C37: no unresolved decision is ever lost. Whatever else was published, answered, evicted
  or forgotten, a published event of a session that was not forgotten and that still
  needs a response is in the log, found by its id in both indices, and \<open>pending\<close> of its
  session answers with it or with a newer one.
\<close>

theorem decisions_never_lost:
  assumes "fresh_run rs (EventQueue b f) ops"
  defines "q \<equiv> queue_run rs (EventQueue b f) ops"
  assumes "published q r" "ev_session_id (q_obj q r) \<notin> forgotten ops" "is_pinned (q_obj q r)"
  shows "r \<in> set (q_events q) \<and> q_by_id q (ev_event_id (q_obj q r)) = Some r \<and>
    map_of (q_pinned q) (ev_event_id (q_obj q r)) = Some r \<and>
    (\<exists>r'\<ge>r. pending q (Some (ev_session_id (q_obj q r))) = Some r')"
proof -
  have ok: "queue_ok {} q" and acc: "accounted (forgotten ops) q" using run_facts [OF assms(1)] by (simp_all add: q_def)
  have r: "r \<in> set (q_events q)" using acc assms(3-5) by (simp add: accounted_def)
  moreover have "q_by_id q (ev_event_id (q_obj q r)) = Some r"
    using queue_okD(2) [OF ok] r by (simp add: by_id_ok_def)
  moreover have "map_of (q_pinned q) (ev_event_id (q_obj q r)) = Some r"
    using queue_okD(3) [OF ok] r assms(5) by (simp add: pinned_ok_def live_def)
  moreover have "r \<in> unresolved q (Some (ev_session_id (q_obj q r)))"
    using r assms(5) by (simp add: unresolved_def scoped_def)
  ultimately show ?thesis by (auto simp: pending_eq [OF ok] intro: Max_ge)
qed

theorem decisions_never_lost_witness:
  "(\<exists>r'\<ge>1. pending (queue_run Map.empty (EventQueue 0 1) demo_ops) (Some ''s'') = Some r')"
  using decisions_never_lost [OF demo_fresh, of 1] by (simp add: queue_eval)

text \<open>
  \<open>pending\<close> is exact. It returns the newest event of the log, of the given session
  or of any session, that is a decision nobody resolved, and nothing exactly when there
  is none.
\<close>

theorem pending_is_newest_unresolved:
  assumes "fresh_run rs (EventQueue b f) ops"
  defines "q \<equiv> queue_run rs (EventQueue b f) ops"
  shows "(case pending q s of
      None \<Rightarrow> \<forall>r\<in>set (q_events q). scoped q s r \<longrightarrow> \<not> is_pinned (q_obj q r)
    | Some r \<Rightarrow> r \<in> set (q_events q) \<and> scoped q s r \<and> is_pinned (q_obj q r) \<and>
        (\<forall>r'\<in>set (q_events q). scoped q s r' \<longrightarrow> is_pinned (q_obj q r') \<longrightarrow> r' \<le> r))"
proof -
  have ok: "queue_ok {} q" using run_facts [OF assms(1)] by (simp add: q_def)
  show ?thesis
  proof (cases "unresolved q s = {}")
    case True
    then show ?thesis by (auto simp: pending_eq [OF ok] unresolved_def)
  next
    case False
    define m where "m = Max (unresolved q s)"
    have "m \<in> unresolved q s" unfolding m_def by (rule Max_in) (use False in simp_all)
    moreover have "r' \<le> m" if "r' \<in> unresolved q s" for r' unfolding m_def using that by simp
    moreover have "pending q s = Some m" using False by (simp add: pending_eq [OF ok] m_def)
    ultimately show ?thesis by (auto simp: unresolved_def)
  qed
qed

theorem pending_is_newest_unresolved_witness:
  "pending (queue_run Map.empty (EventQueue 0 1) demo_ops) (Some ''s'') = Some 1 \<and>
   1 \<in> set (q_events (queue_run Map.empty (EventQueue 0 1) demo_ops)) \<and>
   is_pinned (q_obj (queue_run Map.empty (EventQueue 0 1) demo_ops) 1)"
proof -
  have p: "pending (queue_run Map.empty (EventQueue 0 1) demo_ops) (Some ''s'') = Some 1"
    by (simp add: queue_eval pending_def scoped_def)
  show ?thesis
    using pending_is_newest_unresolved [OF demo_fresh, of "Some ''s''"] unfolding p option.case by blast
qed

text \<open>
  C38: gap-free delivery. For a cursor and a scope with no forgotten session, \<open>latest_after\<close>
  delivers the oldest event ever published in the scope after the cursor, says that there
  is nothing newer only when nothing newer was ever published, and reports an expired
  cursor only when an event after the cursor really left the log.
\<close>

theorem delivery_has_no_gap:
  assumes "fresh_run rs (EventQueue b f) ops"
  defines "q \<equiv> queue_run rs (EventQueue b f) ops"
  assumes "0 \<le> a" "\<forall>r. published q r \<and> in_scope (q_obj q r) sc \<longrightarrow> ev_session_id (q_obj q r) \<notin> forgotten ops"
  shows "(case latest_after q a sc of
      CursorExpired \<Rightarrow> \<exists>r. published q r \<and> in_scope (q_obj q r) sc \<and> a < int r \<and> r \<notin> set (q_events q)
    | Deliver r \<Rightarrow> published q r \<and> in_scope (q_obj q r) sc \<and> a < int r \<and>
        (\<forall>r'. published q r' \<and> in_scope (q_obj q r') sc \<and> a < int r' \<longrightarrow> r \<le> r')
    | Nothing_newer \<Rightarrow> \<forall>r. published q r \<and> in_scope (q_obj q r) sc \<longrightarrow> int r \<le> a)"
proof -
  have ok: "queue_ok {} q" and acc: "accounted (forgotten ops) q" using run_facts [OF assms(1)] by (simp_all add: q_def)
  note log = queue_okD(1) [OF ok]
  have srt: "sorted_wrt (<) (q_events q)" using log by (simp add: log_ok_def)
  have pub: "published q r" if "r \<in> set (q_events q)" for r using that log by (simp add: log_ok_def published_def)
  show ?thesis
  proof (cases "expired q a sc")
    case True
    then have "a < int (scope_high q sc)" by (simp add: expired_def)
    with True scope_high_real [OF acc, of sc] assms(3) show ?thesis by (auto simp: latest_after_def)
  next
    case False
    have here: "r \<in> set (q_events q)" if r: "published q r" "in_scope (q_obj q r) sc" "a < int r" for r
    proof -
      have "r \<in> set (q_events q) \<or> r \<le> evicted_high_of q (ev_session_id (q_obj q r))"
        using acc assms(4) r by (simp add: accounted_def)
      with False r(3) scope_high_ge [OF ok r(2)] show ?thesis by (auto simp: expired_def)
    qed
    show ?thesis
    proof (cases "first_after q a sc")
      case None
      then have "\<not> (a < int r \<and> in_scope (q_obj q r) sc)" if "r \<in> set (q_events q)" for r
        using that by (auto simp: first_after_def find_None_iff)
      with False None here show ?thesis by (auto simp: latest_after_def intro: leI)
    next
      case (Some r)
      note fa = first_after_Some [OF Some srt]
      show ?thesis using False Some fa(1-3) pub fa(4) here by (auto simp: latest_after_def)
    qed
  qed
qed

theorem delivery_has_no_gap_witness:
  "\<exists>r. published (queue_run Map.empty (EventQueue 0 0) demo_ops) r \<and>
     r \<notin> set (q_events (queue_run Map.empty (EventQueue 0 0) demo_ops))"
proof -
  have f: "fresh_run Map.empty (EventQueue 0 0) demo_ops" by (simp add: queue_eval)
  have "latest_after (queue_run Map.empty (EventQueue 0 0) demo_ops) 1 (One ''s'') = CursorExpired"
    by (simp add: queue_eval latest_after_def expired_def scope_high_def evicted_high_of_def)
  with delivery_has_no_gap [OF f, of 1 "One ''s''"] show ?thesis
    by (auto simp: forgotten_def demo_ops_def)
qed

text \<open>
  Resynchronisation. A client told that its cursor expired and restarting from
  \<open>latest_seq\<close>, of one session or of the whole queue, is never told so again at that
  point, and is not handed an old event: its next answer is that nothing is newer.
\<close>

theorem resync_cursor_is_valid:
  assumes "fresh_run rs (EventQueue b f) ops"
  defines "q \<equiv> queue_run rs (EventQueue b f) ops"
  shows "latest_after q (int (latest_seq q (Some s))) (One s) = Nothing_newer \<and>
    latest_after q (int (latest_seq q None)) AnySession = Nothing_newer"
proof -
  have ok: "queue_ok {} q" using run_facts [OF assms(1)] by (simp add: q_def)
  note marks = queue_okD(7) [OF ok] and log = queue_okD(1) [OF ok]
  have "\<not> (last_seq_of q s < r \<and> ev_session_id (q_obj q r) = s)" if "r \<in> set (q_events q)" for r
    using marks that by (force simp: marks_ok_def)
  then have "first_after q (int (last_seq_of q s)) (One s) = None"
    by (auto simp: first_after_def find_None_iff in_scope_def)
  moreover have "\<not> q_last_seq q < r" if "r \<in> set (q_events q)" for r
  proof -
    have "r < q_next q" using log that by (simp add: log_ok_def)
    moreover have "q_next q = Suc (q_last_seq q)" using marks by (simp add: marks_ok_def)
    ultimately show ?thesis by simp
  qed
  then have "first_after q (int (q_last_seq q)) AnySession = None"
    by (auto simp: first_after_def find_None_iff)
  moreover have "evicted_high_of q s \<le> last_seq_of q s" "q_evicted_high q \<le> q_last_seq q"
    using marks by (simp_all add: marks_ok_def)
  ultimately show ?thesis
    by (simp add: latest_after_def latest_seq_def expired_def scope_high_def)
qed

theorem resync_cursor_is_valid_witness:
  "latest_seq (queue_run Map.empty (EventQueue 0 0) demo_ops) (Some ''s'') = 3 \<and>
   latest_after (queue_run Map.empty (EventQueue 0 0) demo_ops) 3 (One ''s'') = Nothing_newer"
proof -
  have f: "fresh_run Map.empty (EventQueue 0 0) demo_ops" by (simp add: queue_eval)
  have "latest_seq (queue_run Map.empty (EventQueue 0 0) demo_ops) (Some ''s'') = 3"
    by (simp add: queue_eval latest_seq_def last_seq_of_def)
  with resync_cursor_is_valid [OF f, of "''s''"] show ?thesis by simp
qed

text \<open>
  Resolution is exact. \<open>resolve_decision\<close> resolves every event of the decision that
  was still unresolved and changes no other event; it returns the newest sequence number
  it resolved, or nothing when there was none; a second call finds nothing to resolve.
\<close>

theorem resolve_decision_exact:
  fixes d reason :: string
  assumes "fresh_run rs (EventQueue b f) ops"
  defines "q \<equiv> queue_run rs (EventQueue b f) ops"
  defines "q' \<equiv> fst (resolve_decision d reason q)"
  shows "(\<forall>r. q_obj q' r =
        (if r \<in> decided {} q d then (q_obj q r)\<lparr>ev_resolved_reason := Some reason\<rparr> else q_obj q r)) \<and>
    snd (resolve_decision d reason q) = (if decided {} q d = {} then None else Some (Max (decided {} q d))) \<and>
    resolve_decision d reason q' = (q', None)"
proof -
  have ok: "queue_ok {} q" and acc: "accounted (forgotten ops) q" using run_facts [OF assms(1)] by (simp_all add: q_def)
  have ok': "queue_ok {} q'"
    using resolve_decision_step [OF ok acc, of d reason] by (simp add: step_ok_def q'_def)
  have obj: "\<forall>r. q_obj q' r =
      (if r \<in> decided {} q d then (q_obj q r)\<lparr>ev_resolved_reason := Some reason\<rparr> else q_obj q r)"
    and ret: "snd (resolve_decision d reason q) = (if decided {} q d = {} then None else Some (Max (decided {} q d)))"
    using resolve_decision_result [OF ok, of d reason] by (simp_all add: q'_def)
  have "x \<notin> decided {} q' d" for x
  proof
    assume x: "x \<in> decided {} q' d"
    then have "x \<in> set (q_events q)"
      using resolve_decision_events [OF ok] by (auto simp: decided_def live_def q'_def)
    with x obj show False by (cases "x \<in> decided {} q d") (auto simp: decided_def live_def is_pinned_def)
  qed
  then have "decided {} q' d = {}" by blast
  then have "resolve_decision d reason q' = (q', None)"
    by (rule resolve_decision_none [OF ok'])
  with obj ret show ?thesis by blast
qed

theorem resolve_decision_exact_witness:
  "snd (resolve_decision ''d'' ''answered'' (queue_run Map.empty (EventQueue 0 1) demo_ops)) = Some 1 \<and>
   resolve_decision ''d'' ''answered'' (fst (resolve_decision ''d'' ''answered'' (queue_run Map.empty (EventQueue 0 1) demo_ops))) =
     (fst (resolve_decision ''d'' ''answered'' (queue_run Map.empty (EventQueue 0 1) demo_ops)), None)"
proof -
  have "snd (resolve_decision ''d'' ''answered'' (queue_run Map.empty (EventQueue 0 1) demo_ops)) = Some 1"
    by (simp add: queue_eval)
  with resolve_decision_exact [OF demo_fresh, of "''d''" "''answered''"] show ?thesis by blast
qed

text \<open>
  Eviction is bounded. After every sequence of operations either no more than
  \<open>max_history\<close> evictable events are kept, or no owner has more than \<open>owner_floor\<close> of
  them, so that nothing could be evicted.
\<close>

theorem history_is_bounded:
  assumes "fresh_run rs (EventQueue b f) ops" "0 \<le> b"
  defines "q \<equiv> queue_run rs (EventQueue b f) ops"
  shows "int (length (filter (\<lambda>r. \<not> is_pinned (q_obj q r)) (q_events q))) \<le> b \<or>
    (\<forall>own. history {} q own = [] \<or> int (length (history {} q own)) \<le> f)"
proof -
  have "bounded q"
    unfolding q_def
    by (rule run_bounded [OF queue_ok_init accounted_init [of "{}"] assms(1)])
      (use assms(2) in \<open>simp add: bounded_def EventQueue_def\<close>)
  moreover have "filter (evictable {} q) (q_events q) = filter (\<lambda>r. \<not> is_pinned (q_obj q r)) (q_events q)"
    by (simp add: evictable_def [abs_def])
  ultimately show ?thesis
    using run_facts [OF assms(1)] queue_okD(6) [of "{}" q] by (simp add: bounded_def q_def count_ok_def)
qed

theorem history_is_bounded_witness:
  "int (length (filter (\<lambda>r. \<not> is_pinned (q_obj (queue_run Map.empty (EventQueue 1 0) demo_ops) r))
     (q_events (queue_run Map.empty (EventQueue 1 0) demo_ops)))) \<le> 1 \<or>
   (\<forall>own. history {} (queue_run Map.empty (EventQueue 1 0) demo_ops) own = [] \<or>
     int (length (history {} (queue_run Map.empty (EventQueue 1 0) demo_ops) own)) \<le> 0)"
proof -
  have "fresh_run Map.empty (EventQueue 1 0) demo_ops" by (simp add: queue_eval)
  from history_is_bounded [OF this] show ?thesis by simp
qed

text \<open>
  Eviction is fair. It takes each owner's oldest evictable events first and stops at
  the floor: what is left of an owner's history is a suffix of it, and an owner that lost
  anything keeps at least \<open>owner_floor\<close> events.
\<close>

theorem eviction_keeps_owner_floor:
  assumes "queue_ok pend q"
  shows "\<exists>k. history pend (evict_if_needed q) own = drop k (history pend q own) \<and>
    (k = 0 \<or> q_owner_floor q \<le> int (length (history pend (evict_if_needed q) own)))"
  by (rule evict_fair [OF assms])

theorem eviction_keeps_owner_floor_witness:
  "\<exists>k. history {} (evict_if_needed (queue_run Map.empty (EventQueue 0 1) demo_ops)) None =
      drop k (history {} (queue_run Map.empty (EventQueue 0 1) demo_ops) None) \<and>
    (k = 0 \<or> 1 \<le> int (length (history {} (evict_if_needed (queue_run Map.empty (EventQueue 0 1) demo_ops)) None)))"
proof -
  have "queue_ok {} (queue_run Map.empty (EventQueue 0 1) demo_ops)" by (rule run_facts(1) [OF demo_fresh])
  from eviction_keeps_owner_floor [OF this, of None] show ?thesis by (simp add: run_facts(4) [OF demo_fresh])
qed

text \<open>
  Waiting. \<open>wait_event\<close> and \<open>wait_event_any\<close> refuse an empty or malformed scope
  before looking at the queue, so that neither can turn into a wait on every session, and
  what a wait returns before its deadline is the delivery of the first state it observed
  that had one.
\<close>

theorem waits_fail_closed_and_deliver_first:
  "(\<forall>s. s \<noteq> [] \<longrightarrow> wait_event obs a (VStr s) = Inr (wait_loop obs a (One s))) \<and>
   (\<not> is_nonempty_str v \<longrightarrow> wait_event obs a v = Inl ValueError) \<and>
   wait_event_any obs a [] = Inl ValueError \<and>
   (wait_loop obs a sc = Some d \<longrightarrow> d \<noteq> Nothing_newer \<longrightarrow>
      (\<exists>before q remaining after. obs = before @ (q, remaining) # after \<and> latest_after q a sc = d \<and>
         (\<forall>(q', _)\<in>set before. latest_after q' a sc = Nothing_newer)))"
proof -
  have "\<exists>before q remaining after. obs = before @ (q, remaining) # after \<and> latest_after q a sc = d \<and>
      (\<forall>(q', _)\<in>set before. latest_after q' a sc = Nothing_newer)"
    if "wait_loop obs a sc = Some d" "d \<noteq> Nothing_newer"
    using that
  proof (induction obs)
    case (Cons o' obs)
    obtain q remaining where o: "o' = (q, remaining)" by fastforce
    show ?case
    proof (cases "latest_after q a sc = Nothing_newer")
      case True
      with Cons.prems o have "wait_loop obs a sc = Some d" by (auto split: if_splits)
      from Cons.IH [OF this Cons.prems(2)] obtain before q' rem' after where
        h: "obs = before @ (q', rem') # after" "latest_after q' a sc = d"
          "\<forall>(q', _)\<in>set before. latest_after q' a sc = Nothing_newer" by blast
      then show ?thesis using o True
        by (intro exI [of _ "o' # before"] exI [of _ q'] exI [of _ rem'] exI [of _ after]) auto
    next
      case False
      with Cons.prems o have "latest_after q a sc = d" by (auto split: delivery.splits)
      then show ?thesis using o by (intro exI [of _ "[]"] exI [of _ q] exI [of _ remaining] exI [of _ obs]) auto
    qed
  qed simp
  then show ?thesis by (auto simp: wait_event_def wait_event_any_def split: pyval.splits)
qed

theorem waits_fail_closed_witness:
  "wait_event [] 0 (VStr []) = Inl ValueError \<and> wait_event [] 0 (VStr ''s'') = Inr None"
  using waits_fail_closed_and_deliver_first [of "[]" 0 "VStr []" AnySession Nothing_newer]
    by simp

end
