(* ===== verification/Nelix_Leases.thy ===== *)
theory Nelix_Leases
  imports Nelix_Prelude
begin

text \<open>
  \<^verbatim>\<open>router/leases.py\<close>: the router's lease service. One lock guards every
  operation, so each is one step on the state. Identifiers are strings (the service is
  called with the strings of a decoded request); the entries of a registered snapshot are
  arbitrary decoded JSON values, which the code validates. The two \<open>uuid4().hex\<close> values
  an acquire may consume are arguments. An operation returns its result together with
  the new state, because \<open>_epoch\<close> creates an epoch's record even when the call fails.
\<close>

section \<open>State\<close>

type_synonym kind_key = "pyval list"

record lease_entry =
  le_key :: kind_key
  le_kind :: string
  le_token_id :: string

record epoch_lease =
  es_active_count :: int
  es_live_pty_count :: int
  es_tokens :: "(string, lease_entry) dict"
  es_by_kind_key :: "(kind_key, lease_entry) dict"
  es_rebuilding :: bool
  es_reconciled_rid :: "string option"

type_synonym epoch_key = "string \<times> string"

record lease_service =
  ls_active_limit :: int
  ls_live_pty_limit :: int
  ls_reconciliation_id :: string
  ls_epochs :: "(epoch_key, epoch_lease) dict"
  ls_global_active_count :: int
  ls_global_live_pty_count :: int

definition EpochLeaseState :: epoch_lease where
  "EpochLeaseState =
     \<lparr>es_active_count = 0, es_live_pty_count = 0, es_tokens = [], es_by_kind_key = [],
      es_rebuilding = False, es_reconciled_rid = None\<rparr>"

definition LeaseService :: "int \<Rightarrow> int \<Rightarrow> string \<Rightarrow> lease_service" where
  "LeaseService active_limit live_pty_limit rid =
     \<lparr>ls_active_limit = active_limit, ls_live_pty_limit = live_pty_limit, ls_reconciliation_id = rid,
      ls_epochs = [], ls_global_active_count = 0, ls_global_live_pty_count = 0\<rparr>"

section \<open>Python's equality on dictionary keys\<close>

text \<open>
  Tuples are dictionary keys up to Python's equality, where \<open>True == 1 == 1.0\<close>; keys are
  kept in a normal form. A list or a dictionary inside a key is not hashable. (A
  \<open>NaN\<close> inside a key compares by object identity, which is not modelled.)
\<close>

fun hashable :: "pyval \<Rightarrow> bool" where
  "hashable (VList xs) = False"
| "hashable (VDict d) = False"
| "hashable (VTuple xs) = list_all hashable xs"
| "hashable _ = True"

fun py_norm :: "pyval \<Rightarrow> pyval" where
  "py_norm (VBool b) = VInt (if b then 1 else 0)"
| "py_norm (VFloat (Fin x)) = (if x = of_int \<lfloor>x\<rfloor> then VInt \<lfloor>x\<rfloor> else VFloat (Fin x))"
| "py_norm (VTuple xs) = VTuple (map py_norm xs)"
| "py_norm v = v"

section \<open>Helpers\<close>

definition epoch_of :: "epoch_key \<Rightarrow> lease_service \<Rightarrow> epoch_lease \<times> lease_service" where
  "epoch_of k ls =
     (case map_of (ls_epochs ls) k of
        Some es \<Rightarrow> (es, ls)
      | None \<Rightarrow> (EpochLeaseState, ls\<lparr>ls_epochs := AList.update k EpochLeaseState (ls_epochs ls)\<rparr>))"

definition put_epoch :: "epoch_key \<Rightarrow> epoch_lease \<Rightarrow> lease_service \<Rightarrow> lease_service" where
  "put_epoch k es ls = ls\<lparr>ls_epochs := AList.update k es (ls_epochs ls)\<rparr>"

text \<open>The two counters of one kind, per epoch and global, moved together.\<close>

definition es_bump :: "string \<Rightarrow> int \<Rightarrow> epoch_lease \<Rightarrow> epoch_lease" where
  "es_bump kind n es =
     (if kind = ''active'' then es\<lparr>es_active_count := es_active_count es + n\<rparr>
      else if kind = ''live'' then es\<lparr>es_live_pty_count := es_live_pty_count es + n\<rparr>
      else es)"

definition ls_bump :: "string \<Rightarrow> int \<Rightarrow> lease_service \<Rightarrow> lease_service" where
  "ls_bump kind n ls =
     (if kind = ''active'' then ls\<lparr>ls_global_active_count := ls_global_active_count ls + n\<rparr>
      else if kind = ''live'' then ls\<lparr>ls_global_live_pty_count := ls_global_live_pty_count ls + n\<rparr>
      else ls)"

definition add_entry :: "string \<Rightarrow> string \<Rightarrow> kind_key \<Rightarrow> epoch_lease \<Rightarrow> epoch_lease" where
  "add_entry kind token_id kk es =
     (let entry = \<lparr>le_key = kk, le_kind = kind, le_token_id = token_id\<rparr>
      in es\<lparr>es_tokens := AList.update token_id entry (es_tokens es),
            es_by_kind_key := AList.update kk entry (es_by_kind_key es)\<rparr>)"

definition drop_entry :: "string \<Rightarrow> lease_entry \<Rightarrow> epoch_lease \<Rightarrow> epoch_lease" where
  "drop_entry token_id entry es =
     es\<lparr>es_tokens := AList.delete token_id (es_tokens es),
        es_by_kind_key := AList.delete (le_key entry) (es_by_kind_key es)\<rparr>"

section \<open>acquire and release\<close>

definition grant :: "string \<Rightarrow> string \<Rightarrow> kind_key \<Rightarrow> epoch_lease \<times> lease_service \<Rightarrow> epoch_lease \<times> lease_service" where
  "grant kind token_id kk st =
     (es_bump kind 1 (add_entry kind token_id kk (fst st)), ls_bump kind 1 (snd st))"

type_synonym lease_results = "(string, string \<times> bool) dict"

definition acquire ::
  "string \<Rightarrow> string \<Rightarrow> string \<Rightarrow> string \<Rightarrow> string list \<Rightarrow> string option \<Rightarrow> string \<Rightarrow> string \<Rightarrow>
     lease_service \<Rightarrow> lease_results res \<times> lease_service" where
  "acquire gen_id gen_epoch session_id activation_id kinds rid tok_active tok_live ls =
     (if rid \<noteq> Some (ls_reconciliation_id ls) then (Inl (NelixError STALE_RECONCILIATION_ID), ls)
      else let (es, ls1) = epoch_of (gen_id, gen_epoch) ls in
      if es_reconciled_rid es \<noteq> Some (ls_reconciliation_id ls) then (Inl (NelixError REBUILDING), ls1)
      else let base_key = [VStr gen_id, VStr gen_epoch, VStr session_id, VStr activation_id];
               kk_active = base_key @ [VStr ''active''];
               kk_live = base_key @ [VStr ''live''];
               needs_active = (''active'' \<in> set kinds);
               needs_live = (''live'' \<in> set kinds);
               held_active = map_of (es_by_kind_key es) kk_active;
               held_live = map_of (es_by_kind_key es) kk_live
      in if needs_active \<and> held_active = None \<and> ls_global_active_count ls1 \<ge> ls_active_limit ls1
      then (Inl (NelixError CONCURRENCY_LIMIT), ls1)
      else if needs_live \<and> held_live = None \<and> ls_global_live_pty_count ls1 \<ge> ls_live_pty_limit ls1
      then (Inl (NelixError CONCURRENCY_LIMIT), ls1)
      else let res0 = (case held_active of
                         Some e \<Rightarrow> if needs_active then [(''active'', (le_token_id e, False))] else []
                       | None \<Rightarrow> []) @
                      (case held_live of
                         Some e \<Rightarrow> if needs_live then [(''live'', (le_token_id e, False))] else []
                       | None \<Rightarrow> []);
               new_active = (needs_active \<and> held_active = None);
               new_live = (needs_live \<and> held_live = None);
               st0 = (es, ls1);
               st1 = (if new_active then grant ''active'' tok_active kk_active st0 else st0);
               res1 = (if new_active then res0 @ [(''active'', (tok_active, True))] else res0);
               st2 = (if new_live then grant ''live'' tok_live kk_live st1 else st1);
               res2 = (if new_live then res1 @ [(''live'', (tok_live, True))] else res1)
      in (Inr res2, put_epoch (gen_id, gen_epoch) (fst st2) (snd st2)))"

definition release ::
  "string \<Rightarrow> string \<Rightarrow> string \<Rightarrow> string option \<Rightarrow> lease_service \<Rightarrow> bool res \<times> lease_service" where
  "release gen_id gen_epoch token_id rid ls =
     (if rid \<noteq> Some (ls_reconciliation_id ls) then (Inl (NelixError STALE_RECONCILIATION_ID), ls)
      else let (es, ls1) = epoch_of (gen_id, gen_epoch) ls in
      if es_reconciled_rid es \<noteq> Some (ls_reconciliation_id ls) then (Inl (NelixError REBUILDING), ls1)
      else case map_of (es_tokens es) token_id of
        None \<Rightarrow> (Inr False, ls1)
      | Some entry \<Rightarrow>
          (Inr True,
           put_epoch (gen_id, gen_epoch)
             (es_bump (le_kind entry) (-1) (drop_entry token_id entry es))
             (ls_bump (le_kind entry) (-1) ls1)))"

primrec release_all :: "(string \<times> lease_entry) list \<Rightarrow> epoch_lease \<times> lease_service \<Rightarrow> epoch_lease \<times> lease_service" where
  "release_all [] st = st"
| "release_all (p # ps) st =
     release_all ps
       (es_bump (le_kind (snd p)) (-1) (drop_entry (fst p) (snd p) (fst st)),
        ls_bump (le_kind (snd p)) (-1) (snd st))"

definition release_epoch :: "string \<Rightarrow> string \<Rightarrow> lease_service \<Rightarrow> lease_service" where
  "release_epoch gen_id gen_epoch ls =
     (case map_of (ls_epochs ls) (gen_id, gen_epoch) of
        None \<Rightarrow> ls
      | Some es \<Rightarrow>
          (let (es', ls') = release_all (es_tokens es) (es, ls)
           in put_epoch (gen_id, gen_epoch) (es'\<lparr>es_tokens := [], es_by_kind_key := []\<rparr>) ls'))"

section \<open>register_snapshot\<close>

fun seq_items :: "pyval \<Rightarrow> pyval list option" where
  "seq_items (VList xs) = Some xs"
| "seq_items (VTuple xs) = Some xs"
| "seq_items _ = None"

definition dict_get :: "(string \<times> pyval) list \<Rightarrow> string \<Rightarrow> pyval" where
  "dict_get d k = (case map_of d k of Some v \<Rightarrow> v | None \<Rightarrow> VNone)"

text \<open>A validated entry: its token id and its key in normal form.\<close>

definition validate_entry :: "string \<Rightarrow> string \<Rightarrow> string \<Rightarrow> pyval \<Rightarrow> unit res" where
  "validate_entry expected_kind gen_id gen_epoch entry =
     (case entry of
        VDict d \<Rightarrow>
          rbind (require (is_nonempty_str (dict_get d ''token_id'')) (NelixError INVALID_REQUEST)) (\<lambda>_.
          case seq_items (dict_get d ''key'') of
            None \<Rightarrow> Inl (NelixError INVALID_REQUEST)
          | Some key \<Rightarrow>
              rbind (require (length key = 5) (NelixError INVALID_REQUEST)) (\<lambda>_.
              rbind (require (is_str (key ! 3)) (NelixError INVALID_REQUEST)) (\<lambda>_.
              rbind (require (key ! 4 = VStr expected_kind) (NelixError INVALID_REQUEST)) (\<lambda>_.
              require (key ! 0 = VStr gen_id \<and> key ! 1 = VStr gen_epoch) (NelixError INVALID_REQUEST)))))
      | _ \<Rightarrow> Inl (NelixError INVALID_REQUEST))"

primrec validate_snapshot_entry_batch :: "string \<Rightarrow> string \<Rightarrow> string \<Rightarrow> pyval list \<Rightarrow> unit res" where
  "validate_snapshot_entry_batch kind gen_id gen_epoch [] = Inr ()"
| "validate_snapshot_entry_batch kind gen_id gen_epoch (e # es) =
     rbind (validate_entry kind gen_id gen_epoch e) (\<lambda>_.
       validate_snapshot_entry_batch kind gen_id gen_epoch es)"

fun entry_tid :: "pyval \<Rightarrow> string" where
  "entry_tid (VDict d) = (case dict_get d ''token_id'' of VStr s \<Rightarrow> s | _ \<Rightarrow> [])"
| "entry_tid _ = []"

fun entry_key :: "pyval \<Rightarrow> pyval list" where
  "entry_key (VDict d) = (case seq_items (dict_get d ''key'') of Some xs \<Rightarrow> xs | None \<Rightarrow> [])"
| "entry_key _ = []"

abbreviation entry_kk :: "pyval \<Rightarrow> kind_key" where
  "entry_kk e \<equiv> map py_norm (entry_key e)"

fun check_duplicates :: "pyval list \<Rightarrow> string list \<times> kind_key list \<Rightarrow> (string list \<times> kind_key list) res" where
  "check_duplicates [] seen = Inr seen"
| "check_duplicates (e # es) (tids, kks) =
     rbind (require (entry_tid e \<notin> set tids) (NelixError INVALID_REQUEST)) (\<lambda>_.
     rbind (require (list_all hashable (entry_key e)) TypeError) (\<lambda>_.
     rbind (require (entry_kk e \<notin> set kks) (NelixError INVALID_REQUEST)) (\<lambda>_.
       check_duplicates es (entry_tid e # tids, entry_kk e # kks))))"

primrec load_entries :: "string \<Rightarrow> pyval list \<Rightarrow> epoch_lease \<Rightarrow> epoch_lease" where
  "load_entries kind [] es = es"
| "load_entries kind (e # rest) es = load_entries kind rest (add_entry kind (entry_tid e) (entry_kk e) es)"

definition check_snapshot ::
  "string \<Rightarrow> string \<Rightarrow> pyval list \<Rightarrow> pyval list \<Rightarrow> epoch_lease \<Rightarrow> lease_service \<Rightarrow> unit res" where
  "check_snapshot gen_id gen_epoch active_tokens live_tokens es ls =
     rbind (validate_snapshot_entry_batch ''active'' gen_id gen_epoch active_tokens) (\<lambda>_.
     rbind (validate_snapshot_entry_batch ''live'' gen_id gen_epoch live_tokens) (\<lambda>_.
     rbind (check_duplicates active_tokens ([], [])) (\<lambda>seen.
     rbind (check_duplicates live_tokens seen) (\<lambda>_.
     rbind (require (ls_global_active_count ls - es_active_count es + int (length active_tokens) \<le> ls_active_limit ls)
       (NelixError CONCURRENCY_LIMIT)) (\<lambda>_.
     require (ls_global_live_pty_count ls - es_live_pty_count es + int (length live_tokens) \<le> ls_live_pty_limit ls)
       (NelixError CONCURRENCY_LIMIT))))))"

definition register_snapshot ::
  "string \<Rightarrow> string \<Rightarrow> string \<Rightarrow> pyval list \<Rightarrow> pyval list \<Rightarrow> lease_service \<Rightarrow> string res \<times> lease_service" where
  "register_snapshot gen_id gen_epoch rid active_tokens live_tokens ls =
     (if rid \<noteq> ls_reconciliation_id ls then (Inl (NelixError STALE_RECONCILIATION_ID), ls)
      else let (es, ls1) = epoch_of (gen_id, gen_epoch) ls in
      if es_reconciled_rid es = Some (ls_reconciliation_id ls) then (Inr (ls_reconciliation_id ls), ls1)
      else case check_snapshot gen_id gen_epoch active_tokens live_tokens es ls1 of
        Inl e \<Rightarrow> (Inl e, ls1)
      | Inr _ \<Rightarrow>
          (let n_active = int (length active_tokens);
               n_live = int (length live_tokens);
               ls2 = ls1\<lparr>ls_global_active_count := ls_global_active_count ls1 - es_active_count es + n_active,
                         ls_global_live_pty_count := ls_global_live_pty_count ls1 - es_live_pty_count es + n_live\<rparr>;
               es1 = es\<lparr>es_tokens := [], es_by_kind_key := []\<rparr>;
               es2 = load_entries ''live'' live_tokens (load_entries ''active'' active_tokens es1);
               es3 = es2\<lparr>es_active_count := n_active, es_live_pty_count := n_live,
                         es_rebuilding := False, es_reconciled_rid := Some (ls_reconciliation_id ls)\<rparr>
           in (Inr (ls_reconciliation_id ls), put_epoch (gen_id, gen_epoch) es3 ls2)))"

section \<open>Reconciliation state and inspection\<close>

definition set_reconciliation_id :: "string \<Rightarrow> lease_service \<Rightarrow> lease_service" where
  "set_reconciliation_id rid ls = ls\<lparr>ls_reconciliation_id := rid\<rparr>"

definition mark_epoch_rebuilding :: "string \<Rightarrow> string \<Rightarrow> lease_service \<Rightarrow> lease_service" where
  "mark_epoch_rebuilding gen_id gen_epoch ls =
     (let (es, ls1) = epoch_of (gen_id, gen_epoch) ls
      in put_epoch (gen_id, gen_epoch) (es\<lparr>es_rebuilding := True\<rparr>) ls1)"

definition rebuild :: "bool \<Rightarrow> epoch_lease \<Rightarrow> epoch_lease" where
  "rebuild value es =
     (let es1 = es\<lparr>es_rebuilding := value\<rparr> in if value then es1\<lparr>es_reconciled_rid := None\<rparr> else es1)"

definition set_epoch_rebuilding :: "string \<Rightarrow> string \<Rightarrow> bool \<Rightarrow> lease_service \<Rightarrow> lease_service" where
  "set_epoch_rebuilding gen_id gen_epoch value ls =
     (let (es, ls1) = epoch_of (gen_id, gen_epoch) ls
      in put_epoch (gen_id, gen_epoch) (rebuild value es) ls1)"

definition set_rebuilding :: "bool \<Rightarrow> lease_service \<Rightarrow> lease_service" where
  "set_rebuilding value ls = ls\<lparr>ls_epochs := map (\<lambda>(k, es). (k, rebuild value es)) (ls_epochs ls)\<rparr>"

definition is_epoch_rebuilding :: "string \<Rightarrow> string \<Rightarrow> lease_service \<Rightarrow> bool" where
  "is_epoch_rebuilding gen_id gen_epoch ls =
     (case map_of (ls_epochs ls) (gen_id, gen_epoch) of Some es \<Rightarrow> es_rebuilding es | None \<Rightarrow> False)"

definition any_rebuilding :: "lease_service \<Rightarrow> bool" where
  "any_rebuilding ls = list_ex (\<lambda>(k, es). es_rebuilding es) (ls_epochs ls)"

definition token_count :: "lease_service \<Rightarrow> nat" where
  "token_count ls = sum_list (map (\<lambda>(k, es). length (es_tokens es)) (ls_epochs ls))"

definition epoch_token_count :: "string \<Rightarrow> string \<Rightarrow> lease_service \<Rightarrow> nat" where
  "epoch_token_count gen_id gen_epoch ls =
     (case map_of (ls_epochs ls) (gen_id, gen_epoch) of Some es \<Rightarrow> length (es_tokens es) | None \<Rightarrow> 0)"

definition epoch_active_count :: "string \<Rightarrow> string \<Rightarrow> lease_service \<Rightarrow> int" where
  "epoch_active_count gen_id gen_epoch ls =
     (case map_of (ls_epochs ls) (gen_id, gen_epoch) of Some es \<Rightarrow> es_active_count es | None \<Rightarrow> 0)"

definition epoch_live_pty_count :: "string \<Rightarrow> string \<Rightarrow> lease_service \<Rightarrow> int" where
  "epoch_live_pty_count gen_id gen_epoch ls =
     (case map_of (ls_epochs ls) (gen_id, gen_epoch) of Some es \<Rightarrow> es_live_pty_count es | None \<Rightarrow> 0)"

section \<open>Operations as steps\<close>

datatype lease_op =
    Acquire_op string string string string "string list" "string option" string string
  | Release_op string string string "string option"
  | Release_epoch_op string string
  | Register_op string string string "pyval list" "pyval list"
  | Set_rid_op string
  | Mark_rebuilding_op string string
  | Set_epoch_rebuilding_op string string bool
  | Set_rebuilding_op bool

fun lease_step :: "lease_service \<Rightarrow> lease_op \<Rightarrow> lease_service" where
  "lease_step ls (Acquire_op g e s a kinds rid ta tlv) = snd (acquire g e s a kinds rid ta tlv ls)"
| "lease_step ls (Release_op g e t rid) = snd (release g e t rid ls)"
| "lease_step ls (Release_epoch_op g e) = release_epoch g e ls"
| "lease_step ls (Register_op g e rid act live) = snd (register_snapshot g e rid act live ls)"
| "lease_step ls (Set_rid_op rid) = set_reconciliation_id rid ls"
| "lease_step ls (Mark_rebuilding_op g e) = mark_epoch_rebuilding g e ls"
| "lease_step ls (Set_epoch_rebuilding_op g e v) = set_epoch_rebuilding g e v ls"
| "lease_step ls (Set_rebuilding_op v) = set_rebuilding v ls"

end
