(* ===== verification/Nelix_Leases_Inv.thy ===== *)
theory Nelix_Leases_Inv
  imports Nelix_Leases
begin

text \<open>
  The lease service's invariant: within an epoch the two indices are mutually inverse and
  the counters count the tokens of their kind; the global counters are the sums over the
  epochs and stay within the limits.
\<close>

section \<open>One epoch\<close>

definition kind_count :: "string \<Rightarrow> (string, lease_entry) dict \<Rightarrow> int" where
  "kind_count kind d = int (length (filter (\<lambda>p. le_kind (snd p) = kind) d))"

definition lease_kinds :: "string list" where
  "lease_kinds = [''active'', ''live'']"

definition index_ok :: "epoch_lease \<Rightarrow> bool" where
  "index_ok es \<longleftrightarrow>
     dict_ok (es_tokens es) \<and> dict_ok (es_by_kind_key es) \<and>
     (\<forall>t e. map_of (es_tokens es) t = Some e \<longrightarrow>
        le_token_id e = t \<and> le_kind e \<in> set lease_kinds \<and> map_of (es_by_kind_key es) (le_key e) = Some e) \<and>
     (\<forall>k e. map_of (es_by_kind_key es) k = Some e \<longrightarrow>
        le_key e = k \<and> map_of (es_tokens es) (le_token_id e) = Some e)"

lemma index_ok_token:
  assumes "index_ok es" "map_of (es_tokens es) t = Some e"
  shows "le_token_id e = t" "le_kind e \<in> set lease_kinds" "map_of (es_by_kind_key es) (le_key e) = Some e"
  using assms unfolding index_ok_def by blast+

lemma index_ok_key:
  assumes "index_ok es" "map_of (es_by_kind_key es) k = Some e"
  shows "le_key e = k" "map_of (es_tokens es) (le_token_id e) = Some e"
  using assms unfolding index_ok_def by blast+

lemma index_ok_dicts: "index_ok es \<Longrightarrow> dict_ok (es_tokens es)" "index_ok es \<Longrightarrow> dict_ok (es_by_kind_key es)"
  unfolding index_ok_def by blast+

definition epoch_ok :: "epoch_lease \<Rightarrow> bool" where
  "epoch_ok es \<longleftrightarrow> index_ok es \<and>
     es_active_count es = kind_count ''active'' (es_tokens es) \<and>
     es_live_pty_count es = kind_count ''live'' (es_tokens es)"

lemma kind_count_Nil [simp]: "kind_count kind [] = 0"
  by (simp add: kind_count_def)

lemma kind_count_nonneg [simp]: "0 \<le> kind_count kind d"
  by (simp add: kind_count_def)

lemma kind_count_add:
  "map_of d t = None \<Longrightarrow>
     kind_count kind (AList.update t e d) = kind_count kind d + (if le_kind e = kind then 1 else 0)"
  by (simp add: kind_count_def dict_filter_update_new)

lemma kind_count_delete:
  assumes "dict_ok d" "map_of d t = Some e"
  shows "kind_count kind (AList.delete t d) = kind_count kind d - (if le_kind e = kind then 1 else 0)"
  using dict_filter_delete [OF assms, of "\<lambda>p. le_kind (snd p) = kind"]
  by (auto simp: kind_count_def split: if_splits)

lemma epoch_ok_new [simp]: "epoch_ok EpochLeaseState"
  by (simp add: epoch_ok_def index_ok_def EpochLeaseState_def)

lemma es_bump_simps [simp]:
  "es_tokens (es_bump kind n es) = es_tokens es" "es_by_kind_key (es_bump kind n es) = es_by_kind_key es"
  "es_reconciled_rid (es_bump kind n es) = es_reconciled_rid es"
  "es_active_count (es_bump kind n es) = es_active_count es + (if kind = ''active'' then n else 0)"
  "es_live_pty_count (es_bump kind n es) = es_live_pty_count es + (if kind = ''live'' then n else 0)"
  by (simp_all add: es_bump_def)

lemma ls_bump_simps [simp]:
  "ls_epochs (ls_bump kind n ls) = ls_epochs ls" "ls_active_limit (ls_bump kind n ls) = ls_active_limit ls"
  "ls_live_pty_limit (ls_bump kind n ls) = ls_live_pty_limit ls"
  "ls_reconciliation_id (ls_bump kind n ls) = ls_reconciliation_id ls"
  "ls_global_active_count (ls_bump kind n ls) = ls_global_active_count ls + (if kind = ''active'' then n else 0)"
  "ls_global_live_pty_count (ls_bump kind n ls) = ls_global_live_pty_count ls + (if kind = ''live'' then n else 0)"
  by (simp_all add: ls_bump_def)

lemma add_entry_simps [simp]:
  "es_tokens (add_entry kind t kk es) =
     AList.update t \<lparr>le_key = kk, le_kind = kind, le_token_id = t\<rparr> (es_tokens es)"
  "es_by_kind_key (add_entry kind t kk es) =
     AList.update kk \<lparr>le_key = kk, le_kind = kind, le_token_id = t\<rparr> (es_by_kind_key es)"
  "es_active_count (add_entry kind t kk es) = es_active_count es"
  "es_live_pty_count (add_entry kind t kk es) = es_live_pty_count es"
  "es_reconciled_rid (add_entry kind t kk es) = es_reconciled_rid es"
  by (simp_all add: add_entry_def Let_def)

lemma drop_entry_simps [simp]:
  "es_tokens (drop_entry t e es) = AList.delete t (es_tokens es)"
  "es_by_kind_key (drop_entry t e es) = AList.delete (le_key e) (es_by_kind_key es)"
  "es_active_count (drop_entry t e es) = es_active_count es"
  "es_live_pty_count (drop_entry t e es) = es_live_pty_count es"
  "es_reconciled_rid (drop_entry t e es) = es_reconciled_rid es"
  by (simp_all add: drop_entry_def)

lemma add_entry_index_ok:
  assumes ok: "index_ok es" and new: "map_of (es_tokens es) t = None" "map_of (es_by_kind_key es) kk = None"
    and kind: "kind \<in> set lease_kinds"
  shows "index_ok (add_entry kind t kk es)"
  unfolding index_ok_def
proof (intro conjI allI impI)
  show "dict_ok (es_tokens (add_entry kind t kk es))" "dict_ok (es_by_kind_key (add_entry kind t kk es))"
    using index_ok_dicts [OF ok] by simp_all
  fix u e
  assume u: "map_of (es_tokens (add_entry kind t kk es)) u = Some e"
  have *: "le_token_id e = u \<and> le_kind e \<in> set lease_kinds \<and>
      map_of (es_by_kind_key (add_entry kind t kk es)) (le_key e) = Some e"
  proof (cases "u = t")
    case False
    with u have "map_of (es_tokens es) u = Some e" by simp
    note e = index_ok_token [OF ok this]
    with new(2) have "le_key e \<noteq> kk" by (metis option.distinct(1))
    with e show ?thesis by simp
  qed (use u kind in auto)
  then show "le_token_id e = u" "le_kind e \<in> set lease_kinds"
    "map_of (es_by_kind_key (add_entry kind t kk es)) (le_key e) = Some e" by blast+
next
  fix k e
  assume k: "map_of (es_by_kind_key (add_entry kind t kk es)) k = Some e"
  have *: "le_key e = k \<and> map_of (es_tokens (add_entry kind t kk es)) (le_token_id e) = Some e"
  proof (cases "k = kk")
    case False
    with k have "map_of (es_by_kind_key es) k = Some e" by simp
    note e = index_ok_key [OF ok this]
    with new(1) have "le_token_id e \<noteq> t" by (metis option.distinct(1))
    with e show ?thesis by simp
  qed (use k in auto)
  then show "le_key e = k" "map_of (es_tokens (add_entry kind t kk es)) (le_token_id e) = Some e" by blast+
qed

lemma drop_entry_index_ok:
  assumes ok: "index_ok es" and t: "map_of (es_tokens es) t = Some e"
  shows "index_ok (drop_entry t e es)"
  unfolding index_ok_def
proof (intro conjI allI impI)
  note e = index_ok_token [OF ok t]
  show "dict_ok (es_tokens (drop_entry t e es))" "dict_ok (es_by_kind_key (drop_entry t e es))"
    using index_ok_dicts [OF ok] by simp_all
  fix u x
  assume "map_of (es_tokens (drop_entry t e es)) u = Some x"
  then have u: "u \<noteq> t" "map_of (es_tokens es) u = Some x" by (simp_all split: if_splits)
  note x = index_ok_token [OF ok u(2)]
  show "le_token_id x = u" "le_kind x \<in> set lease_kinds" by (rule x)+
  have "le_key x \<noteq> le_key e"
  proof
    assume "le_key x = le_key e"
    with x(3) e(3) have "x = e" by (metis option.inject)
    with x(1) e(1) u(1) show False by simp
  qed
  with x(3) show "map_of (es_by_kind_key (drop_entry t e es)) (le_key x) = Some x" by simp
next
  fix k x
  assume "map_of (es_by_kind_key (drop_entry t e es)) k = Some x"
  then have k: "k \<noteq> le_key e" "map_of (es_by_kind_key es) k = Some x" by (simp_all split: if_splits)
  note x = index_ok_key [OF ok k(2)]
  show "le_key x = k" by (rule x)
  have "le_token_id x \<noteq> t"
  proof
    assume "le_token_id x = t"
    with x(2) t have "x = e" by (metis option.inject)
    with x(1) k(1) show False by simp
  qed
  with x(2) show "map_of (es_tokens (drop_entry t e es)) (le_token_id x) = Some x" by simp
qed

lemma index_ok_cong:
  "es_tokens es' = es_tokens es \<Longrightarrow> es_by_kind_key es' = es_by_kind_key es \<Longrightarrow> index_ok es' = index_ok es"
  by (simp only: index_ok_def)

lemma index_ok_bump [simp]: "index_ok (es_bump kind n es) = index_ok es"
  by (rule index_ok_cong) simp_all

lemma grant_epoch_ok:
  assumes ok: "epoch_ok es" and new: "map_of (es_tokens es) t = None" "map_of (es_by_kind_key es) kk = None"
    and kind: "kind \<in> set lease_kinds"
  shows "epoch_ok (es_bump kind 1 (add_entry kind t kk es))"
proof -
  have "index_ok (add_entry kind t kk es)" by (rule add_entry_index_ok) (use assms in \<open>simp_all add: epoch_ok_def\<close>)
  then have "index_ok (es_bump kind 1 (add_entry kind t kk es))" by simp
  with ok new show ?thesis by (simp add: epoch_ok_def kind_count_add)
qed

lemma drop_epoch_ok:
  assumes ok: "epoch_ok es" and t: "map_of (es_tokens es) t = Some e"
  shows "epoch_ok (es_bump (le_kind e) (-1) (drop_entry t e es))"
proof -
  have "index_ok (drop_entry t e es)" by (rule drop_entry_index_ok) (use assms in \<open>simp_all add: epoch_ok_def\<close>)
  then have "index_ok (es_bump (le_kind e) (-1) (drop_entry t e es))" 
    by simp
  moreover have "dict_ok (es_tokens es)" using ok index_ok_dicts by (simp add: epoch_ok_def)
  ultimately show ?thesis using ok by (simp add: epoch_ok_def kind_count_delete [OF _ t])
qed

section \<open>All epochs\<close>

definition sum_epochs :: "(epoch_lease \<Rightarrow> int) \<Rightarrow> (epoch_key, epoch_lease) dict \<Rightarrow> int" where
  "sum_epochs f d = sum_list (map (\<lambda>p. f (snd p)) d)"

definition lease_ok :: "lease_service \<Rightarrow> bool" where
  "lease_ok ls \<longleftrightarrow>
     dict_ok (ls_epochs ls) \<and> (\<forall>k es. map_of (ls_epochs ls) k = Some es \<longrightarrow> epoch_ok es) \<and>
     ls_global_active_count ls = sum_epochs es_active_count (ls_epochs ls) \<and>
     ls_global_live_pty_count ls = sum_epochs es_live_pty_count (ls_epochs ls) \<and>
     ls_global_active_count ls \<le> ls_active_limit ls \<and> ls_global_live_pty_count ls \<le> ls_live_pty_limit ls"

abbreviation held :: "lease_service \<Rightarrow> epoch_key \<Rightarrow> epoch_lease" where
  "held ls k \<equiv> fst (epoch_of k ls)"

lemma held_eq: "held ls k = (case map_of (ls_epochs ls) k of Some es \<Rightarrow> es | None \<Rightarrow> EpochLeaseState)"
  by (simp add: epoch_of_def split: option.splits)

lemma sum_epochs_update:
  assumes "f EpochLeaseState = 0"
  shows "sum_epochs f (AList.update k v d) =
    sum_epochs f d - f (case map_of d k of Some es \<Rightarrow> es | None \<Rightarrow> EpochLeaseState) + f v"
  using assms by (induction d) (auto simp: sum_epochs_def)

lemma counts_new [simp]: "es_active_count EpochLeaseState = 0" "es_live_pty_count EpochLeaseState = 0"
  by (simp_all add: EpochLeaseState_def)

text \<open>An operation that touches one epoch: enough that the new epoch is fine and the
  globals moved by its difference.\<close>

lemma put_epoch_ok:
  assumes ok: "lease_ok ls" and es: "epoch_ok es'"
    and lim: "ls_active_limit ls' = ls_active_limit ls" "ls_live_pty_limit ls' = ls_live_pty_limit ls"
    and ep: "ls_epochs ls' = ls_epochs ls"
    and act: "ls_global_active_count ls' = ls_global_active_count ls - es_active_count (held ls k) + es_active_count es'"
    and live: "ls_global_live_pty_count ls' =
      ls_global_live_pty_count ls - es_live_pty_count (held ls k) + es_live_pty_count es'"
    and bounds: "ls_global_active_count ls' \<le> ls_active_limit ls" "ls_global_live_pty_count ls' \<le> ls_live_pty_limit ls"
  shows "lease_ok (put_epoch k es' ls')"
  using ok es bounds unfolding lease_ok_def
  by (auto simp: put_epoch_def lim ep sum_epochs_update act live held_eq split: if_splits)

lemma epoch_of_ok:
  assumes ok: "lease_ok ls" and e: "epoch_of k ls = (es, ls1)"
  shows "lease_ok ls1" "epoch_ok es" "held ls1 k = es" "es = held ls k"
    "ls_active_limit ls1 = ls_active_limit ls" "ls_live_pty_limit ls1 = ls_live_pty_limit ls"
    "ls_reconciliation_id ls1 = ls_reconciliation_id ls"
    "ls_global_active_count ls1 = ls_global_active_count ls" "ls_global_live_pty_count ls1 = ls_global_live_pty_count ls"
    "map_of (ls_epochs ls1) k = Some es"
    "k' \<noteq> k \<Longrightarrow> map_of (ls_epochs ls1) k' = map_of (ls_epochs ls) k'"
proof -
  show "lease_ok ls1"
  proof (cases "map_of (ls_epochs ls) k")
    case None
    then have "ls1 = put_epoch k EpochLeaseState ls" using e by (auto simp: epoch_of_def put_epoch_def)
    with put_epoch_ok [OF ok epoch_ok_new, of ls k] ok None show ?thesis by (simp add: held_eq lease_ok_def)
  next
    case (Some x)
    with ok e show ?thesis by (simp add: epoch_of_def)
  qed
  have "\<forall>k es. map_of (ls_epochs ls) k = Some es \<longrightarrow> epoch_ok es" using ok unfolding lease_ok_def by blast
  with e show "epoch_ok es" by (cases "map_of (ls_epochs ls) k"; cases k) (simp_all add: epoch_of_def)
  show "held ls1 k = es" "es = held ls k" "ls_active_limit ls1 = ls_active_limit ls"
    "ls_live_pty_limit ls1 = ls_live_pty_limit ls" "ls_reconciliation_id ls1 = ls_reconciliation_id ls"
    "ls_global_active_count ls1 = ls_global_active_count ls" "ls_global_live_pty_count ls1 = ls_global_live_pty_count ls"
    "map_of (ls_epochs ls1) k = Some es"
    "k' \<noteq> k \<Longrightarrow> map_of (ls_epochs ls1) k' = map_of (ls_epochs ls) k'"
    using e by (auto simp: epoch_of_def split: option.splits)
qed

section \<open>Operations\<close>

lemma limits: 
  assumes "lease_ok ls"
  shows "ls_global_active_count ls \<le> ls_active_limit ls" "ls_global_live_pty_count ls \<le> ls_live_pty_limit ls"
  using assms by (simp_all add: lease_ok_def)

text \<open>The fresh token ids of an acquire.\<close>

definition fresh_tokens :: "lease_service \<Rightarrow> epoch_key \<Rightarrow> string \<Rightarrow> string \<Rightarrow> bool" where
  "fresh_tokens ls k ta tlv \<longleftrightarrow> ta \<noteq> tlv \<and>
     map_of (es_tokens (held ls k)) ta = None \<and> map_of (es_tokens (held ls k)) tlv = None"

lemma lease_kinds_simps [simp]: "''active'' \<in> set lease_kinds" "''live'' \<in> set lease_kinds"
  by (simp_all add: lease_kinds_def)

abbreviation kind_keys :: "string \<Rightarrow> string \<Rightarrow> string \<Rightarrow> string \<Rightarrow> string \<Rightarrow> kind_key" where
  "kind_keys g e s a kind \<equiv> [VStr g, VStr e, VStr s, VStr a, VStr kind]"

text \<open>An acquire that passed every check, as one equation per outcome.\<close>

definition grants :: "bool \<Rightarrow> bool \<Rightarrow> string \<Rightarrow> string \<Rightarrow> kind_key \<Rightarrow> kind_key \<Rightarrow> epoch_lease \<times> lease_service \<Rightarrow> epoch_lease \<times> lease_service" where
  "grants na nl ta tlv kka kkl st =
     (let st1 = (if na then grant ''active'' ta kka st else st)
      in if nl then grant ''live'' tlv kkl st1 else st1)"

lemma grants_epoch_ok:
  assumes ok: "epoch_ok es" and t: "ta \<noteq> tlv" "map_of (es_tokens es) ta = None" "map_of (es_tokens es) tlv = None"
    and k: "kka \<noteq> kkl" "na \<Longrightarrow> map_of (es_by_kind_key es) kka = None" "nl \<Longrightarrow> map_of (es_by_kind_key es) kkl = None"
  shows "epoch_ok (fst (grants na nl ta tlv kka kkl (es, ls)))"
proof -
  let ?es = "if na then es_bump ''active'' 1 (add_entry ''active'' ta kka es) else es"
  have 1: "epoch_ok ?es" using grant_epoch_ok [OF ok t(2) k(2)] ok by simp
  have "epoch_ok (es_bump ''live'' 1 (add_entry ''live'' tlv kkl ?es))" if nl
    by (rule grant_epoch_ok [OF 1]) (use t k that in auto)
  with 1 show ?thesis by (cases na; cases nl) (simp_all add: grants_def grant_def Let_def)
qed

lemma grants_simps:
  "ls_epochs (snd (grants na nl ta tlv kka kkl (es, ls))) = ls_epochs ls"
  "ls_active_limit (snd (grants na nl ta tlv kka kkl (es, ls))) = ls_active_limit ls"
  "ls_live_pty_limit (snd (grants na nl ta tlv kka kkl (es, ls))) = ls_live_pty_limit ls"
  "ls_reconciliation_id (snd (grants na nl ta tlv kka kkl (es, ls))) = ls_reconciliation_id ls"
  "ls_global_active_count (snd (grants na nl ta tlv kka kkl (es, ls))) = ls_global_active_count ls + (if na then 1 else 0)"
  "ls_global_live_pty_count (snd (grants na nl ta tlv kka kkl (es, ls))) = ls_global_live_pty_count ls + (if nl then 1 else 0)"
  "es_active_count (fst (grants na nl ta tlv kka kkl (es, ls))) = es_active_count es + (if na then 1 else 0)"
  "es_live_pty_count (fst (grants na nl ta tlv kka kkl (es, ls))) = es_live_pty_count es + (if nl then 1 else 0)"
  "es_reconciled_rid (fst (grants na nl ta tlv kka kkl (es, ls))) = es_reconciled_rid es"
  by (simp_all add: grants_def grant_def Let_def)

lemma acquire_cases:
  obtains
    (stale) "rid \<noteq> Some (ls_reconciliation_id ls)"
      "acquire g e s a kinds rid ta tlv ls = (Inl (NelixError STALE_RECONCILIATION_ID), ls)"
  | (rebuilding) es ls1 where "rid = Some (ls_reconciliation_id ls)" "epoch_of (g, e) ls = (es, ls1)"
      "es_reconciled_rid es \<noteq> Some (ls_reconciliation_id ls)"
      "acquire g e s a kinds rid ta tlv ls = (Inl (NelixError REBUILDING), ls1)"
  | (limit) es ls1 where "rid = Some (ls_reconciliation_id ls)" "epoch_of (g, e) ls = (es, ls1)"
      "es_reconciled_rid es = Some (ls_reconciliation_id ls)"
      "''active'' \<in> set kinds \<and> map_of (es_by_kind_key es) (kind_keys g e s a ''active'') = None \<and>
         ls_active_limit ls1 \<le> ls_global_active_count ls1 \<or>
       ''live'' \<in> set kinds \<and> map_of (es_by_kind_key es) (kind_keys g e s a ''live'') = None \<and>
         ls_live_pty_limit ls1 \<le> ls_global_live_pty_count ls1"
      "acquire g e s a kinds rid ta tlv ls = (Inl (NelixError CONCURRENCY_LIMIT), ls1)"
  | (granted) es ls1 na nl res where "rid = Some (ls_reconciliation_id ls)" "epoch_of (g, e) ls = (es, ls1)"
      "es_reconciled_rid es = Some (ls_reconciliation_id ls)"
      "na \<longleftrightarrow> ''active'' \<in> set kinds \<and> map_of (es_by_kind_key es) (kind_keys g e s a ''active'') = None"
      "nl \<longleftrightarrow> ''live'' \<in> set kinds \<and> map_of (es_by_kind_key es) (kind_keys g e s a ''live'') = None"
      "na \<Longrightarrow> ls_global_active_count ls1 < ls_active_limit ls1"
      "nl \<Longrightarrow> ls_global_live_pty_count ls1 < ls_live_pty_limit ls1"
      "map_of res = Map.empty
         (''active'' := (if ''active'' \<notin> set kinds then None
            else case map_of (es_by_kind_key es) (kind_keys g e s a ''active'') of
              None \<Rightarrow> Some (ta, True) | Some x \<Rightarrow> Some (le_token_id x, False)),
          ''live'' := (if ''live'' \<notin> set kinds then None
            else case map_of (es_by_kind_key es) (kind_keys g e s a ''live'') of
              None \<Rightarrow> Some (tlv, True) | Some x \<Rightarrow> Some (le_token_id x, False)))"
      "acquire g e s a kinds rid ta tlv ls =
         (Inr res, put_epoch (g, e)
            (fst (grants na nl ta tlv (kind_keys g e s a ''active'') (kind_keys g e s a ''live'') (es, ls1)))
            (snd (grants na nl ta tlv (kind_keys g e s a ''active'') (kind_keys g e s a ''live'') (es, ls1))))"
proof -
  obtain es ls1 where e: "epoch_of (g, e) ls = (es, ls1)" by fastforce
  show ?thesis
  proof (cases "rid = Some (ls_reconciliation_id ls)")
    case False
    then show ?thesis by (intro stale) (simp_all add: acquire_def)
  next
    case rid: True
    show ?thesis
    proof (cases "es_reconciled_rid es = Some (ls_reconciliation_id ls)")
      case False
      with rid e show ?thesis by (intro rebuilding [of es ls1]) (simp_all add: acquire_def)
    next
      case rec: True
      let ?na = "''active'' \<in> set kinds \<and> map_of (es_by_kind_key es) (kind_keys g e s a ''active'') = None"
      let ?nl = "''live'' \<in> set kinds \<and> map_of (es_by_kind_key es) (kind_keys g e s a ''live'') = None"
      show ?thesis
      proof (cases "?na \<and> ls_active_limit ls1 \<le> ls_global_active_count ls1 \<or>
          ?nl \<and> ls_live_pty_limit ls1 \<le> ls_global_live_pty_count ls1")
        case True
        then show ?thesis using rid e rec by (intro limit [of es ls1]) (auto simp: acquire_def Let_def)
      next
        case False
        then show ?thesis
          using rid e rec
          by (intro granted [of es ls1 ?na ?nl "the (case fst (acquire g e s a kinds rid ta tlv ls) of Inr r \<Rightarrow> Some r | Inl _ \<Rightarrow> None)"])
            (auto simp: acquire_def Let_def grants_def split: option.splits)
      qed
    qed
  qed
qed

lemma acquire_ok:
  assumes ok: "lease_ok ls" and fresh: "fresh_tokens ls (g, e) ta tlv"
  shows "lease_ok (snd (acquire g e s a kinds rid ta tlv ls))"
proof (cases rule: acquire_cases [of rid ls g e s a kinds ta tlv])
  case stale
  with ok show ?thesis by simp
next
  case (rebuilding es ls1)
  with epoch_of_ok(1) [OF ok rebuilding(2)] show ?thesis by simp
next
  case (limit es ls1)
  with epoch_of_ok(1) [OF ok limit(2)] show ?thesis by simp
next
  case (granted es ls1 na nl res)
  note ep = epoch_of_ok [OF ok granted(2)]
  have "epoch_ok (fst (grants na nl ta tlv (kind_keys g e s a ''active'') (kind_keys g e s a ''live'') (es, ls1)))"
    by (rule grants_epoch_ok [OF ep(2)]) (use fresh ep(4) granted(4,5) in \<open>auto simp: fresh_tokens_def\<close>)
  then show ?thesis
    unfolding granted(9) snd_conv
    by (rule put_epoch_ok [OF ep(1)])
      (use granted(6,7) ep(3) limits [OF ep(1)] in \<open>auto simp: grants_simps\<close>)
qed

lemma release_cases:
  obtains
    (stale) "rid \<noteq> Some (ls_reconciliation_id ls)"
      "release g e t rid ls = (Inl (NelixError STALE_RECONCILIATION_ID), ls)"
  | (rebuilding) es ls1 where "rid = Some (ls_reconciliation_id ls)" "epoch_of (g, e) ls = (es, ls1)"
      "es_reconciled_rid es \<noteq> Some (ls_reconciliation_id ls)"
      "release g e t rid ls = (Inl (NelixError REBUILDING), ls1)"
  | (absent) es ls1 where "rid = Some (ls_reconciliation_id ls)" "epoch_of (g, e) ls = (es, ls1)"
      "es_reconciled_rid es = Some (ls_reconciliation_id ls)" "map_of (es_tokens es) t = None"
      "release g e t rid ls = (Inr False, ls1)"
  | (freed) es ls1 entry where "rid = Some (ls_reconciliation_id ls)" "epoch_of (g, e) ls = (es, ls1)"
      "es_reconciled_rid es = Some (ls_reconciliation_id ls)" "map_of (es_tokens es) t = Some entry"
      "release g e t rid ls =
         (Inr True, put_epoch (g, e) (es_bump (le_kind entry) (-1) (drop_entry t entry es))
                      (ls_bump (le_kind entry) (-1) ls1))"
proof -
  obtain es ls1 where "epoch_of (g, e) ls = (es, ls1)" by fastforce
  then show ?thesis
    using that by (cases "rid = Some (ls_reconciliation_id ls)";
        cases "es_reconciled_rid es = Some (ls_reconciliation_id ls)"; cases "map_of (es_tokens es) t")
      (simp_all add: release_def)
qed

lemma release_ok:
  assumes ok: "lease_ok ls"
  shows "lease_ok (snd (release g e t rid ls))"
proof (cases rule: release_cases [of rid ls g e t])
  case stale
  with ok show ?thesis by simp
next
  case (rebuilding es ls1)
  with epoch_of_ok(1) [OF ok rebuilding(2)] show ?thesis by simp
next
  case (absent es ls1)
  with epoch_of_ok(1) [OF ok absent(2)] show ?thesis by simp
next
  case (freed es ls1 entry)
  note ep = epoch_of_ok [OF ok freed(2)]
  show ?thesis
    unfolding freed(5) snd_conv
    by (rule put_epoch_ok [OF ep(1) drop_epoch_ok [OF ep(2) freed(4)]])
      (use ep(3) limits [OF ep(1)] in auto)
qed

text \<open>
  \<open>release_epoch\<close> walks all tokens: the counters end at zero and the globals drop by what
  the epoch held.
\<close>

lemma release_all_facts:
  fixes ls :: lease_service
  assumes "epoch_ok es" "dict_ok ps" "\<forall>(t, x)\<in>set ps. map_of (es_tokens es) t = Some x"
  defines "r \<equiv> release_all ps (es, ls)"
  shows "epoch_ok (fst r) \<and>
    es_tokens (fst r) = filter (\<lambda>(t, _). t \<notin> fst ` set ps) (es_tokens es) \<and>
    es_reconciled_rid (fst r) = es_reconciled_rid es \<and>
    ls_epochs (snd r) = ls_epochs ls \<and> ls_active_limit (snd r) = ls_active_limit ls \<and>
    ls_live_pty_limit (snd r) = ls_live_pty_limit ls \<and> ls_reconciliation_id (snd r) = ls_reconciliation_id ls \<and>
    ls_global_active_count (snd r) - es_active_count (fst r) = ls_global_active_count ls - es_active_count es \<and>
    ls_global_live_pty_count (snd r) - es_live_pty_count (fst r) = ls_global_live_pty_count ls - es_live_pty_count es"
  unfolding r_def using assms(1-3)
proof (induction ps arbitrary: es ls)
  case Nil
  then show ?case by simp
next
  case (Cons p ps)
  obtain t x where p: "p = (t, x)" by fastforce
  let ?es = "es_bump (le_kind x) (-1) (drop_entry t x es)" and ?ls = "ls_bump (le_kind x) (-1) ls"
  have t: "map_of (es_tokens es) t = Some x" using Cons.prems(3) p by simp
  have ok: "epoch_ok ?es" by (rule drop_epoch_ok [OF Cons.prems(1) t])
  have rest: "dict_ok ps" using Cons.prems(2) by simp
  have "map_of (es_tokens ?es) u = Some y" if "(u, y) \<in> set ps" for u y
  proof -
    have "u \<noteq> t" using Cons.prems(2) p that by force
    moreover have "map_of (es_tokens es) u = Some y" using Cons.prems(3) that by auto
    ultimately show ?thesis by simp
  qed
  then have rest2: "\<forall>(u, y)\<in>set ps. map_of (es_tokens ?es) u = Some y" by blast
  have "es_tokens ?es = filter (\<lambda>(u, _). u \<noteq> t) (es_tokens es)"
    by (auto simp: AList.delete_eq intro!: filter_cong)
  with Cons.IH [OF ok rest rest2, of ?ls] show ?case
    by (simp add: p case_prod_beta conj_commute cong: conj_cong)
qed

lemma release_epoch_ok:
  assumes ok: "lease_ok ls"
  shows "lease_ok (release_epoch g e ls)"
proof (cases "map_of (ls_epochs ls) (g, e)")
  case None
  with ok show ?thesis by (simp add: release_epoch_def)
next
  case (Some es)
  obtain es' ls' where r: "release_all (es_tokens es) (es, ls) = (es', ls')" by fastforce
  have eok: "epoch_ok es" using ok Some unfolding lease_ok_def by blast
  then have d: "dict_ok (es_tokens es)" using index_ok_dicts by (simp add: epoch_ok_def)
  have "\<forall>(t, x)\<in>set (es_tokens es). map_of (es_tokens es) t = Some x" using d by (auto intro: map_of_is_SomeI)
  note f = release_all_facts [OF eok d this, of ls, unfolded r fst_conv snd_conv]
  have "es_tokens es' = filter (\<lambda>(t, _). t \<notin> fst ` set (es_tokens es)) (es_tokens es)" using f by blast
  also have "\<dots> = []" unfolding filter_empty_conv by force
  finally have "es_tokens es' = []" .
  then have z: "es_active_count es' = 0" "es_live_pty_count es' = 0" using f by (simp_all add: epoch_ok_def)
  have "lease_ok (put_epoch (g, e) (es'\<lparr>es_tokens := [], es_by_kind_key := []\<rparr>) ls')"
  proof (rule put_epoch_ok [OF ok])
    show "epoch_ok (es'\<lparr>es_tokens := [], es_by_kind_key := []\<rparr>)"
      using z by (simp add: epoch_ok_def index_ok_def)
    have "0 \<le> es_active_count es" "0 \<le> es_live_pty_count es" using eok by (simp_all add: epoch_ok_def)
    then show "ls_global_active_count ls' \<le> ls_active_limit ls" "ls_global_live_pty_count ls' \<le> ls_live_pty_limit ls"
      using f z limits [OF ok] by simp_all
  qed (use f z Some in \<open>simp_all add: held_eq\<close>)
  with Some r show ?thesis by (simp add: release_epoch_def)
qed

text \<open>Registering a snapshot: what the duplicate check establishes, and what loading adds.\<close>

lemma check_duplicates_Inr:
  "check_duplicates xs (tids, kks) = Inr (tids', kks') \<Longrightarrow>
     distinct (map entry_tid xs) \<and> set (map entry_tid xs) \<inter> set tids = {} \<and>
     distinct (map entry_kk xs) \<and> set (map entry_kk xs) \<inter> set kks = {} \<and>
     set tids' = set (map entry_tid xs) \<union> set tids \<and> set kks' = set (map entry_kk xs) \<union> set kks"
proof (induction xs arbitrary: tids kks)
  case (Cons x xs)
  from Cons.prems have h: "check_duplicates xs (entry_tid x # tids, entry_kk x # kks) = Inr (tids', kks')"
    and new: "entry_tid x \<notin> set tids" "entry_kk x \<notin> set kks" by auto
  from Cons.IH [OF h] new show ?case by auto
qed simp

definition entries_of :: "string \<Rightarrow> pyval list \<Rightarrow> (string, lease_entry) dict" where
  "entries_of kind xs = map (\<lambda>x. (entry_tid x, \<lparr>le_key = entry_kk x, le_kind = kind, le_token_id = entry_tid x\<rparr>)) xs"

lemma load_entries_facts:
  assumes "index_ok es" "kind \<in> set lease_kinds" "distinct (map entry_tid xs)" "distinct (map entry_kk xs)"
    "\<forall>x\<in>set xs. map_of (es_tokens es) (entry_tid x) = None \<and> map_of (es_by_kind_key es) (entry_kk x) = None"
  shows "index_ok (load_entries kind xs es) \<and>
    es_tokens (load_entries kind xs es) = es_tokens es @ entries_of kind xs \<and>
    fst ` set (es_by_kind_key (load_entries kind xs es)) = fst ` set (es_by_kind_key es) \<union> entry_kk ` set xs"
  using assms
proof (induction xs arbitrary: es)
  case Nil
  then show ?case by (simp add: entries_of_def)
next
  case (Cons x xs)
  let ?es = "add_entry kind (entry_tid x) (entry_kk x) es"
  have new: "map_of (es_tokens es) (entry_tid x) = None" "map_of (es_by_kind_key es) (entry_kk x) = None"
    using Cons.prems(5) by simp_all
  have ok: "index_ok ?es" by (rule add_entry_index_ok [OF Cons.prems(1) new Cons.prems(2)])
  have "\<forall>y\<in>set xs. map_of (es_tokens ?es) (entry_tid y) = None \<and> map_of (es_by_kind_key ?es) (entry_kk y) = None"
  proof
    fix y assume y: "y \<in> set xs"
    have "entry_tid x \<notin> entry_tid ` set xs" "entry_kk x \<notin> entry_kk ` set xs"
      using Cons.prems(3,4) by (simp_all only: list.map distinct.simps set_map simp_thms)
    with y have "entry_tid y \<noteq> entry_tid x" "entry_kk y \<noteq> entry_kk x" by (metis imageI)+
    then show "map_of (es_tokens ?es) (entry_tid y) = None \<and> map_of (es_by_kind_key ?es) (entry_kk y) = None"
      using Cons.prems(5) y by simp
  qed
  from Cons.IH [OF ok Cons.prems(2) _ _ this] Cons.prems(3,4)
  have IH: "index_ok (load_entries kind xs ?es)"
    "es_tokens (load_entries kind xs ?es) = es_tokens ?es @ entries_of kind xs"
    "fst ` set (es_by_kind_key (load_entries kind xs ?es)) = fst ` set (es_by_kind_key ?es) \<union> entry_kk ` set xs"
    by simp_all
  show ?case
    by (simp add: IH(1,2)) (simp add: IH(3) new dict_update_new entries_of_def)
qed

lemma load_entries_same [simp]:
  "es_active_count (load_entries kind xs es) = es_active_count es"
  "es_live_pty_count (load_entries kind xs es) = es_live_pty_count es"
  by (induction xs arbitrary: es) simp_all

lemma kind_count_entries: "kind_count k (entries_of kind xs) = (if k = kind then int (length xs) else 0)"
  by (induction xs) (auto simp: kind_count_def entries_of_def)

lemma kind_count_append: "kind_count k (d @ d') = kind_count k d + kind_count k d'"
  by (simp add: kind_count_def)

definition snapshot_epoch :: "epoch_lease \<Rightarrow> pyval list \<Rightarrow> pyval list \<Rightarrow> epoch_lease" where
  "snapshot_epoch es act live =
     load_entries ''live'' live (load_entries ''active'' act (es\<lparr>es_tokens := [], es_by_kind_key := []\<rparr>))"

lemma snapshot_epoch_facts:
  assumes "check_snapshot g e act live es ls = Inr ()"
  shows "index_ok (snapshot_epoch es act live)"
    "es_tokens (snapshot_epoch es act live) = entries_of ''active'' act @ entries_of ''live'' live"
    "ls_global_active_count ls - es_active_count es + int (length act) \<le> ls_active_limit ls"
    "ls_global_live_pty_count ls - es_live_pty_count es + int (length live) \<le> ls_live_pty_limit ls"
proof -
  let ?es0 = "es\<lparr>es_tokens := [], es_by_kind_key := []\<rparr>"
  from assms obtain tids kks tids' kks' where
    d1: "check_duplicates act ([], []) = Inr (tids, kks)" and d2: "check_duplicates live (tids, kks) = Inr (tids', kks')"
    and lim: "ls_global_active_count ls - es_active_count es + int (length act) \<le> ls_active_limit ls"
      "ls_global_live_pty_count ls - es_live_pty_count es + int (length live) \<le> ls_live_pty_limit ls"
    by (auto simp: check_snapshot_def)
  note c1 = check_duplicates_Inr [OF d1] and c2 = check_duplicates_Inr [OF d2]
  have i0: "index_ok ?es0" by (simp add: index_ok_def)
  have "\<forall>x\<in>set act. map_of (es_tokens ?es0) (entry_tid x) = None \<and> map_of (es_by_kind_key ?es0) (entry_kk x) = None"
    by simp
  note l1 = load_entries_facts [OF i0 lease_kinds_simps(1) _ _ this]
  let ?es1 = "load_entries ''active'' act ?es0"
  have l1: "index_ok ?es1" "es_tokens ?es1 = entries_of ''active'' act"
    "fst ` set (es_by_kind_key ?es1) = entry_kk ` set act"
    using l1 c1 by simp_all
  have "\<forall>x\<in>set live. map_of (es_tokens ?es1) (entry_tid x) = None \<and> map_of (es_by_kind_key ?es1) (entry_kk x) = None"
  proof
    fix x assume x: "x \<in> set live"
    have "entry_tid x \<notin> fst ` set (es_tokens ?es1)" using c1 c2 x by (auto simp: l1(2) entries_of_def)
    moreover have "entry_kk x \<notin> fst ` set (es_by_kind_key ?es1)" unfolding l1(3) using c1 c2 x by auto
    ultimately show "map_of (es_tokens ?es1) (entry_tid x) = None \<and> map_of (es_by_kind_key ?es1) (entry_kk x) = None"
      by (simp add: map_of_eq_None_iff)
  qed
  note l2 = load_entries_facts [OF l1(1) lease_kinds_simps(2) _ _ this]
  show "index_ok (snapshot_epoch es act live)"
    "es_tokens (snapshot_epoch es act live) = entries_of ''active'' act @ entries_of ''live'' live"
    using l2 c2 l1(2) by (simp_all add: snapshot_epoch_def)
  show "ls_global_active_count ls - es_active_count es + int (length act) \<le> ls_active_limit ls"
    "ls_global_live_pty_count ls - es_live_pty_count es + int (length live) \<le> ls_live_pty_limit ls" by (rule lim)+
qed

lemma register_cases:
  obtains
    (stale) "rid \<noteq> ls_reconciliation_id ls"
      "register_snapshot g e rid act live ls = (Inl (NelixError STALE_RECONCILIATION_ID), ls)"
  | (already) es ls1 where "rid = ls_reconciliation_id ls" "epoch_of (g, e) ls = (es, ls1)"
      "es_reconciled_rid es = Some rid" "register_snapshot g e rid act live ls = (Inr rid, ls1)"
  | (refused) es ls1 x where "rid = ls_reconciliation_id ls" "epoch_of (g, e) ls = (es, ls1)"
      "es_reconciled_rid es \<noteq> Some rid" "check_snapshot g e act live es ls1 = Inl x"
      "register_snapshot g e rid act live ls = (Inl x, ls1)"
  | (loaded) es ls1 where "rid = ls_reconciliation_id ls" "epoch_of (g, e) ls = (es, ls1)"
      "es_reconciled_rid es \<noteq> Some rid" "check_snapshot g e act live es ls1 = Inr ()"
      "register_snapshot g e rid act live ls =
         (Inr rid, put_epoch (g, e)
            ((snapshot_epoch es act live)\<lparr>es_active_count := int (length act), es_live_pty_count := int (length live),
               es_rebuilding := False, es_reconciled_rid := Some rid\<rparr>)
            (ls1\<lparr>ls_global_active_count := ls_global_active_count ls1 - es_active_count es + int (length act),
                 ls_global_live_pty_count := ls_global_live_pty_count ls1 - es_live_pty_count es + int (length live)\<rparr>))"
proof -
  obtain es ls1 where e: "epoch_of (g, e) ls = (es, ls1)" by fastforce
  show ?thesis
  proof (cases "rid = ls_reconciliation_id ls \<and> es_reconciled_rid es \<noteq> Some rid")
    case True
    then have True: "rid = ls_reconciliation_id ls" "es_reconciled_rid es \<noteq> Some (ls_reconciliation_id ls)" by auto
    show ?thesis
    proof (cases "check_snapshot g e act live es ls1")
      case (Inl x)
      with True e show ?thesis by (intro refused [of es ls1 x]) (simp_all add: register_snapshot_def)
    next
      case (Inr u)
      with True e show ?thesis
        by (intro loaded [of es ls1]) (simp_all add: register_snapshot_def Let_def snapshot_epoch_def)
    qed
  next
    case False
    then show ?thesis
      using e stale already [of es ls1]
      by (cases "rid = ls_reconciliation_id ls") (simp_all add: register_snapshot_def)
  qed
qed

lemma register_ok:
  assumes ok: "lease_ok ls"
  shows "lease_ok (snd (register_snapshot g e rid act live ls))"
proof (cases rule: register_cases [of rid ls g e act live])
  case stale
  with ok show ?thesis by simp
next
  case (already es ls1)
  with epoch_of_ok(1) [OF ok already(2)] show ?thesis by simp
next
  case (refused es ls1 x)
  with epoch_of_ok(1) [OF ok refused(2)] show ?thesis by simp
next
  case (loaded es ls1)
  note ep = epoch_of_ok [OF ok loaded(2)] and sn = snapshot_epoch_facts [OF loaded(4)]
  let ?es = "(snapshot_epoch es act live)\<lparr>es_active_count := int (length act), es_live_pty_count := int (length live),
      es_rebuilding := False, es_reconciled_rid := Some rid\<rparr>"
  have "index_ok ?es" using sn(1) index_ok_cong [of ?es "snapshot_epoch es act live"] by simp
  then have "epoch_ok ?es" by (simp add: epoch_ok_def sn(2) kind_count_append kind_count_entries)
  then show ?thesis
    unfolding loaded(5) snd_conv
    by (rule put_epoch_ok [OF ep(1)]) (use sn(3,4) ep(3) in simp_all)
qed

lemma rebuild_ok [simp]: "epoch_ok (rebuild v es) = epoch_ok es"
  using index_ok_cong [of "rebuild v es" es] by (simp add: epoch_ok_def rebuild_def Let_def)

lemma rebuild_counts [simp]:
  "es_active_count (rebuild v es) = es_active_count es" "es_live_pty_count (rebuild v es) = es_live_pty_count es"
  by (simp_all add: rebuild_def Let_def)

lemma set_epoch_rebuilding_ok:
  assumes ok: "lease_ok ls"
  shows "lease_ok (set_epoch_rebuilding g e v ls)"
proof -
  obtain es ls1 where e: "epoch_of (g, e) ls = (es, ls1)" by fastforce
  note ep = epoch_of_ok [OF ok e]
  have "lease_ok (put_epoch (g, e) (rebuild v es) ls1)"
    by (rule put_epoch_ok [OF ep(1)]) (use ep(2,3) limits [OF ep(1)] in simp_all)
  with e show ?thesis by (simp add: set_epoch_rebuilding_def)
qed

lemma mark_epoch_rebuilding_ok:
  assumes ok: "lease_ok ls"
  shows "lease_ok (mark_epoch_rebuilding g e ls)"
proof -
  obtain es ls1 where e: "epoch_of (g, e) ls = (es, ls1)" by fastforce
  note ep = epoch_of_ok [OF ok e]
  have "epoch_ok (es\<lparr>es_rebuilding := True\<rparr>)"
    using ep(2) index_ok_cong [of "es\<lparr>es_rebuilding := True\<rparr>" es] by (simp add: epoch_ok_def)
  then have "lease_ok (put_epoch (g, e) (es\<lparr>es_rebuilding := True\<rparr>) ls1)"
    by (rule put_epoch_ok [OF ep(1)]) (use ep(3) limits [OF ep(1)] in simp_all)
  with e show ?thesis by (simp add: mark_epoch_rebuilding_def)
qed

lemma set_rebuilding_ok:
  assumes ok: "lease_ok ls"
  shows "lease_ok (set_rebuilding v ls)"
proof -
  have *: "map fst (map (\<lambda>(k, es). (k, rebuild v es)) d) = map fst d"
    "sum_epochs es_active_count (map (\<lambda>(k, es). (k, rebuild v es)) d) = sum_epochs es_active_count d"
    "sum_epochs es_live_pty_count (map (\<lambda>(k, es). (k, rebuild v es)) d) = sum_epochs es_live_pty_count d"
    "map_of (map (\<lambda>(k, es). (k, rebuild v es)) d) k = map_option (rebuild v) (map_of d k)" for d k
    by (induction d) (auto simp: sum_epochs_def)
  show ?thesis using ok unfolding lease_ok_def set_rebuilding_def by (auto simp add: * simp del: map_map)
qed

section \<open>Runs\<close>

fun lease_legal :: "lease_service \<Rightarrow> lease_op \<Rightarrow> bool" where
  "lease_legal ls (Acquire_op g e s a kinds rid ta tlv) = fresh_tokens ls (g, e) ta tlv"
| "lease_legal ls _ = True"

lemma lease_step_ok: "lease_ok ls \<Longrightarrow> lease_legal ls op \<Longrightarrow> lease_ok (lease_step ls op)"
proof (cases op)
  case (Set_rid_op rid)
  then show "lease_ok ls \<Longrightarrow> lease_ok (lease_step ls op)" by (simp add: lease_ok_def set_reconciliation_id_def)
qed (simp_all add: acquire_ok release_ok release_epoch_ok register_ok set_epoch_rebuilding_ok
      mark_epoch_rebuilding_ok set_rebuilding_ok)

interpretation lease_machine: step_machine lease_step lease_legal lease_ok
  by unfold_locales (rule lease_step_ok)

definition lease_run :: "lease_service \<Rightarrow> lease_op list \<Rightarrow> lease_service" where
  "lease_run ls ops = foldl lease_step ls ops"

primrec lease_legal_run :: "lease_service \<Rightarrow> lease_op list \<Rightarrow> bool" where
  "lease_legal_run ls [] = True"
| "lease_legal_run ls (op # ops) = (lease_legal ls op \<and> lease_legal_run (lease_step ls op) ops)"

lemma lease_run_ok:
  assumes "lease_ok ls" "lease_legal_run ls ops"
  shows "lease_ok (lease_run ls ops)"
proof -
  have "lease_machine.run ls ops = lease_run ls ops" "lease_machine.legal_run ls ops = lease_legal_run ls ops"
    by (induction ops arbitrary: ls) (simp_all add: lease_run_def)
  with lease_machine.run_inv [of ls ops] assms show ?thesis by simp
qed

end
