(* ===== verification/Nelix_Leases_Props.thy ===== *)
theory Nelix_Leases_Props
  imports Nelix_Leases_Inv
begin

text \<open>
  What the lease service promises: limits are never exceeded and counters are exact,
  acquiring is idempotent by key and all-or-nothing, releasing frees exactly once, nothing
  is granted or freed for an epoch that has not reconciled with this router incarnation,
  and a registered snapshot replaces the epoch's tokens.
\<close>

lemma put_lookup [simp]:
  "map_of (ls_epochs (put_epoch k es ls)) = (map_of (ls_epochs ls))(k \<mapsto> es)"
  "ls_reconciliation_id (put_epoch k es ls) = ls_reconciliation_id ls"
  "ls_global_active_count (put_epoch k es ls) = ls_global_active_count ls"
  "ls_global_live_pty_count (put_epoch k es ls) = ls_global_live_pty_count ls"
  "ls_active_limit (put_epoch k es ls) = ls_active_limit ls"
  "ls_live_pty_limit (put_epoch k es ls) = ls_live_pty_limit ls"
  by (simp_all add: put_epoch_def)

lemma epoch_of_put [simp]: "epoch_of k (put_epoch k es ls) = (es, put_epoch k es ls)"
  by (simp add: epoch_of_def)

lemma epoch_of_idem: "epoch_of k ls = (es, ls1) \<Longrightarrow> epoch_of k ls1 = (es, ls1)"
  by (auto simp: epoch_of_def split: option.splits)

lemma update_same [simp]: "map_of d k = Some v \<Longrightarrow> AList.update k v d = d"
  by (induction d) (auto split: if_splits)

lemma lease_init: "0 \<le> a \<Longrightarrow> 0 \<le> l \<Longrightarrow> lease_ok (LeaseService a l rid)"
  by (simp add: lease_ok_def LeaseService_def sum_epochs_def)

text \<open>
  C39: limits and counters. Along every run of the service the number of tokens of each
  kind held over all epochs is exactly the global counter and never exceeds its limit,
  and each epoch's own counters count its own tokens.
\<close>

theorem lease_limits_hold:
  assumes "0 \<le> al" "0 \<le> ll" "lease_legal_run (LeaseService al ll rid) ops"
  defines "ls \<equiv> lease_run (LeaseService al ll rid) ops"
  shows "ls_global_active_count ls = sum_epochs (\<lambda>es. kind_count ''active'' (es_tokens es)) (ls_epochs ls) \<and>
    ls_global_live_pty_count ls = sum_epochs (\<lambda>es. kind_count ''live'' (es_tokens es)) (ls_epochs ls) \<and>
    ls_global_active_count ls \<le> ls_active_limit ls \<and> ls_global_live_pty_count ls \<le> ls_live_pty_limit ls \<and>
    (\<forall>k es. map_of (ls_epochs ls) k = Some es \<longrightarrow> epoch_ok es)"
proof -
  have ok: "lease_ok ls" unfolding ls_def by (rule lease_run_ok [OF lease_init assms(3)]) (rule assms)+
  have "epoch_ok (snd p)" if "p \<in> set (ls_epochs ls)" for p
    using ok that unfolding lease_ok_def by (metis map_of_is_SomeI prod.collapse)
  then have "sum_epochs es_active_count (ls_epochs ls) = sum_epochs (\<lambda>es. kind_count ''active'' (es_tokens es)) (ls_epochs ls)"
    "sum_epochs es_live_pty_count (ls_epochs ls) = sum_epochs (\<lambda>es. kind_count ''live'' (es_tokens es)) (ls_epochs ls)"
    unfolding sum_epochs_def by (auto intro!: arg_cong [where f = sum_list] simp: epoch_ok_def)
  with ok show ?thesis unfolding lease_ok_def by simp
qed

definition demo_lease_ops :: "lease_op list" where
  "demo_lease_ops =
     [Register_op ''g'' ''e'' ''r'' [] [],
      Acquire_op ''g'' ''e'' ''s'' ''1'' [''active'', ''live''] (Some ''r'') ''t1'' ''t2'',
      Acquire_op ''g'' ''e'' ''s'' ''1'' [''active'', ''live''] (Some ''r'') ''t3'' ''t4'',
      Release_op ''g'' ''e'' ''t2'' (Some ''r'')]"

lemma demo_lease_legal: "lease_legal_run (LeaseService 2 2 ''r'') demo_lease_ops"
  by code_simp

theorem lease_limits_hold_witness:
  "ls_global_active_count (lease_run (LeaseService 2 2 ''r'') demo_lease_ops) = 1 \<and>
   ls_global_active_count (lease_run (LeaseService 2 2 ''r'') demo_lease_ops) \<le>
   ls_active_limit (lease_run (LeaseService 2 2 ''r'') demo_lease_ops)"
proof -
  have "ls_global_active_count (lease_run (LeaseService 2 2 ''r'') demo_lease_ops) = 1"
    by code_simp
  with lease_limits_hold [OF _ _ demo_lease_legal] show ?thesis by simp
qed

text \<open>
  Acquiring is idempotent by key and counted once. Repeating a successful acquire
  returns, for every requested kind, the same token marked as not fresh, and leaves the
  whole service state as it was.
\<close>

theorem acquire_idempotent:
  assumes "lease_ok ls" "fresh_tokens ls (g, e) ta tlv"
    and "acquire g e s a kinds rid ta tlv ls = (Inr res, ls')"
  shows "snd (acquire g e s a kinds rid ta' tlv' ls') = ls' \<and>
    (\<exists>res'. fst (acquire g e s a kinds rid ta' tlv' ls') = Inr res' \<and>
       (\<forall>kind\<in>{''active'', ''live''}.
          map_of res' kind = map_option (\<lambda>(tok, _). (tok, False)) (map_of res kind)))"
proof (cases rule: acquire_cases [of rid ls g e s a kinds ta tlv])
  case (granted es ls1 na nl res1)
  let ?kka = "kind_keys g e s a ''active''" and ?kkl = "kind_keys g e s a ''live''"
  define st where "st = grants na nl ta tlv ?kka ?kkl (es, ls1)"
  note ep = epoch_of_ok [OF assms(1) granted(2)]
  have res: "res1 = res" and ls': "ls' = put_epoch (g, e) (fst st) (snd st)"
    using granted(9) assms(3) by (simp_all add: st_def)
  have epo: "epoch_of (g, e) ls' = (fst st, ls')" by (simp add: ls')
  have gates: "rid = Some (ls_reconciliation_id ls')" "es_reconciled_rid (fst st) = Some (ls_reconciliation_id ls')"
    using granted(1,3) ep(7) by (simp_all add: ls' st_def grants_simps)
  have keys: "map_of (es_by_kind_key (fst st)) ?kka =
      (if na then Some \<lparr>le_key = ?kka, le_kind = ''active'', le_token_id = ta\<rparr> else map_of (es_by_kind_key es) ?kka)"
    "map_of (es_by_kind_key (fst st)) ?kkl =
      (if nl then Some \<lparr>le_key = ?kkl, le_kind = ''live'', le_token_id = tlv\<rparr> else map_of (es_by_kind_key es) ?kkl)"
    by (simp_all add: st_def grants_def grant_def Let_def)
  have none: "''active'' \<in> set kinds \<Longrightarrow> map_of (es_by_kind_key (fst st)) ?kka \<noteq> None"
    "''live'' \<in> set kinds \<Longrightarrow> map_of (es_by_kind_key (fst st)) ?kkl \<noteq> None"
    using granted(4,5) by (auto simp: keys)
  show ?thesis
  proof (cases rule: acquire_cases [of rid ls' g e s a kinds ta' tlv'])
    case stale
    with gates show ?thesis by simp
  next
    case (rebuilding es2 ls2)
    with epo gates show ?thesis by simp
  next
    case (limit es2 ls2)
    with epo none show ?thesis by auto
  next
    case again: (granted es2 ls2 na2 nl2 res2)
    have eq: "es2 = fst st" "ls2 = ls'" using again(2) epo by simp_all
    then have "\<not> na2" "\<not> nl2" using again(4,5) none by auto
    then have st2: "acquire g e s a kinds rid ta' tlv' ls' = (Inr res2, put_epoch (g, e) (fst st) ls')"
      using again(9) eq by (simp add: grants_def)
    have "put_epoch (g, e) (fst st) ls' = ls'" by (simp add: ls' put_epoch_def)
    moreover have "map_of res2 kind = map_option (\<lambda>(tok, _). (tok, False)) (map_of res kind)"
      if "kind \<in> {''active'', ''live''}" for kind
      using that again(8) granted(4,5,8) none
      by (auto simp: eq keys res split: option.splits if_splits)
    ultimately show ?thesis using st2 by simp
  qed
qed (use assms(3) in simp_all)

theorem acquire_idempotent_witness:
  "\<exists>res'. fst (acquire ''g'' ''e'' ''s'' ''1'' [''active''] (Some ''r'') ''x'' ''y''
      (lease_run (LeaseService 2 2 ''r'') demo_lease_ops)) = Inr res' \<and> map_of res' ''active'' = Some (''t1'', False)"
proof -
  let ?ls = "lease_run (LeaseService 2 2 ''r'') demo_lease_ops"
  have ok: "lease_ok ?ls" by (rule lease_run_ok [OF lease_init demo_lease_legal]) simp_all
  have fr: "fresh_tokens ?ls (''g'', ''e'') ''a'' ''b''" by code_simp
  have "acquire ''g'' ''e'' ''s'' ''1'' [''active''] (Some ''r'') ''a'' ''b'' ?ls = (Inr [(''active'', (''t1'', False))], ?ls)"
    by code_simp
  with acquire_idempotent [OF ok fr, of "''s''" "''1''" "[''active'']" "Some ''r''" "[(''active'', (''t1'', False))]" ?ls "''x''" "''y''"]
  show ?thesis by auto
qed

text \<open>
  Failures change nothing. An acquire that raises leaves every epoch's tokens and
  counters and both global counters as they were, and raises one of exactly three codes,
  all of them retryable; in particular when only one of two requested kinds is out of
  capacity the other is not taken either.
\<close>

theorem acquire_all_or_nothing:
  assumes "lease_ok ls" "acquire g e s a kinds rid ta tlv ls = (Inl x, ls')"
  shows "(\<forall>k. held ls' k = held ls k) \<and>
    ls_global_active_count ls' = ls_global_active_count ls \<and>
    ls_global_live_pty_count ls' = ls_global_live_pty_count ls \<and>
    (\<exists>c. x = NelixError c \<and> retryable c \<and> c \<in> {STALE_RECONCILIATION_ID, REBUILDING, CONCURRENCY_LIMIT})"
proof -
  have keep: "held ls1 k = held ls k" if "epoch_of (g, e) ls = (es, ls1)" for es ls1 k
    using epoch_of_ok [OF assms(1) that] by (cases "k = (g, e)") (simp_all add: held_eq)
  show ?thesis
  proof (cases rule: acquire_cases [of rid ls g e s a kinds ta tlv])
    case stale
    with assms(2) show ?thesis by auto
  next
    case (rebuilding es ls1)
    with assms(2) have "x = NelixError REBUILDING" "ls' = ls1" by simp_all
    with keep [OF rebuilding(2)] epoch_of_ok(8,9) [OF assms(1) rebuilding(2)] show ?thesis by simp
  next
    case (limit es ls1)
    with assms(2) have "x = NelixError CONCURRENCY_LIMIT" "ls' = ls1" by simp_all
    with keep [OF limit(2)] epoch_of_ok(8,9) [OF assms(1) limit(2)] show ?thesis by simp
  next
    case (granted es ls1 na nl res)
    with assms(2) show ?thesis by simp
  qed
qed

theorem acquire_all_or_nothing_witness:
  "(\<forall>k. held (snd (acquire ''g'' ''e'' ''s2'' ''1'' [''active'', ''live''] (Some ''r'') ''x'' ''y''
        (lease_run (LeaseService 1 2 ''r'') demo_lease_ops))) k = held (lease_run (LeaseService 1 2 ''r'') demo_lease_ops) k)"
proof -
  let ?ls = "lease_run (LeaseService 1 2 ''r'') demo_lease_ops"
  have ok: "lease_ok ?ls" by (rule lease_run_ok [OF lease_init]) (simp, simp, code_simp)
  have "fst (acquire ''g'' ''e'' ''s2'' ''1'' [''active'', ''live''] (Some ''r'') ''x'' ''y'' ?ls) = Inl (NelixError CONCURRENCY_LIMIT)"
    by code_simp
  then obtain ls' where a: "acquire ''g'' ''e'' ''s2'' ''1'' [''active'', ''live''] (Some ''r'') ''x'' ''y'' ?ls =
      (Inl (NelixError CONCURRENCY_LIMIT), ls')" by (metis prod.collapse)
  from acquire_all_or_nothing [OF ok a] show ?thesis by (simp add: a)
qed

text \<open>
  A token is released exactly once. A release that answers true takes the token and
  its key out of the epoch and lowers the counter of the token's kind by one, globally
  and for the epoch; every later release of the same token in that state answers false
  and changes nothing.
\<close>

theorem release_exactly_once:
  assumes "lease_ok ls" "release g e t rid ls = (Inr True, ls')"
  shows "\<exists>entry. map_of (es_tokens (held ls (g, e))) t = Some entry \<and>
    map_of (es_tokens (held ls' (g, e))) = (map_of (es_tokens (held ls (g, e))))(t := None) \<and>
    map_of (es_by_kind_key (held ls' (g, e))) (le_key entry) = None \<and>
    ls_global_active_count ls' = ls_global_active_count ls - (if le_kind entry = ''active'' then 1 else 0) \<and>
    ls_global_live_pty_count ls' = ls_global_live_pty_count ls - (if le_kind entry = ''live'' then 1 else 0) \<and>
    (\<forall>k. k \<noteq> (g, e) \<longrightarrow> held ls' k = held ls k) \<and>
    release g e t rid ls' = (Inr False, ls')"
proof (cases rule: release_cases [of rid ls g e t])
  case (freed es ls1 entry)
  note ep = epoch_of_ok [OF assms(1) freed(2)]
  let ?es = "es_bump (le_kind entry) (-1) (drop_entry t entry es)"
  have ls': "ls' = put_epoch (g, e) ?es (ls_bump (le_kind entry) (-1) ls1)" using freed(5) assms(2) by simp
  then have e': "epoch_of (g, e) ls' = (?es, ls')" by simp
  have "release g e t rid ls' = (Inr False, ls')"
    using freed(1,3) ep(7) by (simp add: release_def e') (simp add: ls')
  moreover have "held ls' k = held ls k" if "k \<noteq> (g, e)" for k
    using that ep(11) by (simp add: held_eq ls')
  ultimately show ?thesis
    using freed(4) ep(4,8,9) by (auto simp: e' ls')
qed (use assms(2) in simp_all)

theorem release_exactly_once_witness:
  "release ''g'' ''e'' ''t1'' (Some ''r'') (snd (release ''g'' ''e'' ''t1'' (Some ''r'')
      (lease_run (LeaseService 2 2 ''r'') demo_lease_ops))) =
     (Inr False, snd (release ''g'' ''e'' ''t1'' (Some ''r'') (lease_run (LeaseService 2 2 ''r'') demo_lease_ops)))"
proof -
  let ?ls = "lease_run (LeaseService 2 2 ''r'') demo_lease_ops"
  have ok: "lease_ok ?ls" by (rule lease_run_ok [OF lease_init demo_lease_legal]) simp_all
  have "fst (release ''g'' ''e'' ''t1'' (Some ''r'') ?ls) = Inr True" by code_simp
  then obtain ls' where r: "release ''g'' ''e'' ''t1'' (Some ''r'') ?ls = (Inr True, ls')" by (metis prod.collapse)
  from release_exactly_once [OF ok r] show ?thesis by (auto simp: r)
qed

text \<open>
  The reconciliation gate. With a missing or outdated reconciliation id, or for an
  epoch that has not registered with the current one, neither acquire nor release does
  anything but raise a retryable code; so right after the router's id changes nothing is
  granted or freed for any epoch until that epoch registers again.
\<close>

theorem unreconciled_epoch_is_gated:
  assumes "rid \<noteq> Some (ls_reconciliation_id ls) \<or>
    es_reconciled_rid (held ls (g, e)) \<noteq> Some (ls_reconciliation_id ls)"
  shows "(\<exists>c. fst (acquire g e s a kinds rid ta tlv ls) = Inl (NelixError c) \<and>
             fst (release g e t rid ls) = Inl (NelixError c) \<and>
             c \<in> {STALE_RECONCILIATION_ID, REBUILDING} \<and> retryable c) \<and>
    (\<forall>k. held (snd (acquire g e s a kinds rid ta tlv ls)) k = held ls k) \<and>
    (\<forall>k. held (snd (release g e t rid ls)) k = held ls k)"
proof -
  obtain es ls1 where e: "epoch_of (g, e) ls = (es, ls1)" by fastforce
  have keep: "held ls1 k = held ls k" for k
    using e by (cases "k = (g, e)") (auto simp: epoch_of_def split: option.splits)
  show ?thesis
    using assms keep by (auto simp: acquire_def release_def e)
qed

theorem unreconciled_epoch_is_gated_witness:
  "fst (release ''g'' ''e'' ''t1'' (Some ''r2'') (set_reconciliation_id ''r2'' (lease_run (LeaseService 2 2 ''r'') demo_lease_ops))) =
     Inl (NelixError REBUILDING) \<and>
   (\<forall>k. held (snd (release ''g'' ''e'' ''t1'' (Some ''r2'')
        (set_reconciliation_id ''r2'' (lease_run (LeaseService 2 2 ''r'') demo_lease_ops)))) k =
      held (set_reconciliation_id ''r2'' (lease_run (LeaseService 2 2 ''r'') demo_lease_ops)) k)"
proof -
  let ?ls = "set_reconciliation_id ''r2'' (lease_run (LeaseService 2 2 ''r'') demo_lease_ops)"
  have "es_reconciled_rid (held ?ls (''g'', ''e'')) \<noteq> Some (ls_reconciliation_id ?ls)" by code_simp
  moreover have "fst (release ''g'' ''e'' ''t1'' (Some ''r2'') ?ls) = Inl (NelixError REBUILDING)" by code_simp
  ultimately show ?thesis using unreconciled_epoch_is_gated [of "Some ''r2''" ?ls "''g''" "''e''"] by blast
qed

text \<open>
  Registering a snapshot. A first successful registration makes the epoch hold
  exactly the snapshot's tokens, active ones first, with counters to match, opens the
  gate for the epoch, and keeps every other epoch; registering again is a no-op. A
  registration that fails in any way leaves every epoch and both counters as they were.
\<close>

theorem register_snapshot_replaces:
  assumes "lease_ok ls" "rid = ls_reconciliation_id ls" "es_reconciled_rid (held ls (g, e)) \<noteq> Some rid"
  shows "case register_snapshot g e rid act live ls of
      (Inl x, ls') \<Rightarrow> (\<forall>k. held ls' k = held ls k) \<and>
        ls_global_active_count ls' = ls_global_active_count ls \<and>
        ls_global_live_pty_count ls' = ls_global_live_pty_count ls
    | (Inr rid', ls') \<Rightarrow> rid' = rid \<and>
        es_tokens (held ls' (g, e)) = entries_of ''active'' act @ entries_of ''live'' live \<and>
        es_active_count (held ls' (g, e)) = int (length act) \<and>
        es_live_pty_count (held ls' (g, e)) = int (length live) \<and>
        es_reconciled_rid (held ls' (g, e)) = Some (ls_reconciliation_id ls') \<and>
        (\<forall>k. k \<noteq> (g, e) \<longrightarrow> held ls' k = held ls k) \<and>
        (\<forall>act' live'. register_snapshot g e rid act' live' ls' = (Inr rid, ls'))"
proof (cases rule: register_cases [of rid ls g e act live])
  case stale
  with assms(2) show ?thesis by simp
next
  case (already es ls1)
  with assms(3) show ?thesis by simp
next
  case (refused es ls1 x)
  note ep = epoch_of_ok [OF assms(1) refused(2)]
  have "held ls1 k = held ls k" for k
    using ep by (cases "k = (g, e)") (simp_all add: held_eq)
  with refused(5) ep(8,9) show ?thesis by simp
next
  case (loaded es ls1)
  note ep = epoch_of_ok [OF assms(1) loaded(2)] and sn = snapshot_epoch_facts [OF loaded(4)]
  obtain ls' where r: "register_snapshot g e rid act live ls = (Inr rid, ls')" using loaded(5) by simp
  let ?es = "(snapshot_epoch es act live)\<lparr>es_active_count := int (length act), es_live_pty_count := int (length live),
      es_rebuilding := False, es_reconciled_rid := Some rid\<rparr>"
  have e': "epoch_of (g, e) ls' = (?es, ls')" and rid': "ls_reconciliation_id ls' = rid"
    using loaded(1,5) r ep(7) by auto
  have "held ls' k = held ls k" if "k \<noteq> (g, e)" for k
    using loaded(5) r that ep(11) by (auto simp: held_eq)
  moreover have "register_snapshot g e rid act' live' ls' = (Inr rid, ls')" for act' live'
    by (simp add: register_snapshot_def e' rid')
  ultimately show ?thesis by (simp add: r e' sn(2) rid')
qed

theorem register_snapshot_replaces_witness:
  "fst (register_snapshot ''g'' ''e'' ''r'' [VDict [(''token_id'', VStr ''t''),
      (''key'', VList [VStr ''g'', VStr ''e'', VStr ''s'', VStr ''1'', VStr ''active''])]] [] (LeaseService 1 1 ''r'')) = Inr ''r'' \<and>
   es_active_count (held (snd (register_snapshot ''g'' ''e'' ''r'' [VDict [(''token_id'', VStr ''t''),
      (''key'', VList [VStr ''g'', VStr ''e'', VStr ''s'', VStr ''1'', VStr ''active''])]] [] (LeaseService 1 1 ''r''))) (''g'', ''e'')) = 1"
proof -
  let ?act = "[VDict [(''token_id'', VStr ''t''),
      (''key'', VList [VStr ''g'', VStr ''e'', VStr ''s'', VStr ''1'', VStr ''active''])]]"
  have a: "fst (register_snapshot ''g'' ''e'' ''r'' ?act [] (LeaseService 1 1 ''r'')) = Inr ''r''" by code_simp
  have "es_reconciled_rid (held (LeaseService 1 1 ''r'') (''g'', ''e'')) \<noteq> Some ''r''" by code_simp
  from register_snapshot_replaces [OF lease_init _ this, of ?act "[]"] a show ?thesis
    by (simp add: LeaseService_def case_prod_beta)
qed

end
