(* ===== verification/Nelix_Db.thy ===== *)
theory Nelix_Db
  imports Nelix_Records "HOL-Library.List_Lexorder" "HOL-Library.Char_ord" "HOL-Library.Product_Lexorder"
begin

text \<open>
  The tables of \<^verbatim>\<open>nelix_store/db.py\<close> (\<open>_SCHEMA\<close>) as dictionaries from primary keys
  to typed rows, and the helpers the store and the ledger share. A row has the column
  types its writers put there; SQL \<open>NULL\<close> is \<open>None\<close>. An operation that runs in one
  transaction maps a database to a new database and a result, or to an exception, in which
  case the transaction was rolled back. Contention, disk errors and schema bootstrap are
  not modelled; a violated constraint that the code does not catch itself is what
  \<open>classify_sqlite_error\<close> makes of it, \<open>STORE_CORRUPT\<close>. Strings are code points below
  256, the characters of HOL; integer columns and numbers are exact.
\<close>

declare map_of_eq_Some_iff [simp del] Some_eq_map_of_iff [simp del]

section \<open>Tables\<close>

record start_row =
  st_owner_id :: string
  st_orchestration_id :: string
  st_idempotency_key :: string
  st_request_fingerprint :: string
  st_state :: string
  st_generation_id :: "string option"
  st_generation_epoch :: "string option"
  st_reason :: "string option"
  st_created_at :: rat

record session_row =
  se_state :: string
  se_executor :: string
  se_task :: string
  se_cwd :: string
  se_model :: "string option"
  se_created_at :: rat
  se_schema_version :: int

record terminal_row =
  te_terminal_kind :: string
  te_summary :: string
  te_ended_at :: rat
  te_published_at :: rat
  te_terminal_seq :: int
  te_acknowledged_at :: "rat option"
  te_expired_at :: "rat option"
  te_expire_reason :: "string option"
  te_schema_version :: int

record progress_row =
  pr_next_terminal_seq :: int
  pr_confirmed_high_water :: int

record db =
  db_starts :: "(string, start_row) dict"
  db_sessions :: "(string, session_row) dict"
  db_terminal :: "(string, terminal_row) dict"
  db_progress :: "(string, progress_row) dict"
  db_epochs :: "(string, epoch_record) dict"
  db_generations :: "(string, generation_record) dict"
  db_board_seq :: "(string, int) dict"

definition empty_db :: db where
  "empty_db = \<lparr>db_starts = [], db_sessions = [], db_terminal = [], db_progress = [], db_epochs = [],
     db_generations = [], db_board_seq = []\<rparr>"

section \<open>Helpers\<close>

abbreviation err :: "error_code \<Rightarrow> 'a res" where
  "err c \<equiv> Inl (NelixError c)"

text \<open>
  \<open>classify_sqlite_error\<close> on the primary result code; \<open>None\<close> is an exception without one
  (\<open>ProgrammingError\<close>, \<open>InterfaceError\<close>). The numbers are SQLite's.
\<close>

definition UNAVAILABLE_CODES :: "nat list" where
  "UNAVAILABLE_CODES = [5, 6, 14, 10, 13, 7, 9, 15]"

definition UNSUPPORTED_CODES :: "nat list" where
  "UNSUPPORTED_CODES = [8, 3, 23]"

definition CORRUPT_CODES :: "nat list" where
  "CORRUPT_CODES = [11, 26]"

definition classify_sqlite_error :: "nat option \<Rightarrow> error_code" where
  "classify_sqlite_error code =
     (case code of
        None \<Rightarrow> INTERNAL_ERROR
      | Some c \<Rightarrow>
          (let base = c mod 256 in
           if base \<in> set UNAVAILABLE_CODES then STORE_UNAVAILABLE
           else if base \<in> set UNSUPPORTED_CODES then STORE_UNSUPPORTED
           else if base \<in> set CORRUPT_CODES then STORE_CORRUPT
           else if base = 1 then INTERNAL_ERROR
           else STORE_CORRUPT))"

text \<open>An uncaught constraint violation: primary code 19.\<close>

definition constraint_failed :: "'a res" where
  "constraint_failed = err (classify_sqlite_error (Some 19))"

text \<open>Binding a Python integer outside 64 bits raises \<open>OverflowError\<close>.\<close>

fun bindable :: "pyval \<Rightarrow> bool" where
  "bindable (VInt n) = (- (2 ^ 63) \<le> n \<and> n < 2 ^ 63)"
| "bindable _ = True"

definition nonempty_text :: "pyval \<Rightarrow> string res" where
  "nonempty_text v = (if is_nonempty_str v then text_field v else invalid)"

definition optional_nonempty :: "pyval \<Rightarrow> string option res" where
  "optional_nonempty v = (if v = VNone then Inr None else rbind (nonempty_text v) (\<lambda>s. Inr (Some s)))"

text \<open>\<open>_decode_stored\<close> and \<open>_read_rows\<close>, on the outcome of \<open>from_dict\<close>.\<close>

definition decode_stored :: "'a res \<Rightarrow> 'a res" where
  "decode_stored m =
     (case m of
        Inl (NelixError c) \<Rightarrow> if c = SCHEMA_TOO_NEW then m else err STORE_CORRUPT
      | _ \<Rightarrow> m)"

primrec read_rows :: "'a res list \<Rightarrow> 'a list res" where
  "read_rows [] = Inr []"
| "read_rows (m # ms) =
     (case m of
        Inr x \<Rightarrow> rbind (read_rows ms) (\<lambda>xs. Inr (x # xs))
      | Inl (NelixError c) \<Rightarrow> read_rows ms
      | Inl e \<Rightarrow> Inl e)"

text \<open>The loop that decodes every row strictly.\<close>

primrec decode_all :: "'a res list \<Rightarrow> 'a list res" where
  "decode_all [] = Inr []"
| "decode_all (m # ms) = rbind (decode_stored m) (\<lambda>x. rbind (decode_all ms) (\<lambda>xs. Inr (x # xs)))"

definition bump_board_seq :: "string \<Rightarrow> db \<Rightarrow> db" where
  "bump_board_seq owner_id d =
     d\<lparr>db_board_seq := AList.update owner_id
        (case map_of (db_board_seq d) owner_id of None \<Rightarrow> 1 | Some n \<Rightarrow> n + 1) (db_board_seq d)\<rparr>"

definition on_the_board :: "terminal_row \<Rightarrow> bool" where
  "on_the_board t \<longleftrightarrow> te_acknowledged_at t = None \<and> te_expired_at t = None"

text \<open>The rows of \<open>_SESSION_SELECT\<close> and \<open>_TERMINAL_SELECT\<close>: identity joined from \<open>starts\<close>.\<close>

definition session_select :: "string \<Rightarrow> start_row \<Rightarrow> session_row \<Rightarrow> (string, pyval) dict" where
  "session_select sid st se =
     [(''session_id'', VStr sid), (''owner_id'', VStr (st_owner_id st)),
      (''orchestration_id'', VStr (st_orchestration_id st)),
      (''generation_id'', opt_str (st_generation_id st)),
      (''generation_epoch'', opt_str (st_generation_epoch st)), (''state'', VStr (se_state se)),
      (''executor'', VStr (se_executor se)), (''task'', VStr (se_task se)),
      (''cwd'', VStr (se_cwd se)), (''model'', opt_str (se_model se)),
      (''created_at'', VFloat (Fin (se_created_at se))),
      (''schema_version'', VInt (se_schema_version se))]"

definition terminal_select :: "string \<Rightarrow> start_row \<Rightarrow> terminal_row \<Rightarrow> (string, pyval) dict" where
  "terminal_select sid st te =
     [(''session_id'', VStr sid), (''owner_id'', VStr (st_owner_id st)),
      (''orchestration_id'', VStr (st_orchestration_id st)),
      (''generation_id'', opt_str (st_generation_id st)),
      (''generation_epoch'', opt_str (st_generation_epoch st)),
      (''terminal_kind'', VStr (te_terminal_kind te)), (''summary'', VStr (te_summary te)),
      (''ended_at'', VFloat (Fin (te_ended_at te))),
      (''published_at'', VFloat (Fin (te_published_at te))),
      (''terminal_seq'', VInt (te_terminal_seq te)),
      (''acknowledged_at'', opt_num (te_acknowledged_at te)),
      (''expired_at'', opt_num (te_expired_at te)),
      (''expire_reason'', opt_str (te_expire_reason te)),
      (''schema_version'', VInt (te_schema_version te))]"

definition start_of :: "db \<Rightarrow> string \<Rightarrow> start_row option" where
  "start_of d sid = map_of (db_starts d) sid"

definition owner_of_session :: "db \<Rightarrow> string \<Rightarrow> string option" where
  "owner_of_session d sid = map_option st_owner_id (start_of d sid)"

text \<open>\<open>JOIN starts\<close>: the rows of a table whose session has a start.\<close>

definition joined :: "db \<Rightarrow> (string, 'r) dict \<Rightarrow> (string \<times> start_row \<times> 'r) list" where
  "joined d t =
     List.map_filter (\<lambda>(sid, r). map_option (\<lambda>st. (sid, st, r)) (start_of d sid)) t"

end
