(* ===== verification/Nelix_Store.thy ===== *)
theory Nelix_Store
  imports Nelix_Db Nelix_Retirement
begin

text \<open>
  \<^verbatim>\<open>nelix_store/store.py\<close>: the durable store. Identifiers that the code does not
  check are strings; arguments it checks are Python values. A reading operation returns
  its result, a writing one the new database and its result. The clock's reading is an
  argument. \<open>ORDER BY created_at\<close> alone leaves ties in row order.
\<close>

section \<open>Board sequence numbers\<close>

definition get_owner_board_seq :: "pyval \<Rightarrow> db \<Rightarrow> int res" where
  "get_owner_board_seq owner_id d =
     rbind (nonempty_text owner_id) (\<lambda>o'.
       Inr (case map_of (db_board_seq d) o' of None \<Rightarrow> 0 | Some n \<Rightarrow> n))"

section \<open>Sessions\<close>

definition create_session ::
  "string \<Rightarrow> pyval \<Rightarrow> pyval \<Rightarrow> pyval \<Rightarrow> pyval \<Rightarrow> pyval \<Rightarrow> pyval \<Rightarrow> db \<Rightarrow> (db \<times> unit) res" where
  "create_session sid state executor task cwd model created_at d =
     (case start_of d sid of
        None \<Rightarrow> err UNKNOWN_SESSION
      | Some st \<Rightarrow>
          if st_generation_id st = None then err IDEMPOTENCY_CONFLICT
          else if st_state st = ''failed'' then err IDEMPOTENCY_CONFLICT
          else rbind (SessionRecord (VStr sid) (VStr (st_owner_id st)) (VStr (st_orchestration_id st))
                 (opt_str (st_generation_id st)) (opt_str (st_generation_epoch st)) state
                 executor task cwd model created_at (VInt SCHEMA_VERSION)) (\<lambda>r.
            if \<not> bindable created_at then Inl OverflowError
            else if map_of (db_sessions d) sid \<noteq> None then err DUPLICATE_START
            else Inr (d\<lparr>db_sessions := AList.update sid
                   \<lparr>se_state = sr_state r, se_executor = sr_executor r, se_task = sr_task r,
                    se_cwd = sr_cwd r, se_model = sr_model r, se_created_at = sr_created_at r,
                    se_schema_version = SCHEMA_VERSION\<rparr> (db_sessions d)\<rparr>, ())))"

definition get_session :: "string \<Rightarrow> string \<Rightarrow> db \<Rightarrow> session_record res" where
  "get_session sid owner_id d =
     (case (start_of d sid, map_of (db_sessions d) sid) of
        (Some st, Some se) \<Rightarrow>
          if st_owner_id st \<noteq> owner_id then err OWNER_MISMATCH
          else decode_stored (session_from_dict (VDict (session_select sid st se)))
      | _ \<Rightarrow> err UNKNOWN_SESSION)"

definition transition_session :: "string \<Rightarrow> string \<Rightarrow> pyval \<Rightarrow> string option \<Rightarrow> db \<Rightarrow> (db \<times> unit) res" where
  "transition_session sid owner_id state expected_state d =
     rbind (nonempty_text state) (\<lambda>s.
     case map_of (db_sessions d) sid of
       Some se \<Rightarrow>
         if owner_of_session d sid = Some owner_id \<and>
            (case expected_state of None \<Rightarrow> True | Some x \<Rightarrow> se_state se = x)
         then Inr (d\<lparr>db_sessions := AList.update sid (se\<lparr>se_state := s\<rparr>) (db_sessions d)\<rparr>, ())
         else rbind (get_session sid owner_id d) (\<lambda>_. err IDEMPOTENCY_CONFLICT)
     | None \<Rightarrow> rbind (get_session sid owner_id d) (\<lambda>_. err IDEMPOTENCY_CONFLICT))"

definition list_sessions :: "string \<Rightarrow> db \<Rightarrow> session_record list res" where
  "list_sessions owner_id d =
     read_rows (map (\<lambda>(sid, st, se). session_from_dict (VDict (session_select sid st se)))
       (sort_key (\<lambda>(sid, st, se). (se_created_at se, sid))
         (filter (\<lambda>(sid, st, se). st_owner_id st = owner_id \<and> se_schema_version se = SCHEMA_VERSION)
           (joined d (db_sessions d)))))"

section \<open>Terminal records\<close>

text \<open>The counter row of an epoch, created on demand (\<open>INSERT OR IGNORE\<close>).\<close>

definition progress_of :: "db \<Rightarrow> string \<Rightarrow> progress_row" where
  "progress_of d ep =
     (case map_of (db_progress d) ep of
        None \<Rightarrow> \<lparr>pr_next_terminal_seq = 1, pr_confirmed_high_water = 0\<rparr>
      | Some p \<Rightarrow> p)"

definition put_terminal :: "string \<Rightarrow> pyval \<Rightarrow> pyval \<Rightarrow> pyval \<Rightarrow> pyval \<Rightarrow> db \<Rightarrow> (db \<times> unit) res" where
  "put_terminal sid terminal_kind summary ended_at clock d =
     (case (start_of d sid, map_of (db_sessions d) sid) of
        (Some st, Some _) \<Rightarrow>
          rbind (moment clock) (\<lambda>now.
          rbind (TerminalRecord (VStr sid) (VStr (st_owner_id st)) (VStr (st_orchestration_id st))
                 (opt_str (st_generation_id st)) (opt_str (st_generation_epoch st)) terminal_kind summary
                 ended_at (VFloat (Fin now)) (VInt 0) VNone VNone VNone (VInt SCHEMA_VERSION)) (\<lambda>r.
          case map_of (db_terminal d) sid of
            Some te \<Rightarrow>
              if te_terminal_kind te = tr_terminal_kind r \<and> te_summary te = tr_summary r \<and>
                 te_ended_at te = tr_ended_at r
              then Inr (d, ()) else err IDEMPOTENCY_CONFLICT
          | None \<Rightarrow>
              (let ep = tr_generation_epoch r;
                   p = progress_of d ep;
                   sq = pr_next_terminal_seq p
               in if \<not> bindable ended_at then Inl OverflowError
                  else Inr (bump_board_seq (st_owner_id st)
                    (d\<lparr>db_progress := AList.update ep (p\<lparr>pr_next_terminal_seq := sq + 1\<rparr>) (db_progress d),
                       db_terminal := AList.update sid
                         \<lparr>te_terminal_kind = tr_terminal_kind r, te_summary = tr_summary r,
                          te_ended_at = tr_ended_at r, te_published_at = now, te_terminal_seq = sq,
                          te_acknowledged_at = None, te_expired_at = None, te_expire_reason = None,
                          te_schema_version = SCHEMA_VERSION\<rparr> (db_terminal d)\<rparr>), ()))))
      | _ \<Rightarrow> err UNKNOWN_SESSION)"

definition get_terminal :: "string \<Rightarrow> string \<Rightarrow> db \<Rightarrow> terminal_record res" where
  "get_terminal sid owner_id d =
     (case (start_of d sid, map_of (db_terminal d) sid) of
        (Some st, Some te) \<Rightarrow>
          if st_owner_id st \<noteq> owner_id then err OWNER_MISMATCH
          else decode_stored (terminal_from_dict (VDict (terminal_select sid st te)))
      | _ \<Rightarrow> err UNKNOWN_SESSION)"

definition board_rows :: "string \<Rightarrow> db \<Rightarrow> (string \<times> start_row \<times> terminal_row) list" where
  "board_rows owner_id d =
     filter (\<lambda>(sid, st, te). st_owner_id st = owner_id \<and> te_schema_version te = SCHEMA_VERSION \<and> on_the_board te)
       (joined d (db_terminal d))"

definition list_terminal :: "string \<Rightarrow> db \<Rightarrow> terminal_record list res" where
  "list_terminal owner_id d =
     read_rows (map (\<lambda>(sid, st, te). terminal_from_dict (VDict (terminal_select sid st te)))
       (sort_key (\<lambda>(sid, st, te). (te_ended_at te, sid)) (board_rows owner_id d)))"

definition read_board_snapshot :: "pyval \<Rightarrow> db \<Rightarrow> (int \<times> terminal_record list) res" where
  "read_board_snapshot owner_id d =
     rbind (nonempty_text owner_id) (\<lambda>o'.
     rbind (get_owner_board_seq owner_id d) (\<lambda>sq.
     rbind (list_terminal o' d) (\<lambda>rows. Inr (sq, rows))))"

definition max_list :: "int list \<Rightarrow> int" where
  "max_list xs = (case xs of [] \<Rightarrow> 0 | y # ys \<Rightarrow> fold max ys y)"

definition get_generation_persisted_high_water :: "pyval \<Rightarrow> db \<Rightarrow> int res" where
  "get_generation_persisted_high_water generation_epoch d =
     rbind (nonempty_text generation_epoch) (\<lambda>ep.
       Inr (max_list (map (\<lambda>(sid, st, te). te_terminal_seq te)
         (filter (\<lambda>(sid, st, te). st_generation_epoch st = Some ep) (joined d (db_terminal d))))))"

definition ack_terminal :: "string \<Rightarrow> string \<Rightarrow> pyval \<Rightarrow> db \<Rightarrow> (db \<times> terminal_record) res" where
  "ack_terminal sid owner_id clock d =
     rbind (get_terminal sid owner_id d) (\<lambda>r.
       if tr_acknowledged_at r \<noteq> None then Inr (d, r)
       else if tr_expired_at r \<noteq> None then err TERMINAL_EXPIRED
       else rbind (moment clock) (\<lambda>now.
         let d' = bump_board_seq owner_id
               (case map_of (db_terminal d) sid of
                  None \<Rightarrow> d
                | Some te \<Rightarrow> d\<lparr>db_terminal := AList.update sid (te\<lparr>te_acknowledged_at := Some now\<rparr>) (db_terminal d)\<rparr>)
         in rbind (get_terminal sid owner_id d') (\<lambda>r'. Inr (d', r'))))"

text \<open>A finite, non-negative number of seconds.\<close>

fun age_arg :: "pyval \<Rightarrow> rat res" where
  "age_arg (VInt n) =
     (if float_overflow n then Inl OverflowError else if n < 0 then invalid else Inr (of_int n))"
| "age_arg (VFloat (Fin r)) = (if r < 0 then invalid else Inr r)"
| "age_arg _ = invalid"

text \<open>Expiring the rows of a selection, and the sessions it selected.\<close>

definition expire_rows :: "rat \<Rightarrow> string \<Rightarrow> (string \<Rightarrow> terminal_row \<Rightarrow> bool) \<Rightarrow> (string, terminal_row) dict \<Rightarrow>
    (string, terminal_row) dict \<times> string list" where
  "expire_rows now reason sel t =
     (map (\<lambda>(sid, te). (sid, if sel sid te
        then te\<lparr>te_expired_at := Some now, te_expire_reason := Some reason\<rparr> else te)) t,
      keys (filter (\<lambda>(sid, te). sel sid te) t))"

text \<open>\<open>ROW_NUMBER() OVER (PARTITION BY owner ORDER BY published_at DESC, session_id DESC)\<close>.\<close>

definition row_number :: "(string \<times> start_row \<times> terminal_row) list \<Rightarrow> string \<times> start_row \<times> terminal_row \<Rightarrow> nat" where
  "row_number rows x =
     (case x of (sid, st, te) \<Rightarrow>
        length (filter (\<lambda>(sid', st', te'). st_owner_id st' = st_owner_id st \<and>
          (te_published_at te, sid) \<le> (te_published_at te', sid')) rows))"

definition over_count :: "int \<Rightarrow> db \<Rightarrow> string list" where
  "over_count max_count d =
     (let rows = filter (\<lambda>(sid, st, te). on_the_board te) (joined d (db_terminal d))
      in map fst (filter (\<lambda>x. max_count < int (row_number rows x)) rows))"

definition prune_terminal :: "pyval \<Rightarrow> pyval \<Rightarrow> pyval \<Rightarrow> db \<Rightarrow> (db \<times> int) res" where
  "prune_terminal max_age_seconds max_count clock d =
     rbind (age_arg max_age_seconds) (\<lambda>max_age.
     rbind (count_field max_count) (\<lambda>cnt.
     rbind (moment clock) (\<lambda>now.
       if \<not> bindable max_age_seconds \<or> \<not> bindable max_count then Inl OverflowError
       else let (t1, ids1) = expire_rows now ''age''
                  (\<lambda>sid te. on_the_board te \<and> now - te_published_at te > max_age) (db_terminal d);
                d1 = d\<lparr>db_terminal := t1\<rparr>;
                over = over_count cnt d1;
                (t2, ids2) = expire_rows now ''count'' (\<lambda>sid te. sid \<in> set over) t1;
                d2 = d1\<lparr>db_terminal := t2\<rparr>;
                ids = ids1 @ ids2;
                owners = remdups (map (\<lambda>(sid, st, te). st_owner_id st)
                  (filter (\<lambda>(sid, st, te). sid \<in> set ids) (joined d2 t2)))
       in Inr (fold bump_board_seq owners d2, int (length ids)))))"

definition list_terminal_for_epoch :: "string \<Rightarrow> db \<Rightarrow> terminal_record list res" where
  "list_terminal_for_epoch ep d =
     read_rows (map (\<lambda>(sid, st, te). terminal_from_dict (VDict (terminal_select sid st te)))
       (sort_key (\<lambda>(sid, st, te). te_terminal_seq te)
         (filter (\<lambda>(sid, st, te). st_generation_epoch st = Some ep) (joined d (db_terminal d)))))"

definition list_starts_for_epoch :: "pyval \<Rightarrow> db \<Rightarrow> (string \<times> start_row) list res" where
  "list_starts_for_epoch generation_epoch d =
     rbind (nonempty_text generation_epoch) (\<lambda>ep.
       Inr (filter (\<lambda>(sid, st). st_generation_epoch st = Some ep \<and>
              map_of (db_sessions d) sid \<noteq> None \<and> map_of (db_terminal d) sid = None) (db_starts d)))"

end
