(* ===== verification/Nelix_Generations.thy ===== *)
theory Nelix_Generations
  imports Nelix_Store
begin

text \<open>
  The generation and epoch part of \<^verbatim>\<open>nelix_store/store.py\<close>, the confirmed
  watermarks, and the garbage collection of retired generations, which runs one
  transaction per session and therefore returns the database also when it raises.
\<close>

section \<open>Generations and epochs\<close>

definition create_generation :: "pyval \<Rightarrow> pyval \<Rightarrow> pyval \<Rightarrow> pyval \<Rightarrow> pyval \<Rightarrow> db \<Rightarrow> (db \<times> unit) res" where
  "create_generation generation_id build_id lifecycle_state capability_snapshot created_at d =
     rbind (nonempty_text generation_id) (\<lambda>g.
     rbind (optional_nonempty build_id) (\<lambda>_.
     rbind (nonempty_text lifecycle_state) (\<lambda>_.
     rbind (optional_nonempty capability_snapshot) (\<lambda>_.
     rbind (moment created_at) (\<lambda>cr.
     rbind (GenerationRecord generation_id build_id lifecycle_state VNone capability_snapshot (VFloat (Fin cr))) (\<lambda>r.
       if map_of (db_generations d) g \<noteq> None then err DUPLICATE_START
       else Inr (d\<lparr>db_generations := AList.update g r (db_generations d)\<rparr>, ())))))))"

definition insert_epoch :: "pyval \<Rightarrow> pyval \<Rightarrow> pyval \<Rightarrow> pyval \<Rightarrow> db \<Rightarrow> (db \<times> unit) res" where
  "insert_epoch generation_epoch generation_id incarnation_meta created_at d =
     rbind (nonempty_text generation_epoch) (\<lambda>ep.
     rbind (nonempty_text generation_id) (\<lambda>g.
     rbind (optional_nonempty incarnation_meta) (\<lambda>_.
     rbind (moment created_at) (\<lambda>cr.
     rbind (EpochRecord generation_epoch generation_id (VStr ''starting'') (VStr ''open'') VNone VNone
              incarnation_meta (VFloat (Fin cr))) (\<lambda>r.
       if map_of (db_epochs d) ep \<noteq> None then err DUPLICATE_START
       else if map_of (db_generations d) g = None then err UNKNOWN_SESSION
       else Inr (d\<lparr>db_epochs := AList.update ep r (db_epochs d)\<rparr>, ()))))))"

text \<open>The partial unique index \<open>epochs_one_serving\<close>: another epoch of the generation serves.\<close>

definition other_serving :: "db \<Rightarrow> string \<Rightarrow> string \<Rightarrow> bool" where
  "other_serving d g ep \<longleftrightarrow>
     list_ex (\<lambda>(e, r). e \<noteq> ep \<and> er_generation_id r = g \<and> er_process_state r = ''serving'') (db_epochs d)"

definition cas_epoch_serving :: "pyval \<Rightarrow> pyval \<Rightarrow> string option \<Rightarrow> pyval \<Rightarrow> db \<Rightarrow> (db \<times> unit) res" where
  "cas_epoch_serving generation_id generation_epoch expected_current_epoch incarnation_meta d =
     rbind (nonempty_text generation_id) (\<lambda>g.
     rbind (nonempty_text generation_epoch) (\<lambda>ep.
     rbind (optional_nonempty incarnation_meta) (\<lambda>meta.
     case map_of (db_generations d) g of
       None \<Rightarrow> err UNKNOWN_SESSION
     | Some gen \<Rightarrow>
         if gr_current_epoch gen \<noteq> expected_current_epoch then err IDEMPOTENCY_CONFLICT
         else (case map_of (db_epochs d) ep of
           None \<Rightarrow> err IDEMPOTENCY_CONFLICT
         | Some r \<Rightarrow>
             if er_generation_id r \<noteq> g then err IDEMPOTENCY_CONFLICT
             else if er_process_state r \<noteq> ''starting'' then err IDEMPOTENCY_CONFLICT
             else if other_serving d g ep then constraint_failed
             else Inr (d\<lparr>db_generations := AList.update g (gen\<lparr>gr_current_epoch := Some ep\<rparr>) (db_generations d),
                         db_epochs := AList.update ep
                           ((case meta of None \<Rightarrow> r | Some m \<Rightarrow> r\<lparr>er_incarnation_meta := Some m\<rparr>)
                              \<lparr>er_process_state := ''serving''\<rparr>) (db_epochs d)\<rparr>, ())))))"

definition set_epoch_process_state :: "pyval \<Rightarrow> pyval \<Rightarrow> db \<Rightarrow> (db \<times> unit) res" where
  "set_epoch_process_state generation_epoch state d =
     rbind (nonempty_text generation_epoch) (\<lambda>ep.
     if state \<notin> {VStr ''starting'', VStr ''serving'', VStr ''dead''} then invalid
     else rbind (text_field state) (\<lambda>s.
     case map_of (db_epochs d) ep of
       None \<Rightarrow> err UNKNOWN_SESSION
     | Some r \<Rightarrow>
         if s = ''serving'' \<and> other_serving d (er_generation_id r) ep then constraint_failed
         else Inr (d\<lparr>db_epochs := AList.update ep (r\<lparr>er_process_state := s\<rparr>) (db_epochs d)\<rparr>, ())))"

definition get_epoch_retirement_state :: "pyval \<Rightarrow> db \<Rightarrow> string res" where
  "get_epoch_retirement_state generation_epoch d =
     rbind (nonempty_text generation_epoch) (\<lambda>ep.
     case map_of (db_epochs d) ep of None \<Rightarrow> err UNKNOWN_SESSION | Some r \<Rightarrow> Inr (er_retirement_state r))"

definition set_epoch_retirement :: "pyval \<Rightarrow> pyval \<Rightarrow> string option \<Rightarrow> pyval \<Rightarrow> db \<Rightarrow> (db \<times> unit) res" where
  "set_epoch_retirement generation_epoch retirement_state certificate final_high_water d =
     rbind (nonempty_text generation_epoch) (\<lambda>ep.
     if retirement_state \<notin> {VStr ''open'', VStr ''quiescing'', VStr ''certified''} then invalid
     else rbind (text_field retirement_state) (\<lambda>s.
     rbind (optional_count final_high_water) (\<lambda>final.
     if s = ''certified'' \<and> \<not> bindable final_high_water then Inl OverflowError
     else case map_of (db_epochs d) ep of
       None \<Rightarrow> err UNKNOWN_SESSION
     | Some r \<Rightarrow>
         Inr (d\<lparr>db_epochs := AList.update ep
           (if s = ''certified'' then r\<lparr>er_retirement_state := s, er_certificate := certificate, er_final_high_water := final\<rparr>
            else r\<lparr>er_retirement_state := s\<rparr>) (db_epochs d)\<rparr>, ()))))"

definition epochs_of :: "string \<Rightarrow> db \<Rightarrow> epoch_record list" where
  "epochs_of g d =
     sort_key er_created_at (filter (\<lambda>r. er_generation_id r = g) (map snd (db_epochs d)))"

definition list_epochs :: "pyval \<Rightarrow> db \<Rightarrow> epoch_record list res" where
  "list_epochs generation_id d =
     rbind (nonempty_text generation_id) (\<lambda>g.
       read_rows (map (\<lambda>r. epoch_from_dict (VDict (epoch_to_dict r))) (epochs_of g d)))"

definition list_epochs_strict :: "pyval \<Rightarrow> db \<Rightarrow> epoch_record list res" where
  "list_epochs_strict generation_id d =
     rbind (nonempty_text generation_id) (\<lambda>g.
       decode_all (map (\<lambda>r. epoch_from_dict (VDict (epoch_to_dict r))) (epochs_of g d)))"

definition get_generation :: "pyval \<Rightarrow> db \<Rightarrow> generation_record res" where
  "get_generation generation_id d =
     rbind (nonempty_text generation_id) (\<lambda>g.
     case map_of (db_generations d) g of
       None \<Rightarrow> err UNKNOWN_SESSION
     | Some r \<Rightarrow> decode_stored (generation_from_dict (VDict (generation_to_dict r))))"

definition update_generation :: "string \<Rightarrow> (generation_record \<Rightarrow> generation_record) \<Rightarrow> db \<Rightarrow> (db \<times> unit) res" where
  "update_generation g f d =
     (case map_of (db_generations d) g of
        None \<Rightarrow> err UNKNOWN_SESSION
      | Some r \<Rightarrow> Inr (d\<lparr>db_generations := AList.update g (f r) (db_generations d)\<rparr>, ()))"

definition set_generation_lifecycle_state :: "pyval \<Rightarrow> pyval \<Rightarrow> db \<Rightarrow> (db \<times> unit) res" where
  "set_generation_lifecycle_state generation_id state d =
     rbind (nonempty_text generation_id) (\<lambda>g.
     rbind (nonempty_text state) (\<lambda>s. update_generation g (gr_lifecycle_state_update (\<lambda>_. s)) d))"

definition clear_current_epoch :: "pyval \<Rightarrow> db \<Rightarrow> (db \<times> unit) res" where
  "clear_current_epoch generation_id d =
     rbind (nonempty_text generation_id) (\<lambda>g. update_generation g (gr_current_epoch_update (\<lambda>_. None)) d)"

definition set_current_epoch :: "pyval \<Rightarrow> pyval \<Rightarrow> db \<Rightarrow> (db \<times> unit) res" where
  "set_current_epoch generation_id generation_epoch d =
     rbind (nonempty_text generation_id) (\<lambda>g.
     rbind (nonempty_text generation_epoch) (\<lambda>ep.
     if map_of (db_generations d) g \<noteq> None \<and>
        (case map_of (db_epochs d) ep of None \<Rightarrow> True | Some r \<Rightarrow> er_generation_id r \<noteq> g)
     then constraint_failed
     else update_generation g (gr_current_epoch_update (\<lambda>_. Some ep)) d))"

definition set_generation_lifecycle_state_atomic ::
  "pyval \<Rightarrow> pyval \<Rightarrow> string \<Rightarrow> string \<Rightarrow> string \<Rightarrow> db \<Rightarrow> (db \<times> unit) res" where
  "set_generation_lifecycle_state_atomic old_id new_id new_state_old expected_old_state expected_new_state d =
     rbind (nonempty_text old_id) (\<lambda>old.
     rbind (nonempty_text new_id) (\<lambda>new.
     case map_of (db_generations d) old of
       None \<Rightarrow> err IDEMPOTENCY_CONFLICT
     | Some ro \<Rightarrow>
         if gr_lifecycle_state ro \<noteq> expected_old_state then err IDEMPOTENCY_CONFLICT
         else (case map_of (db_generations d) new of
           None \<Rightarrow> err IDEMPOTENCY_CONFLICT
         | Some rn \<Rightarrow>
             if gr_lifecycle_state rn \<noteq> expected_new_state then err IDEMPOTENCY_CONFLICT
             else rbind (update_generation old (gr_lifecycle_state_update (\<lambda>_. new_state_old)) d) (\<lambda>(d1, _).
               update_generation new (gr_lifecycle_state_update (\<lambda>_. ''active'')) d1))))"

definition list_generations :: "db \<Rightarrow> generation_record list res" where
  "list_generations d =
     decode_all (map (\<lambda>r. generation_from_dict (VDict (generation_to_dict r)))
       (sort_key (\<lambda>r. (gr_created_at r, gr_generation_id r)) (map snd (db_generations d))))"

definition reconcile_epoch_dead :: "pyval \<Rightarrow> pyval \<Rightarrow> db \<Rightarrow> (db \<times> unit) res" where
  "reconcile_epoch_dead generation_id generation_epoch d =
     rbind (nonempty_text generation_id) (\<lambda>g.
     rbind (nonempty_text generation_epoch) (\<lambda>ep.
     case map_of (db_epochs d) ep of
       None \<Rightarrow> err IDEMPOTENCY_CONFLICT
     | Some r \<Rightarrow>
         if er_generation_id r \<noteq> g then err IDEMPOTENCY_CONFLICT
         else (let d1 = (if er_process_state r \<noteq> ''dead''
                         then d\<lparr>db_epochs := AList.update ep (r\<lparr>er_process_state := ''dead''\<rparr>) (db_epochs d)\<rparr> else d)
           in Inr (case map_of (db_generations d1) g of
                None \<Rightarrow> (d1, ())
              | Some gen \<Rightarrow>
                  if gr_current_epoch gen = Some ep
                  then (d1\<lparr>db_generations := AList.update g (gen\<lparr>gr_current_epoch := None\<rparr>) (db_generations d1)\<rparr>, ())
                  else (d1, ())))))"

section \<open>Confirmed watermarks\<close>

text \<open>Two statements, each its own transaction: the row is created even when binding fails.\<close>

definition set_generation_confirmed_high_water :: "pyval \<Rightarrow> pyval \<Rightarrow> db \<Rightarrow> unit res \<times> db" where
  "set_generation_confirmed_high_water generation_epoch sq d =
     (case rbind (nonempty_text generation_epoch) (\<lambda>ep. rbind (count_field sq) (\<lambda>n. Inr (ep, n))) of
        Inl e \<Rightarrow> (Inl e, d)
      | Inr (ep, n) \<Rightarrow>
          (let p = progress_of d ep;
               d1 = d\<lparr>db_progress := AList.update ep p (db_progress d)\<rparr>
           in if \<not> bindable sq then (Inl OverflowError, d1)
              else (Inr (), d1\<lparr>db_progress := AList.update ep
                     (p\<lparr>pr_confirmed_high_water := max (pr_confirmed_high_water p) n\<rparr>) (db_progress d1)\<rparr>)))"

definition get_generation_confirmed_high_water :: "pyval \<Rightarrow> db \<Rightarrow> int res" where
  "get_generation_confirmed_high_water generation_epoch d =
     rbind (nonempty_text generation_epoch) (\<lambda>ep. Inr (pr_confirmed_high_water (progress_of d ep)))"

section \<open>The retirement oracle on the store, and garbage collection\<close>

definition store_oracle :: "db \<Rightarrow> string \<Rightarrow> oracle_blocker list res" where
  "store_oracle d g =
     generation_retirement_oracle_blockers (\<lambda>g. get_generation (VStr g) d) (\<lambda>g. list_epochs (VStr g) d)
       (\<lambda>e. get_generation_confirmed_high_water (VStr e) d) g"

text \<open>\<open>(now - created_at) > horizon\<close>, and the check of the argument.\<close>

fun past_horizon :: "rat \<Rightarrow> rat \<Rightarrow> pyval \<Rightarrow> bool" where
  "past_horizon now created (VInt h) = (now - created > of_int h)"
| "past_horizon now created (VFloat (Fin h)) = (now - created > h)"
| "past_horizon now created _ = False"

fun horizon_ok :: "pyval \<Rightarrow> bool" where
  "horizon_ok (VInt h) = (0 \<le> h)"
| "horizon_ok (VFloat (Fin h)) = (0 \<le> h)"
| "horizon_ok (VFloat PosInf) = True"
| "horizon_ok (VFloat NaN) = True"
| "horizon_ok _ = False"

record gc_stats =
  gc_generations_processed :: nat
  gc_terminals_deleted :: nat
  gc_sessions_deleted :: nat
  gc_starts_deleted :: nat
  gc_starts_preserved :: nat

definition count_row :: "'a option \<Rightarrow> nat" where
  "count_row x = (if x = None then 0 else 1)"

text \<open>One session of a collectable generation: terminal, session, and an old enough start.\<close>

definition gc_session :: "rat \<Rightarrow> pyval \<Rightarrow> string \<times> start_row \<Rightarrow> gc_stats \<times> db \<Rightarrow> gc_stats \<times> db" where
  "gc_session now horizon row sd =
     (let sid = fst row; d = snd sd; s = fst sd;
          old = past_horizon now (st_created_at (snd row)) horizon;
          d1 = d\<lparr>db_terminal := AList.delete sid (db_terminal d), db_sessions := AList.delete sid (db_sessions d)\<rparr>;
          s1 = s\<lparr>gc_terminals_deleted := gc_terminals_deleted s + count_row (map_of (db_terminal d) sid),
                 gc_sessions_deleted := gc_sessions_deleted s + count_row (map_of (db_sessions d) sid)\<rparr>
      in if old then (s1\<lparr>gc_starts_deleted := gc_starts_deleted s1 + 1\<rparr>,
                      d1\<lparr>db_starts := AList.delete sid (db_starts d1)\<rparr>)
         else (s1\<lparr>gc_starts_preserved := gc_starts_preserved s1 + 1\<rparr>, d1))"

definition generation_starts :: "string \<Rightarrow> db \<Rightarrow> (string \<times> start_row) list" where
  "generation_starts g d = filter (\<lambda>(sid, st). st_generation_id st = Some g) (db_starts d)"

definition unresolved_terminal :: "string \<Rightarrow> db \<Rightarrow> bool" where
  "unresolved_terminal g d \<longleftrightarrow>
     list_ex (\<lambda>(sid, st, te). st_generation_id st = Some g \<and> on_the_board te) (joined d (db_terminal d))"

definition gc_generation :: "rat \<Rightarrow> pyval \<Rightarrow> generation_record \<Rightarrow> gc_stats \<times> db \<Rightarrow> unit res \<times> gc_stats \<times> db" where
  "gc_generation now horizon gen sd =
     (if gr_lifecycle_state gen \<noteq> ''retired'' then (Inr (), sd)
      else let s = (fst sd)\<lparr>gc_generations_processed := gc_generations_processed (fst sd) + 1\<rparr>;
               g = gr_generation_id gen; d = snd sd
      in case store_oracle d g of
           Inl e \<Rightarrow> (Inl e, s, d)
         | Inr bs \<Rightarrow>
             if bs \<noteq> [] \<or> unresolved_terminal g d then (Inr (), s, d)
             else (Inr (), fold (gc_session now horizon) (generation_starts g d) (s, d)))"

primrec gc_generations :: "rat \<Rightarrow> pyval \<Rightarrow> generation_record list \<Rightarrow> gc_stats \<times> db \<Rightarrow> unit res \<times> gc_stats \<times> db" where
  "gc_generations now horizon [] sd = (Inr (), sd)"
| "gc_generations now horizon (gen # gens) sd =
     (case gc_generation now horizon gen sd of
        (Inl e, sd') \<Rightarrow> (Inl e, sd')
      | (Inr _, sd') \<Rightarrow> gc_generations now horizon gens sd')"

definition gc_retired_generations :: "pyval \<Rightarrow> pyval \<Rightarrow> db \<Rightarrow> gc_stats res \<times> db" where
  "gc_retired_generations replay_horizon_seconds clock d =
     (if \<not> horizon_ok replay_horizon_seconds then (invalid, d)
      else case rbind (moment clock) (\<lambda>now. rbind (list_generations d) (\<lambda>gens. Inr (now, gens))) of
        Inl e \<Rightarrow> (Inl e, d)
      | Inr (now, gens) \<Rightarrow>
          (let (r, s, d') = gc_generations now replay_horizon_seconds gens
                 (\<lparr>gc_generations_processed = 0, gc_terminals_deleted = 0, gc_sessions_deleted = 0,
                   gc_starts_deleted = 0, gc_starts_preserved = 0\<rparr>, d)
           in (rbind r (\<lambda>_. Inr s), d')))"

end
