(* ===== verification/Nelix_Ledger.thy ===== *)
theory Nelix_Ledger
  imports Nelix_Db
begin

text \<open>
  \<^verbatim>\<open>nelix_store/ledger.py\<close>: the start-idempotency ledger, on the same tables. The
  freshly minted session id and the clock's reading are arguments of \<open>reserve\<close>.
\<close>

definition MAX_IDEMPOTENCY_KEY_BYTES :: nat where
  "MAX_IDEMPOTENCY_KEY_BYTES = 256"

definition MAX_REQUEST_FINGERPRINT_BYTES :: nat where
  "MAX_REQUEST_FINGERPRINT_BYTES = 1024"

text \<open>\<open>len(value.encode("utf-8"))\<close> for code points below 256.\<close>

definition utf8_length :: "string \<Rightarrow> nat" where
  "utf8_length s = sum_list (map (\<lambda>c. if (of_char c :: nat) < 128 then 1 else 2) s)"

definition bounded_text :: "pyval \<Rightarrow> nat \<Rightarrow> string res" where
  "bounded_text v limit =
     rbind (nonempty_text v) (\<lambda>s. if limit < utf8_length s then invalid else Inr s)"

record reservation =
  rs_session_id :: string
  rs_state :: string
  rs_generation_id :: "string option"
  rs_reason :: "string option"
  rs_replay :: bool

text \<open>\<open>except InvalidId as e: raise NelixError(STORE_CORRUPT, ...)\<close>.\<close>

definition stored_id :: "string res \<Rightarrow> string res" where
  "stored_id m = (case m of Inl InvalidId \<Rightarrow> err STORE_CORRUPT | _ \<Rightarrow> m)"

definition row_to_reservation :: "bool \<Rightarrow> string \<times> start_row \<Rightarrow> reservation res" where
  "row_to_reservation replay row =
     (let (sid, st) = row in
     rbind (stored_id (validate_session_id (VStr sid))) (\<lambda>_.
     rbind (case st_generation_id st of None \<Rightarrow> Inr [] | Some g \<Rightarrow> stored_id (validate_generation_id (VStr g))) (\<lambda>_.
     if st_state st \<notin> {''starting'', ''started'', ''failed''} then err STORE_CORRUPT
     else Inr \<lparr>rs_session_id = sid, rs_state = st_state st, rs_generation_id = st_generation_id st,
               rs_reason = st_reason st, rs_replay = replay\<rparr>)))"

definition find_key :: "string \<Rightarrow> string \<Rightarrow> db \<Rightarrow> (string \<times> start_row) option" where
  "find_key owner_id key d =
     List.find (\<lambda>(sid, st). st_owner_id st = owner_id \<and> st_idempotency_key st = key) (db_starts d)"

definition reserve ::
  "pyval \<Rightarrow> pyval \<Rightarrow> pyval \<Rightarrow> pyval \<Rightarrow> string \<Rightarrow> pyval \<Rightarrow> db \<Rightarrow> (db \<times> reservation) res" where
  "reserve idempotency_key owner_id orchestration_id request_fingerprint minted clock d =
     rbind (invalid_id_as_request (validate_owner_id owner_id)) (\<lambda>owner.
     rbind (invalid_id_as_request (validate_orchestration_id orchestration_id)) (\<lambda>orch.
     rbind (bounded_text idempotency_key MAX_IDEMPOTENCY_KEY_BYTES) (\<lambda>key.
     rbind (bounded_text request_fingerprint MAX_REQUEST_FINGERPRINT_BYTES) (\<lambda>fp.
     rbind (moment clock) (\<lambda>now.
       if start_of d minted = None \<and> find_key owner key d = None
       then Inr (d\<lparr>db_starts := AList.update minted
                    \<lparr>st_owner_id = owner, st_orchestration_id = orch, st_idempotency_key = key,
                     st_request_fingerprint = fp, st_state = ''starting'', st_generation_id = None,
                     st_generation_epoch = None, st_reason = None, st_created_at = now\<rparr> (db_starts d)\<rparr>,
                 \<lparr>rs_session_id = minted, rs_state = ''starting'', rs_generation_id = None,
                  rs_reason = None, rs_replay = False\<rparr>)
       else (case find_key owner key d of
         None \<Rightarrow> err STORE_CORRUPT
       | Some row \<Rightarrow>
           if st_request_fingerprint (snd row) \<noteq> fp \<or> st_orchestration_id (snd row) \<noteq> orch
           then err IDEMPOTENCY_CONFLICT
           else rbind (row_to_reservation True row) (\<lambda>r. Inr (d, r))))))))"

definition require_start :: "string \<Rightarrow> db \<Rightarrow> start_row res" where
  "require_start sid d = (case start_of d sid of None \<Rightarrow> err UNKNOWN_SESSION | Some st \<Rightarrow> Inr st)"

definition put_start :: "string \<Rightarrow> start_row \<Rightarrow> db \<Rightarrow> db" where
  "put_start sid st d = d\<lparr>db_starts := AList.update sid st (db_starts d)\<rparr>"

definition assign_generation :: "string \<Rightarrow> pyval \<Rightarrow> pyval \<Rightarrow> db \<Rightarrow> (db \<times> unit) res" where
  "assign_generation sid generation_id generation_epoch d =
     rbind (invalid_id_as_request (validate_generation_id generation_id)) (\<lambda>g.
     rbind (invalid_id_as_request (validate_generation_id generation_epoch)) (\<lambda>ep.
     rbind (require_start sid d) (\<lambda>st.
       if st_state st \<noteq> ''starting'' then err IDEMPOTENCY_CONFLICT
       else if st_generation_id st \<notin> {None, Some g} then err IDEMPOTENCY_CONFLICT
       else Inr (put_start sid (st\<lparr>st_generation_id := Some g, st_generation_epoch := Some ep\<rparr>) d, ()))))"

definition commit :: "string \<Rightarrow> pyval \<Rightarrow> pyval \<Rightarrow> db \<Rightarrow> (db \<times> unit) res" where
  "commit sid generation_id generation_epoch d =
     rbind (invalid_id_as_request (validate_generation_id generation_id)) (\<lambda>g.
     rbind (invalid_id_as_request (validate_generation_id generation_epoch)) (\<lambda>ep.
     rbind (require_start sid d) (\<lambda>st.
       if st_state st = ''failed'' then err IDEMPOTENCY_CONFLICT
       else if st_generation_id st \<noteq> Some g then err IDEMPOTENCY_CONFLICT
       else if st_generation_epoch st \<noteq> Some ep then err IDEMPOTENCY_CONFLICT
       else Inr (put_start sid (st\<lparr>st_state := ''started''\<rparr>) d, ()))))"

definition fail_start :: "string \<Rightarrow> pyval \<Rightarrow> db \<Rightarrow> (db \<times> unit) res" where
  "fail_start sid reason d =
     rbind (nonempty_text reason) (\<lambda>why.
     rbind (require_start sid d) (\<lambda>st.
       if st_state st = ''started'' then err IDEMPOTENCY_CONFLICT
       else if st_state st = ''failed'' then
         (if st_reason st = Some why then Inr (d, ()) else err IDEMPOTENCY_CONFLICT)
       else if map_of (db_sessions d) sid \<noteq> None then err IDEMPOTENCY_CONFLICT
       else Inr (put_start sid (st\<lparr>st_state := ''failed'', st_reason := Some why\<rparr>) d, ())))"

definition get_session_generation :: "pyval \<Rightarrow> db \<Rightarrow> (string \<times> string option) res" where
  "get_session_generation session_id d =
     rbind (invalid_id_as_request (validate_session_id session_id)) (\<lambda>sid.
     rbind (require_start sid d) (\<lambda>st.
       case st_generation_id st of
         None \<Rightarrow> err UNKNOWN_SESSION
       | Some g \<Rightarrow> Inr (g, st_generation_epoch st)))"

text \<open>The waitable starts of an owner.\<close>

definition waitable :: "string \<Rightarrow> db \<Rightarrow> (string \<times> start_row) list" where
  "waitable owner d =
     filter (\<lambda>(sid, st). st_owner_id st = owner \<and> st_state st \<in> {''starting'', ''started''}) (db_starts d)"

primrec validated_sessions :: "string list \<Rightarrow> string list res" where
  "validated_sessions [] = Inr []"
| "validated_sessions (sid # sids) =
     rbind (stored_id (validate_session_id (VStr sid))) (\<lambda>s.
     rbind (validated_sessions sids) (\<lambda>ss. Inr (s # ss)))"

definition sessions_for_orchestration :: "pyval \<Rightarrow> pyval \<Rightarrow> db \<Rightarrow> string list res" where
  "sessions_for_orchestration owner_id orchestration_id d =
     rbind (invalid_id_as_request (validate_owner_id owner_id)) (\<lambda>owner.
     rbind (invalid_id_as_request (validate_orchestration_id orchestration_id)) (\<lambda>orch.
       validated_sessions (map fst (sort_key (\<lambda>(sid, st). (st_created_at st, sid))
         (filter (\<lambda>(sid, st). st_orchestration_id st = orch) (waitable owner d))))))"

definition orchestrations_for_owner :: "pyval \<Rightarrow> db \<Rightarrow> string list res" where
  "orchestrations_for_owner owner_id d =
     rbind (invalid_id_as_request (validate_owner_id owner_id)) (\<lambda>owner.
       Inr (sort (remdups (map (\<lambda>(sid, st). st_orchestration_id st) (waitable owner d)))))"

definition lookup_key :: "string \<Rightarrow> string \<Rightarrow> db \<Rightarrow> reservation option res" where
  "lookup_key key owner_id d =
     (case find_key owner_id key d of
        None \<Rightarrow> Inr None
      | Some row \<Rightarrow> rbind (row_to_reservation True row) (\<lambda>r. Inr (Some r)))"

end
