(* ===== verification/Nelix_Store_Inv.thy ===== *)
theory Nelix_Store_Inv
  imports Nelix_Generations Nelix_Ledger
begin

text \<open>
  The database invariant: primary and unique keys, foreign keys, the table checks, the
  one-serving index, and what only the code maintains (a session never hangs on a failed
  or unassigned start, every stored row decodes). Every operation of the store, the
  ledger and the garbage collector keeps it.
\<close>

section \<open>The invariant, per table\<close>

definition start_ok :: "string \<Rightarrow> start_row \<Rightarrow> bool" where
  "start_ok sid st \<longleftrightarrow>
     match_hex_id (CHR ''s'') sid \<and> match_owner (st_owner_id st) \<and>
     match_hex_id (CHR ''o'') (st_orchestration_id st) \<and>
     st_state st \<in> {''starting'', ''started'', ''failed''} \<and>
     (st_generation_id st = None \<longleftrightarrow> st_generation_epoch st = None) \<and>
     (\<forall>g. st_generation_id st = Some g \<longrightarrow> match_hex_id (CHR ''g'') g) \<and>
     (\<forall>e. st_generation_epoch st = Some e \<longrightarrow> match_hex_id (CHR ''g'') e) \<and>
     (st_state st = ''started'' \<longrightarrow> st_generation_id st \<noteq> None)"

definition starts_ok :: "(string, start_row) dict \<Rightarrow> bool" where
  "starts_ok S \<longleftrightarrow> dict_ok S \<and> (\<forall>sid st. map_of S sid = Some st \<longrightarrow> start_ok sid st) \<and>
     (\<forall>s1 s2 t1 t2. map_of S s1 = Some t1 \<longrightarrow> map_of S s2 = Some t2 \<longrightarrow>
        st_owner_id t1 = st_owner_id t2 \<longrightarrow> st_idempotency_key t1 = st_idempotency_key t2 \<longrightarrow> s1 = s2)"

definition sessions_ok :: "(string, start_row) dict \<Rightarrow> (string, session_row) dict \<Rightarrow> bool" where
  "sessions_ok S E \<longleftrightarrow> dict_ok E \<and>
     (\<forall>sid se. map_of E sid = Some se \<longrightarrow> se_schema_version se = SCHEMA_VERSION \<and>
        (\<exists>st. map_of S sid = Some st \<and> st_generation_id st \<noteq> None \<and> st_state st \<noteq> ''failed''))"

definition receipt_ok :: "terminal_row \<Rightarrow> bool" where
  "receipt_ok te \<longleftrightarrow>
     \<not> (te_acknowledged_at te \<noteq> None \<and> te_expired_at te \<noteq> None) \<and>
     (te_expired_at te = None \<longleftrightarrow> te_expire_reason te = None) \<and>
     te_expire_reason te \<in> {None, Some ''age'', Some ''count''} \<and>
     0 < te_terminal_seq te \<and> te_schema_version te = SCHEMA_VERSION"

definition terminal_ok :: "(string, session_row) dict \<Rightarrow> (string, terminal_row) dict \<Rightarrow> bool" where
  "terminal_ok E T \<longleftrightarrow> dict_ok T \<and>
     (\<forall>sid te. map_of T sid = Some te \<longrightarrow> map_of E sid \<noteq> None \<and> receipt_ok te)"

definition progress_ok :: "(string, progress_row) dict \<Rightarrow> bool" where
  "progress_ok P \<longleftrightarrow> dict_ok P \<and>
     (\<forall>e p. map_of P e = Some p \<longrightarrow> 0 < pr_next_terminal_seq p \<and> 0 \<le> pr_confirmed_high_water p)"

definition epochs_ok :: "(string, generation_record) dict \<Rightarrow> (string, epoch_record) dict \<Rightarrow> bool" where
  "epochs_ok G E \<longleftrightarrow> dict_ok E \<and>
     (\<forall>e r. map_of E e = Some r \<longrightarrow> er_generation_epoch r = e \<and> map_of G (er_generation_id r) \<noteq> None \<and>
        er_process_state r \<in> {''starting'', ''serving'', ''dead''} \<and>
        er_retirement_state r \<in> {''open'', ''quiescing'', ''certified''}) \<and>
     (\<forall>e1 e2 r1 r2. map_of E e1 = Some r1 \<longrightarrow> map_of E e2 = Some r2 \<longrightarrow>
        er_process_state r1 = ''serving'' \<longrightarrow> er_process_state r2 = ''serving'' \<longrightarrow>
        er_generation_id r1 = er_generation_id r2 \<longrightarrow> e1 = e2)"

definition generations_ok :: "(string, epoch_record) dict \<Rightarrow> (string, generation_record) dict \<Rightarrow> bool" where
  "generations_ok E G \<longleftrightarrow> dict_ok G \<and>
     (\<forall>g r. map_of G g = Some r \<longrightarrow> gr_generation_id r = g \<and> gr_current_epoch r \<noteq> Some [] \<and>
        gr_capability_snapshot r \<noteq> Some [] \<and>
        (\<forall>e. gr_current_epoch r = Some e \<longrightarrow> (\<exists>x. map_of E e = Some x \<and> er_generation_id x = g)))"

definition db_ok :: "db \<Rightarrow> bool" where
  "db_ok d \<longleftrightarrow>
     starts_ok (db_starts d) \<and> sessions_ok (db_starts d) (db_sessions d) \<and>
     terminal_ok (db_sessions d) (db_terminal d) \<and> progress_ok (db_progress d) \<and>
     epochs_ok (db_generations d) (db_epochs d) \<and> generations_ok (db_epochs d) (db_generations d) \<and>
     dict_ok (db_board_seq d) \<and> (\<forall>o' n. map_of (db_board_seq d) o' = Some n \<longrightarrow> 0 < n)"

lemma db_okD:
  assumes "db_ok d"
  shows "starts_ok (db_starts d)" "sessions_ok (db_starts d) (db_sessions d)"
    "terminal_ok (db_sessions d) (db_terminal d)" "progress_ok (db_progress d)"
    "epochs_ok (db_generations d) (db_epochs d)" "generations_ok (db_epochs d) (db_generations d)"
    "dict_ok (db_board_seq d)" "map_of (db_board_seq d) o' = Some n \<Longrightarrow> 0 < n"
  using assms unfolding db_ok_def by blast+

lemma db_ok_empty: "db_ok empty_db"
  by (simp add: db_ok_def empty_db_def starts_ok_def sessions_ok_def terminal_ok_def progress_ok_def
      epochs_ok_def generations_ok_def)

section \<open>Row updates\<close>

lemma starts_ok_insert:
  assumes "starts_ok S" "start_ok sid st"
    "\<And>s t. s \<noteq> sid \<Longrightarrow> map_of S s = Some t \<Longrightarrow>
       \<not> (st_owner_id t = st_owner_id st \<and> st_idempotency_key t = st_idempotency_key st)"
  shows "starts_ok (AList.update sid st S)"
  unfolding starts_ok_def
proof (intro conjI allI impI)
  show "dict_ok (AList.update sid st S)" using assms(1) by (simp add: starts_ok_def)
  show "start_ok s t" if "map_of (AList.update sid st S) s = Some t" for s t
    using that assms(1,2) by (auto simp: starts_ok_def split: if_splits)
  show "s1 = s2" if "map_of (AList.update sid st S) s1 = Some t1" "map_of (AList.update sid st S) s2 = Some t2"
    "st_owner_id t1 = st_owner_id t2" "st_idempotency_key t1 = st_idempotency_key t2" for s1 s2 t1 t2
  proof (cases "s1 = sid"; cases "s2 = sid")
    assume "s1 \<noteq> sid" "s2 \<noteq> sid"
    with that assms(1) show ?thesis unfolding starts_ok_def dict_get_update fun_upd_apply by metis
  qed (use that assms(3) in auto)
qed

lemma starts_ok_update:
  assumes "starts_ok S" "map_of S sid = Some st" "start_ok sid st'"
    "st_owner_id st' = st_owner_id st" "st_idempotency_key st' = st_idempotency_key st"
  shows "starts_ok (AList.update sid st' S)"
proof (rule starts_ok_insert [OF assms(1,3)])
  fix s t
  assume "s \<noteq> sid" "map_of S s = Some t"
  with assms(1,2,4,5) show "\<not> (st_owner_id t = st_owner_id st' \<and> st_idempotency_key t = st_idempotency_key st')"
    unfolding starts_ok_def by metis
qed

lemma starts_ok_delete: "starts_ok S \<Longrightarrow> starts_ok (AList.delete sid S)"
  unfolding starts_ok_def dict_get_delete fun_upd_apply by (auto split: if_splits) 

lemma sessions_ok_starts:
  assumes "sessions_ok S E" "\<And>se. map_of E sid = Some se \<Longrightarrow> st_generation_id st \<noteq> None \<and> st_state st \<noteq> ''failed''"
  shows "sessions_ok (AList.update sid st S) E"
  using assms unfolding sessions_ok_def dict_get_update fun_upd_apply by metis

lemma sessions_ok_put:
  assumes "sessions_ok S E" "map_of S sid = Some st" "st_generation_id st \<noteq> None" "st_state st \<noteq> ''failed''"
    "se_schema_version se = SCHEMA_VERSION"
  shows "sessions_ok S (AList.update sid se E)"
  using assms unfolding sessions_ok_def by (auto simp: split: if_splits)

lemma terminal_ok_sessions:
  "terminal_ok E T \<Longrightarrow> terminal_ok (AList.update sid se E) T"
  by (auto simp: terminal_ok_def)

lemma terminal_ok_put:
  "terminal_ok E T \<Longrightarrow> map_of E sid \<noteq> None \<Longrightarrow> receipt_ok te \<Longrightarrow> terminal_ok E (AList.update sid te T)"
  by (auto simp: terminal_ok_def split: if_splits)

lemma progress_ok_put:
  "progress_ok P \<Longrightarrow> 0 < pr_next_terminal_seq p \<Longrightarrow> 0 \<le> pr_confirmed_high_water p \<Longrightarrow> progress_ok (AList.update e p P)"
  by (auto simp: progress_ok_def split: if_splits)

lemma progress_of_ok:
  assumes "progress_ok (db_progress d)"
  shows "0 < pr_next_terminal_seq (progress_of d e)" "0 \<le> pr_confirmed_high_water (progress_of d e)"
  using assms by (auto simp: progress_ok_def progress_of_def split: option.splits)

lemma bump_simps [simp]:
  "db_starts (bump_board_seq o' d) = db_starts d" "db_sessions (bump_board_seq o' d) = db_sessions d"
  "db_terminal (bump_board_seq o' d) = db_terminal d" "db_progress (bump_board_seq o' d) = db_progress d"
  "db_epochs (bump_board_seq o' d) = db_epochs d" "db_generations (bump_board_seq o' d) = db_generations d"
  by (simp_all add: bump_board_seq_def)

lemma bump_ok: "db_ok d \<Longrightarrow> db_ok (bump_board_seq o' d)"
  unfolding db_ok_def by (auto simp: bump_board_seq_def intro: less_imp_le split: option.splits if_splits)

lemma fold_bump_ok: "db_ok d \<Longrightarrow> db_ok (fold bump_board_seq os d)"
  by (induction os arbitrary: d) (auto intro: bump_ok)

lemma epochs_ok_generations:
  assumes "epochs_ok G E"
  shows "epochs_ok (AList.update g r G) E"
  using assms by (auto simp: epochs_ok_def)

lemma epochs_ok_put:
  assumes "epochs_ok G E" "er_generation_epoch r = e" "map_of G (er_generation_id r) \<noteq> None"
    "er_process_state r \<in> {''starting'', ''serving'', ''dead''}"
    "er_retirement_state r \<in> {''open'', ''quiescing'', ''certified''}"
    "er_process_state r = ''serving'' \<Longrightarrow>
       \<forall>e' r'. e' \<noteq> e \<longrightarrow> map_of E e' = Some r' \<longrightarrow> er_process_state r' = ''serving'' \<longrightarrow>
         er_generation_id r' \<noteq> er_generation_id r"
  shows "epochs_ok G (AList.update e r E)"
  unfolding epochs_ok_def
proof (intro conjI allI impI)
  show "dict_ok (AList.update e r E)" using assms(1) by (simp add: epochs_ok_def)
  fix x y
  assume "map_of (AList.update e r E) x = Some y"
  then have "er_generation_epoch y = x \<and> map_of G (er_generation_id y) \<noteq> None \<and>
    er_process_state y \<in> {''starting'', ''serving'', ''dead''} \<and>
    er_retirement_state y \<in> {''open'', ''quiescing'', ''certified''}"
    using assms(1-5) by (cases "x = e") (simp_all add: epochs_ok_def)
  then show "er_generation_epoch y = x" "map_of G (er_generation_id y) \<noteq> None"
    "er_process_state y \<in> {''starting'', ''serving'', ''dead''}"
    "er_retirement_state y \<in> {''open'', ''quiescing'', ''certified''}" by blast+
next
  fix e1 e2 r1 r2
  assume m: "map_of (AList.update e r E) e1 = Some r1" "map_of (AList.update e r E) e2 = Some r2"
    and s: "er_process_state r1 = ''serving''" "er_process_state r2 = ''serving''"
      "er_generation_id r1 = er_generation_id r2"
  show "e1 = e2"
  proof (cases "e1 = e"; cases "e2 = e")
    assume "e1 \<noteq> e" "e2 \<noteq> e"
    with m s assms(1) show ?thesis unfolding epochs_ok_def dict_get_update fun_upd_apply by metis
  next
    assume "e1 = e" "e2 \<noteq> e"
    then have "r1 = r" "map_of E e2 = Some r2" using m by simp_all
    with s assms(6) \<open>e2 \<noteq> e\<close> show ?thesis by metis
  next
    assume "e1 \<noteq> e" "e2 = e"
    then have "r2 = r" "map_of E e1 = Some r1" using m by simp_all
    with s assms(6) \<open>e1 \<noteq> e\<close> show ?thesis by metis
  qed simp
qed

lemma generations_ok_epochs:
  assumes "generations_ok E G" "map_of E e = Some x \<Longrightarrow> er_generation_id r = er_generation_id x"
    "map_of E e = None \<or> map_of E e = Some x"
  shows "generations_ok (AList.update e r E) G"
  using assms by (fastforce simp: generations_ok_def)

lemma generations_ok_put:
  assumes "generations_ok E G" "gr_generation_id r = g" "gr_current_epoch r \<noteq> Some []"
    "gr_capability_snapshot r \<noteq> Some []"
    "\<And>e. gr_current_epoch r = Some e \<Longrightarrow> \<exists>x. map_of E e = Some x \<and> er_generation_id x = g"
  shows "generations_ok E (AList.update g r G)"
  using assms by (auto simp: generations_ok_def split: if_splits)

section \<open>The ledger keeps the invariant\<close>

lemma rbind_InrE:
  assumes "rbind m f = Inr y"
  obtains x where "m = Inr x" "f x = Inr y"
  using assms by (cases m) simp_all

lemma nonempty_text_Inr [simp]: "nonempty_text v = Inr s \<longleftrightarrow> v = VStr s \<and> s \<noteq> []"
  by (cases v) (auto simp: nonempty_text_def)

lemma require_start_Inr [simp]: "require_start sid d = Inr st \<longleftrightarrow> start_of d sid = Some st"
  by (auto simp: require_start_def split: option.splits)

lemma find_key_None:
  assumes "dict_ok (db_starts d)"
  shows "find_key owner key d = None \<longleftrightarrow>
    (\<forall>sid st. map_of (db_starts d) sid = Some st \<longrightarrow> \<not> (st_owner_id st = owner \<and> st_idempotency_key st = key))"
proof -
  have "find_key owner key d = None \<longleftrightarrow>
      (\<forall>sid st. (sid, st) \<in> set (db_starts d) \<longrightarrow> \<not> (st_owner_id st = owner \<and> st_idempotency_key st = key))"
    unfolding find_key_def find_None_iff by auto
  then show ?thesis by (simp only: dict_set_conv [OF assms])
qed

lemma find_key_Some:
  assumes "dict_ok (db_starts d)" "find_key owner key d = Some (sid, st)"
  shows "start_of d sid = Some st" "st_owner_id st = owner" "st_idempotency_key st = key"
proof -
  have "(sid, st) \<in> set (db_starts d)" and k: "st_owner_id st = owner" "st_idempotency_key st = key"
    using assms(2) unfolding find_key_def find_Some_iff by (auto simp: in_set_conv_nth)
  then show "start_of d sid = Some st" by (simp add: start_of_def dict_set_conv [OF assms(1)])
  show "st_owner_id st = owner" "st_idempotency_key st = key" by (rule k)+
qed

lemma starts_dict: "db_ok d \<Longrightarrow> dict_ok (db_starts d)"
  using db_okD(1) by (simp add: starts_ok_def)

lemma start_of_ok: "db_ok d \<Longrightarrow> start_of d sid = Some st \<Longrightarrow> start_ok sid st"
  using db_okD(1) by (simp add: starts_ok_def start_of_def)

lemma put_start_ok:
  assumes ok: "db_ok d" and st: "start_of d sid = Some st" and st': "start_ok sid st'"
    and same: "st_owner_id st' = st_owner_id st" "st_idempotency_key st' = st_idempotency_key st"
    and sess: "map_of (db_sessions d) sid \<noteq> None \<Longrightarrow> st_generation_id st' \<noteq> None \<and> st_state st' \<noteq> ''failed''"
  shows "db_ok (put_start sid st' d)"
proof -
  have "starts_ok (AList.update sid st' (db_starts d))"
    by (rule starts_ok_update [OF db_okD(1) [OF ok] st [unfolded start_of_def] st' same])
  moreover have "sessions_ok (AList.update sid st' (db_starts d)) (db_sessions d)"
    by (rule sessions_ok_starts [OF db_okD(2) [OF ok]]) (use sess in auto)
  ultimately show ?thesis using ok by (simp add: db_ok_def put_start_def)
qed

lemma reserve_cases:
  assumes "reserve key owner orch fp sid clock d = Inr (d', r)"
  obtains (new) o' r' k f now where "owner = VStr o'" "match_owner o'" "orch = VStr r'" "match_hex_id (CHR ''o'') r'"
      "key = VStr k" "fp = VStr f" "moment clock = Inr now" "start_of d sid = None" "find_key o' k d = None"
      "d' = put_start sid \<lparr>st_owner_id = o', st_orchestration_id = r', st_idempotency_key = k,
         st_request_fingerprint = f, st_state = ''starting'', st_generation_id = None,
         st_generation_epoch = None, st_reason = None, st_created_at = now\<rparr> d"
      "r = \<lparr>rs_session_id = sid, rs_state = ''starting'', rs_generation_id = None, rs_reason = None, rs_replay = False\<rparr>"
  | (replay) o' r' k f sid' st where "owner = VStr o'" "orch = VStr r'" "key = VStr k" "fp = VStr f"
      "find_key o' k d = Some (sid', st)" "st_request_fingerprint st = f" "st_orchestration_id st = r'"
      "row_to_reservation True (sid', st) = Inr r" "d' = d"
  using assms
  by (auto simp: reserve_def validate_id_defs bounded_text_def nonempty_text_def put_start_def is_nonempty_str_iff
      split: if_splits option.splits)

lemma reserve_ok:
  assumes ok: "db_ok d" and mint: "match_hex_id (CHR ''s'') sid"
    and r: "reserve key owner orch fp sid clock d = Inr (d', res)"
  shows "db_ok d'"
  using r
proof (cases rule: reserve_cases)
  case (new o' r' k f now)
  let ?st = "\<lparr>st_owner_id = o', st_orchestration_id = r', st_idempotency_key = k,
         st_request_fingerprint = f, st_state = ''starting'', st_generation_id = None,
         st_generation_epoch = None, st_reason = None, st_created_at = now\<rparr>"
  have "start_ok sid ?st" using new(2,4) mint by (simp add: start_ok_def)
  moreover have "\<not> (st_owner_id t = o' \<and> st_idempotency_key t = k)" if "map_of (db_starts d) s = Some t" for s t
    using new(9) that find_key_None [OF starts_dict [OF ok]] by blast
  ultimately have "starts_ok (AList.update sid ?st (db_starts d))"
    by (intro starts_ok_insert [OF db_okD(1) [OF ok]]) auto
  moreover have "map_of (db_sessions d) sid = None"
    using db_okD(2) [OF ok] new(8) by (cases "map_of (db_sessions d) sid") (force simp: sessions_ok_def start_of_def)+
  then have "sessions_ok (AList.update sid ?st (db_starts d)) (db_sessions d)"
    by (intro sessions_ok_starts [OF db_okD(2) [OF ok]]) simp
  ultimately show ?thesis using ok by (simp add: db_ok_def new(10) put_start_def)
next
  case replay
  with ok show ?thesis by simp
qed

lemma assign_generation_cases:
  assumes "assign_generation sid g e d = Inr (d', u)"
  obtains g' e' st where "g = VStr g'" "e = VStr e'" "match_hex_id (CHR ''g'') g'" "match_hex_id (CHR ''g'') e'"
    "start_of d sid = Some st" "st_state st = ''starting''" "st_generation_id st \<in> {None, Some g'}"
    "d' = put_start sid (st\<lparr>st_generation_id := Some g', st_generation_epoch := Some e'\<rparr>) d"
  using assms by (auto simp: assign_generation_def validate_id_defs require_start_def split: if_splits option.splits)

lemma assign_generation_ok:
  assumes ok: "db_ok d" and a: "assign_generation sid g e d = Inr (d', u)"
  shows "db_ok d'"
  using a
proof (cases rule: assign_generation_cases)
  case (1 g' e' st)
  show ?thesis
    unfolding 1(8)
    by (rule put_start_ok [OF ok 1(5)]) (use start_of_ok [OF ok 1(5)] 1 in \<open>auto simp: start_ok_def\<close>)
qed

lemma commit_cases:
  assumes "commit sid g e d = Inr (d', u)"
  obtains g' e' st where "g = VStr g'" "e = VStr e'" "start_of d sid = Some st" "st_state st \<noteq> ''failed''"
    "st_generation_id st = Some g'" "st_generation_epoch st = Some e'" "d' = put_start sid (st\<lparr>st_state := ''started''\<rparr>) d"
  using assms by (auto simp: commit_def validate_id_defs require_start_def split: if_splits option.splits)

lemma commit_ok:
  assumes ok: "db_ok d" and a: "commit sid g e d = Inr (d', u)"
  shows "db_ok d'"
  using a
proof (cases rule: commit_cases)
  case (1 g' e' st)
  show ?thesis
    unfolding 1(7)
    by (rule put_start_ok [OF ok 1(3)]) (use start_of_ok [OF ok 1(3)] 1 in \<open>auto simp: start_ok_def\<close>)
qed

lemma fail_start_cases:
  assumes "fail_start sid reason d = Inr (d', u)"
  obtains (again) st why where "reason = VStr why" "start_of d sid = Some st" "st_state st = ''failed''"
      "st_reason st = Some why" "d' = d"
  | (failed) st why where "reason = VStr why" "start_of d sid = Some st" "st_state st \<noteq> ''started''"
      "st_state st \<noteq> ''failed''" "map_of (db_sessions d) sid = None"
      "d' = put_start sid (st\<lparr>st_state := ''failed'', st_reason := Some why\<rparr>) d"
proof -
  obtain why where r: "nonempty_text reason = Inr why" using assms by (cases "nonempty_text reason") (simp_all add: fail_start_def)
  obtain st where st: "require_start sid d = Inr st" using assms by (cases "require_start sid d") (simp_all add: fail_start_def r)
  note w = conjunct1 [OF r [unfolded nonempty_text_Inr]] st [unfolded require_start_Inr]
  have f: "(if st_state st = ''started'' then err IDEMPOTENCY_CONFLICT
       else if st_state st = ''failed'' then
         (if st_reason st = Some why then Inr (d, ()) else err IDEMPOTENCY_CONFLICT)
       else if map_of (db_sessions d) sid \<noteq> None then err IDEMPOTENCY_CONFLICT
       else Inr (put_start sid (st\<lparr>st_state := ''failed'', st_reason := Some why\<rparr>) d, ())) = Inr (d', u)"
    using assms unfolding fail_start_def r st rbind_simps .
  show thesis
  proof (cases "st_state st = ''failed''")
    case True
    with f show thesis by (intro again [OF w]) (auto split: if_splits)
  next
    case False
    with f show thesis by (intro failed [OF w]) (auto split: if_splits)
  qed
qed

lemma fail_start_ok:
  assumes ok: "db_ok d" and a: "fail_start sid reason d = Inr (d', u)"
  shows "db_ok d'"
  using a
proof (cases rule: fail_start_cases)
  case again
  with ok show ?thesis by simp
next
  case (failed st why)
  show ?thesis
    unfolding failed(6)
    by (rule put_start_ok [OF ok failed(2)]) (use start_of_ok [OF ok failed(2)] failed in \<open>auto simp: start_ok_def\<close>)
qed

end
