(* ===== verification/Nelix_Store_Ops.thy ===== *)
theory Nelix_Store_Ops
  imports Nelix_Store_Inv
begin

text \<open>
  The writing operations of the store, by cases on how they succeed, and their
  preservation of the database invariant. Failure leaves the database as it was: an
  operation that raises has no new database at all.
\<close>

section \<open>Sessions\<close>

lemma create_session_cases:
  assumes "create_session sid state executor task cwd model created d = Inr (d', u)"
  obtains st se where "start_of d sid = Some st" "st_generation_id st \<noteq> None" "st_state st \<noteq> ''failed''"
    "map_of (db_sessions d) sid = None" "se_schema_version se = SCHEMA_VERSION" "state = VStr (se_state se)"
    "d' = d\<lparr>db_sessions := AList.update sid se (db_sessions d)\<rparr>"
proof -
  obtain st g where st: "start_of d sid = Some st" "st_generation_id st = Some g" "st_state st \<noteq> ''failed''"
    using assms by (auto simp: create_session_def split: option.splits if_splits)
  define rec where "rec = SessionRecord (VStr sid) (VStr (st_owner_id st)) (VStr (st_orchestration_id st))
                 (VStr g) (opt_str (st_generation_epoch st)) state
                 executor task cwd model created (VInt SCHEMA_VERSION)"
  obtain r where r: "rec = Inr r"
    using assms st by (cases rec) (auto simp: create_session_def simp flip: rec_def)
  have "state = VStr (sr_state r)" using r unfolding rec_def SessionRecord_def by auto
  moreover have "map_of (db_sessions d) sid = None \<and> d' = d\<lparr>db_sessions := AList.update sid
       \<lparr>se_state = sr_state r, se_executor = sr_executor r, se_task = sr_task r,
        se_cwd = sr_cwd r, se_model = sr_model r, se_created_at = sr_created_at r,
        se_schema_version = SCHEMA_VERSION\<rparr> (db_sessions d)\<rparr>"
    using assms by (simp add: create_session_def st r [unfolded rec_def] split: if_splits)
  ultimately show thesis
    using st by (intro that [OF st(1), of "\<lparr>se_state = sr_state r, se_executor = sr_executor r, se_task = sr_task r,
                    se_cwd = sr_cwd r, se_model = sr_model r, se_created_at = sr_created_at r,
                    se_schema_version = SCHEMA_VERSION\<rparr>"]) auto
qed

lemma create_session_ok:
  assumes ok: "db_ok d" and c: "create_session sid state executor task cwd model created d = Inr (d', u)"
  shows "db_ok d'"
  using c
proof (cases rule: create_session_cases)
  case (1 st se)
  have "sessions_ok (db_starts d) (AList.update sid se (db_sessions d))"
    by (rule sessions_ok_put [OF db_okD(2) [OF ok] 1(1) [unfolded start_of_def] 1(2,3,5)])
  with ok terminal_ok_sessions [OF db_okD(3) [OF ok]] show ?thesis by (simp add: db_ok_def 1(7))
qed

lemma transition_session_cases:
  assumes "transition_session sid owner state expected d = Inr (d', u)"
  obtains st se s where "start_of d sid = Some st" "st_owner_id st = owner" "map_of (db_sessions d) sid = Some se"
    "state = VStr s" "s \<noteq> []" "expected \<in> {None, Some (se_state se)}"
    "d' = d\<lparr>db_sessions := AList.update sid (se\<lparr>se_state := s\<rparr>) (db_sessions d)\<rparr>"
proof -
  obtain s where s: "nonempty_text state = Inr s"
    using assms by (cases "nonempty_text state") (simp_all add: transition_session_def)
  obtain se where se: "map_of (db_sessions d) sid = Some se"
    using assms by (cases "map_of (db_sessions d) sid") (simp_all add: transition_session_def s)
  let ?c = "owner_of_session d sid = Some owner \<and> (case expected of None \<Rightarrow> True | Some x \<Rightarrow> se_state se = x)"
  have c: ?c using assms by (rule_tac ccontr) (simp add: transition_session_def s se del: nonempty_text_Inr)
  then obtain st where "start_of d sid = Some st" "st_owner_id st = owner"
    by (auto simp: owner_of_session_def)
  moreover have "d' = d\<lparr>db_sessions := AList.update sid (se\<lparr>se_state := s\<rparr>) (db_sessions d)\<rparr>"
    using assms unfolding transition_session_def s rbind_simps se option.case if_P [OF c] by simp
  moreover have "expected \<in> {None, Some (se_state se)}" using c by (auto split: option.splits)
  ultimately show thesis using s se by (intro that) auto
qed

lemma transition_session_ok:
  assumes ok: "db_ok d" and c: "transition_session sid owner state expected d = Inr (d', u)"
  shows "db_ok d'"
  using c
proof (cases rule: transition_session_cases)
  case (1 st se s)
  obtain st' where st': "map_of (db_starts d) sid = Some st'" "st_generation_id st' \<noteq> None" "st_state st' \<noteq> ''failed''"
    and v: "se_schema_version se = SCHEMA_VERSION"
    using db_okD(2) [OF ok] 1(3) unfolding sessions_ok_def by blast
  have "sessions_ok (db_starts d) (AList.update sid (se\<lparr>se_state := s\<rparr>) (db_sessions d))"
    by (rule sessions_ok_put [OF db_okD(2) [OF ok] st']) (simp add: v)
  with ok terminal_ok_sessions [OF db_okD(3) [OF ok]] show ?thesis by (simp add: db_ok_def 1(7))
qed

section \<open>Terminal records\<close>

lemma put_terminal_cases:
  assumes "put_terminal sid kind summary ended clock d = Inr (d', u)"
  obtains (again) st te where "start_of d sid = Some st" "map_of (db_terminal d) sid = Some te"
      "kind = VStr (te_terminal_kind te)" "summary = VStr (te_summary te)" "moment ended = Inr (te_ended_at te)" "d' = d"
  | (new) st se te k sm en now ep where "start_of d sid = Some st" "map_of (db_sessions d) sid = Some se"
      "map_of (db_terminal d) sid = None" "kind = VStr k" "summary = VStr sm" "moment ended = Inr en"
      "moment clock = Inr now" "st_generation_epoch st = Some ep"
      "te = \<lparr>te_terminal_kind = k, te_summary = sm, te_ended_at = en, te_published_at = now,
             te_terminal_seq = pr_next_terminal_seq (progress_of d ep), te_acknowledged_at = None,
             te_expired_at = None, te_expire_reason = None, te_schema_version = SCHEMA_VERSION\<rparr>"
      "d' = bump_board_seq (st_owner_id st)
         (d\<lparr>db_progress := AList.update ep ((progress_of d ep)
               \<lparr>pr_next_terminal_seq := pr_next_terminal_seq (progress_of d ep) + 1\<rparr>) (db_progress d),
            db_terminal := AList.update sid te (db_terminal d)\<rparr>)"
proof -
  obtain st se where s: "start_of d sid = Some st" "map_of (db_sessions d) sid = Some se"
    using assms by (auto simp: put_terminal_def split: option.splits)
  obtain now where now: "moment clock = Inr now"
    using assms s by (cases "moment clock") (simp_all add: put_terminal_def)
  define rec where "rec = TerminalRecord (VStr sid) (VStr (st_owner_id st)) (VStr (st_orchestration_id st))
                 (opt_str (st_generation_id st)) (opt_str (st_generation_epoch st)) kind summary
                 ended (VFloat (Fin now)) (VInt 0) VNone VNone VNone (VInt SCHEMA_VERSION)"
  obtain r where r: "rec = Inr r"
    using assms s now by (cases rec) (auto simp: put_terminal_def simp flip: rec_def)
  have e: "st_generation_epoch st = Some (tr_generation_epoch r)" "kind = VStr (tr_terminal_kind r)"
    "summary = VStr (tr_summary r)" "moment ended = Inr (tr_ended_at r)"
    using r unfolding rec_def TerminalRecord_def
    by (auto simp: validate_id_defs opt_str_def split: option.splits)
  show thesis
  proof (cases "map_of (db_terminal d) sid")
    case (Some te)
    have "te_terminal_kind te = tr_terminal_kind r \<and> te_summary te = tr_summary r \<and> te_ended_at te = tr_ended_at r \<and> d' = d"
      using assms s now r Some by (auto simp: put_terminal_def simp flip: rec_def split: if_splits)
    with e show thesis by (intro again [OF s(1) Some]) simp_all
  next
    case None
    show thesis
      by (rule new [OF s None e(2-4) now e(1) refl])
        (use assms s now r None in \<open>auto simp: put_terminal_def Let_def simp flip: rec_def split: if_splits\<close>)
  qed
qed

lemma put_terminal_ok:
  assumes ok: "db_ok d" and c: "put_terminal sid kind summary ended clock d = Inr (d', u)"
  shows "db_ok d'"
  using c
proof (cases rule: put_terminal_cases)
  case again
  with ok show ?thesis by simp
next
  case (new st se te k sm en now ep)
  note p = progress_of_ok [OF db_okD(4) [OF ok], of ep]
  have "receipt_ok te" using p by (simp add: receipt_ok_def new(9))
  then have "terminal_ok (db_sessions d) (AList.update sid te (db_terminal d))"
    by (intro terminal_ok_put [OF db_okD(3) [OF ok]]) (simp add: new(2))
  moreover have "progress_ok (AList.update ep ((progress_of d ep)
               \<lparr>pr_next_terminal_seq := pr_next_terminal_seq (progress_of d ep) + 1\<rparr>) (db_progress d))"
    by (rule progress_ok_put [OF db_okD(4) [OF ok]]) (use p in simp_all)
  ultimately show ?thesis unfolding new(10) by (intro bump_ok) (use ok in \<open>simp add: db_ok_def\<close>)
qed

lemma get_terminal_Inr:
  assumes "get_terminal sid owner d = Inr r"
  obtains st te where "start_of d sid = Some st" "st_owner_id st = owner" "map_of (db_terminal d) sid = Some te"
    "tr_acknowledged_at r = te_acknowledged_at te" "tr_expired_at r = te_expired_at te"
    "terminal_from_dict (VDict (terminal_select sid st te)) = Inr r"
proof -
  obtain st te where s: "start_of d sid = Some st" "map_of (db_terminal d) sid = Some te" "st_owner_id st = owner"
    and r: "terminal_from_dict (VDict (terminal_select sid st te)) = Inr r"
    using assms by (auto simp: get_terminal_def decode_stored_def split: option.splits if_splits sum.splits exn.splits)
  have "tr_acknowledged_at r = te_acknowledged_at te \<and> tr_expired_at r = te_expired_at te"
    using r by (auto simp: terminal_from_dict_def terminal_select_def TerminalRecord_def kw_def check_version_def
        split: if_splits)
  with s r show thesis by (intro that) auto
qed

lemma get_terminal_rows:
  "db_terminal d' = db_terminal d \<Longrightarrow> db_starts d' = db_starts d \<Longrightarrow> get_terminal sid owner d' = get_terminal sid owner d"
  by (simp add: get_terminal_def start_of_def)

lemma ack_terminal_cases:
  assumes "ack_terminal sid owner clock d = Inr (d', r)"
  obtains (again) st te where "start_of d sid = Some st" "st_owner_id st = owner" "map_of (db_terminal d) sid = Some te"
      "te_acknowledged_at te \<noteq> None" "get_terminal sid owner d = Inr r" "d' = d"
  | (new) st te now where "start_of d sid = Some st" "st_owner_id st = owner" "map_of (db_terminal d) sid = Some te"
      "on_the_board te" "moment clock = Inr now" "get_terminal sid owner d' = Inr r"
      "d' = bump_board_seq owner
         (d\<lparr>db_terminal := AList.update sid (te\<lparr>te_acknowledged_at := Some now\<rparr>) (db_terminal d)\<rparr>)"
proof -
  obtain r0 where g: "get_terminal sid owner d = Inr r0"
    using assms by (cases "get_terminal sid owner d") (simp_all add: ack_terminal_def)
  from get_terminal_Inr [OF g] obtain st te where s: "start_of d sid = Some st" "st_owner_id st = owner"
    "map_of (db_terminal d) sid = Some te" and t: "tr_acknowledged_at r0 = te_acknowledged_at te"
    "tr_expired_at r0 = te_expired_at te" by blast
  show thesis
  proof (cases "te_acknowledged_at te = None")
    case False
    then have "d' = d" "r = r0" using assms g t by (simp_all add: ack_terminal_def)
    with False s g show thesis by (intro again [OF s]) simp_all
  next
    case True
    have x: "te_expired_at te = None"
      using assms True t by (cases "te_expired_at te") (simp_all add: ack_terminal_def g)
    obtain now where now: "moment clock = Inr now"
      using assms True x t by (cases "moment clock") (simp_all add: ack_terminal_def g)
    have "d' = bump_board_seq owner
         (d\<lparr>db_terminal := AList.update sid (te\<lparr>te_acknowledged_at := Some now\<rparr>) (db_terminal d)\<rparr>) \<and>
       get_terminal sid owner d' = Inr r"
      using assms True x t now s(3) by (auto simp: ack_terminal_def g Let_def)
    with True x now s show thesis by (intro new [OF s]) (auto simp: on_the_board_def)
  qed
qed

lemma ack_terminal_ok:
  assumes ok: "db_ok d" and c: "ack_terminal sid owner clock d = Inr (d', r)"
  shows "db_ok d'"
  using c
proof (cases rule: ack_terminal_cases)
  case again
  with ok show ?thesis by simp
next
  case (new st te now)
  have te: "map_of (db_sessions d) sid \<noteq> None" "receipt_ok te"
    using db_okD(3) [OF ok] new(3) unfolding terminal_ok_def by blast+
  have "receipt_ok (te\<lparr>te_acknowledged_at := Some now\<rparr>)"
    using te(2) new(4) by (simp add: receipt_ok_def on_the_board_def)
  then have "terminal_ok (db_sessions d) (AList.update sid (te\<lparr>te_acknowledged_at := Some now\<rparr>) (db_terminal d))"
    by (rule terminal_ok_put [OF db_okD(3) [OF ok] te(1)])
  then show ?thesis unfolding new(7) by (intro bump_ok) (use ok in \<open>simp add: db_ok_def\<close>)
qed

section \<open>Pruning\<close>

abbreviation expired_row :: "rat \<Rightarrow> string \<Rightarrow> terminal_row \<Rightarrow> terminal_row" where
  "expired_row now reason te \<equiv> te\<lparr>te_expired_at := Some now, te_expire_reason := Some reason\<rparr>"

lemma expire_rows_map_of:
  "map_of (fst (expire_rows now reason sel t)) sid =
     map_option (\<lambda>te. if sel sid te then expired_row now reason te else te) (map_of t sid)"
  unfolding expire_rows_def fst_conv by (induction t) auto

lemma expire_rows_keys [simp]: "keys (fst (expire_rows now reason sel t)) = keys t"
  by (simp add: expire_rows_def case_prod_beta comp_def)

lemma expire_rows_ids:
  assumes "dict_ok t"
  shows "sid \<in> set (snd (expire_rows now reason sel t)) \<longleftrightarrow> (\<exists>te. map_of t sid = Some te \<and> sel sid te)"
proof -
  have "sid \<in> set (snd (expire_rows now reason sel t)) \<longleftrightarrow> (\<exists>te. (sid, te) \<in> set t \<and> sel sid te)"
    unfolding expire_rows_def snd_conv by force
  then show ?thesis by (simp only: dict_set_conv [OF assms])
qed

lemma terminal_ok_expire:
  assumes "terminal_ok E t" "\<And>sid te. map_of t sid = Some te \<Longrightarrow> sel sid te \<Longrightarrow> on_the_board te"
    "reason \<in> {''age'', ''count''}"
  shows "terminal_ok E (fst (expire_rows now reason sel t))"
  unfolding terminal_ok_def
proof (intro conjI allI impI)
  show "dict_ok (fst (expire_rows now reason sel t))" using assms(1) by (simp add: terminal_ok_def)
  fix sid te
  assume "map_of (fst (expire_rows now reason sel t)) sid = Some te"
  then obtain te0 where t: "map_of t sid = Some te0" and te: "te = (if sel sid te0 then expired_row now reason te0 else te0)"
    by (auto simp: expire_rows_map_of)
  have o: "map_of E sid \<noteq> None" "receipt_ok te0" using assms(1) t unfolding terminal_ok_def by blast+
  show "map_of E sid \<noteq> None" by (rule o)
  show "receipt_ok te" using o(2) assms(2) [OF t] assms(3) te by (auto simp: receipt_ok_def on_the_board_def)
qed

lemma joined_mem:
  assumes "dict_ok t"
  shows "(sid, st, te) \<in> set (joined d t) \<longleftrightarrow> start_of d sid = Some st \<and> map_of t sid = Some te"
proof -
  have "(sid, st, te) \<in> set (joined d t) \<longleftrightarrow> start_of d sid = Some st \<and> (sid, te) \<in> set t"
    unfolding joined_def List.map_filter_def by (force simp: image_iff)
  then show ?thesis by (simp add: dict_set_conv [OF assms])
qed

lemma over_count_mem:
  assumes "dict_ok (db_terminal d)"
  shows "sid \<in> set (over_count c d) \<longleftrightarrow>
    (\<exists>st te. start_of d sid = Some st \<and> map_of (db_terminal d) sid = Some te \<and> on_the_board te \<and>
       c < int (row_number (filter (\<lambda>(sid, st, te). on_the_board te) (joined d (db_terminal d))) (sid, st, te)))"
  unfolding over_count_def Let_def by (force simp: joined_mem [OF assms])

definition aged :: "rat \<Rightarrow> rat \<Rightarrow> string \<Rightarrow> terminal_row \<Rightarrow> bool" where
  "aged now max_age sid te \<longleftrightarrow> on_the_board te \<and> now - te_published_at te > max_age"

lemma prune_terminal_cases:
  assumes "prune_terminal age cnt clock d = Inr (d', n)"
  obtains max_age c now t1 over owners where "age_arg age = Inr max_age" "cnt = VInt c" "0 \<le> c" "moment clock = Inr now"
    "t1 = fst (expire_rows now ''age'' (aged now max_age) (db_terminal d))"
    "over = over_count c (d\<lparr>db_terminal := t1\<rparr>)"
    "d' = fold bump_board_seq owners
       (d\<lparr>db_terminal := fst (expire_rows now ''count'' (\<lambda>sid te. sid \<in> set over) t1)\<rparr>)"
    "n = int (length (snd (expire_rows now ''age'' (aged now max_age) (db_terminal d)))
            + length (snd (expire_rows now ''count'' (\<lambda>sid te. sid \<in> set over) t1)))"
    "\<And>o'. o' \<in> set owners \<longleftrightarrow> (\<exists>sid st te. (sid, st, te) \<in> set (joined d (fst (expire_rows now ''count'' (\<lambda>sid te. sid \<in> set over) t1)))
       \<and> st_owner_id st = o' \<and> sid \<in> set (snd (expire_rows now ''age'' (aged now max_age) (db_terminal d))
              @ snd (expire_rows now ''count'' (\<lambda>sid te. sid \<in> set over) t1)))"
proof -
  obtain max_age where a: "age_arg age = Inr max_age"
    using assms by (cases "age_arg age") (simp_all add: prune_terminal_def)
  obtain c where c: "count_field cnt = Inr c"
    using assms by (cases "count_field cnt") (simp_all add: prune_terminal_def a)
  obtain now where m: "moment clock = Inr now"
    using assms by (cases "moment clock") (simp_all add: prune_terminal_def a c del: count_field_eq)
  have sel: "(\<lambda>sid te. on_the_board te \<and> now - te_published_at te > max_age) = aged now max_age"
    by (simp add: aged_def fun_eq_iff)
  let ?x1 = "expire_rows now ''age'' (aged now max_age) (db_terminal d)"
  let ?over = "over_count c (d\<lparr>db_terminal := fst ?x1\<rparr>)"
  let ?x2 = "expire_rows now ''count'' (\<lambda>sid te. sid \<in> set ?over) (fst ?x1)"
  let ?owners = "remdups (map (\<lambda>(sid, st, te). st_owner_id st)
                  (filter (\<lambda>(sid, st, te). sid \<in> set (snd ?x1 @ snd ?x2)) (joined d (fst ?x2))))"
  have j: "joined (d\<lparr>db_terminal := t\<rparr>) t' = joined d t'" for t and t' :: "(string, terminal_row) dict"
    by (simp add: joined_def start_of_def)
  have b: "bindable age \<and> bindable cnt"
    using assms by (simp add: prune_terminal_def a c m del: count_field_eq split: if_splits)
  have eq: "d' = fold bump_board_seq ?owners (d\<lparr>db_terminal := fst ?x2\<rparr>) \<and> n = int (length (snd ?x1 @ snd ?x2))"
    using assms b by (simp add: prune_terminal_def a c m sel Let_def j case_prod_beta del: count_field_eq)
  have os: "o' \<in> set ?owners \<longleftrightarrow> (\<exists>sid st te. (sid, st, te) \<in> set (joined d (fst ?x2))
       \<and> st_owner_id st = o' \<and> sid \<in> set (snd ?x1 @ snd ?x2))" for o' by force
  show thesis
    by (rule that [OF a _ _ m refl refl conjunct1 [OF eq] _ os]) (use c eq in simp_all)
qed

lemma prune_terminal_ok:
  assumes ok: "db_ok d" and c: "prune_terminal age cnt clock d = Inr (d', n)"
  shows "db_ok d'"
  using c
proof (cases rule: prune_terminal_cases)
  case (1 max_age c now t1 over owners)
  have t1: "terminal_ok (db_sessions d) t1"
    unfolding 1(5) by (rule terminal_ok_expire [OF db_okD(3) [OF ok]]) (auto simp: aged_def)
  then have d1: "dict_ok t1" by (simp add: terminal_ok_def)
  have "terminal_ok (db_sessions d) (fst (expire_rows now ''count'' (\<lambda>sid te. sid \<in> set over) t1))"
    by (rule terminal_ok_expire [OF t1]) (auto simp: 1(6) over_count_mem d1)
  then show ?thesis unfolding 1(7) by (intro fold_bump_ok) (use ok in \<open>simp add: db_ok_def\<close>)
qed

end
