(* ===== verification/Nelix_Generations_Ops.thy ===== *)
theory Nelix_Generations_Ops
  imports Nelix_Store_Ops
begin

text \<open>
  The generation and epoch operations and the garbage collector: how each succeeds, and
  that each keeps the database invariant. The interface of the retirement oracle is
  interpreted on the store.
\<close>

section \<open>Generations\<close>

lemma create_generation_cases:
  assumes "create_generation g b life cap created d = Inr (d', u)"
  obtains r where "g = VStr (gr_generation_id r)" "gr_current_epoch r = None" "gr_capability_snapshot r \<noteq> Some []"
    "map_of (db_generations d) (gr_generation_id r) = None"
    "d' = d\<lparr>db_generations := AList.update (gr_generation_id r) r (db_generations d)\<rparr>"
proof -
  obtain g' where g: "nonempty_text g = Inr g'"
    using assms by (cases "nonempty_text g") (simp_all add: create_generation_def)
  obtain cr where cr: "moment created = Inr cr"
    using assms by (cases "moment created") (simp_all add: create_generation_def)
  define rec where "rec = GenerationRecord g b life VNone cap (VFloat (Fin cr))"
  obtain r where r: "rec = Inr r"
    using assms cr by (cases rec) (auto simp: create_generation_def simp flip: rec_def)
  have "map_of (db_generations d) g' = None \<and> d' = d\<lparr>db_generations := AList.update g' r (db_generations d)\<rparr>"
    using assms g by (auto simp: create_generation_def cr r [unfolded rec_def] split: if_splits)
  moreover have "gr_generation_id r = g'" "gr_current_epoch r = None" "gr_capability_snapshot r \<noteq> Some []"
    using r g unfolding rec_def GenerationRecord_def by auto
  ultimately show thesis using g by (intro that) auto
qed

lemma create_generation_ok:
  assumes ok: "db_ok d" and c: "create_generation g b life cap created d = Inr (d', u)"
  shows "db_ok d'"
  using c
proof (cases rule: create_generation_cases)
  case (1 r)
  have "generations_ok (db_epochs d) (AList.update (gr_generation_id r) r (db_generations d))"
    by (rule generations_ok_put [OF db_okD(6) [OF ok] refl]) (use 1 in simp_all)
  with ok epochs_ok_generations [OF db_okD(5) [OF ok]] show ?thesis by (simp add: db_ok_def 1(5))
qed

lemma update_generation_cases:
  assumes "update_generation g f d = Inr (d', u)"
  obtains r where "map_of (db_generations d) g = Some r"
    "d' = d\<lparr>db_generations := AList.update g (f r) (db_generations d)\<rparr>"
  using assms by (auto simp: update_generation_def split: option.splits)

lemma generation_row_ok:
  assumes "db_ok d" "map_of (db_generations d) g = Some r"
  shows "gr_generation_id r = g" "gr_current_epoch r \<noteq> Some []" "gr_capability_snapshot r \<noteq> Some []"
    "gr_current_epoch r = Some e \<Longrightarrow> \<exists>x. map_of (db_epochs d) e = Some x \<and> er_generation_id x = g"
  using db_okD(6) [OF assms(1)] assms(2) unfolding generations_ok_def by blast+

lemma put_generation_ok:
  assumes ok: "db_ok d" and r: "gr_generation_id r = g" "gr_current_epoch r \<noteq> Some []" "gr_capability_snapshot r \<noteq> Some []"
    "\<And>e. gr_current_epoch r = Some e \<Longrightarrow> \<exists>x. map_of (db_epochs d) e = Some x \<and> er_generation_id x = g"
  shows "db_ok (d\<lparr>db_generations := AList.update g r (db_generations d)\<rparr>)"
  using ok generations_ok_put [OF db_okD(6) [OF ok] r] epochs_ok_generations [OF db_okD(5) [OF ok]]
  by (simp add: db_ok_def)

lemma set_generation_lifecycle_state_ok:
  assumes ok: "db_ok d" and c: "set_generation_lifecycle_state g s d = Inr (d', u)"
  shows "db_ok d'"
proof -
  obtain g' s' where "update_generation g' (gr_lifecycle_state_update (\<lambda>_. s')) d = Inr (d', u)"
    using c by (auto simp: set_generation_lifecycle_state_def)
  then show ?thesis
  proof (cases rule: update_generation_cases)
    case (1 r)
    show ?thesis unfolding 1(2) by (rule put_generation_ok [OF ok]) (use generation_row_ok [OF ok 1(1)] in auto)
  qed
qed

lemma clear_current_epoch_ok:
  assumes ok: "db_ok d" and c: "clear_current_epoch g d = Inr (d', u)"
  shows "db_ok d'"
proof -
  obtain g' where "update_generation g' (gr_current_epoch_update (\<lambda>_. None)) d = Inr (d', u)"
    using c by (auto simp: clear_current_epoch_def)
  then show ?thesis
  proof (cases rule: update_generation_cases)
    case (1 r)
    show ?thesis unfolding 1(2) by (rule put_generation_ok [OF ok]) (use generation_row_ok [OF ok 1(1)] in auto)
  qed
qed

lemma set_current_epoch_ok:
  assumes ok: "db_ok d" and c: "set_current_epoch g e d = Inr (d', u)"
  shows "db_ok d'"
proof -
  obtain g' e' where s: "e' \<noteq> []" and u: "update_generation g' (gr_current_epoch_update (\<lambda>_. Some e')) d = Inr (d', u)"
    and fk: "\<not> (map_of (db_generations d) g' \<noteq> None \<and>
        (case map_of (db_epochs d) e' of None \<Rightarrow> True | Some r \<Rightarrow> er_generation_id r \<noteq> g'))"
    using c by (auto simp: set_current_epoch_def constraint_failed_def simp del: not_None_eq split: if_splits)
  from u show ?thesis
  proof (cases rule: update_generation_cases)
    case (1 r)
    show ?thesis unfolding 1(2)
      by (rule put_generation_ok [OF ok]) (use generation_row_ok [OF ok 1(1)] s fk 1(1) in \<open>auto split: option.splits\<close>)
  qed
qed

lemma set_generation_lifecycle_state_atomic_ok:
  assumes ok: "db_ok d" and c: "set_generation_lifecycle_state_atomic old new so eo en d = Inr (d', u)"
  shows "db_ok d'"
proof -
  obtain old' new' d1 where u1: "update_generation old' (gr_lifecycle_state_update (\<lambda>_. so)) d = Inr (d1, ())"
    and u2: "update_generation new' (gr_lifecycle_state_update (\<lambda>_. ''active'')) d1 = Inr (d', u)"
    using c by (auto simp: set_generation_lifecycle_state_atomic_def split: option.splits if_splits)
  have ok1: "db_ok d1" using u1
  proof (cases rule: update_generation_cases)
    case (1 r)
    show ?thesis unfolding 1(2) by (rule put_generation_ok [OF ok]) (use generation_row_ok [OF ok 1(1)] in auto)
  qed
  from u2 show ?thesis
  proof (cases rule: update_generation_cases)
    case (1 r)
    show ?thesis unfolding 1(2) by (rule put_generation_ok [OF ok1]) (use generation_row_ok [OF ok1 1(1)] in auto)
  qed
qed

section \<open>Epochs\<close>

lemma epoch_row_ok:
  assumes "db_ok d" "map_of (db_epochs d) e = Some r"
  shows "er_generation_epoch r = e" "map_of (db_generations d) (er_generation_id r) \<noteq> None"
    "er_process_state r \<in> {''starting'', ''serving'', ''dead''}"
    "er_retirement_state r \<in> {''open'', ''quiescing'', ''certified''}"
  using db_okD(5) [OF assms(1)] assms(2) unfolding epochs_ok_def by blast+

lemma one_serving:
  assumes "db_ok d" "map_of (db_epochs d) e1 = Some r1" "map_of (db_epochs d) e2 = Some r2"
    "er_process_state r1 = ''serving''" "er_process_state r2 = ''serving''" "er_generation_id r1 = er_generation_id r2"
  shows "e1 = e2"
  using db_okD(5) [OF assms(1)] assms(2-6) unfolding epochs_ok_def by metis

lemma other_serving_iff:
  assumes "db_ok d"
  shows "other_serving d g ep \<longleftrightarrow>
    (\<exists>e r. e \<noteq> ep \<and> map_of (db_epochs d) e = Some r \<and> er_generation_id r = g \<and> er_process_state r = ''serving'')"
proof -
  have ok: "dict_ok (db_epochs d)" using db_okD(5) [OF assms] by (simp add: epochs_ok_def)
  have "other_serving d g ep \<longleftrightarrow>
    (\<exists>e r. (e, r) \<in> set (db_epochs d) \<and> e \<noteq> ep \<and> er_generation_id r = g \<and> er_process_state r = ''serving'')"
    by (auto simp: other_serving_def list_ex_iff)
  then show ?thesis unfolding dict_set_conv [OF ok] by blast
qed

text \<open>Replacing an epoch row by one of the same generation, or adding a new row.\<close>

lemma put_epoch_row_ok:
  assumes ok: "db_ok d" and r: "er_generation_epoch r = e" "map_of (db_generations d) (er_generation_id r) \<noteq> None"
    "er_process_state r \<in> {''starting'', ''serving'', ''dead''}"
    "er_retirement_state r \<in> {''open'', ''quiescing'', ''certified''}"
    and old: "\<And>x. map_of (db_epochs d) e = Some x \<Longrightarrow> er_generation_id r = er_generation_id x"
    and one: "er_process_state r = ''serving'' \<Longrightarrow> \<not> other_serving d (er_generation_id r) e"
  shows "db_ok (d\<lparr>db_epochs := AList.update e r (db_epochs d)\<rparr>)"
proof -
  have "epochs_ok (db_generations d) (AList.update e r (db_epochs d))"
    by (rule epochs_ok_put [OF db_okD(5) [OF ok] r]) (use one other_serving_iff [OF ok] in blast)
  moreover have "generations_ok (AList.update e r (db_epochs d)) (db_generations d)"
  proof (cases "map_of (db_epochs d) e")
    case None
    then show ?thesis by (intro generations_ok_epochs [OF db_okD(6) [OF ok], of e r r]) simp_all
  next
    case (Some x)
    then show ?thesis by (intro generations_ok_epochs [OF db_okD(6) [OF ok], of e x r]) (simp_all add: old)
  qed
  ultimately show ?thesis using ok by (simp add: db_ok_def)
qed

lemma insert_epoch_cases:
  assumes "insert_epoch e g meta created d = Inr (d', u)"
  obtains r where "e = VStr (er_generation_epoch r)" "g = VStr (er_generation_id r)" "er_process_state r = ''starting''"
    "er_retirement_state r = ''open''" "er_certificate r = None" "er_final_high_water r = None"
    "map_of (db_epochs d) (er_generation_epoch r) = None" "map_of (db_generations d) (er_generation_id r) \<noteq> None"
    "d' = d\<lparr>db_epochs := AList.update (er_generation_epoch r) r (db_epochs d)\<rparr>"
proof -
  obtain e' where e: "nonempty_text e = Inr e'"
    using assms by (cases "nonempty_text e") (simp_all add: insert_epoch_def)
  obtain g' where g: "nonempty_text g = Inr g'"
    using assms by (cases "nonempty_text g") (simp_all add: insert_epoch_def)
  obtain cr where cr: "moment created = Inr cr"
    using assms by (cases "moment created") (simp_all add: insert_epoch_def)
  define rec where "rec = EpochRecord e g (VStr ''starting'') (VStr ''open'') VNone VNone meta (VFloat (Fin cr))"
  obtain r where r: "rec = Inr r"
    using assms cr by (cases rec) (auto simp: insert_epoch_def simp flip: rec_def)
  have f: "er_generation_epoch r = e'" "er_generation_id r = g'" "er_process_state r = ''starting''"
    "er_retirement_state r = ''open''" "er_certificate r = None" "er_final_high_water r = None"
    using r e g unfolding rec_def EpochRecord_def by (auto simp: optional_count_def)
  have "map_of (db_epochs d) e' = None \<and> map_of (db_generations d) g' \<noteq> None \<and>
      d' = d\<lparr>db_epochs := AList.update e' r (db_epochs d)\<rparr>"
    using assms e g by (auto simp: insert_epoch_def cr r [unfolded rec_def] split: if_splits)
  with f e g show thesis by (intro that) auto
qed

lemma insert_epoch_ok:
  assumes ok: "db_ok d" and c: "insert_epoch e g meta created d = Inr (d', u)"
  shows "db_ok d'"
  using c
proof (cases rule: insert_epoch_cases)
  case (1 r)
  show ?thesis unfolding 1(9) by (rule put_epoch_row_ok [OF ok]) (use 1 in simp_all)
qed

lemma cas_epoch_serving_cases:
  assumes "cas_epoch_serving gid e expected meta d = Inr (d', u)"
  obtains g ep gen r m where "gid = VStr g" "e = VStr ep" "ep \<noteq> []" "map_of (db_generations d) g = Some gen"
    "gr_current_epoch gen = expected" "map_of (db_epochs d) ep = Some r" "er_generation_id r = g"
    "er_process_state r = ''starting''" "\<not> other_serving d g ep"
    "d' = d\<lparr>db_generations := AList.update g (gen\<lparr>gr_current_epoch := Some ep\<rparr>) (db_generations d),
            db_epochs := AList.update ep (r\<lparr>er_incarnation_meta := m, er_process_state := ''serving''\<rparr>) (db_epochs d)\<rparr>"
proof -
  obtain g where g: "nonempty_text gid = Inr g"
    using assms by (cases "nonempty_text gid") (simp_all add: cas_epoch_serving_def)
  obtain ep where ep: "nonempty_text e = Inr ep"
    using assms by (cases "nonempty_text e") (simp_all add: cas_epoch_serving_def g)
  obtain mt where m: "optional_nonempty meta = Inr mt"
    using assms by (cases "optional_nonempty meta") (simp_all add: cas_epoch_serving_def g ep del: nonempty_text_Inr)
  note d = cas_epoch_serving_def g ep m
  obtain gen where gen: "map_of (db_generations d) g = Some gen"
    using assms by (cases "map_of (db_generations d) g") (simp_all add: d del: nonempty_text_Inr)
  have x: "gr_current_epoch gen = expected" using assms by (rule_tac ccontr) (simp add: d gen del: nonempty_text_Inr)
  obtain r where r: "map_of (db_epochs d) ep = Some r"
    using assms by (cases "map_of (db_epochs d) ep") (simp_all add: d gen x del: nonempty_text_Inr)
  have c: "er_generation_id r = g \<and> er_process_state r = ''starting'' \<and> \<not> other_serving d g ep"
    using assms by (rule_tac ccontr) (auto simp: d gen x r constraint_failed_def simp del: nonempty_text_Inr split: if_splits)
  show thesis
    using assms c gen x r g ep
    by (intro that [of g ep gen r "case mt of None \<Rightarrow> er_incarnation_meta r | Some i \<Rightarrow> Some i"])
      (auto simp: cas_epoch_serving_def m split: option.splits)
qed

lemma cas_epoch_serving_ok:
  assumes ok: "db_ok d" and c: "cas_epoch_serving gid e expected meta d = Inr (d', u)"
  shows "db_ok d'"
  using c
proof (cases rule: cas_epoch_serving_cases)
  case (1 g ep gen r m)
  let ?r = "r\<lparr>er_incarnation_meta := m, er_process_state := ''serving''\<rparr>"
  have "db_ok (d\<lparr>db_epochs := AList.update ep ?r (db_epochs d)\<rparr>)"
    by (rule put_epoch_row_ok [OF ok]) (use 1 epoch_row_ok [OF ok 1(6)] in simp_all)
  then have "db_ok (d\<lparr>db_epochs := AList.update ep ?r (db_epochs d)\<rparr>
      \<lparr>db_generations := AList.update g (gen\<lparr>gr_current_epoch := Some ep\<rparr>)
         (db_generations (d\<lparr>db_epochs := AList.update ep ?r (db_epochs d)\<rparr>))\<rparr>)"
    by (rule put_generation_ok) (use 1 generation_row_ok [OF ok 1(4)] in auto)
  moreover have "d' = d\<lparr>db_epochs := AList.update ep ?r (db_epochs d)\<rparr>
      \<lparr>db_generations := AList.update g (gen\<lparr>gr_current_epoch := Some ep\<rparr>)
         (db_generations (d\<lparr>db_epochs := AList.update ep ?r (db_epochs d)\<rparr>))\<rparr>"
    unfolding 1(10) by (cases d) simp
  ultimately show ?thesis by (simp only:)
qed

lemma set_epoch_process_state_cases:
  assumes "set_epoch_process_state e state d = Inr (d', u)"
  obtains ep st r where "e = VStr ep" "state = VStr st" "st \<in> {''starting'', ''serving'', ''dead''}"
    "map_of (db_epochs d) ep = Some r" "st = ''serving'' \<Longrightarrow> \<not> other_serving d (er_generation_id r) ep"
    "d' = d\<lparr>db_epochs := AList.update ep (r\<lparr>er_process_state := st\<rparr>) (db_epochs d)\<rparr>"
proof -
  obtain ep where ep: "nonempty_text e = Inr ep"
    using assms by (cases "nonempty_text e") (simp_all add: set_epoch_process_state_def)
  have c: "state \<in> {VStr ''starting'', VStr ''serving'', VStr ''dead''}"
    using assms by (rule_tac ccontr) (simp add: set_epoch_process_state_def ep del: nonempty_text_Inr)
  then obtain st where st: "state = VStr st" "st \<in> {''starting'', ''serving'', ''dead''}" by auto
  have u: "set_epoch_process_state e state d = (case map_of (db_epochs d) ep of
       None \<Rightarrow> err UNKNOWN_SESSION
     | Some r \<Rightarrow>
         if st = ''serving'' \<and> other_serving d (er_generation_id r) ep then constraint_failed
         else Inr (d\<lparr>db_epochs := AList.update ep (r\<lparr>er_process_state := st\<rparr>) (db_epochs d)\<rparr>, ()))"
    unfolding set_epoch_process_state_def ep rbind_simps using st by auto
  obtain r where r: "map_of (db_epochs d) ep = Some r"
    using assms u by (cases "map_of (db_epochs d) ep") simp_all
  have "\<not> (st = ''serving'' \<and> other_serving d (er_generation_id r) ep)"
    using assms u r by (rule_tac ccontr) (simp add: constraint_failed_def)
  with assms u r st ep show thesis by (intro that) auto
qed

lemma set_epoch_process_state_ok:
  assumes ok: "db_ok d" and c: "set_epoch_process_state e state d = Inr (d', u)"
  shows "db_ok d'"
  using c
proof (cases rule: set_epoch_process_state_cases)
  case (1 ep st r)
  show ?thesis unfolding 1(6) by (rule put_epoch_row_ok [OF ok]) (use 1 epoch_row_ok [OF ok 1(4)] in simp_all)
qed

lemma set_epoch_retirement_cases:
  assumes "set_epoch_retirement e state cert final d = Inr (d', u)"
  obtains ep st r fin where "e = VStr ep" "state = VStr st" "st \<in> {''open'', ''quiescing'', ''certified''}"
    "optional_count final = Inr fin" "map_of (db_epochs d) ep = Some r"
    "d' = d\<lparr>db_epochs := AList.update ep
       (if st = ''certified'' then r\<lparr>er_retirement_state := st, er_certificate := cert, er_final_high_water := fin\<rparr>
        else r\<lparr>er_retirement_state := st\<rparr>) (db_epochs d)\<rparr>"
proof -
  obtain ep where ep: "nonempty_text e = Inr ep"
    using assms by (cases "nonempty_text e") (simp_all add: set_epoch_retirement_def)
  have c: "state \<in> {VStr ''open'', VStr ''quiescing'', VStr ''certified''}"
    using assms by (rule_tac ccontr) (simp add: set_epoch_retirement_def ep del: nonempty_text_Inr)
  then obtain st where st: "state = VStr st" "st \<in> {''open'', ''quiescing'', ''certified''}" by auto
  obtain fin where fin: "optional_count final = Inr fin"
    using assms unfolding set_epoch_retirement_def ep rbind_simps if_not_P [OF iffD2 [OF not_not c]] st(1) text_field_VStr
    by (cases "optional_count final") (simp_all split: if_splits)
  have u: "set_epoch_retirement e state cert final d = (if st = ''certified'' \<and> \<not> bindable final then Inl OverflowError
     else case map_of (db_epochs d) ep of
       None \<Rightarrow> err UNKNOWN_SESSION
     | Some r \<Rightarrow>
         Inr (d\<lparr>db_epochs := AList.update ep
           (if st = ''certified'' then r\<lparr>er_retirement_state := st, er_certificate := cert, er_final_high_water := fin\<rparr>
            else r\<lparr>er_retirement_state := st\<rparr>) (db_epochs d)\<rparr>, ()))"
    unfolding set_epoch_retirement_def ep fin rbind_simps using c by (simp add: st(1))
  obtain r where r: "map_of (db_epochs d) ep = Some r"
    using assms u by (cases "map_of (db_epochs d) ep") (simp_all split: if_splits)
  have b: "\<not> (st = ''certified'' \<and> \<not> bindable final)" using assms u by (rule_tac ccontr) simp
  show thesis
    by (rule that [OF conjunct1 [OF ep [unfolded nonempty_text_Inr]] st fin r])
      (use assms in \<open>unfold u if_not_P [OF b] r option.case, simp\<close>)
qed

lemma set_epoch_retirement_ok:
  assumes ok: "db_ok d" and c: "set_epoch_retirement e state cert final d = Inr (d', u)"
  shows "db_ok d'"
  using c
proof (cases rule: set_epoch_retirement_cases)
  case (1 ep st r fin)
  note o = epoch_row_ok [OF ok 1(5)]
  have s: "\<not> other_serving d (er_generation_id r) ep" if "er_process_state r = ''serving''"
    using that one_serving [OF ok _ 1(5)] other_serving_iff [OF ok] by blast
  show ?thesis unfolding 1(6) by (rule put_epoch_row_ok [OF ok]) (use 1(3,5) o s in auto)
qed

lemma reconcile_epoch_dead_cases:
  assumes "reconcile_epoch_dead gid e d = Inr (d', u)"
  obtains g ep r d1 where "gid = VStr g" "e = VStr ep" "map_of (db_epochs d) ep = Some r" "er_generation_id r = g"
    "d1 = d \<or> d1 = d\<lparr>db_epochs := AList.update ep (r\<lparr>er_process_state := ''dead''\<rparr>) (db_epochs d)\<rparr>"
    "er_process_state r = ''dead'' \<or> d1 \<noteq> d \<or> d1 = d\<lparr>db_epochs := AList.update ep (r\<lparr>er_process_state := ''dead''\<rparr>) (db_epochs d)\<rparr>"
    "d' = d1 \<or> (\<exists>gen. map_of (db_generations d1) g = Some gen \<and>
        d' = d1\<lparr>db_generations := AList.update g (gen\<lparr>gr_current_epoch := None\<rparr>) (db_generations d1)\<rparr>)"
proof -
  obtain g where g: "nonempty_text gid = Inr g"
    using assms by (cases "nonempty_text gid") (simp_all add: reconcile_epoch_dead_def)
  obtain ep where ep: "nonempty_text e = Inr ep"
    using assms by (cases "nonempty_text e") (simp_all add: reconcile_epoch_dead_def g)
  obtain r where r: "map_of (db_epochs d) ep = Some r"
    using assms by (cases "map_of (db_epochs d) ep") (simp_all add: reconcile_epoch_dead_def g ep del: nonempty_text_Inr)
  have gr: "er_generation_id r = g"
    using assms by (rule_tac ccontr) (simp add: reconcile_epoch_dead_def g ep r del: nonempty_text_Inr)
  define d1 where "d1 = (if er_process_state r \<noteq> ''dead''
    then d\<lparr>db_epochs := AList.update ep (r\<lparr>er_process_state := ''dead''\<rparr>) (db_epochs d)\<rparr> else d)"
  have "(d', u) = (case map_of (db_generations d1) g of
                None \<Rightarrow> (d1, ())
              | Some gen \<Rightarrow>
                  if gr_current_epoch gen = Some ep
                  then (d1\<lparr>db_generations := AList.update g (gen\<lparr>gr_current_epoch := None\<rparr>) (db_generations d1)\<rparr>, ())
                  else (d1, ()))"
    using assms by (simp add: reconcile_epoch_dead_def g ep r gr Let_def flip: d1_def del: nonempty_text_Inr)
  then have "d' = d1 \<or> (\<exists>gen. map_of (db_generations d1) g = Some gen \<and>
        d' = d1\<lparr>db_generations := AList.update g (gen\<lparr>gr_current_epoch := None\<rparr>) (db_generations d1)\<rparr>)"
    by (auto split: option.splits if_splits)
  with g ep r gr show thesis by (intro that [of g ep r d1]) (auto simp: d1_def)
qed

lemma reconcile_epoch_dead_ok:
  assumes ok: "db_ok d" and c: "reconcile_epoch_dead gid e d = Inr (d', u)"
  shows "db_ok d'"
  using c
proof (cases rule: reconcile_epoch_dead_cases)
  case (1 g ep r d1)
  have ok1: "db_ok d1"
    using 1(5)
  proof
    assume d1: "d1 = d\<lparr>db_epochs := AList.update ep (r\<lparr>er_process_state := ''dead''\<rparr>) (db_epochs d)\<rparr>"
    show ?thesis unfolding d1 by (rule put_epoch_row_ok [OF ok]) (use 1 epoch_row_ok [OF ok 1(3)] in simp_all)
  qed (use ok in simp)
  from 1(7) show ?thesis
  proof
    assume "\<exists>gen. map_of (db_generations d1) g = Some gen \<and>
        d' = d1\<lparr>db_generations := AList.update g (gen\<lparr>gr_current_epoch := None\<rparr>) (db_generations d1)\<rparr>"
    then obtain gen where gen: "map_of (db_generations d1) g = Some gen"
      and d': "d' = d1\<lparr>db_generations := AList.update g (gen\<lparr>gr_current_epoch := None\<rparr>) (db_generations d1)\<rparr>" by blast
    show ?thesis unfolding d' by (rule put_generation_ok [OF ok1]) (use generation_row_ok [OF ok1 gen] in auto)
  qed (use ok1 in simp)
qed

end
