(* ===== verification/Nelix_Store_Machine.thy ===== *)
theory Nelix_Store_Machine
  imports Nelix_Generations_Ops
begin

text \<open>
  The store as one machine: an operation per writing method of \<open>Store\<close> and
  \<open>StartLedger\<close>, whose step commits on success and changes nothing when the method
  raises, except the two methods that run several transactions. The machine and the
  retirement oracle's interface are interpreted on it.
\<close>

section \<open>Confirmed watermarks and garbage collection keep the invariant\<close>

lemma confirm_other_tables [simp]:
  "db_starts (snd (set_generation_confirmed_high_water e n d)) = db_starts d"
  "db_sessions (snd (set_generation_confirmed_high_water e n d)) = db_sessions d"
  "db_terminal (snd (set_generation_confirmed_high_water e n d)) = db_terminal d"
  "db_epochs (snd (set_generation_confirmed_high_water e n d)) = db_epochs d"
  "db_generations (snd (set_generation_confirmed_high_water e n d)) = db_generations d"
  "db_board_seq (snd (set_generation_confirmed_high_water e n d)) = db_board_seq d"
  by (simp_all add: set_generation_confirmed_high_water_def Let_def split: sum.split)

lemma confirm_progress:
  "progress_of (snd (set_generation_confirmed_high_water e n d)) x =
     (case rbind (nonempty_text e) (\<lambda>ep. rbind (count_field n) (\<lambda>m. Inr (ep, m))) of
        Inl _ \<Rightarrow> progress_of d x
      | Inr (ep, m) \<Rightarrow>
          if x = ep \<and> bindable n
          then (progress_of d x)\<lparr>pr_confirmed_high_water := max (pr_confirmed_high_water (progress_of d x)) m\<rparr>
          else progress_of d x)"
proof (cases "rbind (nonempty_text e) (\<lambda>ep. rbind (count_field n) (\<lambda>m. Inr (ep, m)))")
  case (Inl err)
  then show ?thesis by (simp add: set_generation_confirmed_high_water_def)
next
  case (Inr p)
  obtain ep m where p: "p = (ep, m)" by (cases p)
  show ?thesis
    using Inr by (auto simp: set_generation_confirmed_high_water_def p Let_def progress_of_def simp del: rbind_eq_Inr)
qed

lemma confirm_ok:
  assumes "db_ok d"
  shows "db_ok (snd (set_generation_confirmed_high_water e n d))"
proof -
  note p = progress_of_ok [OF db_okD(4) [OF assms]]
  have "progress_ok (db_progress (snd (set_generation_confirmed_high_water e n d)))"
    using db_okD(4) [OF assms] p
    by (auto simp: set_generation_confirmed_high_water_def Let_def max_def split: sum.split prod.split intro!: progress_ok_put)
  with assms show ?thesis by (simp add: db_ok_def)
qed

lemma confirm_never_lowers:
  "pr_confirmed_high_water (progress_of d x) \<le>
     pr_confirmed_high_water (progress_of (snd (set_generation_confirmed_high_water e n d)) x)"
  by (auto simp: confirm_progress split: sum.split)

lemma gc_session_ok:
  assumes "db_ok d"
  shows "db_ok (snd (gc_session now h row (s, d)))"
proof -
  let ?sid = "fst row"
  let ?E = "AList.delete ?sid (db_sessions d)" and ?T = "AList.delete ?sid (db_terminal d)"
  have t: "terminal_ok ?E ?T" using db_okD(3) [OF assms] by (auto simp: terminal_ok_def)
  have e: "sessions_ok (db_starts d) ?E" using db_okD(2) [OF assms] by (auto simp: sessions_ok_def)
  have e': "sessions_ok (AList.delete ?sid (db_starts d)) ?E"
    using db_okD(2) [OF assms] by (auto simp: sessions_ok_def)
  from assms t e e' starts_ok_delete [OF db_okD(1) [OF assms]] show ?thesis
    by (simp add: gc_session_def Let_def db_ok_def)
qed

lemma gc_fold_ok: "db_ok (snd sd) \<Longrightarrow> db_ok (snd (fold (gc_session now h) rows sd))"
proof (induction rows arbitrary: sd)
  case (Cons row rows)
  have "db_ok (snd (gc_session now h row sd))" using gc_session_ok [OF Cons.prems] by (cases sd) simp
  then show ?case by (simp add: Cons.IH)
qed simp

lemma gc_generation_ok: "db_ok (snd sd) \<Longrightarrow> db_ok (snd (snd (gc_generation now h gen sd)))"
  by (auto simp: gc_generation_def Let_def gc_fold_ok split: sum.splits)

lemma gc_generations_ok: "db_ok (snd sd) \<Longrightarrow> db_ok (snd (snd (gc_generations now h gens sd)))"
proof (induction gens arbitrary: sd)
  case (Cons gen gens)
  obtain r sd' where r: "gc_generation now h gen sd = (r, sd')" by (cases "gc_generation now h gen sd") blast
  have "db_ok (snd sd')" using gc_generation_ok [OF Cons.prems, of now h gen] by (simp add: r)
  then show ?case using Cons.IH by (simp add: r split: sum.split)
qed simp

lemma gc_retired_ok: "db_ok d \<Longrightarrow> db_ok (snd (gc_retired_generations h clock d))"
  using gc_generations_ok [of "(_, d)"]
  by (auto simp: gc_retired_generations_def case_prod_beta split: sum.split)

section \<open>The machine\<close>

datatype store_op =
    Reserve pyval pyval pyval pyval string pyval
  | AssignGeneration string pyval pyval
  | Commit string pyval pyval
  | FailStart string pyval
  | CreateSession string pyval pyval pyval pyval pyval pyval
  | TransitionSession string string pyval "string option"
  | PutTerminal string pyval pyval pyval pyval
  | AckTerminal string string pyval
  | PruneTerminal pyval pyval pyval
  | CreateGeneration pyval pyval pyval pyval pyval
  | InsertEpoch pyval pyval pyval pyval
  | CasEpochServing pyval pyval "string option" pyval
  | SetEpochProcessState pyval pyval
  | SetEpochRetirement pyval pyval "string option" pyval
  | SetLifecycleState pyval pyval
  | ClearCurrentEpoch pyval
  | SetCurrentEpoch pyval pyval
  | FlipLifecycleStates pyval pyval string string string
  | ReconcileEpochDead pyval pyval
  | ConfirmHighWater pyval pyval
  | CollectGarbage pyval pyval

definition committed :: "db \<Rightarrow> (db \<times> 'a) res \<Rightarrow> db" where
  "committed d m = (case m of Inl _ \<Rightarrow> d | Inr (d', _) \<Rightarrow> d')"

primrec store_step :: "db \<Rightarrow> store_op \<Rightarrow> db" where
  "store_step d (Reserve k ow orc fp sid now) = committed d (reserve k ow orc fp sid now d)"
| "store_step d (AssignGeneration sid g e) = committed d (assign_generation sid g e d)"
| "store_step d (Commit sid g e) = committed d (commit sid g e d)"
| "store_step d (FailStart sid why) = committed d (fail_start sid why d)"
| "store_step d (CreateSession sid st ex tk cw md cr) = committed d (create_session sid st ex tk cw md cr d)"
| "store_step d (TransitionSession sid ow st x) = committed d (transition_session sid ow st x d)"
| "store_step d (PutTerminal sid k sm en now) = committed d (put_terminal sid k sm en now d)"
| "store_step d (AckTerminal sid ow now) = committed d (ack_terminal sid ow now d)"
| "store_step d (PruneTerminal age cnt now) = committed d (prune_terminal age cnt now d)"
| "store_step d (CreateGeneration g b l cap cr) = committed d (create_generation g b l cap cr d)"
| "store_step d (InsertEpoch e g meta cr) = committed d (insert_epoch e g meta cr d)"
| "store_step d (CasEpochServing g e x meta) = committed d (cas_epoch_serving g e x meta d)"
| "store_step d (SetEpochProcessState e st) = committed d (set_epoch_process_state e st d)"
| "store_step d (SetEpochRetirement e st cert final) = committed d (set_epoch_retirement e st cert final d)"
| "store_step d (SetLifecycleState g st) = committed d (set_generation_lifecycle_state g st d)"
| "store_step d (ClearCurrentEpoch g) = committed d (clear_current_epoch g d)"
| "store_step d (SetCurrentEpoch g e) = committed d (set_current_epoch g e d)"
| "store_step d (FlipLifecycleStates old new so eo en) =
     committed d (set_generation_lifecycle_state_atomic old new so eo en d)"
| "store_step d (ReconcileEpochDead g e) = committed d (reconcile_epoch_dead g e d)"
| "store_step d (ConfirmHighWater e n) = snd (set_generation_confirmed_high_water e n d)"
| "store_step d (CollectGarbage h now) = snd (gc_retired_generations h now d)"

text \<open>Callers pass any values; the only thing they do not choose is the minted id.\<close>

fun minted_ok :: "db \<Rightarrow> store_op \<Rightarrow> bool" where
  "minted_ok d (Reserve k ow orc fp sid now) = match_hex_id (CHR ''s'') sid"
| "minted_ok d _ = True"

lemma committed_cases:
  assumes "P d" "\<And>d' x. m = Inr (d', x) \<Longrightarrow> P d'"
  shows "P (committed d m)"
  using assms by (auto simp: committed_def split: sum.split)

lemmas store_op_ok = assign_generation_ok commit_ok fail_start_ok create_session_ok transition_session_ok
  put_terminal_ok ack_terminal_ok prune_terminal_ok create_generation_ok insert_epoch_ok cas_epoch_serving_ok
  set_epoch_process_state_ok set_epoch_retirement_ok set_generation_lifecycle_state_ok clear_current_epoch_ok
  set_current_epoch_ok set_generation_lifecycle_state_atomic_ok reconcile_epoch_dead_ok

lemma store_step_ok:
  assumes "db_ok d" "minted_ok d op"
  shows "db_ok (store_step d op)"
proof (cases op)
  case (ConfirmHighWater e n)
  with assms(1) show ?thesis by (simp add: confirm_ok)
next
  case (CollectGarbage h now)
  with assms(1) show ?thesis by (simp add: gc_retired_ok)
next
  case (Reserve k ow orc fp sid now)
  show ?thesis unfolding Reserve store_step.simps
    by (rule committed_cases [of db_ok, OF assms(1)], erule reserve_ok [OF assms(1) assms(2) [unfolded Reserve minted_ok.simps]])
qed (simp, rule committed_cases [of db_ok, OF assms(1)], erule store_op_ok [OF assms(1)])+

interpretation store_machine: step_machine store_step minted_ok db_ok
  by unfold_locales (rule store_step_ok)

definition store_run :: "db \<Rightarrow> store_op list \<Rightarrow> db" where
  "store_run = foldl store_step"

primrec minted_run :: "db \<Rightarrow> store_op list \<Rightarrow> bool" where
  "minted_run d [] = True"
| "minted_run d (op # ops) = (minted_ok d op \<and> minted_run (store_step d op) ops)"

lemma store_run_eq: "store_run d ops = store_machine.run d ops"
  by (induction ops arbitrary: d) (simp_all add: store_run_def)

lemma minted_run_eq: "minted_run d ops = store_machine.legal_run d ops"
  by (induction ops arbitrary: d) simp_all

lemma store_run_ok: "db_ok d \<Longrightarrow> minted_run d ops \<Longrightarrow> db_ok (store_run d ops)"
  unfolding store_run_eq minted_run_eq by (rule store_machine.run_inv)

lemma store_run_stable:
  assumes "\<And>t op. db_ok t \<Longrightarrow> P t \<Longrightarrow> minted_ok t op \<Longrightarrow> P (store_step t op)"
    and "db_ok d" "P d" "minted_run d ops"
  shows "P (store_run d ops)"
  using assms unfolding store_run_eq minted_run_eq by (rule store_machine.run_stable)

text \<open>The databases the store can be in.\<close>

inductive store_reachable :: "db \<Rightarrow> bool" where
  initial: "store_reachable empty_db"
| step: "store_reachable d \<Longrightarrow> minted_ok d op \<Longrightarrow> store_reachable (store_step d op)"

lemma store_reachable_ok: "store_reachable d \<Longrightarrow> db_ok d"
  by (induction rule: store_reachable.induct) (auto intro: db_ok_empty store_step_ok)

lemma store_reachable_run: "store_reachable d \<Longrightarrow> minted_run d ops \<Longrightarrow> store_reachable (store_run d ops)"
  by (induction ops arbitrary: d) (auto simp: store_run_def intro: store_reachable.step)

lemma store_reachable_from_empty: "minted_run empty_db ops \<Longrightarrow> store_reachable (store_run empty_db ops)"
  by (rule store_reachable_run [OF store_reachable.initial])

section \<open>The retirement oracle's interface\<close>

interpretation store_retirement: retirement_store
  "\<lambda>d g. get_generation (VStr g) d" "\<lambda>d g. list_epochs (VStr g) d"
  "\<lambda>d e. get_generation_confirmed_high_water (VStr e) d"
  "\<lambda>d e n. snd (set_generation_confirmed_high_water (VStr e) (VInt n) d)" db_ok
proof
  show "get_generation (VStr g) (snd (set_generation_confirmed_high_water (VStr e) (VInt n) d)) =
      get_generation (VStr g) d" for d e g n by (simp add: get_generation_def)
  show "list_epochs (VStr g) (snd (set_generation_confirmed_high_water (VStr e) (VInt n) d)) =
      list_epochs (VStr g) d" for d e g n by (simp add: list_epochs_def epochs_of_def)
  show "\<exists>c'\<ge>c. get_generation_confirmed_high_water (VStr e')
        (snd (set_generation_confirmed_high_water (VStr e) (VInt n) d)) = Inr c'"
    if "get_generation_confirmed_high_water (VStr e') d = Inr c" for d e e' n c
    using that confirm_never_lowers [of d e' "VStr e" "VInt n"]
    by (auto simp: get_generation_confirmed_high_water_def)
qed

end
