(* ===== verification/Nelix_Store_Frames.thy ===== *)
theory Nelix_Store_Frames
  imports Nelix_Store_Machine
begin

text \<open>
  What a step of the store leaves alone: how a start, a terminal record, an epoch's
  counters and an owner's board may evolve. The store properties follow from these
  frames along a run.
\<close>

section \<open>Generation operations touch neither starts, sessions, terminals nor boards\<close>

definition same_records :: "db \<Rightarrow> db \<Rightarrow> bool" where
  "same_records d d' \<longleftrightarrow> db_starts d' = db_starts d \<and> db_sessions d' = db_sessions d \<and>
     db_terminal d' = db_terminal d \<and> db_board_seq d' = db_board_seq d"

fun generation_op :: "store_op \<Rightarrow> bool" where
  "generation_op (CreateGeneration _ _ _ _ _) = True"
| "generation_op (InsertEpoch _ _ _ _) = True"
| "generation_op (CasEpochServing _ _ _ _) = True"
| "generation_op (SetEpochProcessState _ _) = True"
| "generation_op (SetEpochRetirement _ _ _ _) = True"
| "generation_op (SetLifecycleState _ _) = True"
| "generation_op (ClearCurrentEpoch _) = True"
| "generation_op (SetCurrentEpoch _ _) = True"
| "generation_op (FlipLifecycleStates _ _ _ _ _) = True"
| "generation_op (ReconcileEpochDead _ _) = True"
| "generation_op (ConfirmHighWater _ _) = True"
| "generation_op _ = False"

lemma same_records_refl [simp]: "same_records d d"
  by (simp add: same_records_def)

lemma update_generation_frame: "update_generation g f d = Inr (d', u) \<Longrightarrow> same_records d d' \<and> db_progress d' = db_progress d"
  by (elim update_generation_cases) (simp add: same_records_def)

lemma generation_op_frames:
  "create_generation g b life cap created d = Inr (d', u) \<Longrightarrow> same_records d d' \<and> db_progress d' = db_progress d"
  "insert_epoch e g meta created d = Inr (d', u) \<Longrightarrow> same_records d d' \<and> db_progress d' = db_progress d"
  "cas_epoch_serving g e expected meta d = Inr (d', u) \<Longrightarrow> same_records d d' \<and> db_progress d' = db_progress d"
  "set_epoch_process_state e state d = Inr (d', u) \<Longrightarrow> same_records d d' \<and> db_progress d' = db_progress d"
  "set_epoch_retirement e state cert final d = Inr (d', u) \<Longrightarrow> same_records d d' \<and> db_progress d' = db_progress d"
  by (elim create_generation_cases insert_epoch_cases cas_epoch_serving_cases set_epoch_process_state_cases
      set_epoch_retirement_cases; simp add: same_records_def)+

lemma generation_update_frames:
  "set_generation_lifecycle_state g s d = Inr (d', u) \<Longrightarrow> same_records d d' \<and> db_progress d' = db_progress d"
  "clear_current_epoch g d = Inr (d', u) \<Longrightarrow> same_records d d' \<and> db_progress d' = db_progress d"
  "set_current_epoch g e d = Inr (d', u) \<Longrightarrow> same_records d d' \<and> db_progress d' = db_progress d"
  by (auto simp: set_generation_lifecycle_state_def clear_current_epoch_def set_current_epoch_def constraint_failed_def
      simp del: not_None_eq split: if_splits dest!: update_generation_frame)

lemma flip_frame:
  assumes "set_generation_lifecycle_state_atomic old new so eo en d = Inr (d', u)"
  shows "same_records d d' \<and> db_progress d' = db_progress d"
proof -
  obtain old' new' d1 where u1: "update_generation old' (gr_lifecycle_state_update (\<lambda>_. so)) d = Inr (d1, ())"
    and u2: "update_generation new' (gr_lifecycle_state_update (\<lambda>_. ''active'')) d1 = Inr (d', u)"
    using assms by (auto simp: set_generation_lifecycle_state_atomic_def split: option.splits if_splits)
  from update_generation_frame [OF u1] update_generation_frame [OF u2] show ?thesis
    by (simp add: same_records_def)
qed

lemma reconcile_frame:
  assumes "reconcile_epoch_dead g e d = Inr (d', u)"
  shows "same_records d d' \<and> db_progress d' = db_progress d"
  using assms by (elim reconcile_epoch_dead_cases) (auto simp: same_records_def)

lemma generation_step_frame:
  assumes "generation_op op"
  shows "same_records d (store_step d op)"
  using assms
  by (cases op)
    (auto simp: committed_def same_records_def [of d "snd _"] split: sum.split
      dest: generation_op_frames generation_update_frames flip_frame reconcile_frame)

section \<open>Starts\<close>

text \<open>
  What a start keeps: its identity for ever, its generation once assigned, its state,
  epoch and reason once it left \<open>starting\<close>.
\<close>

definition start_kept :: "start_row \<Rightarrow> start_row \<Rightarrow> bool" where
  "start_kept st st' \<longleftrightarrow>
     st_owner_id st' = st_owner_id st \<and> st_orchestration_id st' = st_orchestration_id st \<and>
     st_idempotency_key st' = st_idempotency_key st \<and> st_request_fingerprint st' = st_request_fingerprint st \<and>
     st_created_at st' = st_created_at st \<and>
     (st_generation_id st \<noteq> None \<longrightarrow> st_generation_id st' = st_generation_id st) \<and>
     (st_state st \<noteq> ''starting'' \<longrightarrow> st_state st' = st_state st \<and> st_generation_id st' = st_generation_id st \<and>
        st_generation_epoch st' = st_generation_epoch st \<and> st_reason st' = st_reason st)"

lemma start_kept_refl [simp]: "start_kept st st"
  by (simp add: start_kept_def)

lemma start_kept_trans: "start_kept a b \<Longrightarrow> start_kept b c \<Longrightarrow> start_kept a c"
  by (auto simp: start_kept_def)

definition starts_kept :: "db \<Rightarrow> db \<Rightarrow> bool" where
  "starts_kept d d' \<longleftrightarrow>
     (\<forall>sid st. start_of d sid = Some st \<longrightarrow> (\<exists>st'. start_of d' sid = Some st' \<and> start_kept st st'))"

lemma starts_keptD:
  "starts_kept d d' \<Longrightarrow> start_of d sid = Some st \<Longrightarrow> \<exists>st'. start_of d' sid = Some st' \<and> start_kept st st'"
  by (auto simp: starts_kept_def)

lemma starts_kept_refl: "db_starts d' = db_starts d \<Longrightarrow> starts_kept d d'"
  by (auto simp: starts_kept_def start_of_def)

lemma start_of_put [simp]: "start_of (put_start sid st d) s = (if s = sid then Some st else start_of d s)"
  by (simp add: start_of_def put_start_def)

lemma starts_kept_put:
  assumes "\<And>st0. start_of d sid = Some st0 \<Longrightarrow> start_kept st0 st"
  shows "starts_kept d (put_start sid st d)"
  using assms by (auto simp: starts_kept_def)

lemma put_start_frame [simp]:
  "db_sessions (put_start sid st d) = db_sessions d" "db_terminal (put_start sid st d) = db_terminal d"
  "db_progress (put_start sid st d) = db_progress d" "db_board_seq (put_start sid st d) = db_board_seq d"
  by (simp_all add: put_start_def)

text \<open>The ledger changes starts only.\<close>

definition ledger_frame :: "db \<Rightarrow> db \<Rightarrow> bool" where
  "ledger_frame d d' \<longleftrightarrow> starts_kept d d' \<and> db_sessions d' = db_sessions d \<and> db_terminal d' = db_terminal d \<and>
     db_progress d' = db_progress d \<and> db_board_seq d' = db_board_seq d"

lemma ledger_frame_put:
  "(\<And>st0. start_of d sid = Some st0 \<Longrightarrow> start_kept st0 st) \<Longrightarrow> ledger_frame d (put_start sid st d)"
  by (simp add: ledger_frame_def starts_kept_put)

lemma reserve_frame:
  assumes "reserve k ow orc fp sid now d = Inr (d', r)"
  shows "ledger_frame d d'"
  using assms
proof (cases rule: reserve_cases)
  case new
  then show ?thesis by (auto intro!: ledger_frame_put)
qed (simp add: ledger_frame_def starts_kept_refl)

lemma assign_generation_frame:
  assumes "assign_generation sid g e d = Inr (d', u)"
  shows "ledger_frame d d'"
  using assms
proof (cases rule: assign_generation_cases)
  case (1 g' e' st)
  then show ?thesis by (auto intro!: ledger_frame_put simp: start_kept_def)
qed

lemma commit_frame:
  assumes ok: "db_ok d" and c: "commit sid g e d = Inr (d', u)"
  shows "ledger_frame d d'"
  using c
proof (cases rule: commit_cases)
  case (1 g' e' st)
  have "st_state st \<in> {''starting'', ''started''}" using start_of_ok [OF ok 1(3)] 1(4) by (auto simp: start_ok_def)
  with 1 show ?thesis by (auto intro!: ledger_frame_put simp: start_kept_def)
qed

lemma fail_start_frame:
  assumes ok: "db_ok d" and c: "fail_start sid why d = Inr (d', u)"
  shows "ledger_frame d d'"
  using c
proof (cases rule: fail_start_cases)
  case (failed st w)
  have "st_state st = ''starting''" using start_of_ok [OF ok failed(2)] failed(3,4) by (auto simp: start_ok_def)
  with failed show ?thesis by (auto intro!: ledger_frame_put simp: start_kept_def)
qed (simp add: ledger_frame_def starts_kept_refl)

section \<open>Boards\<close>

definition owner_board :: "string \<Rightarrow> db \<Rightarrow> (string \<times> terminal_row) set" where
  "owner_board o' d = {(sid, te). owner_of_session d sid = Some o' \<and> map_of (db_terminal d) sid = Some te \<and> on_the_board te}"

definition board_seq :: "db \<Rightarrow> string \<Rightarrow> int" where
  "board_seq d o' = (case map_of (db_board_seq d) o' of None \<Rightarrow> 0 | Some n \<Rightarrow> n)"

lemma board_seq_other [simp]:
  "board_seq (db_terminal_update f d) o' = board_seq d o'" "board_seq (db_progress_update g d) o' = board_seq d o'"
  by (simp_all add: board_seq_def)

lemma board_seq_bump [simp]: "board_seq (bump_board_seq o' d) x = board_seq d x + (if x = o' then 1 else 0)"
  by (simp add: board_seq_def bump_board_seq_def split: option.split)

lemma fold_bump_frame [simp]:
  "db_starts (fold bump_board_seq os d) = db_starts d" "db_sessions (fold bump_board_seq os d) = db_sessions d"
  "db_terminal (fold bump_board_seq os d) = db_terminal d" "db_progress (fold bump_board_seq os d) = db_progress d"
  by (induction os arbitrary: d) simp_all

lemma board_seq_fold_bump: "board_seq (fold bump_board_seq os d) x = board_seq d x + int (count_list os x)"
  by (induction os arbitrary: d) simp_all

lemma get_owner_board_seq_eq: "o' \<noteq> [] \<Longrightarrow> get_owner_board_seq (VStr o') d = Inr (board_seq d o')"
  by (simp add: get_owner_board_seq_def board_seq_def nonempty_text_def)

definition board_step_ok :: "db \<Rightarrow> db \<Rightarrow> bool" where
  "board_step_ok d d' \<longleftrightarrow> (\<forall>o'. board_seq d o' \<le> board_seq d' o' \<and>
     (board_seq d' o' = board_seq d o' \<longrightarrow> owner_board o' d' = owner_board o' d))"

lemma board_step_same:
  assumes "same_records d d'"
  shows "board_step_ok d d'"
  using assms by (simp add: board_step_ok_def same_records_def board_seq_def owner_board_def owner_of_session_def start_of_def)

lemma terminal_start:
  assumes "db_ok d" "map_of (db_terminal d) sid = Some te"
  obtains st se where "start_of d sid = Some st" "map_of (db_sessions d) sid = Some se"
    "st_generation_id st \<noteq> None" "st_state st \<noteq> ''failed''" "receipt_ok te"
proof -
  obtain se where se: "map_of (db_sessions d) sid = Some se" and r: "receipt_ok te"
    using db_okD(3) [OF assms(1)] assms(2) unfolding terminal_ok_def by blast
  obtain st where "map_of (db_starts d) sid = Some st" "st_generation_id st \<noteq> None" "st_state st \<noteq> ''failed''"
    using db_okD(2) [OF assms(1)] se unfolding sessions_ok_def by blast
  with se r show thesis by (intro that) (simp_all add: start_of_def)
qed

lemma board_step_ledger:
  assumes ok: "db_ok d" and f: "ledger_frame d d'"
  shows "board_step_ok d d'"
proof -
  have o: "owner_of_session d' sid = owner_of_session d sid" if t: "map_of (db_terminal d) sid = Some te" for sid te
  proof -
    from terminal_start [OF ok t] obtain st where "start_of d sid = Some st" by blast
    moreover with f obtain st' where "start_of d' sid = Some st'" "start_kept st st'"
      unfolding ledger_frame_def by (blast dest: starts_keptD)
    ultimately show ?thesis by (simp add: owner_of_session_def start_kept_def)
  qed
  have "owner_board o' d' = owner_board o' d" for o'
    using f o by (auto simp: owner_board_def ledger_frame_def)
  with f show ?thesis by (simp add: board_step_ok_def ledger_frame_def board_seq_def)
qed

text \<open>Changing terminal rows of one owner's sessions, with a bump for that owner.\<close>

lemma board_step_rows:
  assumes starts: "db_starts d' = db_starts d"
    and rows: "\<And>sid. map_of (db_terminal d') sid \<noteq> map_of (db_terminal d) sid \<Longrightarrow>
       \<exists>o'. owner_of_session d sid = Some o' \<and> board_seq d o' < board_seq d' o'"
    and up: "\<And>o'. board_seq d o' \<le> board_seq d' o'"
  shows "board_step_ok d d'"
proof -
  have o: "owner_of_session d' sid = owner_of_session d sid" for sid
    by (simp add: owner_of_session_def start_of_def starts)
  have "owner_board o' d' = owner_board o' d" if "board_seq d' o' = board_seq d o'" for o'
  proof -
    have "map_of (db_terminal d') sid = map_of (db_terminal d) sid" if "owner_of_session d sid = Some o'" for sid
      using rows [of sid] that \<open>board_seq d' o' = board_seq d o'\<close> by fastforce
    then show ?thesis by (auto simp: owner_board_def o)
  qed
  with up show ?thesis by (simp add: board_step_ok_def)
qed

lemma board_step_put_terminal:
  assumes "put_terminal sid kind summary ended clock d = Inr (d', u)"
  shows "board_step_ok d d'"
  using assms
proof (cases rule: put_terminal_cases)
  case (new st se te k sm en now ep)
  show ?thesis
    unfolding new(10)
    by (rule board_step_rows) (use new(1) in \<open>auto simp: owner_of_session_def split: if_splits\<close>)
qed (simp add: board_step_same)

lemma board_step_ack:
  assumes "ack_terminal sid owner clock d = Inr (d', r)"
  shows "board_step_ok d d'"
  using assms
proof (cases rule: ack_terminal_cases)
  case (new st te now)
  show ?thesis
    unfolding new(7)
    by (rule board_step_rows) (use new(1,2) in \<open>auto simp: owner_of_session_def split: if_splits\<close>)
qed (simp add: board_step_same)

lemma prune_rows:
  assumes ok: "db_ok d"
    and t1: "t1 = fst (expire_rows now ''age'' (aged now max_age) (db_terminal d))"
    and t2: "t2 = fst (expire_rows now ''count'' (\<lambda>sid te. sid \<in> set over) t1)"
    and over: "over = over_count c (d\<lparr>db_terminal := t1\<rparr>)"
    and te: "map_of (db_terminal d) sid = Some te"
  shows "map_of t2 sid = Some (if aged now max_age sid te then expired_row now ''age'' te
       else if sid \<in> set over then expired_row now ''count'' te else te)"
    "sid \<in> set over \<Longrightarrow> \<not> aged now max_age sid te \<and> on_the_board te"
proof -
  have d1: "dict_ok t1" using db_okD(3) [OF ok] by (simp add: terminal_ok_def t1)
  have m1: "map_of t1 sid = Some (if aged now max_age sid te then expired_row now ''age'' te else te)"
    by (simp add: t1 expire_rows_map_of te)
  show o: "sid \<in> set over \<Longrightarrow> \<not> aged now max_age sid te \<and> on_the_board te"
    using m1 d1 by (auto simp: over over_count_mem on_the_board_def split: if_splits)
  show "map_of t2 sid = Some (if aged now max_age sid te then expired_row now ''age'' te
       else if sid \<in> set over then expired_row now ''count'' te else te)"
    using o by (auto simp: t2 expire_rows_map_of m1)
qed

lemma board_step_prune:
  assumes ok: "db_ok d" and p: "prune_terminal age cnt clock d = Inr (d', n)"
  shows "board_step_ok d d'"
  using p
proof (cases rule: prune_terminal_cases)
  case (1 max_age c now t1 over owners)
  let ?t2 = "fst (expire_rows now ''count'' (\<lambda>sid te. sid \<in> set over) t1)"
  have dt: "dict_ok (db_terminal d)" using db_okD(3) [OF ok] by (simp add: terminal_ok_def)
  have d1: "dict_ok t1" using dt by (simp add: 1(5))
  have d2: "dict_ok ?t2" using d1 by simp
  show ?thesis
  proof (rule board_step_rows)
    show "db_starts d' = db_starts d" by (simp add: 1(7))
    show "board_seq d o' \<le> board_seq d' o'" for o' by (simp add: 1(7) board_seq_fold_bump)
    fix sid
    assume ne: "map_of (db_terminal d') sid \<noteq> map_of (db_terminal d) sid"
    have t': "map_of (db_terminal d') sid = map_of ?t2 sid" by (simp add: 1(7))
    obtain te where te: "map_of (db_terminal d) sid = Some te"
      using ne by (cases "map_of (db_terminal d) sid") (auto simp: t' expire_rows_map_of 1(5))
    note m2 = prune_rows [OF ok 1(5) refl 1(6) te]
    have sel: "aged now max_age sid te \<or> sid \<in> set over" using ne by (auto simp: t' m2(1) te split: if_splits)
    have ids: "sid \<in> set (snd (expire_rows now ''age'' (aged now max_age) (db_terminal d))
              @ snd (expire_rows now ''count'' (\<lambda>sid te. sid \<in> set over) t1))"
      using sel te m2(2) unfolding set_append Un_iff expire_rows_ids [OF dt] expire_rows_ids [OF d1]
      by (auto simp: 1(5) expire_rows_map_of)
    from terminal_start [OF ok te] obtain st where st: "start_of d sid = Some st" by blast
    have "st_owner_id st \<in> set owners"
      unfolding 1(9) using ids m2(1) st by (auto simp only: joined_mem [OF d2])
    then have "board_seq d (st_owner_id st) < board_seq d' (st_owner_id st)"
      by (simp add: 1(7) board_seq_fold_bump count_list_0_iff zero_less_iff_neq_zero)
    with st show "\<exists>o'. owner_of_session d sid = Some o' \<and> board_seq d o' < board_seq d' o'"
      by (auto simp: owner_of_session_def)
  qed
qed

section \<open>Garbage collection\<close>

definition collectable :: "db \<Rightarrow> string \<Rightarrow> bool" where
  "collectable d sid \<longleftrightarrow>
     (\<exists>st g gen. start_of d sid = Some st \<and> st_generation_id st = Some g \<and> map_of (db_generations d) g = Some gen \<and>
        gr_lifecycle_state gen = ''retired'' \<and> store_oracle d g = Inr []) \<and>
     (\<forall>te. map_of (db_terminal d) sid = Some te \<longrightarrow> \<not> on_the_board te)"

definition same_at :: "string \<Rightarrow> db \<Rightarrow> db \<Rightarrow> bool" where
  "same_at sid d d' \<longleftrightarrow> start_of d' sid = start_of d sid \<and> map_of (db_sessions d') sid = map_of (db_sessions d) sid \<and>
     map_of (db_terminal d') sid = map_of (db_terminal d) sid"

definition collected_at :: "rat \<Rightarrow> pyval \<Rightarrow> string \<Rightarrow> db \<Rightarrow> db \<Rightarrow> bool" where
  "collected_at now h sid d d' \<longleftrightarrow> collectable d sid \<and> map_of (db_sessions d') sid = None \<and> map_of (db_terminal d') sid = None \<and>
     (\<exists>st. start_of d sid = Some st \<and>
        start_of d' sid = (if past_horizon now (st_created_at st) h then None else Some st))"

definition gc_related :: "rat \<Rightarrow> pyval \<Rightarrow> db \<Rightarrow> db \<Rightarrow> bool" where
  "gc_related now h d d' \<longleftrightarrow> db_epochs d' = db_epochs d \<and> db_generations d' = db_generations d \<and>
     db_progress d' = db_progress d \<and> db_board_seq d' = db_board_seq d \<and>
     (\<forall>sid. same_at sid d d' \<or> collected_at now h sid d d')"

lemma gc_related_refl [simp]: "gc_related now h d d"
  by (simp add: gc_related_def same_at_def)

lemma store_oracle_frame:
  assumes "db_epochs d' = db_epochs d" "db_generations d' = db_generations d" "db_progress d' = db_progress d"
  shows "store_oracle d' g = store_oracle d g"
proof -
  have "(\<lambda>g. get_generation (VStr g) d') = (\<lambda>g. get_generation (VStr g) d)"
    "(\<lambda>g. list_epochs (VStr g) d') = (\<lambda>g. list_epochs (VStr g) d)"
    "(\<lambda>e. get_generation_confirmed_high_water (VStr e) d') = (\<lambda>e. get_generation_confirmed_high_water (VStr e) d)"
    using assms by (simp_all add: fun_eq_iff get_generation_def list_epochs_def epochs_of_def
        get_generation_confirmed_high_water_def progress_of_def)
  then show ?thesis by (simp add: store_oracle_def)
qed

lemma collectable_same:
  assumes "same_at sid d d1" "db_epochs d1 = db_epochs d" "db_generations d1 = db_generations d" "db_progress d1 = db_progress d"
  shows "collectable d1 sid = collectable d sid"
  using assms(1) unfolding collectable_def same_at_def store_oracle_frame [OF assms(2-4)] assms(3) by simp

lemma collectable_back:
  assumes g: "gc_related now h d d1" and c: "collectable d1 sid"
  shows "collectable d sid"
proof -
  have frame: "db_epochs d1 = db_epochs d" "db_generations d1 = db_generations d" "db_progress d1 = db_progress d"
    using g by (simp_all add: gc_related_def)
  consider "same_at sid d d1" | "collected_at now h sid d d1" using g unfolding gc_related_def by blast
  then show ?thesis
  proof cases
    case 1
    with c show ?thesis by (simp add: collectable_same [OF _ frame])
  qed (simp add: collected_at_def)
qed

lemma gc_related_trans:
  assumes a: "gc_related now h d d1" and b: "gc_related now h d1 d2"
  shows "gc_related now h d d2"
proof -
  have "same_at sid d d2 \<or> collected_at now h sid d d2" for sid
  proof -
    consider (ss) "same_at sid d d1" "same_at sid d1 d2" | (sc) "same_at sid d d1" "collected_at now h sid d1 d2"
      | (cs) "collected_at now h sid d d1" "same_at sid d1 d2" | (cc) "collected_at now h sid d d1" "collected_at now h sid d1 d2"
      using a b unfolding gc_related_def by blast
    then show ?thesis
    proof cases
      case ss
      then show ?thesis by (simp add: same_at_def)
    next
      case sc
      then have "collectable d1 sid" by (simp add: collected_at_def)
      from collectable_back [OF a this] sc show ?thesis by (simp add: collected_at_def same_at_def)
    next
      case cs
      then show ?thesis by (simp add: collected_at_def same_at_def)
    next
      case cc
      then show ?thesis by (auto simp: collected_at_def split: if_splits)
    qed
  qed
  with a b show ?thesis by (simp add: gc_related_def)
qed

lemma gc_session_related:
  assumes c: "collectable d (fst row)" and st: "start_of d (fst row) = Some (snd row)"
  shows "gc_related now h d (snd (gc_session now h row (s, d)))"
proof -
  have "same_at sid d (snd (gc_session now h row (s, d))) \<or> collected_at now h sid d (snd (gc_session now h row (s, d)))" for sid
  proof (cases "sid = fst row")
    case True
    with c st show ?thesis by (auto simp: collected_at_def gc_session_def Let_def start_of_def)
  next
    case False
    then show ?thesis by (simp add: same_at_def gc_session_def Let_def start_of_def)
  qed
  then show ?thesis unfolding gc_related_def by (auto simp: gc_session_def Let_def)
qed

text \<open>Collecting the sessions of one generation, each at most once.\<close>

lemma gc_fold_related:
  assumes "distinct (map fst rows)" "\<And>row. row \<in> set rows \<Longrightarrow> collectable d (fst row) \<and> start_of d (fst row) = Some (snd row)"
  shows "gc_related now h d (snd (fold (gc_session now h) rows (s, d)))"
  using assms
proof (induction rows arbitrary: s d)
  case (Cons row rows)
  let ?sd = "gc_session now h row (s, d)"
  have r: "gc_related now h d (snd ?sd)" by (rule gc_session_related) (use Cons.prems(2) in auto)
  have frame: "db_epochs (snd ?sd) = db_epochs d" "db_generations (snd ?sd) = db_generations d" "db_progress (snd ?sd) = db_progress d"
    using r by (simp_all add: gc_related_def)
  have "collectable (snd ?sd) (fst x) \<and> start_of (snd ?sd) (fst x) = Some (snd x)" if x: "x \<in> set rows" for x
  proof -
    have "fst x \<in> fst ` set rows" using x by (rule imageI)
    moreover have "fst row \<notin> fst ` set rows" using Cons.prems(1) by simp
    ultimately have "fst x \<noteq> fst row" by metis
    then have "same_at (fst x) d (snd ?sd)" by (simp add: same_at_def gc_session_def Let_def start_of_def)
    moreover have "collectable d (fst x) \<and> start_of d (fst x) = Some (snd x)" using Cons.prems(2) x by simp
    ultimately show ?thesis by (simp add: collectable_same [OF _ frame] same_at_def)
  qed
  then have "gc_related now h (snd ?sd) (snd (fold (gc_session now h) rows (fst ?sd, snd ?sd)))"
    using Cons.prems(1) by (intro Cons.IH) auto
  with r show ?case by (auto intro: gc_related_trans)
qed simp

lemma generation_starts_mem:
  assumes "db_ok d"
  shows "row \<in> set (generation_starts g d) \<longleftrightarrow> start_of d (fst row) = Some (snd row) \<and> st_generation_id (snd row) = Some g"
proof -
  have "row \<in> set (generation_starts g d) \<longleftrightarrow> (fst row, snd row) \<in> set (db_starts d) \<and> st_generation_id (snd row) = Some g"
    by (auto simp: generation_starts_def)
  then show ?thesis unfolding dict_set_conv [OF starts_dict [OF assms]] start_of_def .
qed

lemma unresolved_terminal_iff:
  assumes "db_ok d"
  shows "unresolved_terminal g d \<longleftrightarrow> (\<exists>sid st te. start_of d sid = Some st \<and> st_generation_id st = Some g \<and>
     map_of (db_terminal d) sid = Some te \<and> on_the_board te)"
proof -
  have ok: "dict_ok (db_terminal d)" using db_okD(3) [OF assms] by (simp add: terminal_ok_def)
  have "unresolved_terminal g d \<longleftrightarrow> (\<exists>sid st te. (sid, st, te) \<in> set (joined d (db_terminal d)) \<and>
      st_generation_id st = Some g \<and> on_the_board te)"
    by (auto simp: unresolved_terminal_def list_ex_iff Bex_def)
  then show ?thesis unfolding joined_mem [OF ok] by blast
qed

lemma gc_generation_related:
  assumes ok: "db_ok d" and gen: "map_of (db_generations d) (gr_generation_id gen) = Some gen"
  shows "gc_related now h d (snd (snd (gc_generation now h gen (s, d))))"
proof -
  let ?g = "gr_generation_id gen"
  have dist: "distinct (map fst (generation_starts ?g d))"
    using starts_dict [OF ok] unfolding generation_starts_def by (rule distinct_map_filter)
  have "gc_related now h d (snd (fold (gc_session now h) (generation_starts ?g d) (s', d)))"
    if r: "gr_lifecycle_state gen = ''retired''" "store_oracle d ?g = Inr []" "\<not> unresolved_terminal ?g d" for s'
  proof (rule gc_fold_related [OF dist])
    fix row
    assume "row \<in> set (generation_starts ?g d)"
    then have row: "start_of d (fst row) = Some (snd row)" "st_generation_id (snd row) = Some ?g"
      by (simp_all add: generation_starts_mem [OF ok])
    with r gen show "collectable d (fst row) \<and> start_of d (fst row) = Some (snd row)"
      unfolding collectable_def unresolved_terminal_iff [OF ok] by blast
  qed
  then show ?thesis by (auto simp: gc_generation_def Let_def split: sum.split)
qed

lemma gc_generations_related:
  assumes "db_ok d" "\<And>gen. gen \<in> set gens \<Longrightarrow> map_of (db_generations d) (gr_generation_id gen) = Some gen"
  shows "gc_related now h d (snd (snd (gc_generations now h gens (s, d))))"
  using assms
proof (induction gens arbitrary: s d)
  case (Cons gen gens)
  obtain r s1 d1 where r: "gc_generation now h gen (s, d) = (r, s1, d1)"
    by (cases "gc_generation now h gen (s, d)") auto
  have g: "gc_related now h d d1" using gc_generation_related [OF Cons.prems(1), of gen now h s] Cons.prems(2) by (simp add: r)
  have ok1: "db_ok d1" using gc_generation_ok [of "(s, d)" now h gen] Cons.prems(1) by (simp add: r)
  have "gc_related now h d1 (snd (snd (gc_generations now h gens (s1, d1))))"
    by (rule Cons.IH [OF ok1]) (use g Cons.prems(2) in \<open>simp add: gc_related_def\<close>)
  with g show ?case by (auto simp: r split: sum.split intro: gc_related_trans)
qed simp

lemma decode_generations:
  "decode_all (map (\<lambda>r. generation_from_dict (VDict (generation_to_dict r))) rs) = Inr xs \<Longrightarrow> xs = rs"
  by (induction rs arbitrary: xs) (auto simp: generation_from_to_dict decode_stored_def split: if_splits)

lemma list_generations_mem:
  assumes ok: "db_ok d" and l: "list_generations d = Inr gens" and g: "gen \<in> set gens"
  shows "map_of (db_generations d) (gr_generation_id gen) = Some gen"
proof -
  have dg: "dict_ok (db_generations d)" using db_okD(6) [OF ok] by (simp add: generations_ok_def)
  have "gen \<in> set (map snd (db_generations d))"
    using decode_generations [OF l [unfolded list_generations_def]] g by simp
  then obtain k where k: "map_of (db_generations d) k = Some gen" by (auto simp: dict_set_conv [OF dg])
  with generation_row_ok(1) [OF ok k] show ?thesis by simp
qed

lemma gc_retired_related:
  assumes ok: "db_ok d"
  obtains "snd (gc_retired_generations h clock d) = d"
  | now where "moment clock = Inr now" "gc_related now h d (snd (gc_retired_generations h clock d))"
proof (cases "horizon_ok h")
  case False
  then show thesis by (intro that(1)) (simp add: gc_retired_generations_def)
next
  case True
  show thesis
  proof (cases "rbind (moment clock) (\<lambda>now. rbind (list_generations d) (\<lambda>gens. Inr (now, gens)))")
    case (Inl e)
    with True show thesis by (intro that(1)) (simp add: gc_retired_generations_def)
  next
    case (Inr p)
    obtain now gens where p: "p = (now, gens)" by (cases p)
    have n: "moment clock = Inr now" "list_generations d = Inr gens" using Inr by (auto simp: p)
    have "gc_related now h d (snd (snd (gc_generations now h gens (s, d))))" for s
      by (rule gc_generations_related [OF ok]) (rule list_generations_mem [OF ok n(2)])
    with True show thesis
      by (intro that(2) [OF n(1)]) (simp add: gc_retired_generations_def n case_prod_beta del: rbind_eq_Inr)
  qed
qed

end
