(* ===== verification/Nelix_Store_Evolution.thy ===== *)
theory Nelix_Store_Evolution
  imports Nelix_Store_Frames
begin

text \<open>
  How the store evolves along any run: an owner's board changes only together with its
  sequence number, starts and terminal records keep what was recorded, and the counters
  of an epoch only grow.
\<close>

section \<open>A step never changes a board silently\<close>

lemma board_step_gc:
  assumes "db_ok d"
  shows "board_step_ok d (snd (gc_retired_generations h clock d))"
proof (cases rule: gc_retired_related [OF assms, of h clock])
  case 1
  then show ?thesis by (simp add: board_step_same)
next
  case (2 now)
  let ?d = "snd (gc_retired_generations h clock d)"
  have "(sid, te) \<in> owner_board o' ?d \<longleftrightarrow> (sid, te) \<in> owner_board o' d" for o' sid te
  proof -
    have "same_at sid d ?d \<or> collected_at now h sid d ?d" using 2(2) by (simp add: gc_related_def)
    then show ?thesis
    proof
      assume "same_at sid d ?d"
      then show ?thesis by (simp add: same_at_def owner_board_def owner_of_session_def)
    qed (auto simp: collected_at_def collectable_def owner_board_def)
  qed
  then have "owner_board o' ?d = owner_board o' d" for o' by (simp add: set_eq_iff split_paired_all)
  with 2(2) show ?thesis by (simp add: board_step_ok_def gc_related_def board_seq_def)
qed

lemma session_ops_records:
  "create_session sid state executor task cwd model created d = Inr (d', u) \<Longrightarrow>
     db_starts d' = db_starts d \<and> db_terminal d' = db_terminal d \<and> db_progress d' = db_progress d \<and> db_board_seq d' = db_board_seq d"
  "transition_session sid owner state' expected d = Inr (d', u) \<Longrightarrow>
     db_starts d' = db_starts d \<and> db_terminal d' = db_terminal d \<and> db_progress d' = db_progress d \<and> db_board_seq d' = db_board_seq d"
  by (elim create_session_cases transition_session_cases; simp)+

lemma board_step_same_rows:
  assumes "db_starts d' = db_starts d \<and> db_terminal d' = db_terminal d \<and> db_progress d' = db_progress d \<and> db_board_seq d' = db_board_seq d"
  shows "board_step_ok d d'"
  using assms by (simp add: board_step_ok_def board_seq_def owner_board_def owner_of_session_def start_of_def)

lemma store_step_board:
  assumes ok: "db_ok d"
  shows "board_step_ok d (store_step d op)"
proof (cases "generation_op op")
  case True
  then show ?thesis by (rule board_step_same [OF generation_step_frame])
next
  case False
  have refl: "board_step_ok d d" by (simp add: board_step_same)
  note ledger = board_step_ledger [OF ok]
  note rules = ledger [OF reserve_frame] ledger [OF assign_generation_frame] ledger [OF commit_frame [OF ok]]
    ledger [OF fail_start_frame [OF ok]] board_step_same_rows [OF session_ops_records(1)]
    board_step_same_rows [OF session_ops_records(2)] board_step_put_terminal board_step_ack board_step_prune [OF ok]
  show ?thesis
  proof (cases op)
    case (CollectGarbage h now)
    then show ?thesis by (simp add: board_step_gc [OF ok])
  qed (use False in \<open>simp; fail\<close> | simp only: store_step.simps, rule committed_cases [of "board_step_ok d", OF refl], erule rules)+
qed

lemma store_run_board:
  assumes "db_ok d" "minted_run d ops"
  shows "board_seq d o' \<le> board_seq (store_run d ops) o' \<and>
     (board_seq (store_run d ops) o' = board_seq d o' \<longrightarrow> owner_board o' (store_run d ops) = owner_board o' d)"
  using assms
proof (induction ops arbitrary: d)
  case Nil
  then show ?case by (simp add: store_run_def)
next
  case (Cons op ops)
  let ?d = "store_step d op"
  have s: "board_seq d o' \<le> board_seq ?d o'" "board_seq ?d o' = board_seq d o' \<longrightarrow> owner_board o' ?d = owner_board o' d"
    using store_step_board [OF Cons.prems(1), of op] unfolding board_step_ok_def by blast+
  have "board_seq ?d o' \<le> board_seq (store_run ?d ops) o' \<and>
     (board_seq (store_run ?d ops) o' = board_seq ?d o' \<longrightarrow> owner_board o' (store_run ?d ops) = owner_board o' ?d)"
    by (rule Cons.IH) (use Cons.prems store_step_ok in auto)
  with s show ?case by (auto simp: store_run_def)
qed

section \<open>Starts and terminal records\<close>

fun collects :: "store_op \<Rightarrow> bool" where
  "collects (CollectGarbage _ _) = True"
| "collects _ = False"

text \<open>What a terminal record keeps: everything but its receipt, and that once it has one.\<close>

definition terminal_kept :: "terminal_row \<Rightarrow> terminal_row \<Rightarrow> bool" where
  "terminal_kept te te' \<longleftrightarrow>
     te_terminal_kind te' = te_terminal_kind te \<and> te_summary te' = te_summary te \<and> te_ended_at te' = te_ended_at te \<and>
     te_published_at te' = te_published_at te \<and> te_terminal_seq te' = te_terminal_seq te \<and>
     te_schema_version te' = te_schema_version te \<and> (\<not> on_the_board te \<longrightarrow> te' = te)"

definition kept :: "db \<Rightarrow> db \<Rightarrow> bool" where
  "kept d d' \<longleftrightarrow> starts_kept d d' \<and>
     (\<forall>sid te. map_of (db_terminal d) sid = Some te \<longrightarrow>
        (\<exists>te'. map_of (db_terminal d') sid = Some te' \<and> terminal_kept te te')) \<and>
     (\<forall>sid se. map_of (db_sessions d) sid = Some se \<longrightarrow> (\<exists>se'. map_of (db_sessions d') sid = Some se')) \<and>
     (\<forall>e. pr_next_terminal_seq (progress_of d e) \<le> pr_next_terminal_seq (progress_of d' e))"

lemma terminal_kept_refl [simp]: "terminal_kept te te"
  by (simp add: terminal_kept_def)

lemma terminal_kept_trans: "terminal_kept a b \<Longrightarrow> terminal_kept b c \<Longrightarrow> terminal_kept a c"
  by (auto simp: terminal_kept_def on_the_board_def)

lemma keptD:
  assumes "kept d d'"
  shows "start_of d sid = Some st \<Longrightarrow> \<exists>st'. start_of d' sid = Some st' \<and> start_kept st st'"
    "map_of (db_terminal d) sid = Some te \<Longrightarrow> \<exists>te'. map_of (db_terminal d') sid = Some te' \<and> terminal_kept te te'"
    "map_of (db_sessions d) sid = Some se \<Longrightarrow> \<exists>se'. map_of (db_sessions d') sid = Some se'"
    "pr_next_terminal_seq (progress_of d e) \<le> pr_next_terminal_seq (progress_of d' e)"
  using assms unfolding kept_def by (blast dest: starts_keptD)+

lemma kept_refl [simp]: "kept d d"
  by (auto simp: kept_def starts_kept_refl)

lemma kept_trans:
  assumes a: "kept d d1" and b: "kept d1 d2"
  shows "kept d d2"
  unfolding kept_def starts_kept_def
proof (intro conjI allI impI)
  fix sid st assume "start_of d sid = Some st"
  with keptD(1) [OF a] keptD(1) [OF b] show "\<exists>st'. start_of d2 sid = Some st' \<and> start_kept st st'"
    using start_kept_trans by blast
next
  fix sid te assume "map_of (db_terminal d) sid = Some te"
  with keptD(2) [OF a] keptD(2) [OF b] show "\<exists>te'. map_of (db_terminal d2) sid = Some te' \<and> terminal_kept te te'"
    using terminal_kept_trans by blast
next
  fix sid se assume "map_of (db_sessions d) sid = Some se"
  with keptD(3) [OF a] keptD(3) [OF b] show "\<exists>se'. map_of (db_sessions d2) sid = Some se'" by blast
next
  fix e show "pr_next_terminal_seq (progress_of d e) \<le> pr_next_terminal_seq (progress_of d2 e)"
    using keptD(4) [OF a] keptD(4) [OF b] by (rule order_trans)
qed

lemma progress_of_frame: "db_progress d' = db_progress d \<Longrightarrow> progress_of d' e = progress_of d e"
  by (simp add: progress_of_def)

lemma kept_ledger: "ledger_frame d d' \<Longrightarrow> kept d d'"
  by (auto simp: kept_def ledger_frame_def progress_of_def)

lemma kept_records: "same_records d d' \<and> db_progress d' = db_progress d \<Longrightarrow> kept d d'"
  by (auto simp: kept_def same_records_def starts_kept_refl progress_of_def)

lemma kept_confirm: "kept d (snd (set_generation_confirmed_high_water e n d))"
  by (auto simp: kept_def starts_kept_refl confirm_progress split: sum.split)

lemma kept_create_session:
  assumes "create_session sid state executor task cwd model created d = Inr (d', u)"
  shows "kept d d'"
  using assms by (elim create_session_cases) (auto simp: kept_def starts_kept_refl progress_of_def)

lemma kept_transition_session:
  assumes "transition_session sid owner state expected d = Inr (d', u)"
  shows "kept d d'"
  using assms by (elim transition_session_cases) (auto simp: kept_def starts_kept_refl progress_of_def)

lemma kept_put_terminal:
  assumes "put_terminal sid kind summary ended clock d = Inr (d', u)"
  shows "kept d d'"
  using assms
proof (cases rule: put_terminal_cases)
  case (new st se te k sm en now ep)
  then show ?thesis by (auto simp: kept_def starts_kept_refl progress_of_def)
qed simp

lemma kept_ack_terminal:
  assumes "ack_terminal sid owner clock d = Inr (d', r)"
  shows "kept d d'"
  using assms
proof (cases rule: ack_terminal_cases)
  case (new st te now)
  then show ?thesis by (auto simp: kept_def starts_kept_refl progress_of_def terminal_kept_def)
qed simp

lemma kept_prune_terminal:
  assumes ok: "db_ok d" and p: "prune_terminal age cnt clock d = Inr (d', n)"
  shows "kept d d'"
  using p
proof (cases rule: prune_terminal_cases)
  case (1 max_age c now t1 over owners)
  have "\<exists>te'. map_of (db_terminal d') sid = Some te' \<and> terminal_kept te te'" if te: "map_of (db_terminal d) sid = Some te" for sid te
    using prune_rows [OF ok 1(5) refl 1(6) te] by (auto simp: 1(7) terminal_kept_def aged_def)
  then show ?thesis by (auto simp: kept_def starts_kept_refl progress_of_def 1(7))
qed

lemma store_step_kept:
  assumes ok: "db_ok d" and nc: "\<not> collects op"
  shows "kept d (store_step d op)"
proof -
  note rules = kept_ledger [OF reserve_frame] kept_ledger [OF assign_generation_frame] kept_ledger [OF commit_frame [OF ok]]
    kept_ledger [OF fail_start_frame [OF ok]] kept_create_session kept_transition_session kept_put_terminal
    kept_ack_terminal kept_prune_terminal [OF ok] kept_records [OF generation_op_frames(1)]
    kept_records [OF generation_op_frames(2)] kept_records [OF generation_op_frames(3)] kept_records [OF generation_op_frames(4)]
    kept_records [OF generation_op_frames(5)] kept_records [OF generation_update_frames(1)]
    kept_records [OF generation_update_frames(2)] kept_records [OF generation_update_frames(3)] kept_records [OF flip_frame]
    kept_records [OF reconcile_frame]
  show ?thesis
  proof (cases op)
    case (ConfirmHighWater e n)
    then show ?thesis by (simp add: kept_confirm)
  next
    case (CollectGarbage h now)
    with nc show ?thesis by simp
  qed (simp only: store_step.simps, rule committed_cases [of "kept d", OF kept_refl], erule rules)+
qed

lemma store_run_kept:
  assumes "db_ok d" "minted_run d ops" "list_all (\<lambda>op. \<not> collects op) ops"
  shows "kept d (store_run d ops)"
  using assms
proof (induction ops arbitrary: d)
  case Nil
  then show ?case by (simp add: store_run_def)
next
  case (Cons op ops)
  have "kept (store_step d op) (store_run (store_step d op) ops)"
    by (rule Cons.IH) (use Cons.prems store_step_ok in auto)
  moreover have "kept d (store_step d op)" by (rule store_step_kept) (use Cons.prems in auto)
  ultimately show ?case using kept_trans by (auto simp: store_run_def)
qed

end
