(* ===== verification/Nelix_Store_Props.thy ===== *)
theory Nelix_Store_Props
  imports Nelix_Store_Evolution
begin

text \<open>
  The properties of the start ledger and of sessions, over every database the store can
  reach, and the demonstration run their witnesses use.
\<close>

section \<open>A demonstration run\<close>

abbreviation at_time :: "rat \<Rightarrow> pyval" where
  "at_time t \<equiv> VFloat (Fin t)"

definition demo_sid :: string where
  "demo_sid = new_session_id (replicate 32 (CHR ''a''))"

definition demo_orch :: string where
  "demo_orch = new_orchestration_id (replicate 32 (CHR ''b''))"

definition demo_gid :: string where
  "demo_gid = new_generation_id (replicate 32 (CHR ''c''))"

definition demo_epoch :: string where
  "demo_epoch = new_generation_id (replicate 32 (CHR ''d''))"

definition demo_setup :: "store_op list" where
  "demo_setup =
     [CreateGeneration (VStr demo_gid) VNone (VStr ''active'') VNone (at_time 0),
      InsertEpoch (VStr demo_epoch) (VStr demo_gid) VNone (at_time 0),
      CasEpochServing (VStr demo_gid) (VStr demo_epoch) None VNone]"

definition demo_reserve :: "store_op list" where
  "demo_reserve = [Reserve (VStr ''key'') (VStr ''alice'') (VStr demo_orch) (VStr ''fp'') demo_sid (at_time 1)]"

definition demo_start :: "store_op list" where
  "demo_start =
     [AssignGeneration demo_sid (VStr demo_gid) (VStr demo_epoch),
      CreateSession demo_sid (VStr ''running'') (VStr ''claude'') (VStr ''task'') (VStr ''/work'') VNone (at_time 2),
      Commit demo_sid (VStr demo_gid) (VStr demo_epoch)]"

definition demo_publish :: "store_op list" where
  "demo_publish = [PutTerminal demo_sid (VStr ''completed'') (VStr ''done'') (at_time 3) (at_time 4)]"

definition demo_ready :: db where
  "demo_ready = store_run empty_db demo_setup"

definition demo_reserved :: db where
  "demo_reserved = store_run demo_ready demo_reserve"

definition demo_started :: db where
  "demo_started = store_run demo_reserved demo_start"

definition demo_published :: db where
  "demo_published = store_run demo_started demo_publish"

lemma demo_reachable:
  "store_reachable demo_ready" "store_reachable demo_reserved" "store_reachable demo_started" "store_reachable demo_published"
proof -
  show a: "store_reachable demo_ready"
    unfolding demo_ready_def by (rule store_reachable_from_empty) code_simp
  show b: "store_reachable demo_reserved"
    unfolding demo_reserved_def by (rule store_reachable_run [OF a]) code_simp
  show c: "store_reachable demo_started"
    unfolding demo_started_def by (rule store_reachable_run [OF b]) code_simp
  show "store_reachable demo_published"
    unfolding demo_published_def by (rule store_reachable_run [OF c]) code_simp
qed

section \<open>Consistency of every reachable database\<close>

text \<open>
  C34: in every database the store can reach: a start key belongs to one session; a session hangs on a
  start that has a generation and did not fail; a terminal record has a session, and is acknowledged or
  expired but never both; a generation has at most one serving epoch, and its current epoch is one of its
  own epochs.
\<close>
theorem store_is_consistent:
  assumes "store_reachable d"
  shows "(\<forall>s1 s2 t1 t2. start_of d s1 = Some t1 \<longrightarrow> start_of d s2 = Some t2 \<longrightarrow>
            st_owner_id t1 = st_owner_id t2 \<longrightarrow> st_idempotency_key t1 = st_idempotency_key t2 \<longrightarrow> s1 = s2) \<and>
         (\<forall>sid se. map_of (db_sessions d) sid = Some se \<longrightarrow>
            (\<exists>st. start_of d sid = Some st \<and> st_generation_id st \<noteq> None \<and> st_state st \<noteq> ''failed'')) \<and>
         (\<forall>sid te. map_of (db_terminal d) sid = Some te \<longrightarrow> map_of (db_sessions d) sid \<noteq> None \<and>
            (te_acknowledged_at te = None \<or> te_expired_at te = None)) \<and>
         (\<forall>e1 e2 r1 r2. map_of (db_epochs d) e1 = Some r1 \<longrightarrow> map_of (db_epochs d) e2 = Some r2 \<longrightarrow>
            er_process_state r1 = ''serving'' \<longrightarrow> er_process_state r2 = ''serving'' \<longrightarrow>
            er_generation_id r1 = er_generation_id r2 \<longrightarrow> e1 = e2) \<and>
         (\<forall>g gen e. map_of (db_generations d) g = Some gen \<longrightarrow> gr_current_epoch gen = Some e \<longrightarrow>
            (\<exists>r. map_of (db_epochs d) e = Some r \<and> er_generation_id r = g))"
proof -
  have ok: "db_ok d" by (rule store_reachable_ok [OF assms])
  show ?thesis
  proof (intro conjI)
    show "\<forall>s1 s2 t1 t2. start_of d s1 = Some t1 \<longrightarrow> start_of d s2 = Some t2 \<longrightarrow>
            st_owner_id t1 = st_owner_id t2 \<longrightarrow> st_idempotency_key t1 = st_idempotency_key t2 \<longrightarrow> s1 = s2"
      using db_okD(1) [OF ok] unfolding starts_ok_def start_of_def by blast
    show "\<forall>sid se. map_of (db_sessions d) sid = Some se \<longrightarrow>
            (\<exists>st. start_of d sid = Some st \<and> st_generation_id st \<noteq> None \<and> st_state st \<noteq> ''failed'')"
      using db_okD(2) [OF ok] unfolding sessions_ok_def start_of_def by blast
    show "\<forall>sid te. map_of (db_terminal d) sid = Some te \<longrightarrow> map_of (db_sessions d) sid \<noteq> None \<and>
            (te_acknowledged_at te = None \<or> te_expired_at te = None)"
      using db_okD(3) [OF ok] unfolding terminal_ok_def receipt_ok_def by blast
    show "\<forall>e1 e2 r1 r2. map_of (db_epochs d) e1 = Some r1 \<longrightarrow> map_of (db_epochs d) e2 = Some r2 \<longrightarrow>
            er_process_state r1 = ''serving'' \<longrightarrow> er_process_state r2 = ''serving'' \<longrightarrow>
            er_generation_id r1 = er_generation_id r2 \<longrightarrow> e1 = e2"
      using one_serving [OF ok] by blast
    show "\<forall>g gen e. map_of (db_generations d) g = Some gen \<longrightarrow> gr_current_epoch gen = Some e \<longrightarrow>
            (\<exists>r. map_of (db_epochs d) e = Some r \<and> er_generation_id r = g)"
      using generation_row_ok(4) [OF ok] by blast
  qed
qed

theorem store_is_consistent_witness:
  "map_of (db_sessions demo_published) demo_sid \<noteq> None \<and>
   (\<exists>st. start_of demo_published demo_sid = Some st \<and> st_generation_id st \<noteq> None \<and> st_state st \<noteq> ''failed'')"
proof -
  have t: "map_of (db_terminal demo_published) demo_sid \<noteq> None" by code_simp
  note c = store_is_consistent [OF demo_reachable(4)]
  have "map_of (db_sessions demo_published) demo_sid \<noteq> None" using c t by blast
  with c show ?thesis by blast
qed

section \<open>The start ledger\<close>

text \<open>
  A start binding is immutable. Along any run of the store without garbage collection a start keeps
  its owner, orchestration, idempotency key, fingerprint and time of creation; once a generation is
  assigned it is never another one; once the start is started or failed, its state, generation, epoch and
  reason never change again.
\<close>
theorem start_binding_is_immutable:
  assumes "store_reachable d" "minted_run d ops" "list_all (\<lambda>op. \<not> collects op) ops"
    and "start_of d sid = Some st"
  shows "\<exists>st'. start_of (store_run d ops) sid = Some st' \<and>
     st_owner_id st' = st_owner_id st \<and> st_orchestration_id st' = st_orchestration_id st \<and>
     st_idempotency_key st' = st_idempotency_key st \<and> st_request_fingerprint st' = st_request_fingerprint st \<and>
     st_created_at st' = st_created_at st \<and>
     (st_generation_id st \<noteq> None \<longrightarrow> st_generation_id st' = st_generation_id st) \<and>
     (st_state st \<noteq> ''starting'' \<longrightarrow> st_state st' = st_state st \<and> st_generation_id st' = st_generation_id st \<and>
        st_generation_epoch st' = st_generation_epoch st \<and> st_reason st' = st_reason st)"
  using keptD(1) [OF store_run_kept [OF store_reachable_ok [OF assms(1)] assms(2,3)] assms(4)]
  unfolding start_kept_def .

theorem start_binding_is_immutable_witness:
  "\<exists>st'. start_of (store_run demo_reserved demo_start) demo_sid = Some st' \<and>
     st_owner_id st' = ''alice'' \<and> st_orchestration_id st' = demo_orch"
proof -
  define st where "st = the (start_of demo_reserved demo_sid)"
  have "start_of demo_reserved demo_sid = Some st"
    unfolding st_def by (rule option.collapse [symmetric]) code_simp
  moreover have "st_owner_id st = ''alice''" "st_orchestration_id st = demo_orch" unfolding st_def by code_simp+
  moreover have "minted_run demo_reserved demo_start" "list_all (\<lambda>op. \<not> collects op) demo_start" by code_simp+
  ultimately show ?thesis using start_binding_is_immutable [OF demo_reachable(2)] by metis
qed

lemma find_key_unique:
  assumes ok: "db_ok d" and st: "start_of d sid = Some st"
  shows "find_key (st_owner_id st) (st_idempotency_key st) d = Some (sid, st)"
proof (cases "find_key (st_owner_id st) (st_idempotency_key st) d")
  case None
  with st show ?thesis unfolding find_key_None [OF starts_dict [OF ok]] start_of_def by blast
next
  case (Some p)
  obtain s t where p: "p = (s, t)" by (cases p)
  note f = find_key_Some [OF starts_dict [OF ok] Some [unfolded p]]
  have "s = sid"
    using db_okD(1) [OF ok] f st unfolding starts_ok_def start_of_def by blast
  with f st Some p show ?thesis by simp
qed

lemma row_to_reservation_ok:
  assumes "start_ok sid st"
  shows "row_to_reservation b (sid, st) = Inr \<lparr>rs_session_id = sid, rs_state = st_state st,
    rs_generation_id = st_generation_id st, rs_reason = st_reason st, rs_replay = b\<rparr>"
  using assms
  by (cases "st_generation_id st") (auto simp: row_to_reservation_def start_ok_def stored_id_def validate_id_defs)

lemma reserve_eq_replay:
  assumes ok: "db_ok d" and st: "start_of d s = Some st"
    and ids: "owner = VStr (st_owner_id st)" "key = VStr (st_idempotency_key st)" "match_owner (st_owner_id st)"
    and ok': "match_hex_id (CHR ''o'') r'" "bounded_text key MAX_IDEMPOTENCY_KEY_BYTES = Inr (st_idempotency_key st)"
      "bounded_text fp MAX_REQUEST_FINGERPRINT_BYTES = Inr f" "moment clock = Inr now"
  shows "reserve key owner (VStr r') fp sid clock d =
     (if st_request_fingerprint st \<noteq> f \<or> st_orchestration_id st \<noteq> r' then err IDEMPOTENCY_CONFLICT
      else Inr (d, \<lparr>rs_session_id = s, rs_state = st_state st, rs_generation_id = st_generation_id st,
                    rs_reason = st_reason st, rs_replay = True\<rparr>))"
  using ids ok' find_key_unique [OF ok st] row_to_reservation_ok [OF start_of_ok [OF ok st], of True]
  by (simp add: reserve_def validate_id_defs)

lemma reserve_args:
  assumes "reserve key owner orch fp sid clock d = Inr x"
  obtains o' r' k f where "owner = VStr o'" "match_owner o'" "orch = VStr r'" "match_hex_id (CHR ''o'') r'"
    "bounded_text key MAX_IDEMPOTENCY_KEY_BYTES = Inr k" "key = VStr k"
    "bounded_text fp MAX_REQUEST_FINGERPRINT_BYTES = Inr f" "fp = VStr f"
proof -
  from assms obtain o' r' k f where a: "owner = VStr o'" "match_owner o'" "orch = VStr r'" "match_hex_id (CHR ''o'') r'"
    "bounded_text key MAX_IDEMPOTENCY_KEY_BYTES = Inr k" "bounded_text fp MAX_REQUEST_FINGERPRINT_BYTES = Inr f"
    unfolding reserve_def by (elim rbind_InrE) (simp add: validate_id_defs)
  then have "key = VStr k" "fp = VStr f" by (auto simp: bounded_text_def split: if_splits)
  with a show thesis by (intro that)
qed

lemma reserve_start:
  assumes ok: "db_ok d" and r: "reserve key (VStr o') (VStr r') (VStr f) sid clock d = Inr (d', r)"
  shows "\<exists>st. start_of d' (rs_session_id r) = Some st \<and> st_owner_id st = o' \<and> st_orchestration_id st = r' \<and>
    VStr (st_idempotency_key st) = key \<and> st_request_fingerprint st = f"
  using r
proof (cases rule: reserve_cases)
  case (replay o2 r2 k2 f2 sid' st)
  note k = find_key_Some [OF starts_dict [OF ok] replay(5)]
  have "rs_session_id r = sid'"
    using row_to_reservation_ok [OF start_of_ok [OF ok k(1)], of True] replay(8) by auto
  with k replay show ?thesis by auto
qed auto

text \<open>
  A start is idempotent. Once a start has been reserved (freshly or as a replay), then after any run of
  the store without garbage collection the same request (same key, owner, orchestration and
  fingerprint), with any other freshly minted id and at any later time, is answered with the same session as
  a replay and writes nothing; with the same key but another fingerprint it is refused with
  \<open>IDEMPOTENCY_CONFLICT\<close>.
\<close>
theorem reserve_is_idempotent:
  assumes "store_reachable d" "match_hex_id (CHR ''s'') sid"
    and "reserve key owner orch fp sid clock d = Inr (d1, r)"
    and "minted_run d1 ops" "list_all (\<lambda>op. \<not> collects op) ops" "d2 = store_run d1 ops" "moment clock' = Inr now"
  shows "(\<exists>r'. reserve key owner orch fp sid' clock' d2 = Inr (d2, r') \<and>
            rs_session_id r' = rs_session_id r \<and> rs_replay r') \<and>
         (\<forall>fp' f'. bounded_text fp' MAX_REQUEST_FINGERPRINT_BYTES = Inr f' \<longrightarrow> VStr f' \<noteq> fp \<longrightarrow>
            reserve key owner orch fp' sid' clock' d2 = Inl (NelixError IDEMPOTENCY_CONFLICT))"
proof -
  have ok: "db_ok d" by (rule store_reachable_ok [OF assms(1)])
  have ok1: "db_ok d1" by (rule reserve_ok [OF ok assms(2,3)])
  have ok2: "db_ok d2" unfolding assms(6) by (rule store_run_ok [OF ok1 assms(4)])
  from assms(3) obtain o' r' k f where a: "owner = VStr o'" "match_owner o'" "orch = VStr r'" "match_hex_id (CHR ''o'') r'"
    "bounded_text key MAX_IDEMPOTENCY_KEY_BYTES = Inr k" "key = VStr k"
    "bounded_text fp MAX_REQUEST_FINGERPRINT_BYTES = Inr f" "fp = VStr f"
    by (rule reserve_args)
  from reserve_start [OF ok assms(3) [unfolded a(1,3,8)]] obtain st where st: "start_of d1 (rs_session_id r) = Some st"
    and i: "st_owner_id st = o'" "st_orchestration_id st = r'" "st_idempotency_key st = k" "st_request_fingerprint st = f"
    by (auto simp: a(6))
  from keptD(1) [OF store_run_kept [OF ok1 assms(4,5)] st] obtain st' where
    st': "start_of d2 (rs_session_id r) = Some st'" and kept: "start_kept st st'" unfolding assms(6) by blast
  have i': "st_owner_id st' = o'" "st_orchestration_id st' = r'" "st_idempotency_key st' = k" "st_request_fingerprint st' = f"
    using kept i by (simp_all add: start_kept_def)
  have eq: "reserve key owner orch fp'' sid' clock' d2 =
     (if f'' \<noteq> f then err IDEMPOTENCY_CONFLICT
      else Inr (d2, \<lparr>rs_session_id = rs_session_id r, rs_state = st_state st', rs_generation_id = st_generation_id st',
                    rs_reason = st_reason st', rs_replay = True\<rparr>))"
    if "bounded_text fp'' MAX_REQUEST_FINGERPRINT_BYTES = Inr f''" for fp'' f''
    using reserve_eq_replay [OF ok2 st', of owner key r' fp'' f'' clock' now sid'] a i' that assms(7) by simp
  show ?thesis using eq [OF a(7)] eq a(8) by auto
qed

theorem reserve_is_idempotent_witness:
  "\<exists>r. reserve (VStr ''key'') (VStr ''alice'') (VStr demo_orch) (VStr ''fp'') demo_epoch (at_time 9) demo_published
         = Inr (demo_published, r) \<and> rs_session_id r = demo_sid \<and> rs_replay r"
proof -
  define r where "r = \<lparr>rs_session_id = demo_sid, rs_state = ''starting'', rs_generation_id = None,
    rs_reason = None, rs_replay = False\<rparr>"
  have r: "reserve (VStr ''key'') (VStr ''alice'') (VStr demo_orch) (VStr ''fp'') demo_sid (at_time 1) demo_ready
      = Inr (demo_reserved, r)" unfolding r_def by code_simp
  have p: "demo_published = store_run demo_reserved (demo_start @ demo_publish)" by code_simp
  have m: "minted_run demo_reserved (demo_start @ demo_publish)"
    "list_all (\<lambda>op. \<not> collects op) (demo_start @ demo_publish)" "match_hex_id (CHR ''s'') demo_sid" by code_simp+
  have s: "rs_session_id r = demo_sid" by (simp add: r_def)
  show ?thesis
    using reserve_is_idempotent [OF demo_reachable(1) m(3) r m(1,2) p moment_VFloat, of demo_epoch 9]
    unfolding s by blast
qed

section \<open>Sessions\<close>

text \<open>The record a session row reads as.\<close>

definition session_of :: "string \<Rightarrow> start_row \<Rightarrow> session_row \<Rightarrow> session_record" where
  "session_of sid st se =
     \<lparr>sr_session_id = sid, sr_owner_id = st_owner_id st, sr_orchestration_id = st_orchestration_id st,
      sr_generation_id = the (st_generation_id st), sr_generation_epoch = the (st_generation_epoch st),
      sr_state = se_state se, sr_executor = se_executor se, sr_task = se_task se, sr_cwd = se_cwd se,
      sr_model = se_model se, sr_created_at = se_created_at se, sr_schema_version = se_schema_version se\<rparr>"

lemma session_row_ok:
  assumes "db_ok d" "start_of d sid = Some st" "map_of (db_sessions d) sid = Some se"
  shows "se_schema_version se = SCHEMA_VERSION" "st_generation_id st \<noteq> None" "st_state st \<noteq> ''failed''"
proof -
  have "se_schema_version se = SCHEMA_VERSION \<and>
      (\<exists>st. start_of d sid = Some st \<and> st_generation_id st \<noteq> None \<and> st_state st \<noteq> ''failed'')"
    using db_okD(2) [OF assms(1)] assms(3) unfolding sessions_ok_def start_of_def by blast
  with assms(2) show "se_schema_version se = SCHEMA_VERSION" "st_generation_id st \<noteq> None" "st_state st \<noteq> ''failed''"
    by auto
qed

lemma session_decodes:
  assumes ok: "db_ok d" and st: "start_of d sid = Some st" and se: "map_of (db_sessions d) sid = Some se"
  shows "session_from_dict (VDict (session_select sid st se)) = Inr (session_of sid st se)"
proof -
  have v: "se_schema_version se = SCHEMA_VERSION" and g: "st_generation_id st \<noteq> None"
    by (rule session_row_ok(1,2) [OF ok st se])+
  have s: "start_ok sid st" by (rule start_of_ok [OF ok st])
  obtain gid ep where ge: "st_generation_id st = Some gid" "st_generation_epoch st = Some ep"
    using g s by (auto simp: start_ok_def)
  have sel: "session_select sid st se = session_to_dict (session_of sid st se)"
    by (simp add: session_select_def session_to_dict_def session_of_def ge)
  have ids: "ids_field (VStr sid) (VStr (st_owner_id st)) (VStr (st_orchestration_id st)) (VStr gid) =
      Inr (sid, st_owner_id st, st_orchestration_id st, gid)" and ep: "match_hex_id (CHR ''g'') ep"
    using s ge by (simp_all add: start_ok_def)
  have ot: "optional_text (opt_str (se_model se)) = Inr (se_model se)" by simp
  show ?thesis
    unfolding sel
    by (simp add: session_from_to_dict session_of_def v ge SessionRecord_def validate_id_defs ids ot ep
        SCHEMA_VERSION_def del: rbind_eq_Inr)
qed

lemma get_session_eq:
  assumes "db_ok d" "start_of d sid = Some st" "map_of (db_sessions d) sid = Some se"
  shows "get_session sid owner d =
    (if st_owner_id st \<noteq> owner then err OWNER_MISMATCH else Inr (session_of sid st se))"
  using session_decodes [OF assms] by (simp add: get_session_def assms(2,3) decode_stored_def)

text \<open>
  A session is created once. When \<open>create_session\<close> succeeds, the session reads back with the identity
  of its start and the state given, for its owner and nobody else, and every further creation of the
  session with the same arguments is refused as \<open>DUPLICATE_START\<close>.
\<close>
theorem session_created_once:
  assumes "store_reachable d" "create_session sid state executor task cwd model created d = Inr (d', u)"
  shows "\<exists>st r. start_of d sid = Some st \<and> get_session sid (st_owner_id st) d' = Inr r \<and>
      sr_session_id r = sid \<and> sr_owner_id r = st_owner_id st \<and> sr_orchestration_id r = st_orchestration_id st \<and>
      Some (sr_generation_id r) = st_generation_id st \<and> Some (sr_generation_epoch r) = st_generation_epoch st \<and>
      VStr (sr_state r) = state \<and>
      (\<forall>other. other \<noteq> st_owner_id st \<longrightarrow> get_session sid other d' = Inl (NelixError OWNER_MISMATCH)) \<and>
      create_session sid state executor task cwd model created d' = Inl (NelixError DUPLICATE_START)"
proof -
  have ok: "db_ok d" by (rule store_reachable_ok [OF assms(1)])
  have ok': "db_ok d'" by (rule create_session_ok [OF ok assms(2)])
  from assms(2) show ?thesis
  proof (cases rule: create_session_cases)
    case (1 st se)
    have st': "start_of d' sid = Some st" using 1(1,7) by (simp add: start_of_def)
    have se': "map_of (db_sessions d') sid = Some se" by (simp add: 1(7))
    have dup: "create_session sid state executor task cwd model created d' = err DUPLICATE_START"
      using assms(2) 1(1-3) st' se'
      by (auto simp: create_session_def split: if_splits simp del: rbind_eq_Inr elim!: rbind_InrE)
    have g: "st_generation_id st \<noteq> None" "st_generation_epoch st \<noteq> None"
      using start_of_ok [OF ok 1(1)] 1(2) by (auto simp: start_ok_def)
    show ?thesis
      using get_session_eq [OF ok' st' se'] 1(1,6) g dup by (auto simp: session_of_def)
  qed
qed

theorem session_created_once_witness:
  "\<exists>st r d. start_of demo_reserved demo_sid \<noteq> None \<and> start_of d demo_sid = Some st \<and> get_session demo_sid (st_owner_id st) d = Inr r \<and>
      VStr (sr_state r) = VStr ''running''"
proof -
  let ?ops = "demo_reserve @ take 1 demo_start"
  define d where "d = store_run demo_ready ?ops"
  define d' where "d' = store_run demo_ready (demo_reserve @ take 2 demo_start)"
  have r: "store_reachable d" unfolding d_def by (rule store_reachable_run [OF demo_reachable(1)]) code_simp
  have c: "create_session demo_sid (VStr ''running'') (VStr ''claude'') (VStr ''task'') (VStr ''/work'') VNone (at_time 2) d
      = Inr (d', ())" unfolding d_def d'_def by code_simp
  have n: "start_of demo_reserved demo_sid \<noteq> None" by code_simp
  from session_created_once [OF r c] obtain st r where
    "start_of d demo_sid = Some st" "get_session demo_sid (st_owner_id st) d' = Inr r" "VStr (sr_state r) = VStr ''running''"
    by blast
  moreover have "start_of d' demo_sid = start_of d demo_sid" unfolding d_def d'_def by code_simp
  ultimately show ?thesis using n by metis
qed

text \<open>
  A conditional transition is a compare-and-swap. When it succeeds the session was in the expected
  state and reads back in the new one with every other field as before, no other session is touched, and a
  second transition from the same expected state is refused with \<open>IDEMPOTENCY_CONFLICT\<close>.
\<close>
theorem session_cas_wins_once:
  assumes "store_reachable d" "transition_session sid owner s1 (Some x) d = Inr (d', u)"
    and "s1 \<noteq> VStr x" "nonempty_text s2 = Inr s2'"
  shows "\<exists>r r'. get_session sid owner d = Inr r \<and> sr_state r = x \<and> get_session sid owner d' = Inr r' \<and>
      VStr (sr_state r') = s1 \<and> r' = r\<lparr>sr_state := sr_state r'\<rparr> \<and>
      (\<forall>other o'. other \<noteq> sid \<longrightarrow> get_session other o' d' = get_session other o' d) \<and>
      transition_session sid owner s2 (Some x) d' = Inl (NelixError IDEMPOTENCY_CONFLICT)"
proof -
  have ok: "db_ok d" by (rule store_reachable_ok [OF assms(1)])
  have ok': "db_ok d'" by (rule transition_session_ok [OF ok assms(2)])
  from assms(2) show ?thesis
  proof (cases rule: transition_session_cases)
    case (1 st se s)
    let ?se = "se\<lparr>se_state := s\<rparr>"
    have st': "start_of d' sid = Some st" using 1(1,7) by (simp add: start_of_def)
    have se': "map_of (db_sessions d') sid = Some ?se" by (simp add: 1(7))
    have g: "get_session sid owner d = Inr (session_of sid st se)"
      "get_session sid owner d' = Inr (session_of sid st ?se)"
      using get_session_eq [OF ok 1(1,3)] get_session_eq [OF ok' st' se'] 1(2) by simp_all
    have ne: "se_state ?se \<noteq> x" using assms(3) 1(4) by auto
    have "transition_session sid owner s2 (Some x) d' = err IDEMPOTENCY_CONFLICT"
      unfolding transition_session_def assms(4) rbind_simps se' option.case g(2) using ne by simp
    moreover have "get_session other o' d' = get_session other o' d" if "other \<noteq> sid" for other o'
      using that by (simp add: get_session_def start_of_def 1(7))
    ultimately show ?thesis using g 1(4,6) by (auto simp: session_of_def)
  qed
qed

theorem session_cas_wins_once_witness:
  "transition_session demo_sid ''alice'' (VStr ''stopped'') (Some ''running'')
     (store_step demo_started (TransitionSession demo_sid ''alice'' (VStr ''blocked'') (Some ''running'')))
   = Inl (NelixError IDEMPOTENCY_CONFLICT)"
proof -
  define d where "d = store_step demo_started (TransitionSession demo_sid ''alice'' (VStr ''blocked'') (Some ''running''))"
  have t: "transition_session demo_sid ''alice'' (VStr ''blocked'') (Some ''running'') demo_started = Inr (d, ())"
    unfolding d_def by code_simp
  have "VStr ''blocked'' \<noteq> VStr ''running''" "nonempty_text (VStr ''stopped'') = Inr ''stopped''" by simp_all
  from session_cas_wins_once [OF demo_reachable(3) t this] show ?thesis unfolding d_def by blast
qed

section \<open>Wait scopes\<close>

lemma validated_sessions_ok:
  "list_all (match_hex_id (CHR ''s'')) sids \<Longrightarrow> validated_sessions sids = Inr sids"
  by (induction sids) (auto simp: stored_id_def validate_id_defs simp del: rbind_eq_Inr)

lemma waitable_mem:
  assumes "db_ok d"
  shows "(sid, st) \<in> set (waitable owner d) \<longleftrightarrow>
    start_of d sid = Some st \<and> st_owner_id st = owner \<and> st_state st \<in> {''starting'', ''started''}"
proof -
  have "(sid, st) \<in> set (waitable owner d) \<longleftrightarrow>
      (sid, st) \<in> set (db_starts d) \<and> st_owner_id st = owner \<and> st_state st \<in> {''starting'', ''started''}"
    by (auto simp: waitable_def)
  then show ?thesis unfolding dict_set_conv [OF starts_dict [OF assms]] start_of_def .
qed

text \<open>
  The scope a router wait expands to is exact. The sessions of an orchestration are exactly the
  owner's starts of that orchestration that did not fail, each once, oldest start first; the orchestrations of
  an owner are exactly those of its starts that did not fail.
\<close>
theorem wait_scope_exact:
  assumes "store_reachable d" "match_owner owner" "match_hex_id (CHR ''o'') orch"
  shows "\<exists>ids os. sessions_for_orchestration (VStr owner) (VStr orch) d = Inr ids \<and>
      orchestrations_for_owner (VStr owner) d = Inr os \<and> distinct ids \<and> sorted os \<and>
      sorted (map (\<lambda>sid. st_created_at (the (start_of d sid))) ids) \<and>
      set ids = {sid. \<exists>st. start_of d sid = Some st \<and> st_owner_id st = owner \<and> st_orchestration_id st = orch \<and>
         st_state st \<noteq> ''failed''} \<and>
      set os = {r. \<exists>sid st. start_of d sid = Some st \<and> st_owner_id st = owner \<and> st_orchestration_id st = r \<and>
         st_state st \<noteq> ''failed''}"
proof -
  have ok: "db_ok d" by (rule store_reachable_ok [OF assms(1)])
  let ?rows = "sort_key (\<lambda>(sid, st). (st_created_at st, sid)) (filter (\<lambda>(sid, st). st_orchestration_id st = orch) (waitable owner d))"
  have st3: "st_state st \<in> {''starting'', ''started''} \<longleftrightarrow> st_state st \<noteq> ''failed''" if "start_of d sid = Some st" for sid st
    using start_of_ok [OF ok that] by (auto simp: start_ok_def)
  have mem: "(sid, st) \<in> set ?rows \<longleftrightarrow> start_of d sid = Some st \<and> st_owner_id st = owner \<and>
      st_orchestration_id st = orch \<and> st_state st \<noteq> ''failed''" for sid st
    using st3 by (auto simp: waitable_mem [OF ok])
  have ids: "list_all (match_hex_id (CHR ''s'')) (map fst ?rows)"
    using start_of_ok [OF ok] mem by (fastforce simp: list_all_iff start_ok_def)
  have "distinct (keys (waitable owner d))"
    unfolding waitable_def by (rule distinct_map_filter [OF starts_dict [OF ok]])
  then have "distinct (keys (filter (\<lambda>(sid, st). st_orchestration_id st = orch) (waitable owner d)))"
    by (rule distinct_map_filter)
  then have dist: "distinct (map fst ?rows)" by (simp only: distinct_map distinct_sort set_sort)
  have "sorted (map (\<lambda>(sid, st). (st_created_at st, sid)) ?rows)" by (rule sorted_sort_key)
  then have "sorted (map (\<lambda>(sid, st). st_created_at st) ?rows)"
    unfolding sorted_map case_prod_beta by (rule sorted_wrt_mono_rel [rotated]) auto
  moreover have "map (\<lambda>(sid, st). st_created_at st) ?rows = map (\<lambda>sid. st_created_at (the (start_of d sid))) (map fst ?rows)"
    using mem by (auto simp del: set_sort set_filter)
  ultimately have sorted: "sorted (map (\<lambda>sid. st_created_at (the (start_of d sid))) (map fst ?rows))" by simp
  have "sessions_for_orchestration (VStr owner) (VStr orch) d = Inr (map fst ?rows)"
    unfolding sessions_for_orchestration_def using assms(2,3) validated_sessions_ok [OF ids] by (simp add: validate_id_defs)
  moreover have "set (map fst ?rows) = {sid. \<exists>st. start_of d sid = Some st \<and> st_owner_id st = owner \<and> st_orchestration_id st = orch \<and>
         st_state st \<noteq> ''failed''}"
    using mem by (force simp del: set_sort set_filter)
  moreover have "orchestrations_for_owner (VStr owner) d =
      Inr (sort (remdups (map (\<lambda>(sid, st). st_orchestration_id st) (waitable owner d))))"
    unfolding orchestrations_for_owner_def using assms(2) by (simp add: validate_id_defs)
  moreover have "set (sort (remdups (map (\<lambda>(sid, st). st_orchestration_id st) (waitable owner d)))) =
      {r. \<exists>sid st. start_of d sid = Some st \<and> st_owner_id st = owner \<and> st_orchestration_id st = r \<and> st_state st \<noteq> ''failed''}"
    using st3 by (force simp: waitable_mem [OF ok] image_iff)
  ultimately show ?thesis using dist sorted by (intro exI conjI) (assumption | rule sorted_sort)+
qed

theorem wait_scope_exact_witness:
  "\<exists>ids os. sessions_for_orchestration (VStr ''alice'') (VStr demo_orch) demo_published = Inr ids \<and>
      orchestrations_for_owner (VStr ''alice'') demo_published = Inr os \<and> distinct ids \<and> sorted os"
proof -
  have "match_owner ''alice''" "match_hex_id (CHR ''o'') demo_orch" by code_simp+
  from wait_scope_exact [OF demo_reachable(4) this] show ?thesis by blast
qed

end
