(* ===== verification/Nelix_Board_Props.thy ===== *)
theory Nelix_Board_Props
  imports Nelix_Store_Props
begin

text \<open>
  The properties of terminal records, the board, receipts, pruning, garbage collection
  and the generation tables, over every database the store can reach.
\<close>

section \<open>How a terminal row reads\<close>

definition terminal_of :: "string \<Rightarrow> start_row \<Rightarrow> terminal_row \<Rightarrow> terminal_record" where
  "terminal_of sid st te =
     \<lparr>tr_session_id = sid, tr_owner_id = st_owner_id st, tr_orchestration_id = st_orchestration_id st,
      tr_generation_id = the (st_generation_id st), tr_generation_epoch = the (st_generation_epoch st),
      tr_terminal_kind = te_terminal_kind te, tr_summary = te_summary te, tr_ended_at = te_ended_at te,
      tr_published_at = te_published_at te, tr_terminal_seq = te_terminal_seq te,
      tr_acknowledged_at = te_acknowledged_at te, tr_expired_at = te_expired_at te,
      tr_expire_reason = te_expire_reason te, tr_schema_version = te_schema_version te\<rparr>"

lemma terminal_decodes:
  assumes ok: "db_ok d" and st: "start_of d sid = Some st" and te: "map_of (db_terminal d) sid = Some te"
  shows "terminal_from_dict (VDict (terminal_select sid st te)) = Inr (terminal_of sid st te)"
proof -
  from terminal_start [OF ok te] st have g: "st_generation_id st \<noteq> None" and r: "receipt_ok te" by auto
  have s: "start_ok sid st" by (rule start_of_ok [OF ok st])
  obtain gid ep where ge: "st_generation_id st = Some gid" "st_generation_epoch st = Some ep"
    using g s by (auto simp: start_ok_def)
  have sel: "terminal_select sid st te = terminal_to_dict (terminal_of sid st te)"
    by (simp add: terminal_select_def terminal_to_dict_def terminal_of_def ge)
  have ids: "ids_field (VStr sid) (VStr (st_owner_id st)) (VStr (st_orchestration_id st)) (VStr gid) =
      Inr (sid, st_owner_id st, st_orchestration_id st, gid)" and ep: "match_hex_id (CHR ''g'') ep"
    using s ge by (simp_all add: start_ok_def)
  have ot: "optional_text (opt_str (te_expire_reason te)) = Inr (te_expire_reason te)"
    "count_field (VInt (te_terminal_seq te)) = Inr (te_terminal_seq te)"
    using r by (simp_all add: receipt_ok_def)
  show ?thesis
    unfolding sel using r
    by (simp add: terminal_from_to_dict terminal_of_def receipt_ok_def ge TerminalRecord_def validate_id_defs ids ot ep
        SCHEMA_VERSION_def del: rbind_eq_Inr)
qed

lemma get_terminal_eq:
  assumes "db_ok d" "start_of d sid = Some st" "map_of (db_terminal d) sid = Some te"
  shows "get_terminal sid owner d =
    (if st_owner_id st \<noteq> owner then err OWNER_MISMATCH else Inr (terminal_of sid st te))"
  using terminal_decodes [OF assms] by (simp add: get_terminal_def assms(2,3) decode_stored_def)

section \<open>Publishing\<close>

lemma put_terminal_stored:
  assumes "put_terminal sid kind summary ended clock d = Inr (d', u)"
  obtains st te where "start_of d' sid = Some st" "map_of (db_terminal d') sid = Some te"
    "kind = VStr (te_terminal_kind te)" "summary = VStr (te_summary te)" "moment ended = Inr (te_ended_at te)"
  using assms
proof (cases rule: put_terminal_cases)
  case (again st te)
  then show thesis by (intro that) auto
next
  case (new st se te k sm en now ep)
  then show thesis by (intro that [of st te]) (auto simp: start_of_def)
qed

lemma put_terminal_again:
  assumes ok: "db_ok d" and te: "map_of (db_terminal d) sid = Some te"
    and a: "kind = VStr k" "summary = VStr sm" "moment ended = Inr en" "moment clock = Inr now"
  shows "put_terminal sid kind summary ended clock d =
    (if te_terminal_kind te = k \<and> te_summary te = sm \<and> te_ended_at te = en then Inr (d, ()) else err IDEMPOTENCY_CONFLICT)"
proof -
  from terminal_start [OF ok te] obtain st se where st: "start_of d sid = Some st" "map_of (db_sessions d) sid = Some se"
    and g: "st_generation_id st \<noteq> None" by metis
  have s: "start_ok sid st" by (rule start_of_ok [OF ok st(1)])
  obtain gid ep where ge: "st_generation_id st = Some gid" "st_generation_epoch st = Some ep"
    using g s by (auto simp: start_ok_def)
  have ids: "ids_field (VStr sid) (VStr (st_owner_id st)) (VStr (st_orchestration_id st)) (VStr gid) =
      Inr (sid, st_owner_id st, st_orchestration_id st, gid)" and ep: "match_hex_id (CHR ''g'') ep"
    using s ge by (simp_all add: start_ok_def)
  have ot: "optional_text VNone = Inr None" "count_field (VInt 0) = Inr 0" by (simp_all add: optional_text_def count_field_def)
  show ?thesis
    by (simp add: put_terminal_def st ge a TerminalRecord_def ids ot ep validate_id_defs te SCHEMA_VERSION_def
        del: rbind_eq_Inr)
qed

text \<open>
  The outcome of a session is published exactly once. After \<open>put_terminal\<close> succeeded, along any run
  without garbage collection the record keeps its kind, summary, end, publication time and sequence
  number; publishing the same outcome again succeeds without changing anything, and publishing a
  different outcome is refused with \<open>IDEMPOTENCY_CONFLICT\<close>.
\<close>
theorem terminal_published_once:
  assumes "store_reachable d" "put_terminal sid kind summary ended clock d = Inr (d1, u)"
    and "minted_run d1 ops" "list_all (\<lambda>op. \<not> collects op) ops" "d2 = store_run d1 ops" "moment clock' = Inr now"
    and "moment ended' = Inr en"
  shows "put_terminal sid kind summary ended clock' d2 = Inr (d2, ()) \<and>
     (\<exists>te te'. map_of (db_terminal d1) sid = Some te \<and> map_of (db_terminal d2) sid = Some te' \<and>
        te_published_at te' = te_published_at te \<and> te_terminal_seq te' = te_terminal_seq te \<and>
        te_terminal_kind te' = te_terminal_kind te \<and> te_summary te' = te_summary te \<and> te_ended_at te' = te_ended_at te) \<and>
     (\<forall>k s. VStr k \<noteq> kind \<or> VStr s \<noteq> summary \<or> moment ended \<noteq> Inr en \<longrightarrow>
        put_terminal sid (VStr k) (VStr s) ended' clock' d2 = Inl (NelixError IDEMPOTENCY_CONFLICT))"
proof -
  have ok: "db_ok d" by (rule store_reachable_ok [OF assms(1)])
  have ok1: "db_ok d1" by (rule put_terminal_ok [OF ok assms(2)])
  have ok2: "db_ok d2" unfolding assms(5) by (rule store_run_ok [OF ok1 assms(3)])
  from put_terminal_stored [OF assms(2)] obtain te where te: "map_of (db_terminal d1) sid = Some te"
    and a: "kind = VStr (te_terminal_kind te)" "summary = VStr (te_summary te)" "moment ended = Inr (te_ended_at te)" by blast
  from keptD(2) [OF store_run_kept [OF ok1 assms(3,4)] te] obtain te' where
    te': "map_of (db_terminal d2) sid = Some te'" and k: "terminal_kept te te'" unfolding assms(5) by blast
  have same: "te_terminal_kind te' = te_terminal_kind te" "te_summary te' = te_summary te" "te_ended_at te' = te_ended_at te"
    "te_published_at te' = te_published_at te" "te_terminal_seq te' = te_terminal_seq te"
    using k by (simp_all add: terminal_kept_def)
  have "put_terminal sid kind summary ended clock' d2 = Inr (d2, ())"
    using put_terminal_again [OF ok2 te' a assms(6)] same by simp
  moreover have "put_terminal sid (VStr k) (VStr s) ended' clock' d2 = err IDEMPOTENCY_CONFLICT"
    if "VStr k \<noteq> kind \<or> VStr s \<noteq> summary \<or> moment ended \<noteq> Inr en" for k s
    using put_terminal_again [OF ok2 te' refl refl assms(7) assms(6), of k s] that a same by auto
  ultimately show ?thesis using te te' same by blast
qed

theorem terminal_published_once_witness:
  "put_terminal demo_sid (VStr ''completed'') (VStr ''done'') (at_time 3) (at_time 8)
     (store_run demo_published [AckTerminal demo_sid ''alice'' (at_time 6)])
   = Inr (store_run demo_published [AckTerminal demo_sid ''alice'' (at_time 6)], ()) \<and>
   put_terminal demo_sid (VStr ''crashed'') (VStr ''done'') (at_time 3) (at_time 8)
     (store_run demo_published [AckTerminal demo_sid ''alice'' (at_time 6)])
   = Inl (NelixError IDEMPOTENCY_CONFLICT)"
proof -
  have p: "put_terminal demo_sid (VStr ''completed'') (VStr ''done'') (at_time 3) (at_time 4) demo_started
      = Inr (demo_published, ())" by code_simp
  have m: "minted_run demo_published [AckTerminal demo_sid ''alice'' (at_time 6)]"
    "list_all (\<lambda>op. \<not> collects op) [AckTerminal demo_sid ''alice'' (at_time 6)]" by code_simp+
  have ne: "VStr ''crashed'' \<noteq> VStr ''completed''" by simp
  note t = terminal_published_once [OF demo_reachable(3) p m refl moment_VFloat moment_VFloat, of 8 3]
  show ?thesis
    by (rule conjI [OF conjunct1 [OF t] conjunct2 [OF conjunct2 [OF t], rule_format, OF disjI1 [OF ne]]])
qed

text \<open>
  Terminal sequence numbers of an epoch strictly increase. A terminal record published for an epoch gets
  a larger sequence number than every record published for that epoch before, with any run without garbage
  collection in between.
\<close>
theorem terminal_seq_increases:
  assumes "store_reachable d" "put_terminal s1 k1 m1 e1 c1 d = Inr (d1, u)" "map_of (db_terminal d) s1 = None"
    and "minted_run d1 ops" "list_all (\<lambda>op. \<not> collects op) ops" "d2 = store_run d1 ops"
    and "put_terminal s2 k2 m2 e2 c2 d2 = Inr (d3, v)" "map_of (db_terminal d2) s2 = None"
    and "map_option st_generation_epoch (start_of d s1) = map_option st_generation_epoch (start_of d2 s2)"
  shows "\<exists>t1 t2. map_of (db_terminal d3) s1 = Some t1 \<and> map_of (db_terminal d3) s2 = Some t2 \<and>
     te_terminal_seq t1 < te_terminal_seq t2"
proof -
  have ok: "db_ok d" by (rule store_reachable_ok [OF assms(1)])
  have ok1: "db_ok d1" by (rule put_terminal_ok [OF ok assms(2)])
  have ok2: "db_ok d2" unfolding assms(6) by (rule store_run_ok [OF ok1 assms(4)])
  note kept = store_run_kept [OF ok1 assms(4,5), folded assms(6)]
  from assms(2) obtain st1 ep t1 where 1: "start_of d s1 = Some st1" "st_generation_epoch st1 = Some ep"
    "map_of (db_terminal d1) s1 = Some t1" "te_terminal_seq t1 < pr_next_terminal_seq (progress_of d1 ep)"
    by (cases rule: put_terminal_cases) (auto simp: assms(3) progress_of_def)
  from assms(7) obtain st2 ep2 t2 where 2: "start_of d2 s2 = Some st2" "st_generation_epoch st2 = Some ep2"
    "map_of (db_terminal d3) s2 = Some t2" "te_terminal_seq t2 = pr_next_terminal_seq (progress_of d2 ep2)"
    by (cases rule: put_terminal_cases) (auto simp: assms(8))
  have "ep2 = ep" using assms(9) 1(1,2) 2(1,2) by simp
  moreover from keptD(2) [OF kept 1(3)] obtain t where t: "map_of (db_terminal d2) s1 = Some t" "terminal_kept t1 t" by blast
  moreover from keptD(2) [OF kept_put_terminal [OF assms(7)] t(1)] obtain t' where
    "map_of (db_terminal d3) s1 = Some t'" "terminal_kept t t'" by blast
  moreover have "pr_next_terminal_seq (progress_of d1 ep) \<le> pr_next_terminal_seq (progress_of d2 ep)" by (rule keptD(4) [OF kept])
  ultimately show ?thesis using 1(4) 2(3,4) by (intro exI conjI) (assumption | simp add: terminal_kept_def)+
qed

definition demo_sid2 :: string where
  "demo_sid2 = new_session_id (replicate 32 (CHR ''e''))"

definition demo_second :: "store_op list" where
  "demo_second =
     [Reserve (VStr ''key2'') (VStr ''alice'') (VStr demo_orch) (VStr ''fp'') demo_sid2 (at_time 5),
      AssignGeneration demo_sid2 (VStr demo_gid) (VStr demo_epoch),
      CreateSession demo_sid2 (VStr ''running'') (VStr ''claude'') (VStr ''task'') (VStr ''/work'') VNone (at_time 5)]"

theorem terminal_seq_increases_witness:
  "\<exists>t1 t2. map_of (db_terminal (store_step (store_run demo_published demo_second)
         (PutTerminal demo_sid2 (VStr ''completed'') (VStr ''done'') (at_time 6) (at_time 7)))) demo_sid = Some t1 \<and>
     map_of (db_terminal (store_step (store_run demo_published demo_second)
         (PutTerminal demo_sid2 (VStr ''completed'') (VStr ''done'') (at_time 6) (at_time 7)))) demo_sid2 = Some t2 \<and>
     te_terminal_seq t1 < te_terminal_seq t2"
proof -
  define d3 where "d3 = store_step (store_run demo_published demo_second)
         (PutTerminal demo_sid2 (VStr ''completed'') (VStr ''done'') (at_time 6) (at_time 7))"
  have p1: "put_terminal demo_sid (VStr ''completed'') (VStr ''done'') (at_time 3) (at_time 4) demo_started
      = Inr (demo_published, ())" "map_of (db_terminal demo_started) demo_sid = None" by code_simp+
  have m: "minted_run demo_published demo_second" "list_all (\<lambda>op. \<not> collects op) demo_second" by code_simp+
  have p2: "put_terminal demo_sid2 (VStr ''completed'') (VStr ''done'') (at_time 6) (at_time 7) (store_run demo_published demo_second)
      = Inr (d3, ())" "map_of (db_terminal (store_run demo_published demo_second)) demo_sid2 = None"
    unfolding d3_def by code_simp+
  have e: "map_option st_generation_epoch (start_of demo_started demo_sid) =
     map_option st_generation_epoch (start_of (store_run demo_published demo_second) demo_sid2)" by code_simp
  show ?thesis
    using terminal_seq_increases [OF demo_reachable(3) p1 m refl p2 e] unfolding d3_def .
qed

end
