(* ===== verification/Nelix_Retention_Props.thy ===== *)
theory Nelix_Retention_Props
  imports Nelix_Board_Props
begin

text \<open>
  Receipts, the board and its sequence number, retention by pruning, garbage collection
  of retired generations, and the promotion of epochs.
\<close>

section \<open>The board\<close>

text \<open>
  A board never changes silently. Along any run of the store, garbage collection included, an owner's
  board sequence number never decreases, and if it is the same at the end then the owner's board, the set of
  its terminal records that are neither acknowledged nor expired, is the same as well.
\<close>
theorem board_change_moves_seq:
  assumes "store_reachable d" "minted_run d ops" "owner \<noteq> []" "d' = store_run d ops"
  shows "\<exists>n n'. get_owner_board_seq (VStr owner) d = Inr n \<and> get_owner_board_seq (VStr owner) d' = Inr n' \<and> n \<le> n' \<and>
    (n' = n \<longrightarrow> {(sid, te). owner_of_session d' sid = Some owner \<and> map_of (db_terminal d') sid = Some te \<and> on_the_board te} =
               {(sid, te). owner_of_session d sid = Some owner \<and> map_of (db_terminal d) sid = Some te \<and> on_the_board te})"
  using store_run_board [OF store_reachable_ok [OF assms(1)] assms(2), of owner]
  unfolding assms(4) get_owner_board_seq_eq [OF assms(3)] owner_board_def by blast

theorem board_change_moves_seq_witness:
  "\<exists>n n'. get_owner_board_seq (VStr ''alice'') demo_started = Inr n \<and>
     get_owner_board_seq (VStr ''alice'') (store_run demo_started demo_publish) = Inr n' \<and> n \<le> n'"
proof -
  have "minted_run demo_started demo_publish" by code_simp
  from board_change_moves_seq [OF demo_reachable(3) this _ refl, of "''alice''"] show ?thesis by auto
qed

text \<open>
  A terminal record that got its receipt is final, and acknowledging is idempotent. An acknowledgement
  by the owner answers with the record and its receipt, takes it off the board, and repeated at any later time
  answers the same record with the original receipt and changes nothing; an expired record is refused
  with \<open>TERMINAL_EXPIRED\<close>, another owner's with \<open>OWNER_MISMATCH\<close>.
\<close>
theorem receipt_is_final:
  assumes "store_reachable d" "ack_terminal sid owner clock d = Inr (d1, r)"
    and "minted_run d1 ops" "list_all (\<lambda>op. \<not> collects op) ops" "d2 = store_run d1 ops"
  shows "tr_acknowledged_at r \<noteq> None \<and> tr_owner_id r = owner \<and> get_terminal sid owner d1 = Inr r \<and>
    (\<exists>te. map_of (db_terminal d2) sid = Some te \<and> map_of (db_terminal d1) sid = Some te \<and> \<not> on_the_board te \<and> te_expired_at te = None) \<and>
    (\<exists>r'. ack_terminal sid owner clock' d2 = Inr (d2, r') \<and> tr_acknowledged_at r' = tr_acknowledged_at r) \<and>
    (\<forall>other. other \<noteq> owner \<longrightarrow> ack_terminal sid other clock' d2 = Inl (NelixError OWNER_MISMATCH))"
proof -
  have ok: "db_ok d" by (rule store_reachable_ok [OF assms(1)])
  have ok1: "db_ok d1" by (rule ack_terminal_ok [OF ok assms(2)])
  have ok2: "db_ok d2" unfolding assms(5) by (rule store_run_ok [OF ok1 assms(3)])
  obtain st te where st: "start_of d1 sid = Some st" "st_owner_id st = owner" and te: "map_of (db_terminal d1) sid = Some te"
    and a: "te_acknowledged_at te \<noteq> None"
    using assms(2) by (cases rule: ack_terminal_cases) (auto simp: start_of_def)
  have g1: "get_terminal sid owner d1 = Inr r"
    using assms(2) by (cases rule: ack_terminal_cases) auto
  then have r: "r = terminal_of sid st te" using get_terminal_eq [OF ok1 st(1) te, of owner] st(2) by simp
  have nb: "\<not> on_the_board te" "te_expired_at te = None"
    using a terminal_start [OF ok1 te] by (auto simp: on_the_board_def receipt_ok_def)
  note kept = store_run_kept [OF ok1 assms(3,4), folded assms(5)]
  have te2: "map_of (db_terminal d2) sid = Some te" using keptD(2) [OF kept te] nb(1) by (auto simp: terminal_kept_def)
  from keptD(1) [OF kept st(1)] obtain st' where st': "start_of d2 sid = Some st'" "start_kept st st'" by blast
  have o: "st_owner_id st' = owner" using st'(2) st(2) by (simp add: start_kept_def)
  have g2: "get_terminal sid x d2 = (if owner \<noteq> x then err OWNER_MISMATCH else Inr (terminal_of sid st' te))" for x
    using get_terminal_eq [OF ok2 st'(1) te2, of x] o by simp
  have "ack_terminal sid owner clock' d2 = Inr (d2, terminal_of sid st' te)"
    using a by (simp add: ack_terminal_def g2 terminal_of_def)
  moreover have "ack_terminal sid other clock' d2 = err OWNER_MISMATCH" if "other \<noteq> owner" for other
    using that by (simp add: ack_terminal_def g2)
  ultimately show ?thesis using a r st(2) te te2 nb g1 by (simp add: terminal_of_def)
qed

theorem receipt_is_final_witness:
  "\<exists>r. ack_terminal demo_sid ''alice'' (at_time 9) (store_step demo_published (AckTerminal demo_sid ''alice'' (at_time 5)))
      = Inr (store_step demo_published (AckTerminal demo_sid ''alice'' (at_time 5)), r) \<and> tr_acknowledged_at r = Some 5"
proof -
  define d1 where "d1 = store_step demo_published (AckTerminal demo_sid ''alice'' (at_time 5))"
  define r where "r = (case ack_terminal demo_sid ''alice'' (at_time 5) demo_published of Inr (_, r) \<Rightarrow> r | Inl _ \<Rightarrow> undefined)"
  have a: "ack_terminal demo_sid ''alice'' (at_time 5) demo_published = Inr (d1, r)" unfolding d1_def r_def by code_simp
  have t: "tr_acknowledged_at r = Some 5" unfolding r_def by code_simp
  have m: "minted_run d1 []" "list_all (\<lambda>op. \<not> collects op) []" "d1 = store_run d1 []" by (simp_all add: store_run_def)
  from receipt_is_final [OF demo_reachable(4) a m, of "at_time 9"] t show ?thesis unfolding d1_def by auto
qed

section \<open>Retention\<close>

lemma board_rows_mem:
  assumes "db_ok d"
  shows "(sid, st, te) \<in> set (board_rows owner d) \<longleftrightarrow> start_of d sid = Some st \<and> map_of (db_terminal d) sid = Some te \<and>
     st_owner_id st = owner \<and> on_the_board te"
proof -
  have ok: "dict_ok (db_terminal d)" using db_okD(3) [OF assms] by (simp add: terminal_ok_def)
  have v: "te_schema_version te = SCHEMA_VERSION" if "map_of (db_terminal d) sid = Some te" for sid te
    using terminal_start [OF assms that] by (auto simp: receipt_ok_def)
  have "(sid, st, te) \<in> set (board_rows owner d) \<longleftrightarrow> (sid, st, te) \<in> set (joined d (db_terminal d)) \<and>
      st_owner_id st = owner \<and> te_schema_version te = SCHEMA_VERSION \<and> on_the_board te"
    by (auto simp: board_rows_def)
  then show ?thesis unfolding joined_mem [OF ok] using v by blast
qed

text \<open>Elements of rank at most \<open>c\<close> in a finite linearly keyed set are at most \<open>c\<close> many.\<close>

lemma card_low_rank:
  fixes key :: "'a \<Rightarrow> 'k::linorder"
  assumes "finite S"
  shows "card {x \<in> S. card {y \<in> S. key x \<le> key y} \<le> c} \<le> c"
proof (cases "{x \<in> S. card {y \<in> S. key x \<le> key y} \<le> c} = {}")
  case False
  let ?K = "{x \<in> S. card {y \<in> S. key x \<le> key y} \<le> c}"
  have fin: "finite ?K" using assms by simp
  have "Min (key ` ?K) \<in> key ` ?K" by (rule Min_in) (use fin False in auto)
  then obtain m where m: "m \<in> ?K" "key m = Min (key ` ?K)" by auto
  have "?K \<subseteq> {y \<in> S. key m \<le> key y}" using fin by (auto simp: m(2) intro!: Min_le)
  then have "card ?K \<le> card {y \<in> S. key m \<le> key y}" using assms by (intro card_mono) auto
  with m(1) show ?thesis by simp
qed (simp only: card.empty le0)

definition board_sids :: "string \<Rightarrow> db \<Rightarrow> string set" where
  "board_sids owner d = {sid. owner_of_session d sid = Some owner \<and>
     (\<exists>te. map_of (db_terminal d) sid = Some te \<and> on_the_board te)}"

definition board_key :: "db \<Rightarrow> string \<Rightarrow> rat \<times> string" where
  "board_key d sid = (te_published_at (the (map_of (db_terminal d) sid)), sid)"

lemma finite_board_sids: "finite (board_sids owner d)"
proof (rule finite_subset)
  show "board_sids owner d \<subseteq> dom (map_of (db_terminal d))" by (auto simp: board_sids_def)
qed (rule finite_dom_map_of)

lemma keys_joined: "map fst (joined d t) = filter (\<lambda>sid. start_of d sid \<noteq> None) (keys t)"
  unfolding joined_def by (induction t) (auto simp: List.map_filter_simps split: option.split)

lemma row_number_rank:
  assumes ok: "dict_ok (db_terminal d)" and st: "start_of d sid = Some st" and te: "map_of (db_terminal d) sid = Some te"
  shows "row_number (filter (\<lambda>(sid, st, te). on_the_board te) (joined d (db_terminal d))) (sid, st, te) =
    card {y \<in> board_sids (st_owner_id st) d. board_key d sid \<le> board_key d y}"
proof -
  let ?P = "\<lambda>(sid', st', te'). st_owner_id st' = st_owner_id st \<and> (te_published_at te, sid) \<le> (te_published_at te', sid')"
  let ?L = "filter ?P (filter (\<lambda>(sid, st, te). on_the_board te) (joined d (db_terminal d)))"
  have dist: "distinct (map fst (joined d (db_terminal d)))"
    unfolding keys_joined by (rule distinct_filter [OF ok])
  then have d2: "distinct (map fst ?L)" by (intro distinct_map_filter)
  have "row_number (filter (\<lambda>(sid, st, te). on_the_board te) (joined d (db_terminal d))) (sid, st, te) = length (map fst ?L)"
    by (simp add: row_number_def)
  also have "\<dots> = card (set (map fst ?L))" by (rule distinct_card [OF d2, symmetric])
  also have "set (map fst ?L) = {y \<in> board_sids (st_owner_id st) d. board_key d sid \<le> board_key d y}"
    by (force simp: joined_mem [OF ok] board_sids_def board_key_def owner_of_session_def te)
  finally show ?thesis .
qed

text \<open>What pruning leaves on the boards is within the limits.\<close>

lemma prune_leaves_bounded:
  assumes ok: "db_ok d" and c: "0 \<le> c"
    and t1: "t1 = fst (expire_rows now ''age'' (aged now max_age) (db_terminal d))"
    and over: "over = over_count c (d\<lparr>db_terminal := t1\<rparr>)"
    and t': "db_terminal d' = fst (expire_rows now ''count'' (\<lambda>sid te. sid \<in> set over) t1)" "db_starts d' = db_starts d"
  shows "\<lbrakk>map_of (db_terminal d') sid = Some te; on_the_board te\<rbrakk> \<Longrightarrow>
      map_of (db_terminal d) sid = Some te \<and> \<not> aged now max_age sid te \<and> sid \<notin> set over"
    and "int (card (board_sids owner d')) \<le> c"
proof -
  let ?d1 = "d\<lparr>db_terminal := t1\<rparr>"
  have d1: "dict_ok t1" using db_okD(3) [OF ok] by (simp add: terminal_ok_def t1)
  show left: "map_of (db_terminal d) sid = Some te \<and> \<not> aged now max_age sid te \<and> sid \<notin> set over"
    if m: "map_of (db_terminal d') sid = Some te" "on_the_board te" for sid te
  proof -
    obtain te0 where te0: "map_of (db_terminal d) sid = Some te0"
      using m(1) by (auto simp: t' expire_rows_map_of t1)
    show ?thesis using prune_rows(1) [OF ok t1 refl over te0] m te0 by (auto simp: t' on_the_board_def split: if_splits)
  qed
  let ?low = "{x \<in> board_sids owner ?d1. card {y \<in> board_sids owner ?d1. board_key ?d1 x \<le> board_key ?d1 y} \<le> nat c}"
  have "sid \<in> ?low" if "sid \<in> board_sids owner d'" for sid
  proof -
    from that obtain te st where te: "map_of (db_terminal d') sid = Some te" "on_the_board te" "start_of d sid = Some st" "st_owner_id st = owner"
      by (auto simp: board_sids_def owner_of_session_def start_of_def t')
    note l = left [OF te(1,2)]
    have te1: "map_of (db_terminal ?d1) sid = Some te" using l by (simp add: t1 expire_rows_map_of)
    have st1: "start_of ?d1 sid = Some st" using te(3) by (simp add: start_of_def)
    have "\<not> c < int (row_number (filter (\<lambda>(sid, st, te). on_the_board te) (joined ?d1 (db_terminal ?d1))) (sid, st, te))"
      using l st1 te1 te(2) over_count_mem [of ?d1 sid c] d1 unfolding over by auto
    then show ?thesis
      using row_number_rank [OF _ st1 te1] d1 te(4) st1 te1 te(2) by (simp add: board_sids_def owner_of_session_def)
  qed
  then have "card (board_sids owner d') \<le> card ?low" by (intro card_mono) (auto simp: finite_board_sids)
  also have "\<dots> \<le> nat c" by (rule card_low_rank [OF finite_board_sids])
  finally show "int (card (board_sids owner d')) \<le> c" using c by linarith
qed

text \<open>
  C36: pruning enforces the retention bounds and nothing else. When it succeeds, every record left on a board
  is no older than the age limit, every owner has at most \<open>max_count\<close> of them, and each record is either
  untouched, or was on the board and is now expired at the time of pruning, with reason \<open>age\<close> when it was
  too old and \<open>count\<close> otherwise; acknowledged and already expired records keep their receipts.
\<close>
theorem prune_enforces_retention:
  assumes "store_reachable d" "prune_terminal age cnt clock d = Inr (d', n)"
  shows "\<exists>max_age c now. age_arg age = Inr max_age \<and> cnt = VInt c \<and> moment clock = Inr now \<and>
    (\<forall>sid te. map_of (db_terminal d') sid = Some te \<longrightarrow> on_the_board te \<longrightarrow> now - te_published_at te \<le> max_age) \<and>
    (\<forall>owner. int (card {sid. owner_of_session d' sid = Some owner \<and>
        (\<exists>te. map_of (db_terminal d') sid = Some te \<and> on_the_board te)}) \<le> c) \<and>
    (\<forall>sid te. map_of (db_terminal d) sid = Some te \<longrightarrow>
        map_of (db_terminal d') sid = Some te \<or>
        on_the_board te \<and> map_of (db_terminal d') sid = Some (te\<lparr>te_expired_at := Some now,
          te_expire_reason := Some (if now - te_published_at te > max_age then ''age'' else ''count'')\<rparr>))"
proof -
  have ok: "db_ok d" by (rule store_reachable_ok [OF assms(1)])
  from assms(2) show ?thesis
  proof (cases rule: prune_terminal_cases)
    case (1 max_age c now t1 over owners)
    have t': "db_terminal d' = fst (expire_rows now ''count'' (\<lambda>sid te. sid \<in> set over) t1)" "db_starts d' = db_starts d"
      by (simp_all add: 1(7))
    note left = prune_leaves_bounded(1) [OF ok 1(3,5,6) t'] and bounded = prune_leaves_bounded(2) [OF ok 1(3,5,6) t']
    note rows = prune_rows [OF ok 1(5) refl 1(6)]
    have "map_of (db_terminal d') sid = Some te \<or>
        on_the_board te \<and> map_of (db_terminal d') sid = Some (te\<lparr>te_expired_at := Some now,
          te_expire_reason := Some (if now - te_published_at te > max_age then ''age'' else ''count'')\<rparr>)"
      if te: "map_of (db_terminal d) sid = Some te" for sid te
      using rows [OF te] by (auto simp: t' aged_def)
    moreover have "now - te_published_at te \<le> max_age" if "map_of (db_terminal d') sid = Some te" "on_the_board te" for sid te
      using left [OF that] that(2) by (auto simp: aged_def)
    ultimately show ?thesis using 1(1,2,4) bounded unfolding board_sids_def by blast
  qed
qed

theorem prune_enforces_retention_witness:
  "int (card {sid. owner_of_session (store_step demo_published (PruneTerminal (at_time 100) (VInt 0) (at_time 5))) sid = Some ''alice'' \<and>
        (\<exists>te. map_of (db_terminal (store_step demo_published (PruneTerminal (at_time 100) (VInt 0) (at_time 5)))) sid = Some te \<and>
           on_the_board te)}) \<le> 0"
proof -
  define d' where "d' = store_step demo_published (PruneTerminal (at_time 100) (VInt 0) (at_time 5))"
  have p: "prune_terminal (at_time 100) (VInt 0) (at_time 5) demo_published = Inr (d', 1)" unfolding d'_def by code_simp
  show ?thesis using prune_enforces_retention [OF demo_reachable(4) p] unfolding d'_def by auto
qed

section \<open>Garbage collection\<close>

text \<open>
  C35: garbage collection loses nothing that is still needed. A session's start, session row and terminal record
  are left alone unless its generation is retired, the retirement oracle is silent about it and the record is
  off the board; even then the start is removed only when it is older than the replay horizon. Generations,
  epochs, watermarks and board sequence numbers are never touched.
\<close>
theorem gc_is_safe:
  assumes "store_reachable d" "d' = snd (gc_retired_generations horizon clock d)" "start_of d sid = Some st"
  shows "(start_of d' sid = Some st \<and> map_of (db_sessions d') sid = map_of (db_sessions d) sid \<and>
            map_of (db_terminal d') sid = map_of (db_terminal d) sid \<or>
          (\<exists>g gen now. moment clock = Inr now \<and> st_generation_id st = Some g \<and> map_of (db_generations d) g = Some gen \<and>
            gr_lifecycle_state gen = ''retired'' \<and> store_oracle d g = Inr [] \<and>
            (\<forall>te. map_of (db_terminal d) sid = Some te \<longrightarrow> \<not> on_the_board te) \<and>
            start_of d' sid = (if past_horizon now (st_created_at st) horizon then None else Some st))) \<and>
         db_generations d' = db_generations d \<and> db_epochs d' = db_epochs d \<and>
         db_progress d' = db_progress d \<and> db_board_seq d' = db_board_seq d"
proof (cases rule: gc_retired_related [OF store_reachable_ok [OF assms(1)], of horizon clock])
  case 1
  then show ?thesis using assms(2,3) by simp
next
  case (2 now)
  then have r: "gc_related now horizon d d'" by (simp add: assms(2))
  then consider "same_at sid d d'" | "collected_at now horizon sid d d'" unfolding gc_related_def by blast
  then show ?thesis
  proof cases
    case 1
    then show ?thesis using r assms(3) by (simp add: same_at_def gc_related_def)
  next
    case c: 2
    then show ?thesis using r assms(3) 2(1) unfolding collected_at_def collectable_def gc_related_def by auto
  qed
qed

definition demo_retire :: "store_op list" where
  "demo_retire =
     [AckTerminal demo_sid ''alice'' (at_time 5),
      ReconcileEpochDead (VStr demo_gid) (VStr demo_epoch),
      SetEpochRetirement (VStr demo_epoch) (VStr ''certified'') (Some ''certificate'') (VInt 1),
      ConfirmHighWater (VStr demo_epoch) (VInt 1),
      SetLifecycleState (VStr demo_gid) (VStr ''retired'')]"

theorem gc_is_safe_witness:
  "map_of (db_terminal (snd (gc_retired_generations (VInt 1) (at_time 100) (store_run demo_published demo_retire)))) demo_sid = None \<and>
   db_generations (snd (gc_retired_generations (VInt 1) (at_time 100) (store_run demo_published demo_retire))) =
   db_generations (store_run demo_published demo_retire)"
proof -
  define d where "d = store_run demo_published demo_retire"
  have r: "store_reachable d" unfolding d_def by (rule store_reachable_run [OF demo_reachable(4)]) code_simp
  have t: "map_of (db_terminal (snd (gc_retired_generations (VInt 1) (at_time 100) d))) demo_sid = None"
    unfolding d_def by code_simp
  have "start_of d demo_sid = Some (the (start_of d demo_sid))"
    unfolding d_def by (rule option.collapse [symmetric]) code_simp
  from gc_is_safe [OF r refl this] t show ?thesis unfolding d_def by blast
qed

section \<open>Epochs and the retirement verdict\<close>

text \<open>
  Promotion of an epoch is a compare-and-swap with one winner. When \<open>cas_epoch_serving\<close> succeeds the epoch
  was one of the generation's starting epochs, it is now the current and only serving epoch of the generation,
  no other generation or epoch changed, and every competing promotion of the generation from the same expected
  epoch is refused with \<open>IDEMPOTENCY_CONFLICT\<close>.
\<close>
theorem epoch_promotion_has_one_winner:
  assumes "store_reachable d" "cas_epoch_serving (VStr g) (VStr ep) expected meta d = Inr (d', u)"
    and "expected \<noteq> Some ep" "nonempty_text other = Inr other'" "optional_nonempty meta' = Inr m'"
  shows "(\<exists>r. map_of (db_epochs d) ep = Some r \<and> er_generation_id r = g \<and> er_process_state r = ''starting'') \<and>
    (\<exists>gen. map_of (db_generations d') g = Some gen \<and> gr_current_epoch gen = Some ep) \<and>
    (\<forall>e r. map_of (db_epochs d') e = Some r \<longrightarrow> er_generation_id r = g \<longrightarrow>
       (er_process_state r = ''serving'' \<longleftrightarrow> e = ep)) \<and>
    (\<forall>e. e \<noteq> ep \<longrightarrow> map_of (db_epochs d') e = map_of (db_epochs d) e) \<and>
    (\<forall>g'. g' \<noteq> g \<longrightarrow> map_of (db_generations d') g' = map_of (db_generations d) g') \<and>
    cas_epoch_serving (VStr g) other expected meta' d' = Inl (NelixError IDEMPOTENCY_CONFLICT)"
  using assms(2)
proof (cases rule: cas_epoch_serving_cases)
  case (1 g' ep' gen r m)
  have ok: "db_ok d" by (rule store_reachable_ok [OF assms(1)])
  have eq: "g' = g" "ep' = ep" using 1(1,2) by simp_all
  have ng: "g \<noteq> []" using assms(2) by (auto simp: cas_epoch_serving_def nonempty_text_def)
  note n = 1(4-9) [unfolded eq] and d' = 1(10) [unfolded eq]
  have "cas_epoch_serving (VStr g) other expected meta' d' = err IDEMPOTENCY_CONFLICT"
    unfolding cas_epoch_serving_def assms(4,5) rbind_simps d' using ng assms(3) by (simp add: nonempty_text_def)
  moreover have "er_process_state x = ''serving'' \<longleftrightarrow> e = ep"
    if x: "map_of (db_epochs d') e = Some x" "er_generation_id x = g" for e x
  proof (cases "e = ep")
    case True
    with x show ?thesis by (auto simp: d')
  next
    case False
    then have "map_of (db_epochs d) e = Some x" using x(1) by (simp add: d')
    with False x(2) n(6) show ?thesis unfolding other_serving_iff [OF ok] by blast
  qed
  ultimately show ?thesis using n by (auto simp: d')
qed

theorem epoch_promotion_has_one_winner_witness:
  "cas_epoch_serving (VStr demo_gid) (VStr demo_sid2) None VNone demo_ready = Inl (NelixError IDEMPOTENCY_CONFLICT)"
proof -
  define d where "d = store_run empty_db (take 2 demo_setup)"
  have r: "store_reachable d" unfolding d_def by (rule store_reachable_from_empty) code_simp
  have c: "cas_epoch_serving (VStr demo_gid) (VStr demo_epoch) None VNone d = Inr (demo_ready, ())"
    unfolding d_def by code_simp
  have "nonempty_text (VStr demo_sid2) = Inr demo_sid2" by (simp add: demo_sid2_def new_session_id_def)
  moreover have "optional_nonempty VNone = Inr None" by (simp add: optional_nonempty_def)
  ultimately show ?thesis using epoch_promotion_has_one_winner [OF r c] by blast
qed

text \<open>
  A clear retirement verdict is never withdrawn by confirming more terminals. When the oracle finds nothing
  against retiring a generation, every readable epoch of it is certified with its final watermark confirmed,
  confirmed watermarks never go down, and confirming any watermark of any epoch leaves the verdict clear.
\<close>
theorem retirement_verdict_is_stable:
  assumes "store_reachable d" "store_oracle d g = Inr []"
    and "d' = snd (set_generation_confirmed_high_water (VStr e) (VInt n) d)"
  shows "store_oracle d' g = Inr [] \<and>
    (\<exists>gen es. get_generation (VStr g) d = Inr gen \<and> gr_current_epoch gen = None \<and> list_epochs (VStr g) d = Inr es \<and> es \<noteq> [] \<and>
       (\<forall>ep\<in>set es. er_retirement_state ep = ''certified'' \<and>
          (\<exists>c. get_generation_confirmed_high_water (VStr (er_generation_epoch ep)) d = Inr c \<and>
             final_or_zero (er_final_high_water ep) \<le> c))) \<and>
    (\<forall>x c. get_generation_confirmed_high_water (VStr x) d = Inr c \<longrightarrow>
       (\<exists>c'\<ge>c. get_generation_confirmed_high_water (VStr x) d' = Inr c'))"
proof -
  have ok: "db_ok d" by (rule store_reachable_ok [OF assms(1)])
  have "store_oracle d' g = Inr []"
    using store_retirement.clear_is_stable [OF ok, of g e n] assms(2,3) unfolding store_oracle_def by simp
  moreover have "\<exists>c'\<ge>c. get_generation_confirmed_high_water (VStr x) d' = Inr c'"
    if "get_generation_confirmed_high_water (VStr x) d = Inr c" for x c
    using store_retirement.confirm_monotone [OF ok that] unfolding assms(3) .
  ultimately show ?thesis
    using assms(2) unfolding store_oracle_def oracle_Nil_iff epoch_clear_def by blast
qed

theorem retirement_verdict_is_stable_witness:
  "store_oracle (snd (set_generation_confirmed_high_water (VStr demo_epoch) (VInt 7) (store_run demo_published demo_retire))) demo_gid = Inr []"
proof -
  have r: "store_reachable (store_run demo_published demo_retire)"
    by (rule store_reachable_run [OF demo_reachable(4)]) code_simp
  have "store_oracle (store_run demo_published demo_retire) demo_gid = Inr []" by code_simp
  from retirement_verdict_is_stable [OF r this refl] show ?thesis by blast
qed

definition demo_unreadable :: "store_op list" where
  "demo_unreadable =
     [InsertEpoch (VStr demo_sid2) (VStr demo_gid) VNone (at_time 5),
      SetEpochRetirement (VStr demo_sid2) (VStr ''certified'') (Some []) VNone,
      SetEpochRetirement (VStr demo_sid2) (VStr ''open'') None VNone]"

text \<open>
  The oracle does not see epochs that do not decode. It reads epochs through \<open>list_epochs\<close>, which skips such
  rows: here the second epoch is open again after it was certified with an empty certificate, the oracle finds
  nothing against retiring the generation, and the strict listing refuses the row as corrupt.
\<close>
theorem oracle_skips_unreadable_epochs:
  "store_oracle (store_run demo_published (demo_retire @ demo_unreadable)) demo_gid = Inr [] \<and>
   map_option er_retirement_state (map_of (db_epochs (store_run demo_published (demo_retire @ demo_unreadable))) demo_sid2) = Some ''open'' \<and>
   list_epochs_strict (VStr demo_gid) (store_run demo_published (demo_retire @ demo_unreadable)) = Inl (NelixError STORE_CORRUPT)"
  by (intro conjI; code_simp)

end
