(* ===== verification/Nelix_Bootstrap.thy ===== *)
theory Nelix_Bootstrap
  imports Nelix_Db
begin

text \<open>
  \<^verbatim>\<open>nelix_store/db.py\<close>, opening the database: the bootstrap lock, the version gate,
  the stamp and the schema as a sequence of durable steps (a crash may come after any of
  them), and the per-thread connections of one store instance. The file is what the gate
  and the schema see of it: the \<open>meta\<close> table with its stamp, the tables and indices that
  exist, the journal mode.
\<close>

section \<open>int and str\<close>

text \<open>\<open>str(n)\<close> of a natural number, \<open>int(s)\<close> of a string: blanks around, a sign, digits with single underscores.\<close>

definition digit_char :: "nat \<Rightarrow> char" where
  "digit_char n = char_of (48 + n)"

fun show_nat :: "nat \<Rightarrow> string" where
  "show_nat n = (if n < 10 then [digit_char n] else show_nat (n div 10) @ [digit_char (n mod 10)])"

declare show_nat.simps [simp del]

definition is_digit :: "char \<Rightarrow> bool" where
  "is_digit c \<longleftrightarrow> 48 \<le> (of_char c :: nat) \<and> (of_char c :: nat) \<le> 57"

definition is_blank :: "char \<Rightarrow> bool" where
  "is_blank c \<longleftrightarrow> (of_char c :: nat) \<in> {9, 10, 11, 12, 13, 28, 29, 30, 31, 32, 133, 160}"

fun read_digits :: "nat \<Rightarrow> string \<Rightarrow> nat option" where
  "read_digits acc [] = Some acc"
| "read_digits acc (c # cs) =
     (if is_digit c then read_digits (10 * acc + (of_char c - 48)) cs
      else if c = CHR ''_'' then (case cs of [] \<Rightarrow> None | d # _ \<Rightarrow> if is_digit d then read_digits acc cs else None)
      else None)"

definition read_nat :: "string \<Rightarrow> nat option" where
  "read_nat s = (case s of [] \<Rightarrow> None | c # _ \<Rightarrow> if is_digit c then read_digits 0 s else None)"

definition strip :: "string \<Rightarrow> string" where
  "strip s = rev (dropWhile is_blank (rev (dropWhile is_blank s)))"

definition py_int :: "string \<Rightarrow> int option" where
  "py_int s =
     (case strip s of
        [] \<Rightarrow> None
      | c # cs \<Rightarrow> if c = CHR ''-'' then map_option (\<lambda>n. - int n) (read_nat cs)
                 else if c = CHR ''+'' then map_option int (read_nat cs)
                 else map_option int (read_nat (c # cs)))"

section \<open>The bootstrap lock\<close>

text \<open>What a non-blocking \<open>flock\<close> answered: taken, interrupted, held by another opener, any other error.\<close>

datatype flock_result = Locked | EINTR | Contended | LockError

definition timeout_ok :: "pyval \<Rightarrow> bool" where
  "timeout_ok v = (case v of VInt n \<Rightarrow> 0 \<le> n | VFloat (Fin r) \<Rightarrow> 0 \<le> r | _ \<Rightarrow> False)"

definition seconds :: "pyval \<Rightarrow> rat" where
  "seconds v = (case v of VInt n \<Rightarrow> of_int n | VFloat (Fin r) \<Rightarrow> r | _ \<Rightarrow> 0)"

text \<open>
  The loop, from attempt \<open>i\<close> on: \<open>flock i\<close> is the answer to that attempt, \<open>clock i\<close> the
  reading taken after it. Not returning is \<open>None\<close>.
\<close>

partial_function (option) lock_loop ::
  "(nat \<Rightarrow> flock_result) \<Rightarrow> (nat \<Rightarrow> rat) \<Rightarrow> rat \<Rightarrow> nat \<Rightarrow> unit res option" where
  "lock_loop flock clock deadline i =
     (case flock i of
        Locked \<Rightarrow> Some (Inr ())
      | EINTR \<Rightarrow> if deadline \<le> clock i then Some (err STORE_UNAVAILABLE) else lock_loop flock clock deadline (Suc i)
      | LockError \<Rightarrow> Some (err STORE_UNSUPPORTED)
      | Contended \<Rightarrow> if deadline \<le> clock i then Some (err STORE_UNAVAILABLE) else lock_loop flock clock deadline (Suc i))"

definition bootstrap_lock ::
  "(nat \<Rightarrow> flock_result) \<Rightarrow> rat \<Rightarrow> (nat \<Rightarrow> rat) \<Rightarrow> pyval \<Rightarrow> unit res option" where
  "bootstrap_lock flock start clock timeout =
     (if \<not> timeout_ok timeout then Some (err INVALID_REQUEST)
      else lock_loop flock clock (start + seconds timeout) 0)"

section \<open>The version gate\<close>

text \<open>The file, and a build: its schema version and the objects its DDL creates, in order.\<close>

record db_file =
  df_meta :: "string option option"
  df_objects :: "(string \<times> string) list"
  df_wal :: bool

record build =
  bd_version :: nat
  bd_schema :: "(string \<times> string) list"

definition fresh_file :: db_file where
  "fresh_file = \<lparr>df_meta = None, df_objects = [], df_wal = False\<rparr>"

definition validate_version :: "build \<Rightarrow> string \<Rightarrow> unit res" where
  "validate_version b raw =
     (case py_int raw of
        None \<Rightarrow> err STORE_CORRUPT
      | Some found \<Rightarrow>
          if int (bd_version b) < found then err STORE_CORRUPT
          else if found < int (bd_version b) then err STORE_CORRUPT
          else Inr ())"

definition refuse_a_disagreeing_database :: "build \<Rightarrow> db_file \<Rightarrow> string option res" where
  "refuse_a_disagreeing_database b f =
     (case df_meta f of
        None \<Rightarrow> Inr None
      | Some None \<Rightarrow> Inr None
      | Some (Some raw) \<Rightarrow>
          (case py_int raw of
             None \<Rightarrow> err STORE_CORRUPT
           | Some found \<Rightarrow>
               if int (bd_version b) < found then err STORE_CORRUPT
               else if found = int (bd_version b) then Inr (Some raw)
               else err STORE_CORRUPT))"

text \<open>\<open>INSERT OR IGNORE INTO meta\<close>: the stamp that is there stays.\<close>

definition insert_stamp :: "build \<Rightarrow> string option \<Rightarrow> string option" where
  "insert_stamp b stamp = (case stamp of None \<Rightarrow> Some (show_nat (bd_version b)) | Some raw \<Rightarrow> Some raw)"

text \<open>One transaction: create \<open>meta\<close> if need be and stamp it.\<close>

definition stamp_before_the_ddl :: "build \<Rightarrow> db_file \<Rightarrow> db_file" where
  "stamp_before_the_ddl b f =
     f\<lparr>df_meta := Some (insert_stamp b (case df_meta f of None \<Rightarrow> None | Some stamp \<Rightarrow> stamp))\<rparr>"

text \<open>One \<open>CREATE ... IF NOT EXISTS\<close>.\<close>

definition create_object :: "string \<times> string \<Rightarrow> db_file \<Rightarrow> db_file" where
  "create_object x f = (if fst x \<in> set (map fst (df_objects f)) then f else f\<lparr>df_objects := df_objects f @ [x]\<rparr>)"

definition check_or_stamp_version :: "build \<Rightarrow> db_file \<Rightarrow> (db_file \<times> unit) res" where
  "check_or_stamp_version b f =
     (let f1 = f\<lparr>df_meta := map_option (insert_stamp b) (df_meta f)\<rparr>
      in case df_meta f1 of
           Some (Some raw) \<Rightarrow> rbind (validate_version b raw) (\<lambda>_. Inr (f1, ()))
         | _ \<Rightarrow> err INTERNAL_ERROR)"

section \<open>connect, step by step\<close>

text \<open>
  Where \<open>connect\<close> stands inside the bootstrap lock. Each step makes at most one durable
  change, so a crash leaves the file after some number of them. \<open>wal\<close> tells whether the
  filesystem lets SQLite switch the journal.
\<close>

datatype open_pc = OpenWal | OpenGate | OpenStamp | OpenDdl nat | OpenCheck | Opened | Refused exn

fun open_step :: "build \<Rightarrow> bool \<Rightarrow> open_pc \<times> db_file \<Rightarrow> open_pc \<times> db_file" where
  "open_step b wal (OpenWal, f) =
     (if df_wal f then (OpenGate, f)
      else if wal then (OpenGate, f\<lparr>df_wal := True\<rparr>) else (Refused (NelixError STORE_UNSUPPORTED), f))"
| "open_step b wal (OpenGate, f) =
     (case refuse_a_disagreeing_database b f of Inl e \<Rightarrow> (Refused e, f) | Inr _ \<Rightarrow> (OpenStamp, f))"
| "open_step b wal (OpenStamp, f) = (OpenDdl 0, stamp_before_the_ddl b f)"
| "open_step b wal (OpenDdl i, f) =
     (if i < length (bd_schema b) then (OpenDdl (Suc i), create_object (bd_schema b ! i) f) else (OpenCheck, f))"
| "open_step b wal (OpenCheck, f) =
     (case check_or_stamp_version b f of Inl e \<Rightarrow> (Refused e, f) | Inr (f', _) \<Rightarrow> (Opened, f'))"
| "open_step b wal s = s"

text \<open>The first \<open>n\<close> steps of an attempt, and the attempt run to its end.\<close>

definition open_steps :: "nat \<Rightarrow> build \<Rightarrow> bool \<Rightarrow> db_file \<Rightarrow> open_pc \<times> db_file" where
  "open_steps n b wal f = (open_step b wal ^^ n) (OpenWal, f)"

definition connect :: "build \<Rightarrow> bool \<Rightarrow> db_file \<Rightarrow> open_pc \<times> db_file" where
  "connect b wal f = open_steps (length (bd_schema b) + 5) b wal f"

section \<open>The connections of one instance\<close>

text \<open>
  \<open>ThreadLocalConnections\<close>: threads are numbers, connections are numbers. What opening a
  connection gives (a connection or an error) is an argument, one for the bootstrap
  \<open>connect\<close>, one for \<open>_connect_established\<close>. The state counts the bootstraps.
\<close>

record connections =
  tc_local :: "nat \<Rightarrow> nat option"
  tc_bootstrapped :: bool
  tc_closed :: bool
  tc_bootstraps :: nat

definition ThreadLocalConnections :: connections where
  "ThreadLocalConnections = \<lparr>tc_local = (\<lambda>_. None), tc_bootstrapped = False, tc_closed = False, tc_bootstraps = 0\<rparr>"

text \<open>\<open>_open\<close>, all under the lock.\<close>

definition open_connection :: "nat res \<Rightarrow> nat res \<Rightarrow> connections \<Rightarrow> connections \<times> nat res" where
  "open_connection boot cheap tc =
     (if tc_closed tc then (tc, err INTERNAL_ERROR)
      else if \<not> tc_bootstrapped tc then
        (case boot of
           Inl e \<Rightarrow> (tc, Inl e)
         | Inr conn \<Rightarrow> (tc\<lparr>tc_bootstrapped := True, tc_bootstraps := Suc (tc_bootstraps tc)\<rparr>, Inr conn))
      else (tc, cheap))"

definition get_connection :: "nat \<Rightarrow> nat res \<Rightarrow> nat res \<Rightarrow> connections \<Rightarrow> connections \<times> nat res" where
  "get_connection t boot cheap tc =
     (case tc_local tc t of
        Some conn \<Rightarrow> (tc, if tc_closed tc then err INTERNAL_ERROR else Inr conn)
      | None \<Rightarrow>
          (case open_connection boot cheap tc of
             (tc1, Inl e) \<Rightarrow> (tc1, Inl e)
           | (tc1, Inr conn) \<Rightarrow> (tc1\<lparr>tc_local := (tc_local tc1)(t := Some conn)\<rparr>, Inr conn)))"

definition close_connections :: "nat \<Rightarrow> connections \<Rightarrow> connections" where
  "close_connections t tc = tc\<lparr>tc_closed := True, tc_local := (tc_local tc)(t := None)\<rparr>"

datatype connection_op = Get nat "nat res" "nat res" | Close nat

text \<open>The instance after a sequence of calls, and what each \<open>get\<close> gave.\<close>

primrec connection_step :: "connections \<Rightarrow> connection_op \<Rightarrow> connections \<times> nat res list" where
  "connection_step tc (Get t boot cheap) = (let (tc1, r) = get_connection t boot cheap tc in (tc1, [r]))"
| "connection_step tc (Close t) = (close_connections t tc, [])"

primrec connection_run :: "connections \<Rightarrow> connection_op list \<Rightarrow> connections \<times> nat res list" where
  "connection_run tc [] = (tc, [])"
| "connection_run tc (op # ops) =
     (let (tc1, rs1) = connection_step tc op; (tc2, rs2) = connection_run tc1 ops in (tc2, rs1 @ rs2))"

end
