(* ===== verification/Nelix_Hooks.thy ===== *)
theory Nelix_Hooks
  imports Nelix_Prelude
begin

text \<open>
  \<^verbatim>\<open>daemon/observation.py\<close> and \<^verbatim>\<open>daemon/hooks.py\<close>: what a driver observes on the
  screen, and the mapping of an agent's lifecycle hooks to observations. The digest of a
  tool call (SHA-1 of its name and canonical JSON) is a parameter.
\<close>

section \<open>observation.py\<close>

record heartbeat =
  hb_fp :: "string option"
  hb_present :: bool
  hb_expected_to_change :: bool

record observation =
  ob_prompt_kind :: string
  ob_affordances :: "string set"
  ob_options :: "(string \<times> string) list"
  ob_submitted_echo_present :: bool
  ob_semantic_fp :: string
  ob_content_fp :: string
  ob_prompt_fp :: string
  ob_heartbeat :: heartbeat
  ob_busy_reason :: "string option"

section \<open>hooks.py\<close>

record hook_event =
  he_event :: string
  he_tool_name :: "string option"
  he_tool_input :: "(string, pyval) dict"
  he_is_interrupt :: bool
  he_notification :: "string option"

record hook_observation =
  ho_kind :: string
  ho_closes_turn :: bool
  ho_opens_turn :: bool
  ho_clears_pending :: bool
  ho_interrupted :: bool
  ho_prompt_kind :: "string option"
  ho_raw_event :: string
  ho_gate_fp :: "string option"

definition gate_fingerprint ::
  "(string \<Rightarrow> (string, pyval) dict \<Rightarrow> string) \<Rightarrow> string option \<Rightarrow> (string, pyval) dict \<Rightarrow> string option" where
  "gate_fingerprint digest tool_name tool_input =
     (if tool_input = [] then None
      else Some (digest (case tool_name of None \<Rightarrow> [] | Some t \<Rightarrow> t) tool_input))"

text \<open>\<open>HookObservation(kind=..., ...)\<close> with the defaults of the class.\<close>

definition HookObservation :: "string \<Rightarrow> string \<Rightarrow> hook_observation" where
  "HookObservation kind raw =
     \<lparr>ho_kind = kind, ho_closes_turn = False, ho_opens_turn = False, ho_clears_pending = False,
      ho_interrupted = False, ho_prompt_kind = None, ho_raw_event = raw, ho_gate_fp = None\<rparr>"

definition starts_with :: "string \<Rightarrow> string \<Rightarrow> bool" where
  "starts_with s p \<longleftrightarrow> take (length p) s = p"

definition normalize_notification :: "string option \<Rightarrow> string \<Rightarrow> hook_observation" where
  "normalize_notification notification event =
     (let note = (case notification of None \<Rightarrow> [] | Some n \<Rightarrow> n) in
      if starts_with note ''permission''
      then (HookObservation ''waiting_for_user'' event)\<lparr>ho_prompt_kind := Some ''permission_choice''\<rparr>
      else if starts_with note ''idle'' then (HookObservation ''idle'' event)\<lparr>ho_closes_turn := True\<rparr>
      else HookObservation ''working'' event)"

definition normalize_claude_hook ::
  "(string \<Rightarrow> (string, pyval) dict \<Rightarrow> string) \<Rightarrow> hook_event \<Rightarrow> hook_observation" where
  "normalize_claude_hook digest ev =
     (let event = he_event ev; gate_fp = gate_fingerprint digest (he_tool_name ev) (he_tool_input ev) in
      if event = ''Stop'' \<or> event = ''StopFailure''
      then (HookObservation ''idle'' event)\<lparr>ho_closes_turn := True, ho_interrupted := he_is_interrupt ev\<rparr>
      else if event = ''UserPromptSubmit'' then (HookObservation ''working'' event)\<lparr>ho_opens_turn := True\<rparr>
      else if event = ''PermissionRequest''
      then (HookObservation ''waiting_for_user'' event)\<lparr>ho_prompt_kind := Some ''permission_choice'', ho_gate_fp := gate_fp\<rparr>
      else if he_tool_name ev = Some ''AskUserQuestion'' \<and> event = ''PreToolUse''
      then (HookObservation ''waiting_for_user'' event)\<lparr>ho_prompt_kind := Some ''modal_choice'', ho_gate_fp := gate_fp\<rparr>
      else if he_tool_name ev = Some ''AskUserQuestion'' \<and> event = ''PostToolUse''
      then (HookObservation ''working'' event)\<lparr>ho_clears_pending := True\<rparr>
      else if event = ''Notification'' then normalize_notification (he_notification ev) event
      else (HookObservation ''working'' event)\<lparr>ho_gate_fp := (if event = ''PreToolUse'' then gate_fp else None)\<rparr>)"

end
