(* ===== verification/Nelix_Belief.thy ===== *)
theory Nelix_Belief
  imports Nelix_Hooks
begin

text \<open>
  \<^verbatim>\<open>daemon/belief.py\<close>: the belief engine, which turns screen observations and hooks into
  actions. The engine is a record of every attribute of \<open>BeliefEngine\<close>; its methods map it
  to the new engine and the actions emitted. The clock is an argument \<open>now\<close>, times are
  exact rationals. Decision keys are a datatype instead of formatted strings. The start of
  a candidate, of a reconciliation and the end of the post-submit grace are read only while
  the attribute beside them is set, so they are plain rationals, 0 where the code has \<open>None\<close>.
\<close>

section \<open>Actions, notes, state\<close>

datatype decision_key =
    HookGate string
  | HookPause nat
  | IdleKey nat
  | InterventionKey nat
  | ScreenKey string string

datatype liveness = Live | Stale | UnknownLiveness

datatype payload =
    IdlePayload bool bool
  | InterventionPayload nat "string option" liveness string
  | PausePayload "string option" "string option"
  | DecisionPayload string "(string \<times> string) list" "string option"

datatype action =
    Publish (kind: string) (respondable: bool) (pub_key: decision_key) (pub_payload: payload)
  | Withdraw decision_key string
  | Finalize

datatype belief_note =
    BeliefSuppressed string
  | PostSubmitArmed rat
  | PostSubmitCleared string

record engine_state =
  en_control_state :: string
  en_busy_reason :: "string option"
  en_liveness :: liveness
  en_quiet_elapsed :: rat
  en_escalation_count :: nat
  en_phase :: string

record belief_cfg =
  cf_post_submit_grace :: rat
  cf_hook_startup_grace :: rat
  cf_lost_stop_after :: rat
  cf_hook_turn_grace :: rat
  cf_heartbeat_stale_after :: rat
  cf_stale_budget :: rat
  cf_live_budget :: rat
  cf_unknown_budget :: rat
  cf_echo_stuck_after :: rat
  cf_withdrawn_cooldown :: rat
  cf_idle_confirm_window :: rat
  cf_reason_ttl :: rat

text \<open>The defaults of \<open>BeliefConfig\<close>.\<close>

definition BeliefConfig :: belief_cfg where
  "BeliefConfig = \<lparr>cf_post_submit_grace = 8, cf_hook_startup_grace = 12, cf_lost_stop_after = 45,
     cf_hook_turn_grace = 4, cf_heartbeat_stale_after = 10, cf_stale_budget = 30, cf_live_budget = 1800,
     cf_unknown_budget = 60, cf_echo_stuck_after = 20, cf_withdrawn_cooldown = 1, cf_idle_confirm_window = 1 / 2,
     cf_reason_ttl = 30\<rparr>"

datatype hook_mode = HookUnknown | HookActive | HookUnavailable

record screen_belief =
  b_semantic_fp :: "string option"
  b_semantic_change_ts :: "rat option"
  b_heartbeat_fp :: "string option"
  b_heartbeat_seen_ts :: "rat option"
  b_heartbeat_changed_ts :: "rat option"
  b_candidate_fp :: "string option"
  b_candidate_since :: rat
  b_published_key :: "decision_key option"
  b_published_kind :: "string option"
  b_published_prompt_fp :: "string option"
  b_published_semantic_fp :: "string option"
  b_last_withdrawn_fp :: "string option"
  b_withdrawn_cooldown_until :: "rat option"
  b_intervention_active :: bool
  b_escalation_count :: nat
  b_next_nag_at :: "rat option"
  b_post_submit_active :: bool
  b_post_submit_grace_until :: rat
  b_post_submit_content_fp :: "string option"
  b_echo_since :: "rat option"
  b_notes :: "belief_note list"
  b_suppress_reason :: "string option"

record belief = screen_belief +
  b_hook_mode :: hook_mode
  b_turn_epoch :: nat
  b_turn_open :: bool
  b_hook_pending_key :: "decision_key option"
  b_hook_pending_kind :: "string option"
  b_hook_answered_ids :: "decision_key list"
  b_idle_published_epoch :: "nat option"
  b_last_hook_at :: "rat option"
  b_hook_startup_at :: "rat option"
  b_hook_progress_fp :: "string option"
  b_hook_progress_at :: "rat option"
  b_reconcile_fp :: "string option"
  b_reconcile_since :: rat
  b_state :: engine_state

definition EngineState :: engine_state where
  "EngineState = \<lparr>en_control_state = ''busy'', en_busy_reason = None, en_liveness = UnknownLiveness,
     en_quiet_elapsed = 0, en_escalation_count = 0, en_phase = ''starting''\<rparr>"

definition BeliefEngine :: belief where
  "BeliefEngine =
     \<lparr>b_semantic_fp = None, b_semantic_change_ts = None, b_heartbeat_fp = None, b_heartbeat_seen_ts = None,
      b_heartbeat_changed_ts = None, b_candidate_fp = None, b_candidate_since = 0, b_published_key = None,
      b_published_kind = None, b_published_prompt_fp = None, b_published_semantic_fp = None,
      b_last_withdrawn_fp = None, b_withdrawn_cooldown_until = None, b_intervention_active = False,
      b_escalation_count = 0, b_next_nag_at = None, b_post_submit_active = False, b_post_submit_grace_until = 0,
      b_post_submit_content_fp = None, b_echo_since = None, b_notes = [], b_suppress_reason = None,
      b_hook_mode = HookUnknown, b_turn_epoch = 0, b_turn_open = False, b_hook_pending_key = None,
      b_hook_pending_kind = None, b_hook_answered_ids = [], b_idle_published_epoch = None, b_last_hook_at = None,
      b_hook_startup_at = None, b_hook_progress_fp = None, b_hook_progress_at = None, b_reconcile_fp = None,
      b_reconcile_since = 0, b_state = EngineState\<rparr>"

abbreviation control :: "belief \<Rightarrow> string" where
  "control b \<equiv> en_control_state (b_state b)"

definition set_control :: "string \<Rightarrow> belief \<Rightarrow> belief" where
  "set_control c b = b\<lparr>b_state := (b_state b)\<lparr>en_control_state := c\<rparr>\<rparr>"

definition set_phase :: "string \<Rightarrow> belief \<Rightarrow> belief" where
  "set_phase p b = b\<lparr>b_state := (b_state b)\<lparr>en_phase := p\<rparr>\<rparr>"

text \<open>Both at once, the pair of assignments most branches end with.\<close>

definition enter :: "string \<Rightarrow> string \<Rightarrow> belief \<Rightarrow> belief" where
  "enter c p b = set_phase p (set_control c b)"

section \<open>Notes\<close>

definition add_note :: "belief_note \<Rightarrow> belief \<Rightarrow> belief" where
  "add_note n b = b\<lparr>b_notes := b_notes b @ [n]\<rparr>"

definition drain_notes :: "belief \<Rightarrow> belief \<times> belief_note list" where
  "drain_notes b = (b\<lparr>b_notes := []\<rparr>, b_notes b)"

definition suppressed :: "string \<Rightarrow> belief \<Rightarrow> belief" where
  "suppressed reason b =
     (if b_suppress_reason b \<noteq> Some reason
      then add_note (BeliefSuppressed reason) (b\<lparr>b_suppress_reason := Some reason\<rparr>) else b)"

section \<open>Fingerprints, liveness, the watchdog\<close>

definition track_semantic :: "observation \<Rightarrow> rat \<Rightarrow> belief \<Rightarrow> belief" where
  "track_semantic obs now b =
     (if b_semantic_fp b \<noteq> Some (ob_semantic_fp obs)
      then b\<lparr>b_semantic_fp := Some (ob_semantic_fp obs), b_semantic_change_ts := Some now,
             b_intervention_active := False, b_escalation_count := 0, b_next_nag_at := None\<rparr>
      else b)"

definition track_heartbeat :: "observation \<Rightarrow> rat \<Rightarrow> belief \<Rightarrow> belief" where
  "track_heartbeat obs now b =
     (let hb = ob_heartbeat obs in
      if \<not> hb_present hb then b
      else let b1 = b\<lparr>b_heartbeat_seen_ts := Some now\<rparr>
           in if hb_fp hb \<noteq> b_heartbeat_fp b1
              then b1\<lparr>b_heartbeat_fp := hb_fp hb, b_heartbeat_changed_ts := Some now\<rparr> else b1)"

definition liveness_of :: "belief_cfg \<Rightarrow> observation \<Rightarrow> rat \<Rightarrow> belief \<Rightarrow> liveness" where
  "liveness_of cfg obs now b =
     (let hb = ob_heartbeat obs in
      if \<not> hb_present hb \<or> \<not> hb_expected_to_change hb then UnknownLiveness
      else case b_heartbeat_changed_ts b of
             None \<Rightarrow> UnknownLiveness
           | Some t \<Rightarrow> if now - t < cf_heartbeat_stale_after cfg then Live else Stale)"

definition budget :: "belief_cfg \<Rightarrow> liveness \<Rightarrow> string option \<Rightarrow> rat" where
  "budget cfg lv busy_reason =
     (case lv of
        Stale \<Rightarrow> cf_stale_budget cfg
      | Live \<Rightarrow> cf_live_budget cfg
      | UnknownLiveness \<Rightarrow>
          if busy_reason \<in> {Some ''running_command'', Some ''waiting_subagents''} then cf_live_budget cfg
          else cf_unknown_budget cfg)"

definition quiet_for :: "rat \<Rightarrow> belief \<Rightarrow> rat" where
  "quiet_for now b = (case b_semantic_change_ts b of None \<Rightarrow> 0 | Some t \<Rightarrow> now - t)"

definition nag_due :: "rat \<Rightarrow> belief \<Rightarrow> bool" where
  "nag_due now b = (case b_next_nag_at b of None \<Rightarrow> True | Some t \<Rightarrow> t \<le> now)"

text \<open>
  The throttled advisory shared by the watchdog and the two escalations: count, schedule the
  next one a budget later, publish.
\<close>

definition nag :: "belief_cfg \<Rightarrow> observation \<Rightarrow> rat \<Rightarrow> string \<Rightarrow> belief \<Rightarrow> belief \<times> action list" where
  "nag cfg obs now hint b =
     (let lv = liveness_of cfg obs now b; n = Suc (b_escalation_count b) in
      (b\<lparr>b_escalation_count := n, b_next_nag_at := Some (now + budget cfg lv (ob_busy_reason obs))\<rparr>,
       [Publish ''intervention_required'' False (InterventionKey n)
          (InterventionPayload n (ob_busy_reason obs) lv hint)]))"

definition watchdog :: "belief_cfg \<Rightarrow> observation \<Rightarrow> rat \<Rightarrow> belief \<Rightarrow> belief \<times> action list" where
  "watchdog cfg obs now b =
     (if quiet_for now b < budget cfg (liveness_of cfg obs now b) (ob_busy_reason obs)
      then (b\<lparr>b_intervention_active := False\<rparr>, [])
      else let b1 = b\<lparr>b_intervention_active := True\<rparr>
           in if nag_due now b1 then nag cfg obs now ''suspected_hung'' (set_phase ''suspected_hung'' b1) else (b1, []))"

definition escalate_stuck_input :: "belief_cfg \<Rightarrow> observation \<Rightarrow> rat \<Rightarrow> belief \<Rightarrow> belief \<times> action list" where
  "escalate_stuck_input cfg obs now b =
     (let b1 = b\<lparr>b_intervention_active := True\<rparr>
      in if nag_due now b1 then nag cfg obs now ''submit_unconfirmed'' (set_phase ''submit_unconfirmed'' b1) else (b1, []))"

definition escalate_lost_stop :: "belief_cfg \<Rightarrow> observation \<Rightarrow> rat \<Rightarrow> belief \<Rightarrow> belief \<times> action list" where
  "escalate_lost_stop cfg obs now b =
     (let b1 = b\<lparr>b_intervention_active := True\<rparr>
      in if nag_due now b1
         then nag cfg obs now ''lost_stop'' (enter ''intervention_required'' ''lost_stop'' b1) else (b1, []))"

section \<open>The submit edge\<close>

definition on_submit :: "belief_cfg \<Rightarrow> rat \<Rightarrow> belief \<Rightarrow> belief" where
  "on_submit cfg now b =
     add_note (PostSubmitArmed (cf_post_submit_grace cfg))
       (b\<lparr>b_published_key := None, b_published_kind := None,
          b_hook_answered_ids := (case b_hook_pending_key b of
             None \<Rightarrow> b_hook_answered_ids b | Some k \<Rightarrow> List.insert k (b_hook_answered_ids b)),
          b_hook_pending_key := None, b_hook_pending_kind := None,
          b_candidate_fp := None, b_candidate_since := 0,
          b_published_prompt_fp := None, b_published_semantic_fp := None,
          b_last_withdrawn_fp := None, b_withdrawn_cooldown_until := None,
          b_post_submit_active := True, b_post_submit_grace_until := now + cf_post_submit_grace cfg,
          b_post_submit_content_fp := None, b_echo_since := None, b_suppress_reason := None\<rparr>)"

definition clear_post_submit :: "string \<Rightarrow> belief \<Rightarrow> belief" where
  "clear_post_submit reason b = add_note (PostSubmitCleared reason) (b\<lparr>b_post_submit_active := False\<rparr>)"

definition update_post_submit :: "belief_cfg \<Rightarrow> observation \<Rightarrow> rat \<Rightarrow> belief \<Rightarrow> belief" where
  "update_post_submit cfg obs now b =
     (if \<not> b_post_submit_active b then b
      else let b1 = (if b_post_submit_content_fp b = None
                     then b\<lparr>b_post_submit_content_fp := Some (ob_content_fp obs)\<rparr> else b)
      in if b_post_submit_grace_until b1 \<le> now then clear_post_submit ''grace_expired'' b1
         else if ob_prompt_kind obs = ''none'' \<and> liveness_of cfg obs now b1 = Live then clear_post_submit ''busy_live'' b1
         else if \<not> ob_submitted_echo_present obs \<and> b_post_submit_content_fp b1 \<noteq> Some (ob_content_fp obs)
         then clear_post_submit ''real_output'' b1
         else b1)"

section \<open>Publishing and withdrawing a screen decision\<close>

definition withdraw :: "belief_cfg \<Rightarrow> string \<Rightarrow> rat \<Rightarrow> belief \<Rightarrow> belief \<times> action list" where
  "withdraw cfg reason now b =
     (b\<lparr>b_last_withdrawn_fp := b_published_semantic_fp b,
        b_withdrawn_cooldown_until := Some (now + cf_withdrawn_cooldown cfg),
        b_published_key := None, b_published_kind := None, b_published_prompt_fp := None,
        b_published_semantic_fp := None\<rparr>,
      case b_published_key b of None \<Rightarrow> [] | Some k \<Rightarrow> [Withdraw k reason])"

definition permission_hint :: "string option \<Rightarrow> string option" where
  "permission_hint k = (if k = Some ''permission_choice'' then Some ''needs_permission'' else None)"

definition publish_decision :: "observation \<Rightarrow> belief \<Rightarrow> belief \<times> action list" where
  "publish_decision obs b =
     (let k = ScreenKey (ob_prompt_kind obs) (ob_semantic_fp obs) in
      (b\<lparr>b_suppress_reason := None, b_published_key := Some k, b_published_kind := Some (ob_prompt_kind obs),
         b_published_prompt_fp := Some (ob_prompt_fp obs), b_published_semantic_fp := Some (ob_semantic_fp obs)\<rparr>,
       [Publish ''waiting_for_user'' True k
          (DecisionPayload (ob_prompt_kind obs) (ob_options obs) (permission_hint (Some (ob_prompt_kind obs))))]))"

section \<open>The screen path\<close>

definition on_busy :: "belief_cfg \<Rightarrow> observation \<Rightarrow> rat \<Rightarrow> belief \<Rightarrow> belief \<times> action list" where
  "on_busy cfg obs now b =
     (let (b1, a1) = (if b_published_key b \<noteq> None then withdraw cfg ''turn_resumed'' now b else (b, []));
          b2 = set_phase ''busy'' (b1\<lparr>b_candidate_fp := None, b_candidate_since := 0, b_echo_since := None,
                 b_suppress_reason := None\<rparr>);
          (b3, a3) = watchdog cfg obs now b2
      in (b3, a1 @ a3))"

definition in_hook_startup_grace :: "belief_cfg \<Rightarrow> rat \<Rightarrow> belief \<Rightarrow> bool" where
  "in_hook_startup_grace cfg now b =
     (case b_hook_startup_at b of
        None \<Rightarrow> False
      | Some t \<Rightarrow> b_hook_mode b = HookUnknown \<and> now - t < cf_hook_startup_grace cfg)"

definition prompt_region :: "observation \<Rightarrow> string" where
  "prompt_region obs = (if ob_prompt_fp obs \<noteq> [] then ob_prompt_fp obs else ob_semantic_fp obs)"

text \<open>The free-text tail of \<open>_on_prompt\<close>, after the candidate was recorded.\<close>

definition on_free_text :: "belief_cfg \<Rightarrow> observation \<Rightarrow> rat \<Rightarrow> belief \<Rightarrow> belief \<times> action list" where
  "on_free_text cfg obs now b =
     (if in_hook_startup_grace cfg now b then (suppressed ''hook_startup_grace'' b, [])
      else if ob_submitted_echo_present obs then
        (let since = (case b_echo_since b of None \<Rightarrow> now | Some t \<Rightarrow> t);
             b1 = b\<lparr>b_echo_since := Some since\<rparr>
         in if now - since < cf_echo_stuck_after cfg then (suppressed ''submitted_echo_present'' b1, [])
            else escalate_stuck_input cfg obs now b1)
      else let b1 = b\<lparr>b_echo_since := None\<rparr> in
        if b_post_submit_active b1 \<and> now < b_post_submit_grace_until b1 then (suppressed ''post_submit_grace'' b1, [])
        else if Some (ob_semantic_fp obs) = b_last_withdrawn_fp b1 \<and>
                (case b_withdrawn_cooldown_until b1 of None \<Rightarrow> False | Some t \<Rightarrow> now < t)
        then (suppressed ''anti_flap'' b1, [])
        else if now - b_candidate_since b1 < cf_idle_confirm_window cfg then (suppressed ''not_settled'' b1, [])
        else publish_decision obs b1)"

definition on_prompt :: "belief_cfg \<Rightarrow> observation \<Rightarrow> rat \<Rightarrow> belief \<Rightarrow> belief \<times> action list" where
  "on_prompt cfg obs now b =
     (let b0 = b\<lparr>b_intervention_active := False\<rparr>;
          (b1, a1) = (if b_published_key b0 \<noteq> None \<and> b_published_prompt_fp b0 \<noteq> Some (ob_prompt_fp obs)
                      then withdraw cfg ''prompt_changed'' now b0 else (b0, []))
      in if b_published_key b1 \<noteq> None then (set_phase ''pause_candidate'' b1, a1)
         else let b2 = (if b_candidate_fp b1 \<noteq> Some (prompt_region obs)
                        then b1\<lparr>b_candidate_fp := Some (prompt_region obs), b_candidate_since := now\<rparr> else b1);
                  b3 = set_phase ''pause_candidate'' b2;
                  (b4, a4) = (if ob_prompt_kind obs \<in> {''modal_choice'', ''permission_choice''}
                              then publish_decision obs b3 else on_free_text cfg obs now b3)
              in (b4, a1 @ a4))"

definition refresh_fields :: "belief_cfg \<Rightarrow> observation \<Rightarrow> rat \<Rightarrow> belief \<Rightarrow> belief" where
  "refresh_fields cfg obs now b =
     b\<lparr>b_state := (b_state b)\<lparr>en_quiet_elapsed := quiet_for now b, en_liveness := liveness_of cfg obs now b,
        en_busy_reason := ob_busy_reason obs, en_escalation_count := b_escalation_count b\<rparr>\<rparr>"

definition refresh_state :: "belief_cfg \<Rightarrow> observation \<Rightarrow> rat \<Rightarrow> belief \<Rightarrow> belief" where
  "refresh_state cfg obs now b =
     refresh_fields cfg obs now
       (set_control (if b_published_key b \<noteq> None then ''awaiting_user''
                     else if b_intervention_active b then ''intervention_required'' else ''busy'') b)"

section \<open>The hook path\<close>

definition expect_hooks :: "rat \<Rightarrow> belief \<Rightarrow> belief" where
  "expect_hooks now b = (if b_hook_mode b = HookUnknown then b\<lparr>b_hook_startup_at := Some now\<rparr> else b)"

definition turn_closed :: "belief \<Rightarrow> bool" where
  "turn_closed b \<longleftrightarrow> b_idle_published_epoch b = Some (b_turn_epoch b)"

definition preferred_prompt_kind :: "string option \<Rightarrow> string option \<Rightarrow> string option" where
  "preferred_prompt_kind a b =
     (if a = Some ''modal_choice'' \<or> b = Some ''modal_choice'' then Some ''modal_choice''
      else if a = None then b else a)"

definition hook_pause_publish :: "decision_key \<Rightarrow> string option \<Rightarrow> action" where
  "hook_pause_publish k pk = Publish ''waiting_for_user'' True k (PausePayload pk (permission_hint pk))"

text \<open>What every hook does first: the mode, the superseded screen decision, the clocks.\<close>

definition hook_arrives :: "belief_cfg \<Rightarrow> rat \<Rightarrow> belief \<Rightarrow> belief \<times> action list" where
  "hook_arrives cfg now b =
     (let b0 = b\<lparr>b_hook_mode := HookActive\<rparr>;
          (b1, a1) = (if b_hook_mode b \<noteq> HookActive \<and> b_published_key b0 \<noteq> None
                      then withdraw cfg ''superseded'' now b0 else (b0, []))
      in (b1\<lparr>b_last_hook_at := Some now, b_hook_progress_fp := None, b_hook_progress_at := None,
             b_reconcile_fp := None, b_reconcile_since := 0\<rparr>, a1))"

definition hook_opens :: "belief \<Rightarrow> belief" where
  "hook_opens b =
     enter ''busy'' ''busy''
       (b\<lparr>b_turn_epoch := Suc (b_turn_epoch b), b_turn_open := True, b_hook_pending_key := None,
          b_hook_pending_kind := None, b_hook_answered_ids := []\<rparr>)"

definition hook_closes :: "hook_observation \<Rightarrow> belief \<Rightarrow> belief \<times> action list" where
  "hook_closes ho b =
     (if turn_closed b then (b, [])
      else (enter ''idle'' ''idle''
              (b\<lparr>b_turn_open := False, b_idle_published_epoch := Some (b_turn_epoch b), b_hook_answered_ids := [],
                 b_hook_pending_key := None,
                 b_hook_pending_kind := (if b_hook_pending_key b \<noteq> None then None else b_hook_pending_kind b)\<rparr>),
            (case b_hook_pending_key b of None \<Rightarrow> [] | Some k \<Rightarrow> [Withdraw k ''superseded''])
            @ [Publish ''idle'' False (IdleKey (b_turn_epoch b)) (IdlePayload (ho_interrupted ho) False)]))"

definition hook_clears :: "belief \<Rightarrow> belief \<times> action list" where
  "hook_clears b =
     (if turn_closed b then (b, [])
      else (enter ''busy'' ''busy''
              (b\<lparr>b_turn_open := True, b_hook_pending_key := None,
                 b_hook_pending_kind := (if b_hook_pending_key b \<noteq> None then None else b_hook_pending_kind b)\<rparr>),
            (case b_hook_pending_key b of None \<Rightarrow> [] | Some k \<Rightarrow> [Withdraw k ''prompt_left''])))"

definition gate_key :: "hook_observation \<Rightarrow> belief \<Rightarrow> decision_key" where
  "gate_key ho b =
     (case ho_gate_fp ho of
        Some fp \<Rightarrow> if fp \<noteq> [] then HookGate fp else HookPause (b_turn_epoch b)
      | None \<Rightarrow> HookPause (b_turn_epoch b))"

definition hook_waits :: "hook_observation \<Rightarrow> belief \<Rightarrow> belief \<times> action list" where
  "hook_waits ho b =
     (if turn_closed b then (b, [])
      else let k = gate_key ho b; eff = preferred_prompt_kind (b_hook_pending_kind b) (ho_prompt_kind ho) in
        if b_hook_pending_key b = Some k then
          (enter ''awaiting_user'' ''pause_candidate'' (b\<lparr>b_hook_pending_kind := eff, b_turn_open := True\<rparr>),
           if eff \<noteq> b_hook_pending_kind b then [hook_pause_publish k eff] else [])
        else if k \<in> set (b_hook_answered_ids b) then (enter ''busy'' ''busy'' (b\<lparr>b_turn_open := True\<rparr>), [])
        else (enter ''awaiting_user'' ''pause_candidate''
                (b\<lparr>b_hook_pending_key := Some k, b_hook_pending_kind := eff, b_turn_open := True\<rparr>),
              [hook_pause_publish k eff]))"

definition hook_works :: "hook_observation \<Rightarrow> belief \<Rightarrow> belief" where
  "hook_works ho b =
     (if \<not> b_turn_open b then b
      else enter ''busy'' ''busy''
             (case ho_gate_fp ho of
                None \<Rightarrow> b
              | Some fp \<Rightarrow> b\<lparr>b_hook_answered_ids := removeAll (HookGate fp) (b_hook_answered_ids b)\<rparr>))"

definition on_hook :: "belief_cfg \<Rightarrow> hook_observation \<Rightarrow> rat \<Rightarrow> belief \<Rightarrow> belief \<times> action list" where
  "on_hook cfg ho now b =
     (let (b1, a1) = hook_arrives cfg now b;
          (b2, a2) = (if ho_opens_turn ho then (hook_opens b1, [])
                      else if ho_closes_turn ho then hook_closes ho b1
                      else if ho_clears_pending ho then hook_clears b1
                      else if ho_kind ho = ''waiting_for_user'' then hook_waits ho b1
                      else (hook_works ho b1, []))
      in (b2, a1 @ a2))"

section \<open>The tick\<close>

definition maybe_expire_startup_grace :: "belief_cfg \<Rightarrow> rat \<Rightarrow> belief \<Rightarrow> belief" where
  "maybe_expire_startup_grace cfg now b =
     (case b_hook_startup_at b of
        None \<Rightarrow> b
      | Some t \<Rightarrow> if b_hook_mode b = HookUnknown \<and> cf_hook_startup_grace cfg \<le> now - t
                 then b\<lparr>b_hook_mode := HookUnavailable\<rparr> else b)"

definition track_hook_progress :: "observation \<Rightarrow> rat \<Rightarrow> belief \<Rightarrow> belief" where
  "track_hook_progress obs now b =
     (case b_hook_progress_fp b of
        None \<Rightarrow> b\<lparr>b_hook_progress_fp := Some (ob_semantic_fp obs),
                  b_hook_progress_at := Some (case b_last_hook_at b of None \<Rightarrow> now | Some t \<Rightarrow> t)\<rparr>
      | Some fp \<Rightarrow> if ob_semantic_fp obs \<noteq> fp
                  then b\<lparr>b_hook_progress_fp := Some (ob_semantic_fp obs), b_hook_progress_at := Some now\<rparr> else b)"

definition lost_stop_stuck :: "belief_cfg \<Rightarrow> rat \<Rightarrow> belief \<Rightarrow> bool" where
  "lost_stop_stuck cfg now b \<longleftrightarrow>
     (case b_last_hook_at b of None \<Rightarrow> False | Some t \<Rightarrow> cf_lost_stop_after cfg \<le> now - t) \<and>
     (case b_hook_progress_at b of None \<Rightarrow> False | Some t \<Rightarrow> cf_lost_stop_after cfg \<le> now - t)"

definition reconcile_lost_stop_idle :: "belief_cfg \<Rightarrow> observation \<Rightarrow> rat \<Rightarrow> belief \<Rightarrow> belief \<times> action list" where
  "reconcile_lost_stop_idle cfg obs now b =
     (let b1 = (if b_reconcile_fp b \<noteq> Some (prompt_region obs)
                then b\<lparr>b_reconcile_fp := Some (prompt_region obs), b_reconcile_since := now\<rparr> else b)
      in if cf_hook_turn_grace cfg \<le> now - b_reconcile_since b1 \<and>
            (case b_last_hook_at b1 of None \<Rightarrow> True | Some t \<Rightarrow> cf_hook_turn_grace cfg \<le> now - t)
         then (enter ''idle'' ''idle''
                 (b1\<lparr>b_turn_open := False, b_idle_published_epoch := Some (b_turn_epoch b1),
                     b_reconcile_fp := None, b_reconcile_since := 0\<rparr>),
               [Publish ''idle'' False (IdleKey (b_turn_epoch b1)) (IdlePayload False True)])
         else (b1, []))"

text \<open>The watchdog over hook mode, after the reconciliations found nothing.\<close>

definition hook_watchdog :: "belief_cfg \<Rightarrow> observation \<Rightarrow> rat \<Rightarrow> belief \<Rightarrow> belief \<times> action list" where
  "hook_watchdog cfg obs now b =
     (let (b1, a1) = watchdog cfg obs now b
      in (refresh_fields cfg obs now
            (set_control (if b_intervention_active b1 then ''intervention_required'' else ''busy'') b1), a1))"

definition tick_hook_active :: "belief_cfg \<Rightarrow> observation \<Rightarrow> rat \<Rightarrow> belief \<Rightarrow> belief \<times> action list" where
  "tick_hook_active cfg obs now b =
     (if control b \<notin> {''busy'', ''intervention_required''} then (refresh_fields cfg obs now b, [])
      else if ob_prompt_kind obs = ''free_text'' then
        (let (b1, a1) = reconcile_lost_stop_idle cfg obs now b
         in if a1 \<noteq> [] then (b1, a1) else hook_watchdog cfg obs now b1)
      else let b1 = track_hook_progress obs now (b\<lparr>b_reconcile_fp := None, b_reconcile_since := 0\<rparr>)
        in if lost_stop_stuck cfg now b1 then escalate_lost_stop cfg obs now b1
           else hook_watchdog cfg obs now b1)"

definition PROMPT_KINDS :: "string list" where
  "PROMPT_KINDS = [''free_text'', ''modal_choice'', ''permission_choice'']"

definition screen_tick :: "belief_cfg \<Rightarrow> observation \<Rightarrow> rat \<Rightarrow> belief \<Rightarrow> belief \<times> action list" where
  "screen_tick cfg obs now b =
     (let b1 = update_post_submit cfg obs now b;
          (b2, a2) = (if ob_prompt_kind obs \<in> set PROMPT_KINDS then on_prompt cfg obs now b1 else on_busy cfg obs now b1)
      in (refresh_state cfg obs now b2, a2))"

definition tick :: "belief_cfg \<Rightarrow> observation \<Rightarrow> bool \<Rightarrow> rat \<Rightarrow> belief \<Rightarrow> belief \<times> action list" where
  "tick cfg obs child_alive now b =
     (let b1 = track_heartbeat obs now (track_semantic obs now b) in
      if \<not> child_alive \<or> ob_prompt_kind obs \<in> {''crash'', ''exit''}
      then (enter ''terminal'' ''terminal'' b1, [Finalize])
      else let b2 = maybe_expire_startup_grace cfg now b1
           in if b_hook_mode b2 = HookActive then tick_hook_active cfg obs now b2 else screen_tick cfg obs now b2)"

section \<open>Runs\<close>

datatype belief_op =
    Tick observation bool rat
  | Hook hook_observation rat
  | Submit rat
  | ExpectHooks rat
  | DrainNotes

primrec belief_step :: "belief_cfg \<Rightarrow> belief_op \<Rightarrow> belief \<Rightarrow> belief \<times> action list" where
  "belief_step cfg (Tick obs alive now) b = tick cfg obs alive now b"
| "belief_step cfg (Hook ho now) b = on_hook cfg ho now b"
| "belief_step cfg (Submit now) b = (on_submit cfg now b, [])"
| "belief_step cfg (ExpectHooks now) b = (expect_hooks now b, [])"
| "belief_step cfg DrainNotes b = (fst (drain_notes b), [])"

text \<open>The engine after a sequence of calls, and all actions it emitted, in order.\<close>

primrec belief_run :: "belief_cfg \<Rightarrow> belief_op list \<Rightarrow> belief \<Rightarrow> belief \<times> action list" where
  "belief_run cfg [] b = (b, [])"
| "belief_run cfg (op # ops) b =
     (let (b1, a1) = belief_step cfg op b; (b2, a2) = belief_run cfg ops b1 in (b2, a1 @ a2))"

end
