(* ===== verification/Nelix_Belief_Inv.thy ===== *)
theory Nelix_Belief_Inv
  imports Nelix_Belief
begin

text \<open>
  The belief engine's invariant, the protocol between publications and withdrawals, and
  what each method leaves alone.
\<close>

lemmas belief_frame_defs = set_control_def set_phase_def enter_def add_note_def suppressed_def refresh_fields_def
  refresh_state_def

section \<open>What the screen path never touches\<close>

definition same_hooks :: "belief \<Rightarrow> belief \<Rightarrow> bool" where
  "same_hooks b b' \<longleftrightarrow> b_turn_epoch b' = b_turn_epoch b \<and> b_turn_open b' = b_turn_open b \<and>
     b_hook_pending_key b' = b_hook_pending_key b \<and> b_hook_answered_ids b' = b_hook_answered_ids b \<and>
     b_idle_published_epoch b' = b_idle_published_epoch b"

lemma same_hooks_refl [simp]: "same_hooks b b"
  by (simp add: same_hooks_def)

lemma same_hooks_trans: "same_hooks a b \<Longrightarrow> same_hooks b c \<Longrightarrow> same_hooks a c"
  by (simp add: same_hooks_def)

lemma same_hooks_basic [simp]:
  "same_hooks b (set_control c b)" "same_hooks b (set_phase p b)" "same_hooks b (enter c p b)"
  "same_hooks b (add_note n b)" "same_hooks b (suppressed r b)" "same_hooks b (refresh_fields cfg obs now b)"
  "same_hooks b (refresh_state cfg obs now b)" "same_hooks b (track_semantic obs now b)"
  "same_hooks b (track_heartbeat obs now b)" "same_hooks b (fst (nag cfg obs now h b))"
  "same_hooks b (fst (withdraw cfg r now b))" "same_hooks b (fst (publish_decision obs b))"
  "same_hooks b (clear_post_submit r b)" "same_hooks b (maybe_expire_startup_grace cfg now b)"
  "same_hooks b (track_hook_progress obs now b)"
  by (auto simp: same_hooks_def belief_frame_defs track_semantic_def track_heartbeat_def nag_def withdraw_def
      publish_decision_def clear_post_submit_def maybe_expire_startup_grace_def track_hook_progress_def Let_def
      split: option.split)

lemma same_hooks_watchdog [simp]:
  "same_hooks b (fst (watchdog cfg obs now b))" "same_hooks b (fst (escalate_stuck_input cfg obs now b))"
  "same_hooks b (fst (escalate_lost_stop cfg obs now b))" "same_hooks b (update_post_submit cfg obs now b)"
  by (auto simp: same_hooks_def belief_frame_defs watchdog_def escalate_stuck_input_def escalate_lost_stop_def nag_def
      update_post_submit_def clear_post_submit_def Let_def)

text \<open>The mode and the screen decision.\<close>

lemma screen_frame [simp]:
  "b_hook_mode (set_control c b) = b_hook_mode b" "b_published_key (set_control c b) = b_published_key b"
  "b_hook_mode (set_phase p b) = b_hook_mode b" "b_published_key (set_phase p b) = b_published_key b"
  "b_hook_mode (enter c p b) = b_hook_mode b" "b_published_key (enter c p b) = b_published_key b"
  "b_hook_mode (add_note n b) = b_hook_mode b" "b_published_key (add_note n b) = b_published_key b"
  "b_hook_mode (suppressed r b) = b_hook_mode b" "b_published_key (suppressed r b) = b_published_key b"
  "b_hook_mode (refresh_fields cfg obs now b) = b_hook_mode b" "b_published_key (refresh_fields cfg obs now b) = b_published_key b"
  "b_hook_mode (refresh_state cfg obs now b) = b_hook_mode b" "b_published_key (refresh_state cfg obs now b) = b_published_key b"
  "b_hook_mode (track_semantic obs now b) = b_hook_mode b" "b_published_key (track_semantic obs now b) = b_published_key b"
  "b_hook_mode (track_heartbeat obs now b) = b_hook_mode b" "b_published_key (track_heartbeat obs now b) = b_published_key b"
  "b_hook_mode (update_post_submit cfg obs now b) = b_hook_mode b"
  "b_published_key (update_post_submit cfg obs now b) = b_published_key b"
  "b_hook_mode (track_hook_progress obs now b) = b_hook_mode b"
  "b_published_key (track_hook_progress obs now b) = b_published_key b"
  "b_published_key (maybe_expire_startup_grace cfg now b) = b_published_key b"
  by (auto simp: belief_frame_defs track_semantic_def track_heartbeat_def update_post_submit_def clear_post_submit_def
      track_hook_progress_def maybe_expire_startup_grace_def Let_def split: option.split)

lemma watchdog_frame [simp]:
  "b_hook_mode (fst (watchdog cfg obs now b)) = b_hook_mode b"
  "b_published_key (fst (watchdog cfg obs now b)) = b_published_key b"
  "b_hook_mode (fst (escalate_stuck_input cfg obs now b)) = b_hook_mode b"
  "b_published_key (fst (escalate_stuck_input cfg obs now b)) = b_published_key b"
  "b_hook_mode (fst (escalate_lost_stop cfg obs now b)) = b_hook_mode b"
  "b_published_key (fst (escalate_lost_stop cfg obs now b)) = b_published_key b"
  by (auto simp: belief_frame_defs watchdog_def escalate_stuck_input_def escalate_lost_stop_def nag_def Let_def)

section \<open>Publications and withdrawals\<close>

primrec outstanding :: "action list \<Rightarrow> decision_key set \<Rightarrow> decision_key set" where
  "outstanding [] S = S"
| "outstanding (a # as) S =
     outstanding as (case a of Publish _ r k _ \<Rightarrow> if r then insert k S else S | Withdraw k _ \<Rightarrow> S - {k} | Finalize \<Rightarrow> S)"

text \<open>Every withdrawal is of a decision published before and not withdrawn since.\<close>

primrec withdraws_ok :: "action list \<Rightarrow> decision_key set \<Rightarrow> bool" where
  "withdraws_ok [] S = True"
| "withdraws_ok (a # as) S \<longleftrightarrow>
     (case a of Withdraw k _ \<Rightarrow> k \<in> S | _ \<Rightarrow> True) \<and>
     withdraws_ok as (case a of Publish _ r k _ \<Rightarrow> if r then insert k S else S | Withdraw k _ \<Rightarrow> S - {k} | Finalize \<Rightarrow> S)"

lemma outstanding_append: "outstanding (xs @ ys) S = outstanding ys (outstanding xs S)"
  by (induction xs arbitrary: S) auto

lemma withdraws_ok_append: "withdraws_ok (xs @ ys) S \<longleftrightarrow> withdraws_ok xs S \<and> withdraws_ok ys (outstanding xs S)"
  by (induction xs arbitrary: S) auto

definition held :: "belief \<Rightarrow> decision_key set" where
  "held b = set_option (b_published_key b) \<union> set_option (b_hook_pending_key b)"

definition idles :: "action list \<Rightarrow> nat list" where
  "idles as = List.map_filter (\<lambda>a. case a of Publish _ _ (IdleKey n) _ \<Rightarrow> Some n | _ \<Rightarrow> None) as"

lemma idles_simps [simp]:
  "idles [] = []" "idles (Withdraw k w # as) = idles as" "idles (Finalize # as) = idles as"
  "idles (Publish x r k p # as) = (case k of IdleKey n \<Rightarrow> [n] | _ \<Rightarrow> []) @ idles as"
  "idles (xs @ ys) = idles xs @ idles ys"
  by (simp_all add: idles_def List.map_filter_simps List.map_filter_def split: decision_key.split)

text \<open>Screen keys are published by the screen path, hook keys by hooks.\<close>

fun screen_key :: "decision_key \<Rightarrow> bool" where
  "screen_key (ScreenKey _ _) = True"
| "screen_key _ = False"

fun hook_key :: "decision_key \<Rightarrow> bool" where
  "hook_key (HookGate _) = True"
| "hook_key (HookPause _) = True"
| "hook_key _ = False"

definition belief_ok :: "belief \<Rightarrow> bool" where
  "belief_ok b \<longleftrightarrow>
     (b_hook_mode b = HookActive \<longrightarrow> b_published_key b = None) \<and>
     (\<forall>k. b_published_key b = Some k \<longrightarrow> screen_key k) \<and>
     (\<forall>k. b_hook_pending_key b = Some k \<longrightarrow> hook_key k) \<and>
     (\<forall>m. b_idle_published_epoch b = Some m \<longrightarrow> m \<le> b_turn_epoch b \<and> b_hook_mode b = HookActive) \<and>
     (turn_closed b \<longrightarrow> control b \<in> {''idle'', ''terminal''} \<and> \<not> b_turn_open b)"

lemma belief_ok_init: "belief_ok BeliefEngine"
  by (simp add: belief_ok_def BeliefEngine_def turn_closed_def)

text \<open>
  What a method does to the protocol: held decisions stay outstanding, withdrawals are
  legal, and the idles published are new.
\<close>

definition proto :: "belief \<Rightarrow> action list \<Rightarrow> belief \<Rightarrow> bool" where
  "proto b as b' \<longleftrightarrow> (\<forall>S. held b \<subseteq> S \<longrightarrow> withdraws_ok as S \<and> held b' \<subseteq> outstanding as S)"

lemma proto_refl [simp]: "proto b [] b"
  by (simp add: proto_def)

lemma proto_quiet: "held b' \<subseteq> held b \<Longrightarrow> proto b [] b'"
  by (auto simp: proto_def)

lemma proto_trans: "proto a xs b \<Longrightarrow> proto b ys c \<Longrightarrow> proto a (xs @ ys) c"
  by (simp add: proto_def withdraws_ok_append outstanding_append)

lemma held_same: "same_hooks b b' \<Longrightarrow> b_published_key b' = b_published_key b \<Longrightarrow> held b' = held b"
  by (simp add: held_def same_hooks_def)

lemma proto_same: "same_hooks b b' \<Longrightarrow> b_published_key b' = b_published_key b \<Longrightarrow> proto b [] b'"
  by (simp add: proto_quiet held_same)

lemma proto_advice:
  assumes "same_hooks b b'" "b_published_key b' = b_published_key b" "as = [] \<or> (\<exists>x n p. as = [Publish x False (InterventionKey n) p])"
  shows "proto b as b'"
  using assms(3) held_same [OF assms(1,2)] by (auto simp: proto_def)

lemma watchdog_actions:
  "snd (watchdog cfg obs now b) = [] \<or> (\<exists>n p. snd (watchdog cfg obs now b) = [Publish ''intervention_required'' False (InterventionKey n) p])"
  "snd (escalate_stuck_input cfg obs now b) = [] \<or> (\<exists>n p. snd (escalate_stuck_input cfg obs now b) = [Publish ''intervention_required'' False (InterventionKey n) p])"
  "snd (escalate_lost_stop cfg obs now b) = [] \<or> (\<exists>n p. snd (escalate_lost_stop cfg obs now b) = [Publish ''intervention_required'' False (InterventionKey n) p])"
  by (auto simp: watchdog_def escalate_stuck_input_def escalate_lost_stop_def nag_def Let_def)

lemma watchdog_proto:
  "proto b (snd (watchdog cfg obs now b)) (fst (watchdog cfg obs now b))"
  "proto b (snd (escalate_stuck_input cfg obs now b)) (fst (escalate_stuck_input cfg obs now b))"
  "proto b (snd (escalate_lost_stop cfg obs now b)) (fst (escalate_lost_stop cfg obs now b))"
  using watchdog_actions [of cfg obs now b] by (auto intro!: proto_advice)

definition keys_ok :: "belief \<Rightarrow> bool" where
  "keys_ok b \<longleftrightarrow> (\<forall>k. b_published_key b = Some k \<longrightarrow> screen_key k) \<and> (\<forall>k. b_hook_pending_key b = Some k \<longrightarrow> hook_key k)"

lemma keys_disjoint: "hook_key k \<Longrightarrow> \<not> screen_key k"
  by (cases k) simp_all

lemma keys_ok_same: "same_hooks b b' \<Longrightarrow> b_published_key b' = b_published_key b \<Longrightarrow> keys_ok b' = keys_ok b"
  by (simp add: keys_ok_def same_hooks_def)

lemma withdraw_frame [simp]:
  "b_published_key (fst (withdraw cfg w now b)) = None" "b_hook_mode (fst (withdraw cfg w now b)) = b_hook_mode b"
  "snd (withdraw cfg w now b) = (case b_published_key b of None \<Rightarrow> [] | Some k \<Rightarrow> [Withdraw k w])"
  by (simp_all add: withdraw_def)

lemma withdraw_proto:
  assumes "keys_ok b"
  shows "proto b (snd (withdraw cfg w now b)) (fst (withdraw cfg w now b))"
  using assms keys_disjoint by (auto simp: proto_def withdraw_def held_def keys_ok_def split: option.split)

lemma publish_frame [simp]:
  "b_published_key (fst (publish_decision obs b)) = Some (ScreenKey (ob_prompt_kind obs) (ob_semantic_fp obs))"
  "b_hook_mode (fst (publish_decision obs b)) = b_hook_mode b"
  "idles (snd (publish_decision obs b)) = []"
  by (simp_all add: publish_decision_def Let_def)

lemma publish_proto: "b_published_key b = None \<Longrightarrow> proto b (snd (publish_decision obs b)) (fst (publish_decision obs b))"
  by (auto simp: proto_def publish_decision_def held_def Let_def)

lemma no_idles [simp]:
  "idles (snd (watchdog cfg obs now b)) = []" "idles (snd (escalate_stuck_input cfg obs now b)) = []"
  "idles (snd (escalate_lost_stop cfg obs now b)) = []"
  using watchdog_actions [of cfg obs now b] by auto

section \<open>The screen path\<close>

text \<open>What a method of the screen path does, in one fact.\<close>

definition screen_step :: "belief \<Rightarrow> belief \<times> action list \<Rightarrow> bool" where
  "screen_step b r \<longleftrightarrow> same_hooks b (fst r) \<and> b_hook_mode (fst r) = b_hook_mode b \<and> keys_ok (fst r) \<and>
     proto b (snd r) (fst r) \<and> idles (snd r) = []"

lemma screen_stepI:
  "same_hooks b (fst r) \<Longrightarrow> b_hook_mode (fst r) = b_hook_mode b \<Longrightarrow> keys_ok (fst r) \<Longrightarrow> proto b (snd r) (fst r) \<Longrightarrow>
     idles (snd r) = [] \<Longrightarrow> screen_step b r"
  by (simp add: screen_step_def)

lemma screen_step_quiet:
  "keys_ok b \<Longrightarrow> same_hooks b b' \<Longrightarrow> b_hook_mode b' = b_hook_mode b \<Longrightarrow> b_published_key b' = b_published_key b \<Longrightarrow>
     screen_step b (b', [])"
  by (simp add: screen_step_def keys_ok_same proto_same)

lemma screen_step_trans:
  "screen_step b (b1, a1) \<Longrightarrow> screen_step b1 (b2, a2) \<Longrightarrow> screen_step b (b2, a1 @ a2)"
  by (auto simp: screen_step_def intro: same_hooks_trans proto_trans)

text \<open>A method followed by a quiet update, and preceded by one.\<close>

lemma screen_step_after:
  assumes "screen_step b r" "same_hooks (fst r) b'" "b_hook_mode b' = b_hook_mode (fst r)" "b_published_key b' = b_published_key (fst r)"
  shows "screen_step b (b', snd r)"
  using screen_step_trans [of b "fst r" "snd r" b' "[]"] assms screen_step_quiet [of "fst r" b']
  by (simp add: screen_step_def)

lemma screen_step_before:
  assumes "keys_ok b" "same_hooks b b1" "b_hook_mode b1 = b_hook_mode b" "b_published_key b1 = b_published_key b" "screen_step b1 r"
  shows "screen_step b r"
  using screen_step_trans [OF screen_step_quiet [OF assms(1-4)], of "fst r" "snd r"] assms(5) by simp

lemma screen_step_watchdog:
  assumes "keys_ok b"
  shows "screen_step b (watchdog cfg obs now b)" "screen_step b (escalate_stuck_input cfg obs now b)"
    "screen_step b (escalate_lost_stop cfg obs now b)"
proof -
  have k: "keys_ok b'" if "same_hooks b b'" "b_published_key b' = b_published_key b" for b'
    using keys_ok_same [OF that] assms by simp
  show "screen_step b (watchdog cfg obs now b)" by (rule screen_stepI) (simp_all add: k watchdog_proto)
  show "screen_step b (escalate_stuck_input cfg obs now b)" by (rule screen_stepI) (simp_all add: k watchdog_proto)
  show "screen_step b (escalate_lost_stop cfg obs now b)" by (rule screen_stepI) (simp_all add: k watchdog_proto)
qed

lemma screen_step_withdraw: "keys_ok b \<Longrightarrow> screen_step b (withdraw cfg w now b)"
  by (intro screen_stepI withdraw_proto) (auto simp: keys_ok_def same_hooks_def withdraw_def split: option.split)

lemma screen_step_publish: "keys_ok b \<Longrightarrow> b_published_key b = None \<Longrightarrow> screen_step b (publish_decision obs b)"
  by (intro screen_stepI publish_proto) (auto simp: keys_ok_def same_hooks_def publish_decision_def Let_def)

lemma screen_step_on_busy:
  assumes "keys_ok b"
  shows "screen_step b (on_busy cfg obs now b)"
proof -
  define r1 where "r1 = (if b_published_key b \<noteq> None then withdraw cfg ''turn_resumed'' now b else (b, []))"
  have s1: "screen_step b r1" using assms by (auto simp: r1_def screen_step_withdraw screen_step_quiet)
  let ?b2 = "set_phase ''busy'' ((fst r1)\<lparr>b_candidate_fp := None, b_candidate_since := 0, b_echo_since := None,
                 b_suppress_reason := None\<rparr>)"
  have s2: "screen_step b (?b2, snd r1)"
    by (rule screen_step_after [OF s1]) (auto simp: same_hooks_def set_phase_def)
  moreover have "screen_step ?b2 (watchdog cfg obs now ?b2)"
    by (rule screen_step_watchdog) (use s2 in \<open>simp add: screen_step_def\<close>)
  ultimately have "screen_step b (fst (watchdog cfg obs now ?b2), snd r1 @ snd (watchdog cfg obs now ?b2))"
    by (intro screen_step_trans [of b ?b2]) simp_all
  then show ?thesis by (simp add: on_busy_def r1_def Let_def case_prod_beta)
qed

lemma screen_step_free_text:
  assumes ok: "keys_ok b" and none: "b_published_key b = None"
  shows "screen_step b (on_free_text cfg obs now b)"
proof -
  have q: "screen_step b (suppressed r (b\<lparr>b_echo_since := t\<rparr>), [])" for r t
    by (rule screen_step_quiet [OF ok]) (auto simp: same_hooks_def suppressed_def add_note_def)
  have e: "screen_step b (escalate_stuck_input cfg obs now (b\<lparr>b_echo_since := t\<rparr>))" for t
    by (rule screen_step_before [OF ok, of "b\<lparr>b_echo_since := t\<rparr>"])
      (use ok in \<open>auto simp: same_hooks_def keys_ok_def intro!: screen_step_watchdog\<close>)
  have p: "screen_step b (publish_decision obs (b\<lparr>b_echo_since := t\<rparr>))" for t
    by (rule screen_step_before [OF ok, of "b\<lparr>b_echo_since := t\<rparr>"])
      (use ok none in \<open>auto simp: same_hooks_def keys_ok_def intro!: screen_step_publish\<close>)
  have g: "screen_step b (suppressed r b, [])" for r by (rule screen_step_quiet [OF ok]) simp_all
  show ?thesis unfolding on_free_text_def Let_def using q e p g by (simp split: if_split)
qed

lemma screen_step_on_prompt:
  assumes ok: "keys_ok b"
  shows "screen_step b (on_prompt cfg obs now b)"
proof -
  let ?b0 = "b\<lparr>b_intervention_active := False\<rparr>"
  have shape: "on_prompt cfg obs now b = (
     if b_published_key (fst r1) \<noteq> None then (set_phase ''pause_candidate'' (fst r1), snd r1) else (fst r4, snd r1 @ snd r4))"
    if "r1 = (if b_published_key ?b0 \<noteq> None \<and> b_published_prompt_fp ?b0 \<noteq> Some (ob_prompt_fp obs)
                      then withdraw cfg ''prompt_changed'' now ?b0 else (?b0, []))"
      "b2 = (if b_candidate_fp (fst r1) \<noteq> Some (prompt_region obs)
               then (fst r1)\<lparr>b_candidate_fp := Some (prompt_region obs), b_candidate_since := now\<rparr> else fst r1)"
      "r4 = (if ob_prompt_kind obs \<in> {''modal_choice'', ''permission_choice''}
               then publish_decision obs (set_phase ''pause_candidate'' b2)
               else on_free_text cfg obs now (set_phase ''pause_candidate'' b2))" for r1 b2 r4
    unfolding on_prompt_def Let_def case_prod_beta that ..
  define r1 where "r1 = (if b_published_key ?b0 \<noteq> None \<and> b_published_prompt_fp ?b0 \<noteq> Some (ob_prompt_fp obs)
                      then withdraw cfg ''prompt_changed'' now ?b0 else (?b0, []))"
  have ok0: "keys_ok ?b0" using ok by (simp add: keys_ok_def)
  have "screen_step ?b0 r1" using ok0 by (auto simp: r1_def screen_step_withdraw screen_step_quiet)
  then have s1: "screen_step b r1"
    by (intro screen_step_before [OF ok, of ?b0]) (auto simp: same_hooks_def)
  show ?thesis
  proof (cases "b_published_key (fst r1) = None")
    case False
    have "screen_step b (set_phase ''pause_candidate'' (fst r1), snd r1)" by (rule screen_step_after [OF s1]) simp_all
    with False show ?thesis by (simp only: shape [OF r1_def refl refl] not_False_eq_True if_True)
  next
    case True
    let ?b2 = "if b_candidate_fp (fst r1) \<noteq> Some (prompt_region obs)
               then (fst r1)\<lparr>b_candidate_fp := Some (prompt_region obs), b_candidate_since := now\<rparr> else fst r1"
    let ?b3 = "set_phase ''pause_candidate'' ?b2"
    have s3: "screen_step b (?b3, snd r1)"
      by (rule screen_step_after [OF s1]) (auto simp: same_hooks_def set_phase_def)
    have n3: "b_published_key ?b3 = None" "keys_ok ?b3" using True s3 by (auto simp: screen_step_def)
    let ?r4 = "if ob_prompt_kind obs \<in> {''modal_choice'', ''permission_choice''}
               then publish_decision obs ?b3 else on_free_text cfg obs now ?b3"
    have "screen_step ?b3 ?r4" using screen_step_publish [OF n3(2,1)] screen_step_free_text [OF n3(2,1)] by simp
    then have "screen_step b (fst ?r4, snd r1 @ snd ?r4)" by (intro screen_step_trans [OF s3]) simp
    with True show ?thesis by (simp only: shape [OF r1_def refl refl] simp_thms if_False)
  qed
qed

lemma screen_step_tick:
  assumes ok: "keys_ok b"
  shows "screen_step b (screen_tick cfg obs now b)"
proof -
  let ?b1 = "update_post_submit cfg obs now b"
  let ?r = "if ob_prompt_kind obs \<in> set PROMPT_KINDS then on_prompt cfg obs now ?b1 else on_busy cfg obs now ?b1"
  have ok1: "keys_ok ?b1" using keys_ok_same [of b ?b1] ok by simp
  have "screen_step ?b1 ?r" using screen_step_on_prompt [OF ok1] screen_step_on_busy [OF ok1] by simp
  then have "screen_step b ?r" by (intro screen_step_before [OF ok, of ?b1]) simp_all
  then have "screen_step b (refresh_state cfg obs now (fst ?r), snd ?r)" by (rule screen_step_after) simp_all
  then show ?thesis by (simp only: screen_tick_def Let_def case_prod_beta)
qed

section \<open>Every call keeps the invariant and the protocol\<close>

text \<open>
  What one call owes its caller: the invariant, legal withdrawals, hooks owning the session
  for good once they did, and an \<open>idle\<close> only for the current turn, at most once.
\<close>

definition idle_step :: "belief \<Rightarrow> belief \<times> action list \<Rightarrow> bool" where
  "idle_step b r \<longleftrightarrow>
     idles (snd r) = [] \<and> b_idle_published_epoch (fst r) = b_idle_published_epoch b \<or>
     idles (snd r) = [b_turn_epoch b] \<and> \<not> turn_closed b \<and> b_idle_published_epoch (fst r) = Some (b_turn_epoch b)"

definition call_ok :: "belief \<Rightarrow> belief \<times> action list \<Rightarrow> bool" where
  "call_ok b r \<longleftrightarrow> belief_ok (fst r) \<and> proto b (snd r) (fst r) \<and> b_turn_epoch b \<le> b_turn_epoch (fst r) \<and>
     (b_hook_mode b = HookActive \<longrightarrow> b_hook_mode (fst r) = HookActive) \<and> idle_step b r"

lemma belief_ok_keys: "belief_ok b \<Longrightarrow> keys_ok b"
  by (simp add: belief_ok_def keys_ok_def)

lemma belief_ok_active: "belief_ok b \<Longrightarrow> b_hook_mode b = HookActive \<Longrightarrow> b_published_key b = None"
  by (simp add: belief_ok_def)

lemma belief_ok_busy: "belief_ok b \<Longrightarrow> control b \<in> {''busy'', ''intervention_required'', ''awaiting_user''} \<Longrightarrow> \<not> turn_closed b"
  by (auto simp: belief_ok_def)

text \<open>A call before which the mode, the clocks and the like were updated.\<close>

lemma call_ok_trans_quiet:
  assumes "call_ok b (b1, a1)" "idles a1 = []" "b_turn_epoch b1 = b_turn_epoch b" "call_ok b1 (b2, a2)"
  shows "call_ok b (b2, a1 @ a2)"
  using assms by (auto simp: call_ok_def idle_step_def turn_closed_def intro: proto_trans)

lemma call_ok_quiet:
  assumes "belief_ok b'" "held b' \<subseteq> held b" "b_turn_epoch b \<le> b_turn_epoch b'"
    "b_hook_mode b = HookActive \<longrightarrow> b_hook_mode b' = HookActive" "b_idle_published_epoch b' = b_idle_published_epoch b"
  shows "call_ok b (b', [])"
  using assms by (simp add: call_ok_def proto_quiet idle_step_def)

lemma call_ok_screen:
  assumes ok: "belief_ok b" and s: "screen_step b r" and m: "b_hook_mode b \<noteq> HookActive"
  shows "call_ok b r"
proof -
  have "belief_ok (fst r)"
    using ok s m by (auto simp: belief_ok_def screen_step_def keys_ok_def same_hooks_def turn_closed_def)
  then show ?thesis using s by (simp add: call_ok_def screen_step_def idle_step_def same_hooks_def)
qed

lemma enter_fields [simp]:
  "held (enter c p b) = held b" "b_turn_epoch (enter c p b) = b_turn_epoch b" "b_turn_open (enter c p b) = b_turn_open b"
  "b_idle_published_epoch (enter c p b) = b_idle_published_epoch b" "turn_closed (enter c p b) = turn_closed b"
  "b_hook_pending_key (enter c p b) = b_hook_pending_key b" "control (enter c p b) = c"
  "b_hook_answered_ids (enter c p b) = b_hook_answered_ids b" "b_hook_pending_kind (enter c p b) = b_hook_pending_kind b"
  by (simp_all add: enter_def set_phase_def set_control_def held_def turn_closed_def)

lemma arrives_frame:
  "b_hook_mode (fst (hook_arrives cfg now b)) = HookActive"
  "same_hooks b (fst (hook_arrives cfg now b))"
  "idles (snd (hook_arrives cfg now b)) = []" "b_state (fst (hook_arrives cfg now b)) = b_state b"
  "b_hook_pending_kind (fst (hook_arrives cfg now b)) = b_hook_pending_kind b"
  by (auto simp: hook_arrives_def same_hooks_def withdraw_def Let_def split: option.split)

lemma arrives_ok:
  assumes ok: "belief_ok b"
  shows "call_ok b (hook_arrives cfg now b)"
proof -
  let ?b0 = "b\<lparr>b_hook_mode := HookActive\<rparr>"
  let ?q = "\<lambda>x. x\<lparr>b_last_hook_at := Some now, b_hook_progress_fp := None, b_hook_progress_at := None,
             b_reconcile_fp := None, b_reconcile_since := 0\<rparr>"
  have k: "keys_ok ?b0" using belief_ok_keys [OF ok] by (simp add: keys_ok_def)
  show ?thesis
  proof (cases "b_hook_mode b \<noteq> HookActive \<and> b_published_key b \<noteq> None")
    case False
    then have "hook_arrives cfg now b = (?q ?b0, [])" by (auto simp: hook_arrives_def)
    moreover have "belief_ok (?q ?b0)" using ok False by (auto simp: belief_ok_def turn_closed_def)
    ultimately show ?thesis by (simp add: call_ok_quiet held_def)
  next
    case True
    let ?w = "withdraw cfg ''superseded'' now ?b0"
    have e: "hook_arrives cfg now b = (?q (fst ?w), snd ?w)" using True by (auto simp: hook_arrives_def case_prod_beta)
    have p: "proto b (snd ?w) (?q (fst ?w))"
      using withdraw_proto [OF k, of cfg "''superseded''" now] unfolding proto_def by (simp add: held_def)
    have o: "belief_ok (?q (fst ?w))" using ok by (auto simp: belief_ok_def turn_closed_def withdraw_def)
    show ?thesis unfolding e using p o by (auto simp: call_ok_def idle_step_def withdraw_def split: option.split)
  qed
qed

lemma opens_ok:
  assumes "belief_ok b"
  shows "call_ok b (hook_opens b, [])"
proof (rule call_ok_quiet)
  show "belief_ok (hook_opens b)"
    using assms by (auto simp: belief_ok_def hook_opens_def turn_closed_def dest: le_imp_less_Suc)
qed (auto simp: hook_opens_def held_def)

lemma closes_ok:
  assumes ok: "belief_ok b" and m: "b_hook_mode b = HookActive"
  shows "call_ok b (hook_closes ho b)"
proof (cases "turn_closed b")
  case True
  then show ?thesis using ok by (simp add: hook_closes_def call_ok_quiet)
next
  case False
  have "belief_ok (fst (hook_closes ho b))" using ok m False by (auto simp: belief_ok_def hook_closes_def turn_closed_def)
  moreover have "proto b (snd (hook_closes ho b)) (fst (hook_closes ho b))"
    using ok m False by (auto simp: proto_def hook_closes_def held_def belief_ok_def split: option.split)
  ultimately show ?thesis using False
    by (auto simp: call_ok_def idle_step_def hook_closes_def split: option.split)
qed

lemma clears_ok:
  assumes ok: "belief_ok b" and m: "b_hook_mode b = HookActive"
  shows "call_ok b (hook_clears b)"
proof (cases "turn_closed b")
  case True
  then show ?thesis using ok by (simp add: hook_clears_def call_ok_quiet)
next
  case False
  have "belief_ok (fst (hook_clears b))" using ok m False by (auto simp: belief_ok_def hook_clears_def turn_closed_def)
  moreover have "proto b (snd (hook_clears b)) (fst (hook_clears b))"
    using ok m False by (auto simp: proto_def hook_clears_def held_def belief_ok_def split: option.split)
  ultimately show ?thesis using False
    by (auto simp: call_ok_def idle_step_def hook_clears_def split: option.split)
qed

lemma gate_key_hook [simp]: "hook_key (gate_key ho b)"
  by (auto simp: gate_key_def split: option.split)

lemma waits_ok:
  assumes ok: "belief_ok b" and m: "b_hook_mode b = HookActive"
  shows "call_ok b (hook_waits ho b)"
proof (cases "turn_closed b")
  case True
  then show ?thesis using ok by (simp add: hook_waits_def call_ok_quiet)
next
  case False
  have "belief_ok (fst (hook_waits ho b))"
    using ok m False by (auto simp: belief_ok_def hook_waits_def turn_closed_def Let_def)
  moreover have "proto b (snd (hook_waits ho b)) (fst (hook_waits ho b))"
    using ok m False by (auto simp: proto_def hook_waits_def held_def belief_ok_def hook_pause_publish_def Let_def)
  moreover have "idles (snd (hook_waits ho b)) = []"
    using gate_key_hook [of ho b]
    by (auto simp: hook_waits_def hook_pause_publish_def Let_def split: decision_key.split simp del: gate_key_hook)
  ultimately show ?thesis using False
    by (auto simp: call_ok_def idle_step_def hook_waits_def Let_def)
qed

lemma works_ok:
  assumes ok: "belief_ok b" and m: "b_hook_mode b = HookActive"
  shows "call_ok b (hook_works ho b, [])"
proof (rule call_ok_quiet)
  show "belief_ok (hook_works ho b)"
    using assms by (auto simp: belief_ok_def hook_works_def turn_closed_def split: option.split)
qed (auto simp: hook_works_def held_def enter_def set_phase_def set_control_def split: option.split)

lemma on_hook_ok:
  assumes ok: "belief_ok b"
  shows "call_ok b (on_hook cfg ho now b)"
proof -
  define b1 a1 where "b1 = fst (hook_arrives cfg now b)" and "a1 = snd (hook_arrives cfg now b)"
  let ?r = "if ho_opens_turn ho then (hook_opens b1, []) else if ho_closes_turn ho then hook_closes ho b1
            else if ho_clears_pending ho then hook_clears b1
            else if ho_kind ho = ''waiting_for_user'' then hook_waits ho b1 else (hook_works ho b1, [])"
  have c1: "call_ok b (b1, a1)" using arrives_ok [OF ok] by (simp add: b1_def a1_def)
  have m1: "b_hook_mode b1 = HookActive" "idles a1 = []" "b_turn_epoch b1 = b_turn_epoch b"
    using arrives_frame by (auto simp: b1_def a1_def same_hooks_def)
  have ok1: "belief_ok b1" using c1 by (simp add: call_ok_def)
  have "call_ok b1 ?r"
    using opens_ok [OF ok1] closes_ok [OF ok1 m1(1)] clears_ok [OF ok1 m1(1)] waits_ok [OF ok1 m1(1)]
      works_ok [OF ok1 m1(1)] by simp
  then have "call_ok b (fst ?r, a1 @ snd ?r)" by (intro call_ok_trans_quiet [OF c1 m1(2,3)]) (simp only: prod.collapse)
  moreover have "on_hook cfg ho now b = (fst ?r, a1 @ snd ?r)"
    by (simp only: on_hook_def Let_def case_prod_beta b1_def a1_def)
  ultimately show ?thesis by simp
qed

text \<open>The tick.\<close>

lemma refresh_fields_frame [simp]:
  "control (refresh_fields cfg obs now b) = control b" "held (refresh_fields cfg obs now b) = held b"
  by (simp_all add: refresh_fields_def held_def)

lemma belief_ok_recontrol:
  assumes "belief_ok b" "same_hooks b b'" "b_hook_mode b' = b_hook_mode b" "b_published_key b' = b_published_key b"
    "control b' = control b \<or> \<not> turn_closed b"
  shows "belief_ok b'"
  using assms by (auto simp: belief_ok_def same_hooks_def turn_closed_def)

lemma call_ok_recontrol:
  assumes "belief_ok b" "same_hooks b b'" "b_hook_mode b' = b_hook_mode b" "b_published_key b' = b_published_key b"
    "control b' = control b \<or> \<not> turn_closed b"
    "as = [] \<or> (\<exists>x n p. as = [Publish x False (InterventionKey n) p])"
  shows "call_ok b (b', as)"
  using belief_ok_recontrol [OF assms(1-5)] proto_advice [OF assms(2,4,6)] assms(2,3,6)
  by (auto simp: call_ok_def idle_step_def same_hooks_def)

lemma hook_watchdog_ok:
  assumes "belief_ok b" "\<not> turn_closed b"
  shows "call_ok b (hook_watchdog cfg obs now b)"
proof -
  let ?b1 = "fst (watchdog cfg obs now b)"
  let ?b2 = "refresh_fields cfg obs now
            (set_control (if b_intervention_active ?b1 then ''intervention_required'' else ''busy'') ?b1)"
  have "same_hooks b ?b2"
    by (rule same_hooks_trans [OF same_hooks_watchdog(1) same_hooks_trans [OF same_hooks_basic(1) same_hooks_basic(6)]])
  moreover have "snd (watchdog cfg obs now b) = [] \<or> (\<exists>x n p. snd (watchdog cfg obs now b) = [Publish x False (InterventionKey n) p])"
    using watchdog_actions(1) [of cfg obs now b] by blast
  ultimately have "call_ok b (?b2, snd (watchdog cfg obs now b))"
    using assms by (intro call_ok_recontrol) simp_all
  then show ?thesis by (simp only: hook_watchdog_def Let_def case_prod_beta)
qed

lemma lost_stop_ok:
  assumes "belief_ok b" "\<not> turn_closed b"
  shows "call_ok b (escalate_lost_stop cfg obs now b)"
  using call_ok_recontrol [OF assms(1), of "fst (escalate_lost_stop cfg obs now b)" "snd (escalate_lost_stop cfg obs now b)"]
    watchdog_actions(3) [of cfg obs now b] assms(2) by auto

lemma reconcile_ok:
  assumes ok: "belief_ok b" and op: "\<not> turn_closed b" and m: "b_hook_mode b = HookActive"
  shows "call_ok b (reconcile_lost_stop_idle cfg obs now b)"
proof -
  have "belief_ok (fst (reconcile_lost_stop_idle cfg obs now b))"
    using ok m op by (auto simp: belief_ok_def reconcile_lost_stop_idle_def turn_closed_def Let_def)
  moreover have "proto b (snd (reconcile_lost_stop_idle cfg obs now b)) (fst (reconcile_lost_stop_idle cfg obs now b))"
    by (auto simp: proto_def reconcile_lost_stop_idle_def held_def Let_def enter_def set_control_def set_phase_def)
  ultimately show ?thesis using op by (auto simp: call_ok_def idle_step_def reconcile_lost_stop_idle_def Let_def)
qed

lemma reconcile_quiet:
  assumes "snd (reconcile_lost_stop_idle cfg obs now b) = []"
  shows "turn_closed (fst (reconcile_lost_stop_idle cfg obs now b)) = turn_closed b"
    "b_turn_epoch (fst (reconcile_lost_stop_idle cfg obs now b)) = b_turn_epoch b"
  using assms by (auto simp: reconcile_lost_stop_idle_def Let_def turn_closed_def split: if_splits)

lemma track_frame [simp]:
  "control (track_semantic obs now b) = control b" "control (track_heartbeat obs now b) = control b"
  "control (track_hook_progress obs now b) = control b" "control (maybe_expire_startup_grace cfg now b) = control b"
  "control (update_post_submit cfg obs now b) = control b"
  by (auto simp: track_semantic_def track_heartbeat_def track_hook_progress_def maybe_expire_startup_grace_def
      update_post_submit_def clear_post_submit_def add_note_def Let_def split: option.split)

lemma call_ok_before:
  assumes ok: "belief_ok b1" and s: "same_hooks b b1" "held b1 = held b" "b_hook_mode b = HookActive \<longrightarrow> b_hook_mode b1 = HookActive"
    and c: "call_ok b1 r"
  shows "call_ok b r"
proof -
  have "call_ok b (b1, [])" by (rule call_ok_quiet) (use ok s in \<open>auto simp: same_hooks_def\<close>)
  then have "call_ok b (fst r, [] @ snd r)"
    by (rule call_ok_trans_quiet) (use s c in \<open>auto simp: same_hooks_def\<close>)
  then show ?thesis by simp
qed

lemma tick_hook_active_ok:
  assumes ok: "belief_ok b" and m: "b_hook_mode b = HookActive"
  shows "call_ok b (tick_hook_active cfg obs now b)"
proof (cases "control b \<in> {''busy'', ''intervention_required''}")
  case False
  then show ?thesis
    using call_ok_recontrol [OF ok, of "refresh_fields cfg obs now b" "[]"] by (auto simp: tick_hook_active_def)
next
  case True
  have op: "\<not> turn_closed b" using belief_ok_busy [OF ok] True by blast
  show ?thesis
  proof (cases "ob_prompt_kind obs = ''free_text''")
    case free_text: True
    let ?r = "reconcile_lost_stop_idle cfg obs now b"
    have c: "call_ok b ?r" by (rule reconcile_ok [OF ok op m])
    show ?thesis
    proof (cases "snd ?r = []")
      case quiet: True
      have "call_ok (fst ?r) (hook_watchdog cfg obs now (fst ?r))"
        using c op reconcile_quiet(1) [OF quiet] by (intro hook_watchdog_ok) (simp_all add: call_ok_def)
      then have "call_ok b (fst (hook_watchdog cfg obs now (fst ?r)), [] @ snd (hook_watchdog cfg obs now (fst ?r)))"
        using c quiet reconcile_quiet(2) [OF quiet] by (intro call_ok_trans_quiet [of b "fst ?r" "[]"]) (cases ?r; simp)+
      moreover have "tick_hook_active cfg obs now b = hook_watchdog cfg obs now (fst ?r)"
        using True free_text quiet by (simp add: tick_hook_active_def case_prod_beta)
      ultimately show ?thesis by (simp only: append_Nil prod.collapse)
    next
      case False
      then have "tick_hook_active cfg obs now b = ?r" using True free_text by (simp add: tick_hook_active_def case_prod_beta)
      with c show ?thesis by simp
    qed
  next
    case free_text: False
    let ?b0 = "b\<lparr>b_reconcile_fp := None, b_reconcile_since := 0\<rparr>"
    let ?b1 = "track_hook_progress obs now ?b0"
    have s: "same_hooks b ?b1"
      by (rule same_hooks_trans [of _ ?b0]) (simp_all, simp add: same_hooks_def)
    have ok1: "belief_ok ?b1" using s by (intro belief_ok_recontrol [OF ok]) simp_all
    have op1: "\<not> turn_closed ?b1" using s op by (simp add: same_hooks_def turn_closed_def)
    have h1: "held ?b1 = held b" by (rule held_same [OF s]) simp
    have "call_ok ?b1 (if lost_stop_stuck cfg now ?b1 then escalate_lost_stop cfg obs now ?b1 else hook_watchdog cfg obs now ?b1)"
      using lost_stop_ok [OF ok1 op1] hook_watchdog_ok [OF ok1 op1] by simp
    then have "call_ok b (if lost_stop_stuck cfg now ?b1 then escalate_lost_stop cfg obs now ?b1 else hook_watchdog cfg obs now ?b1)"
      by (intro call_ok_before [OF ok1 s h1]) simp_all
    then show ?thesis using True free_text by (simp add: tick_hook_active_def Let_def)
  qed
qed

lemma tick_ok:
  assumes ok: "belief_ok b"
  shows "call_ok b (tick cfg obs alive now b)"
proof -
  let ?b1 = "track_heartbeat obs now (track_semantic obs now b)"
  let ?b2 = "maybe_expire_startup_grace cfg now ?b1"
  have s1: "same_hooks b ?b1" by (rule same_hooks_trans [of _ "track_semantic obs now b"]) simp_all
  have ok1: "belief_ok ?b1" using s1 by (intro belief_ok_recontrol [OF ok]) simp_all
  have h1: "held ?b1 = held b" by (rule held_same [OF s1]) simp
  have s2: "same_hooks b ?b2" by (rule same_hooks_trans [OF s1]) simp
  have ok2: "belief_ok ?b2"
    using ok1 unfolding belief_ok_def maybe_expire_startup_grace_def turn_closed_def
    by (cases "b_idle_published_epoch ?b1") (simp_all split: option.split)
  have h2: "held ?b2 = held b" by (rule held_same [OF s2]) simp
  have m2: "b_hook_mode b = HookActive \<longrightarrow> b_hook_mode ?b2 = HookActive"
    by (simp add: maybe_expire_startup_grace_def split: option.split)
  show ?thesis
  proof (cases "\<not> alive \<or> ob_prompt_kind obs \<in> {''crash'', ''exit''}")
    case True
    have "belief_ok (enter ''terminal'' ''terminal'' ?b1)" using ok1 by (auto simp: belief_ok_def)
    then have "call_ok b (enter ''terminal'' ''terminal'' ?b1, [Finalize])"
      using s1 h1 by (auto simp: call_ok_def proto_def idle_step_def same_hooks_def)
    then show ?thesis using True by (simp add: tick_def)
  next
    case False
    have "call_ok ?b2 (if b_hook_mode ?b2 = HookActive then tick_hook_active cfg obs now ?b2 else screen_tick cfg obs now ?b2)"
      using tick_hook_active_ok [OF ok2] call_ok_screen [OF ok2 screen_step_tick [OF belief_ok_keys [OF ok2]]] by simp
    then have "call_ok b (if b_hook_mode ?b2 = HookActive then tick_hook_active cfg obs now ?b2 else screen_tick cfg obs now ?b2)"
      by (rule call_ok_before [OF ok2 s2 h2 m2])
    then show ?thesis using False by (simp add: tick_def Let_def)
  qed
qed

lemma belief_step_ok:
  assumes ok: "belief_ok b"
  shows "call_ok b (belief_step cfg op b)"
proof (cases op)
  case (Submit now)
  have "belief_ok (on_submit cfg now b)" using ok by (auto simp: belief_ok_def on_submit_def add_note_def turn_closed_def)
  then have "call_ok b (on_submit cfg now b, [])"
    by (rule call_ok_quiet) (auto simp: on_submit_def add_note_def held_def)
  with Submit show ?thesis by simp
next
  case (ExpectHooks now)
  have "belief_ok (expect_hooks now b)" using ok by (auto simp: belief_ok_def expect_hooks_def turn_closed_def)
  then have "call_ok b (expect_hooks now b, [])"
    by (rule call_ok_quiet) (auto simp: expect_hooks_def held_def)
  with ExpectHooks show ?thesis by simp
next
  case DrainNotes
  have "belief_ok (fst (drain_notes b))" using ok by (auto simp: belief_ok_def drain_notes_def turn_closed_def)
  then have "call_ok b (fst (drain_notes b), [])"
    by (rule call_ok_quiet) (auto simp: drain_notes_def held_def)
  with DrainNotes show ?thesis by simp
qed (simp_all add: tick_ok on_hook_ok assms)

section \<open>Runs\<close>

lemma belief_run_Cons:
  "belief_run cfg (op # ops) b =
     (fst (belief_run cfg ops (fst (belief_step cfg op b))),
      snd (belief_step cfg op b) @ snd (belief_run cfg ops (fst (belief_step cfg op b))))"
  by (simp add: case_prod_beta)

text \<open>The idles of a run from \<open>b\<close>: of turns not before the current one, nor the current one when it is closed.\<close>

definition idles_after :: "belief \<Rightarrow> action list \<Rightarrow> bool" where
  "idles_after b as \<longleftrightarrow> sorted_wrt (<) (idles as) \<and>
     (\<forall>n \<in> set (idles as). b_turn_epoch b \<le> n \<and> (turn_closed b \<longrightarrow> b_turn_epoch b < n))"

lemma idles_after_step:
  assumes c: "call_ok b r" and rest: "idles_after (fst r) as"
  shows "idles_after b (snd r @ as)"
proof -
  have e: "b_turn_epoch b \<le> b_turn_epoch (fst r)" and i: "idle_step b r" using c by (simp_all add: call_ok_def)
  have lt: "b_turn_epoch b < n"
    if n: "n \<in> set (idles as)" and cl: "b_idle_published_epoch (fst r) = Some (b_turn_epoch b)" for n
  proof (cases "b_turn_epoch b = b_turn_epoch (fst r)")
    case True
    then have "turn_closed (fst r)" using cl by (simp add: turn_closed_def)
    then show ?thesis using rest n True by (auto simp: idles_after_def)
  next
    case False
    then have "b_turn_epoch b < b_turn_epoch (fst r)" using e by simp
    moreover have "b_turn_epoch (fst r) \<le> n" using rest n by (auto simp: idles_after_def)
    ultimately show ?thesis by simp
  qed
  have le: "b_turn_epoch b \<le> n" if "n \<in> set (idles as)" for n
    using rest that e by (auto simp: idles_after_def intro: le_trans)
  show ?thesis
    using i unfolding idle_step_def
  proof
    assume "idles (snd r) = [] \<and> b_idle_published_epoch (fst r) = b_idle_published_epoch b"
    then show ?thesis using rest le lt by (auto simp: idles_after_def turn_closed_def)
  next
    assume "idles (snd r) = [b_turn_epoch b] \<and> \<not> turn_closed b \<and> b_idle_published_epoch (fst r) = Some (b_turn_epoch b)"
    then show ?thesis using rest le lt by (auto simp: idles_after_def)
  qed
qed

lemma belief_run_ok:
  assumes "belief_ok b"
  shows "belief_ok (fst (belief_run cfg ops b)) \<and> proto b (snd (belief_run cfg ops b)) (fst (belief_run cfg ops b)) \<and>
    (b_hook_mode b = HookActive \<longrightarrow> b_hook_mode (fst (belief_run cfg ops b)) = HookActive) \<and>
    idles_after b (snd (belief_run cfg ops b))"
  using assms
proof (induction ops arbitrary: b)
  case Nil
  then show ?case by (simp add: idles_after_def)
next
  case (Cons op ops)
  let ?r = "belief_step cfg op b"
  have c: "call_ok b ?r" by (rule belief_step_ok [OF Cons.prems])
  then have "belief_ok (fst ?r)" by (simp add: call_ok_def)
  from Cons.IH [OF this] c show ?case
    unfolding belief_run_Cons fst_conv snd_conv
    by (auto simp: call_ok_def intro: proto_trans idles_after_step [OF c])
qed

end
