(* ===== verification/Nelix_Belief_Props.thy ===== *)
theory Nelix_Belief_Props
  imports Nelix_Belief_Inv
begin

text \<open>
  The properties of the belief engine: what a consumer of its actions can rely on, along any
  sequence of ticks, hooks and submits from a fresh engine.
\<close>

section \<open>Concrete inputs\<close>

definition demo_obs :: "string \<Rightarrow> observation" where
  "demo_obs pk = \<lparr>ob_prompt_kind = pk, ob_affordances = {}, ob_options = [], ob_submitted_echo_present = False,
     ob_semantic_fp = ''s'', ob_content_fp = ''c'', ob_prompt_fp = ''p'',
     ob_heartbeat = \<lparr>hb_fp = None, hb_present = False, hb_expected_to_change = False\<rparr>, ob_busy_reason = None\<rparr>"

definition demo_gate :: "hook_observation" where
  "demo_gate = (HookObservation ''waiting_for_user'' ''PermissionRequest'')\<lparr>ho_gate_fp := Some ''g''\<rparr>"

definition demo_open :: "hook_observation" where
  "demo_open = (HookObservation ''working'' ''UserPromptSubmit'')\<lparr>ho_opens_turn := True\<rparr>"

section \<open>Idle, once per turn\<close>

text \<open>
  Along every sequence of calls from a fresh engine, the turns announced idle are strictly
  increasing: no turn is ever announced idle twice, whether by the Stop hook or by the
  lost-Stop reconciliation, and no earlier turn after a later one.
\<close>
theorem idle_once_per_turn: "sorted_wrt (<) (idles (snd (belief_run cfg ops BeliefEngine)))"
  using belief_run_ok [OF belief_ok_init, of cfg ops] by (simp add: idles_after_def)

section \<open>Withdrawals match publications\<close>

text \<open>
  C30: Along every sequence of calls from a fresh engine, a decision is withdrawn only while it
  is outstanding (published as respondable, not withdrawn since), and whatever the engine
  still holds as its published screen or hook decision has been published and not withdrawn.
\<close>
theorem withdrawals_match_publications:
  "withdraws_ok (snd (belief_run cfg ops BeliefEngine)) {} \<and>
   held (fst (belief_run cfg ops BeliefEngine)) \<subseteq> outstanding (snd (belief_run cfg ops BeliefEngine)) {}"
proof -
  have "held BeliefEngine = {}" by (simp add: held_def BeliefEngine_def)
  then show ?thesis using belief_run_ok [OF belief_ok_init, of cfg ops] by (simp add: proto_def)
qed

section \<open>Hooks own the session\<close>

definition respondable_action :: "action \<Rightarrow> bool" where
  "respondable_action a = (case a of Publish _ r _ _ \<Rightarrow> r | Withdraw _ _ \<Rightarrow> True | Finalize \<Rightarrow> False)"

lemma active_tick_actions:
  assumes "b_hook_mode b = HookActive" "a \<in> set (snd (tick cfg obs alive now b))"
  shows "\<not> respondable_action a"
proof -
  have w: "\<not> respondable_action a" if "as = [] \<or> (\<exists>n p. as = [Publish ''intervention_required'' False (InterventionKey n) p])"
    "a \<in> set as" for as using that by (auto simp: respondable_action_def)
  have hw: "\<not> respondable_action a" if "a \<in> set (snd (hook_watchdog cfg obs now b'))" for b'
    using that w [OF watchdog_actions(1)] by (simp add: hook_watchdog_def case_prod_beta)
  have ls: "\<not> respondable_action a" if "a \<in> set (snd (escalate_lost_stop cfg obs now b'))" for b'
    using that w [OF watchdog_actions(3)] by simp
  have rc: "\<not> respondable_action a" if "a \<in> set (snd (reconcile_lost_stop_idle cfg obs now b'))" for b'
    using that by (auto simp: reconcile_lost_stop_idle_def Let_def respondable_action_def split: if_splits)
  have "\<not> respondable_action a" if "a \<in> set (snd (tick_hook_active cfg obs now b'))" for b'
    using that hw ls rc by (auto simp: tick_hook_active_def Let_def case_prod_beta split: if_splits)
  moreover have "b_hook_mode (maybe_expire_startup_grace cfg now (track_heartbeat obs now (track_semantic obs now b))) = HookActive"
    using assms(1) by (simp add: maybe_expire_startup_grace_def split: option.split)
  ultimately show ?thesis using assms(2) by (auto simp: tick_def Let_def respondable_action_def split: if_splits)
qed

text \<open>
  Once a hook has arrived, the hooks own the session for good: whatever calls follow, the
  engine holds no screen decision, and a tick, whatever the screen shows, neither asks the user
  a question nor takes one back.
\<close>
theorem hooks_own_the_session:
  assumes "belief_run cfg ops BeliefEngine = (b, as)" "b_hook_mode b = HookActive" "belief_run cfg later b = (b', as')"
  shows "b_hook_mode b' = HookActive \<and> b_published_key b' = None \<and>
    list_all (\<lambda>a. \<not> respondable_action a) (snd (tick cfg obs alive now b'))"
proof -
  have ok: "belief_ok b" using belief_run_ok [OF belief_ok_init, of cfg ops] assms(1) by simp
  from belief_run_ok [OF this, of cfg later] assms(2,3) have m: "b_hook_mode b' = HookActive" and ok': "belief_ok b'"
    by simp_all
  then show ?thesis using belief_ok_active [OF ok' m] active_tick_actions [OF m] by (auto simp: list_all_iff)
qed

theorem hooks_own_the_session_witness:
  "\<exists>b as b' as'. belief_run BeliefConfig [Hook demo_open 0] BeliefEngine = (b, as) \<and>
     belief_run BeliefConfig [Tick (demo_obs ''modal_choice'') True 1] b = (b', as') \<and> b_published_key b' = None \<and>
     list_all (\<lambda>a. \<not> respondable_action a) (snd (tick BeliefConfig (demo_obs ''modal_choice'') True 2 b'))"
proof -
  obtain b as where r: "belief_run BeliefConfig [Hook demo_open 0] BeliefEngine = (b, as)" by fastforce
  obtain b' as' where r': "belief_run BeliefConfig [Tick (demo_obs ''modal_choice'') True 1] b = (b', as')" by fastforce
  have "b_hook_mode (fst (belief_run BeliefConfig [Hook demo_open 0] BeliefEngine)) = HookActive" by code_simp
  with r have "b_hook_mode b = HookActive" by simp
  with hooks_own_the_session [OF r _ r'] r r' show ?thesis by blast
qed

section \<open>An answered gate\<close>

definition published :: "decision_key \<Rightarrow> action \<Rightarrow> bool" where
  "published k a = (case a of Publish _ _ k' _ \<Rightarrow> k' = k | _ \<Rightarrow> False)"

lemma published_withdraw [simp]: "\<not> published k (Withdraw y w)"
  by (simp add: published_def)

text \<open>The hooks that make an answered gate fresh again: a new turn, and the gated tool at work.\<close>

definition lifts :: "decision_key \<Rightarrow> belief_op \<Rightarrow> bool" where
  "lifts k op = (case op of
     Hook ho _ \<Rightarrow> ho_opens_turn ho \<or>
       \<not> ho_closes_turn ho \<and> \<not> ho_clears_pending ho \<and> ho_kind ho \<noteq> ''waiting_for_user'' \<and>
       (\<exists>fp. ho_gate_fp ho = Some fp \<and> k = HookGate fp)
   | _ \<Rightarrow> False)"

definition settled :: "decision_key \<Rightarrow> belief \<Rightarrow> bool" where
  "settled k b \<longleftrightarrow> k \<in> set (b_hook_answered_ids b) \<and> b_hook_pending_key b \<noteq> Some k \<or> turn_closed b"

lemma settled_same: "same_hooks b b' \<Longrightarrow> settled k b' = settled k b"
  by (simp add: settled_def same_hooks_def turn_closed_def)

lemma screen_step_settled: "screen_step b r \<Longrightarrow> settled k (fst r) = settled k b"
  by (simp add: screen_step_def settled_same)

text \<open>Which keys each part of a tick may publish.\<close>

lemma advice_unpublished:
  assumes "hook_key k"
  shows "a \<in> set (snd (watchdog cfg obs now b)) \<Longrightarrow> \<not> published k a"
    "a \<in> set (snd (escalate_stuck_input cfg obs now b)) \<Longrightarrow> \<not> published k a"
    "a \<in> set (snd (escalate_lost_stop cfg obs now b)) \<Longrightarrow> \<not> published k a"
  using watchdog_actions [of cfg obs now b] assms by (auto simp: published_def)

lemma decision_unpublished: "hook_key k \<Longrightarrow> a \<in> set (snd (publish_decision obs b)) \<Longrightarrow> \<not> published k a"
  by (auto simp: publish_decision_def published_def Let_def)

lemma on_busy_unpublished: "hook_key k \<Longrightarrow> a \<in> set (snd (on_busy cfg obs now b)) \<Longrightarrow> \<not> published k a"
  using advice_unpublished(1) by (auto simp: on_busy_def Let_def case_prod_beta split: if_splits)

lemma free_text_unpublished: "hook_key k \<Longrightarrow> a \<in> set (snd (on_free_text cfg obs now b)) \<Longrightarrow> \<not> published k a"
  using advice_unpublished(2) decision_unpublished by (auto simp: on_free_text_def Let_def split: if_splits)

lemma on_prompt_unpublished: "hook_key k \<Longrightarrow> a \<in> set (snd (on_prompt cfg obs now b)) \<Longrightarrow> \<not> published k a"
  using decision_unpublished free_text_unpublished
  unfolding on_prompt_def Let_def case_prod_beta by (auto split: if_splits)

lemma tick_unpublished:
  assumes "hook_key k" "a \<in> set (snd (tick cfg obs alive now b))"
  shows "\<not> published k a"
proof -
  have "\<not> published k a" if "a \<in> set (snd (hook_watchdog cfg obs now b'))" for b'
    using that advice_unpublished(1) [OF assms(1)] by (simp add: hook_watchdog_def case_prod_beta)
  moreover have "\<not> published k a" if "a \<in> set (snd (reconcile_lost_stop_idle cfg obs now b'))" for b'
    using that assms(1) by (auto simp: reconcile_lost_stop_idle_def Let_def published_def split: if_splits)
  ultimately have "\<not> published k a" if "a \<in> set (snd (tick_hook_active cfg obs now b'))" for b'
    using that advice_unpublished(3) [OF assms(1)] by (auto simp: tick_hook_active_def Let_def case_prod_beta split: if_splits)
  moreover have "\<not> published k a" if "a \<in> set (snd (screen_tick cfg obs now b'))" for b'
    using that on_prompt_unpublished [OF assms(1)] on_busy_unpublished [OF assms(1)]
    by (auto simp: screen_tick_def Let_def case_prod_beta split: if_splits)
  ultimately show ?thesis using assms(2) by (auto simp: tick_def Let_def published_def split: if_splits)
qed

text \<open>A settled gate stays settled, and unpublished, through every call that does not lift it.\<close>

lemma tick_hook_active_settled:
  assumes "settled k b"
  shows "settled k (fst (tick_hook_active cfg obs now b))"
proof -
  have hw: "settled k (fst (hook_watchdog cfg obs now b'))" if "settled k b'" for b'
  proof -
    have "same_hooks b' (fst (hook_watchdog cfg obs now b'))"
      unfolding hook_watchdog_def Let_def case_prod_beta fst_conv
      by (rule same_hooks_trans [OF same_hooks_watchdog(1) same_hooks_trans [OF same_hooks_basic(1) same_hooks_basic(6)]])
    then show ?thesis using that settled_same by blast
  qed
  have rc: "settled k (fst (reconcile_lost_stop_idle cfg obs now b))"
    using assms by (auto simp: reconcile_lost_stop_idle_def Let_def settled_def turn_closed_def)
  have ls: "settled k (fst (escalate_lost_stop cfg obs now b'))" if "settled k b'" for b'
    using that settled_same [OF same_hooks_watchdog(3)] by blast
  let ?b0 = "b\<lparr>b_reconcile_fp := None, b_reconcile_since := 0\<rparr>"
  have "settled k ?b0" using assms by (simp add: settled_def turn_closed_def)
  then have tr: "settled k (track_hook_progress obs now ?b0)" using settled_same [OF same_hooks_basic(15)] by blast
  have rf: "settled k (refresh_fields cfg obs now b)" using assms settled_same [OF same_hooks_basic(6)] by blast
  show ?thesis using hw rc ls tr rf by (simp add: tick_hook_active_def Let_def case_prod_beta)
qed

lemma tick_settled:
  assumes "settled k b" "keys_ok b"
  shows "settled k (fst (tick cfg obs alive now b))"
proof -
  let ?b1 = "track_heartbeat obs now (track_semantic obs now b)"
  let ?b2 = "maybe_expire_startup_grace cfg now ?b1"
  have s1: "same_hooks b ?b1" by (rule same_hooks_trans [of _ "track_semantic obs now b"]) simp_all
  have s2: "same_hooks b ?b2" by (rule same_hooks_trans [OF s1]) simp
  have k2: "keys_ok ?b2" using keys_ok_same [OF s2] assms(2) by simp
  have "settled k ?b2" "settled k ?b1" using assms(1) settled_same [OF s1] settled_same [OF s2] by simp_all
  then have "settled k (fst (tick_hook_active cfg obs now ?b2))" "settled k (fst (screen_tick cfg obs now ?b2))"
    "settled k (enter ''terminal'' ''terminal'' ?b1)"
    using tick_hook_active_settled screen_step_settled [OF screen_step_tick [OF k2]] by (simp_all add: settled_def)
  then show ?thesis by (simp add: tick_def Let_def)
qed

lemma hook_settled:
  assumes s: "settled k b" and ok: "belief_ok b" and l: "\<not> lifts k (Hook ho now)" and h: "hook_key k"
  shows "settled k (fst (on_hook cfg ho now b)) \<and> (\<forall>a \<in> set (snd (on_hook cfg ho now b)). \<not> published k a)"
proof -
  define b1 where "b1 = fst (hook_arrives cfg now b)"
  have s1: "settled k b1" using s settled_same [OF arrives_frame(2)] by (simp add: b1_def)
  have ok1: "belief_ok b1" using arrives_ok [OF ok] by (simp add: b1_def call_ok_def)
  have op: "\<not> b_turn_open b1" if "turn_closed b1" using ok1 that by (simp add: belief_ok_def)
  have a1: "\<not> published k a" if "a \<in> set (snd (hook_arrives cfg now b))" for a
    using that by (auto simp: hook_arrives_def withdraw_def Let_def split: if_splits option.splits)
  have no: "\<not> ho_opens_turn ho" using l by (simp add: lifts_def)
  have cl: "settled k (fst (hook_closes ho b1)) \<and> (\<forall>a \<in> set (snd (hook_closes ho b1)). \<not> published k a)"
    using s1 h by (auto simp: hook_closes_def settled_def turn_closed_def published_def split: option.splits)
  have cp: "settled k (fst (hook_clears b1)) \<and> (\<forall>a \<in> set (snd (hook_clears b1)). \<not> published k a)"
    using s1 by (auto simp: hook_clears_def settled_def turn_closed_def split: option.splits)
  have w: "settled k (fst (hook_waits ho b1)) \<and> (\<forall>a \<in> set (snd (hook_waits ho b1)). \<not> published k a)"
    using s1 by (auto simp: hook_waits_def settled_def turn_closed_def hook_pause_publish_def published_def Let_def)
  have k: "settled k (hook_works ho b1)"
    if "\<not> ho_closes_turn ho" "\<not> ho_clears_pending ho" "ho_kind ho \<noteq> ''waiting_for_user''"
    using s1 op that l by (cases "ho_gate_fp ho") (auto simp: hook_works_def settled_def turn_closed_def lifts_def)
  show ?thesis using a1 cl cp w k no
    unfolding on_hook_def Let_def case_prod_beta b1_def [symmetric] by (auto split: if_splits)
qed

lemma settled_run:
  assumes "settled k b" "belief_ok b" "hook_key k" "list_all (\<lambda>op. \<not> lifts k op) ops"
  shows "\<forall>a \<in> set (snd (belief_run cfg ops b)). \<not> published k a"
  using assms
proof (induction ops arbitrary: b)
  case (Cons op ops)
  have l: "\<not> lifts k op" using Cons.prems(4) by simp
  have ok: "belief_ok (fst (belief_step cfg op b))" using belief_step_ok [OF Cons.prems(2)] by (simp add: call_ok_def)
  have "settled k (fst (belief_step cfg op b)) \<and> (\<forall>a \<in> set (snd (belief_step cfg op b)). \<not> published k a)"
  proof (cases op)
    case (Tick obs alive now)
    then show ?thesis
      using tick_settled [OF Cons.prems(1) belief_ok_keys [OF Cons.prems(2)]] tick_unpublished [OF Cons.prems(3)] by auto
  next
    case (Hook ho now)
    then show ?thesis using hook_settled [OF Cons.prems(1,2) _ Cons.prems(3)] l by simp
  next
    case (Submit now)
    then show ?thesis
      using Cons.prems(1) by (auto simp: on_submit_def add_note_def settled_def turn_closed_def split: option.split)
  next
    case (ExpectHooks now)
    then show ?thesis using Cons.prems(1) by (auto simp: expect_hooks_def settled_def turn_closed_def)
  next
    case DrainNotes
    then show ?thesis using Cons.prems(1) by (auto simp: drain_notes_def settled_def turn_closed_def)
  qed
  moreover from this have "\<forall>a \<in> set (snd (belief_run cfg ops (fst (belief_step cfg op b)))). \<not> published k a"
    using Cons.IH [OF _ ok Cons.prems(3)] Cons.prems(4) by simp
  ultimately show ?case unfolding belief_run_Cons by auto
qed simp

text \<open>
  A gate the user has answered is not asked again: after the submit, no sequence of calls
  publishes that decision, however often the agent repeats the same permission hook, until a
  new turn opens or a hook reports the gated tool at work.
\<close>
theorem answered_gate_not_republished:
  assumes "belief_run cfg ops BeliefEngine = (b, as)" "b_hook_pending_key b = Some k"
    "list_all (\<lambda>op. \<not> lifts k op) later"
  shows "list_all (\<lambda>a. \<not> published k a) (snd (belief_run cfg (Submit now # later) b))"
proof -
  have ok: "belief_ok b" using belief_run_ok [OF belief_ok_init, of cfg ops] assms(1) by simp
  have "settled k (on_submit cfg now b)" using assms(2) by (simp add: settled_def on_submit_def add_note_def)
  moreover have "belief_ok (on_submit cfg now b)"
    using belief_step_ok [OF ok, of cfg "Submit now"] by (simp add: call_ok_def)
  moreover have "hook_key k" using ok assms(2) by (simp add: belief_ok_def)
  ultimately show ?thesis
    using settled_run [OF _ _ _ assms(3)] unfolding belief_run_Cons by (auto simp: list_all_iff)
qed

theorem answered_gate_not_republished_witness:
  "\<exists>b as. belief_run BeliefConfig [Hook demo_open 0, Hook demo_gate 1] BeliefEngine = (b, as) \<and>
     list_all (\<lambda>a. \<not> published (HookGate ''g'') a)
       (snd (belief_run BeliefConfig (Submit 2 # [Hook demo_gate 3, Tick (demo_obs ''modal_choice'') True 4, Hook demo_gate 5]) b))"
proof -
  obtain b as where r: "belief_run BeliefConfig [Hook demo_open 0, Hook demo_gate 1] BeliefEngine = (b, as)" by fastforce
  have "b_hook_pending_key (fst (belief_run BeliefConfig [Hook demo_open 0, Hook demo_gate 1] BeliefEngine)) = Some (HookGate ''g'')"
    by code_simp
  with r have "b_hook_pending_key b = Some (HookGate ''g'')" by simp
  moreover have "list_all (\<lambda>op. \<not> lifts (HookGate ''g'') op)
      [Hook demo_gate 3, Tick (demo_obs ''modal_choice'') True 4, Hook demo_gate 5]"
    by (simp add: lifts_def demo_gate_def HookObservation_def)
  ultimately show ?thesis using answered_gate_not_republished [OF r] r by blast
qed

section \<open>A frozen screen is surfaced\<close>

text \<open>The clock of a call, and the longest watchdog budget.\<close>

definition op_at_most :: "rat \<Rightarrow> belief_op \<Rightarrow> bool" where
  "op_at_most t op = (case op of Tick _ _ now \<Rightarrow> now \<le> t | Hook _ now \<Rightarrow> now \<le> t | Submit now \<Rightarrow> now \<le> t
     | ExpectHooks now \<Rightarrow> now \<le> t | DrainNotes \<Rightarrow> True)"

definition max_budget :: "belief_cfg \<Rightarrow> rat" where
  "max_budget cfg = max (cf_stale_budget cfg) (max (cf_live_budget cfg) (cf_unknown_budget cfg))"

lemma budget_le: "budget cfg lv r \<le> max_budget cfg"
  by (cases lv) (auto simp: budget_def max_budget_def)

definition clocked :: "rat \<Rightarrow> rat \<Rightarrow> belief \<Rightarrow> bool" where
  "clocked t m b \<longleftrightarrow> (b_semantic_fp b \<noteq> None \<longrightarrow> (\<exists>s. b_semantic_change_ts b = Some s \<and> s \<le> t)) \<and>
     (\<forall>n. b_next_nag_at b = Some n \<longrightarrow> n \<le> t + m)"

lemma clocked_frame [simp]:
  "clocked t m (set_control c b) = clocked t m b" "clocked t m (set_phase p b) = clocked t m b"
  "clocked t m (enter c p b) = clocked t m b" "clocked t m (add_note n b) = clocked t m b"
  "clocked t m (suppressed r b) = clocked t m b" "clocked t m (refresh_fields cfg obs now b) = clocked t m b"
  "clocked t m (refresh_state cfg obs now b) = clocked t m b" "clocked t m (track_heartbeat obs now b) = clocked t m b"
  "clocked t m (update_post_submit cfg obs now b) = clocked t m b"
  "clocked t m (fst (withdraw cfg w now b)) = clocked t m b" "clocked t m (fst (publish_decision obs b)) = clocked t m b"
  "clocked t m (maybe_expire_startup_grace cfg now b) = clocked t m b"
  "clocked t m (track_hook_progress obs now b) = clocked t m b"
  "clocked t m (fst (reconcile_lost_stop_idle cfg obs now b)) = clocked t m b"
  by (auto simp: clocked_def belief_frame_defs track_heartbeat_def update_post_submit_def clear_post_submit_def
      withdraw_def publish_decision_def maybe_expire_startup_grace_def track_hook_progress_def
      reconcile_lost_stop_idle_def Let_def split: option.split)

lemma clocked_nag: "clocked t (max_budget cfg) b \<Longrightarrow> now \<le> t \<Longrightarrow> clocked t (max_budget cfg) (fst (nag cfg obs now h b))"
  by (simp add: clocked_def nag_def Let_def add_mono budget_le)

lemma clocked_flag [simp]: "clocked t m (b\<lparr>b_intervention_active := x\<rparr>) = clocked t m b"
  by (simp add: clocked_def)

lemma clocked_watchdog:
  assumes "clocked t (max_budget cfg) b" "now \<le> t"
  shows "clocked t (max_budget cfg) (fst (watchdog cfg obs now b))"
    "clocked t (max_budget cfg) (fst (escalate_stuck_input cfg obs now b))"
    "clocked t (max_budget cfg) (fst (escalate_lost_stop cfg obs now b))"
  using assms by (simp_all add: watchdog_def escalate_stuck_input_def escalate_lost_stop_def Let_def clocked_nag)

lemma clocked_fields [simp]:
  "clocked t m (b\<lparr>b_candidate_fp := x1, b_candidate_since := x2\<rparr>) = clocked t m b"
  "clocked t m (b\<lparr>b_candidate_fp := x1, b_candidate_since := x2, b_echo_since := x3, b_suppress_reason := x4\<rparr>) = clocked t m b"
  "clocked t m (b\<lparr>b_echo_since := x3\<rparr>) = clocked t m b"
  "clocked t m (b\<lparr>b_reconcile_fp := x1, b_reconcile_since := x2\<rparr>) = clocked t m b"
  by (simp_all add: clocked_def)

lemma clocked_busy:
  assumes "clocked t (max_budget cfg) b" "now \<le> t"
  shows "clocked t (max_budget cfg) (fst (on_busy cfg obs now b))"
  using assms by (simp add: on_busy_def Let_def case_prod_beta clocked_watchdog)

lemma clocked_free_text:
  assumes "clocked t (max_budget cfg) b" "now \<le> t"
  shows "clocked t (max_budget cfg) (fst (on_free_text cfg obs now b))"
  using assms by (simp add: on_free_text_def Let_def clocked_watchdog)

lemma clocked_prompt:
  assumes "clocked t (max_budget cfg) b" "now \<le> t"
  shows "clocked t (max_budget cfg) (fst (on_prompt cfg obs now b))"
  using assms unfolding on_prompt_def Let_def case_prod_beta by (simp add: clocked_free_text)

lemma clocked_tick:
  assumes c: "clocked t (max_budget cfg) b" and now: "now \<le> t"
  shows "clocked t (max_budget cfg) (fst (tick cfg obs alive now b))"
proof -
  have hw: "clocked t (max_budget cfg) (fst (hook_watchdog cfg obs now b'))" if "clocked t (max_budget cfg) b'" for b'
    using that now by (simp add: hook_watchdog_def Let_def case_prod_beta clocked_watchdog)
  have ac: "clocked t (max_budget cfg) (fst (tick_hook_active cfg obs now b'))" if "clocked t (max_budget cfg) b'" for b'
    using that now hw by (simp add: tick_hook_active_def Let_def case_prod_beta clocked_watchdog)
  have sc: "clocked t (max_budget cfg) (fst (screen_tick cfg obs now b'))" if "clocked t (max_budget cfg) b'" for b'
    using that now by (simp add: screen_tick_def Let_def case_prod_beta clocked_prompt clocked_busy)
  have "clocked t (max_budget cfg) (track_semantic obs now b)" using c now by (simp add: track_semantic_def clocked_def)
  then show ?thesis using ac sc by (simp add: tick_def Let_def)
qed

lemma clocked_hook:
  assumes c: "clocked t m b"
  shows "clocked t m (fst (on_hook cfg ho now b))"
proof -
  have "clocked t m (fst (hook_arrives cfg now b))"
    using c by (auto simp: hook_arrives_def clocked_def withdraw_def Let_def)
  moreover have "clocked t m (hook_opens b')" "clocked t m (fst (hook_closes ho b'))" "clocked t m (fst (hook_clears b'))"
    "clocked t m (hook_works ho b')" "clocked t m (fst (hook_waits ho b'))" if "clocked t m b'" for b'
    using that by (auto simp: hook_opens_def hook_closes_def hook_clears_def hook_works_def hook_waits_def Let_def
        clocked_def belief_frame_defs split: option.split)
  ultimately show ?thesis by (simp add: on_hook_def Let_def case_prod_beta)
qed

lemma clocked_run:
  assumes "clocked t (max_budget cfg) b" "list_all (op_at_most t) ops"
  shows "clocked t (max_budget cfg) (fst (belief_run cfg ops b))"
  using assms
proof (induction ops arbitrary: b)
  case (Cons op ops)
  have "clocked t (max_budget cfg) (fst (belief_step cfg op b))"
  proof (cases op)
    case (Tick obs alive now)
    then show ?thesis using Cons.prems clocked_tick by (simp add: op_at_most_def)
  next
    case (Hook ho now)
    then show ?thesis using Cons.prems(1) by (simp add: clocked_hook)
  next
    case (Submit now)
    then show ?thesis using Cons.prems(1) by (simp add: on_submit_def add_note_def clocked_def)
  next
    case (ExpectHooks now)
    then show ?thesis using Cons.prems(1) by (simp add: expect_hooks_def clocked_def)
  next
    case DrainNotes
    then show ?thesis using Cons.prems(1) by (simp add: drain_notes_def clocked_def)
  qed
  then show ?case unfolding belief_run_Cons using Cons.IH Cons.prems(2) by simp
qed simp

definition warns :: "belief \<times> action list \<Rightarrow> bool" where
  "warns r \<longleftrightarrow> list_ex (\<lambda>a. case a of Publish x r (InterventionKey n) p \<Rightarrow> x = ''intervention_required'' \<and> \<not> r | _ \<Rightarrow> False) (snd r)"

lemma overdue_quiet:
  assumes "clocked t (max_budget cfg) b" "b_semantic_fp b \<noteq> None" "t + max_budget cfg \<le> now"
  shows "\<not> quiet_for now b < budget cfg lv r" "nag_due now b"
proof -
  obtain s where s: "b_semantic_change_ts b = Some s" "s \<le> t" using assms(1,2) by (auto simp: clocked_def)
  have "budget cfg lv r \<le> now - s" using budget_le [of cfg lv r] assms(3) s(2) by linarith
  then show "\<not> quiet_for now b < budget cfg lv r" by (simp add: quiet_for_def s(1))
  show "nag_due now b" using assms(1,3) by (auto simp: clocked_def nag_due_def split: option.split intro: order_trans)
qed

lemma overdue_warns:
  assumes "clocked t (max_budget cfg) b" "b_semantic_fp b \<noteq> None" "t + max_budget cfg \<le> now"
  shows "warns (watchdog cfg obs now b)" "warns (escalate_lost_stop cfg obs now b)"
  using overdue_quiet(1) [OF assms] overdue_quiet(2) [of t cfg "b\<lparr>b_intervention_active := True\<rparr>" now] assms
  by (simp_all add: watchdog_def escalate_lost_stop_def warns_def nag_def Let_def)

lemma semantic_frame [simp]:
  "b_semantic_fp (set_control c b) = b_semantic_fp b" "b_semantic_fp (set_phase p b) = b_semantic_fp b"
  "b_semantic_fp (fst (withdraw cfg w now b)) = b_semantic_fp b"
  "b_semantic_fp (update_post_submit cfg obs now b) = b_semantic_fp b"
  "b_semantic_fp (track_heartbeat obs now b) = b_semantic_fp b"
  "b_semantic_fp (maybe_expire_startup_grace cfg now b) = b_semantic_fp b"
  "b_semantic_fp (track_hook_progress obs now b) = b_semantic_fp b"
  by (auto simp: belief_frame_defs withdraw_def update_post_submit_def clear_post_submit_def track_heartbeat_def
      maybe_expire_startup_grace_def track_hook_progress_def Let_def split: option.split)

lemma busy_warns:
  assumes c: "clocked t (max_budget cfg) b" and s: "b_semantic_fp b \<noteq> None" and n: "t + max_budget cfg \<le> now"
  shows "warns (on_busy cfg obs now b)"
proof -
  define b1 where "b1 = fst (if b_published_key b \<noteq> None then withdraw cfg ''turn_resumed'' now b else (b, []))"
  let ?b2 = "set_phase ''busy'' (b1\<lparr>b_candidate_fp := None, b_candidate_since := 0, b_echo_since := None, b_suppress_reason := None\<rparr>)"
  have "warns (watchdog cfg obs now ?b2)" by (rule overdue_warns) (use c s n in \<open>simp_all add: b1_def\<close>)
  then show ?thesis unfolding on_busy_def Let_def case_prod_beta b1_def [symmetric] by (simp add: warns_def)
qed

text \<open>
  A frozen agent is always surfaced: if the screen has shown the same meaning since all
  calls so far (made by time t) and shows no prompt, then a tick a watchdog budget or more
  later publishes an \<open>intervention_required\<close> advisory, in screen mode as well as with hooks
  that say busy (where the lost-Stop escalation may be the one that fires).
\<close>
theorem frozen_screen_is_surfaced:
  assumes "belief_run cfg ops BeliefEngine = (b, as)" "list_all (op_at_most t) ops"
    "b_semantic_fp b = Some (ob_semantic_fp obs)" "ob_prompt_kind obs = ''none''" "t + max_budget cfg \<le> now"
    "b_hook_mode b = HookActive \<Longrightarrow> control b \<in> {''busy'', ''intervention_required''}"
  shows "list_ex (\<lambda>a. case a of Publish x r (InterventionKey n) p \<Rightarrow> x = ''intervention_required'' \<and> \<not> r | _ \<Rightarrow> False)
    (snd (tick cfg obs True now b))"
proof -
  have "clocked t (max_budget cfg) BeliefEngine" by (simp add: clocked_def BeliefEngine_def)
  then have c: "clocked t (max_budget cfg) b" using clocked_run [OF _ assms(2)] assms(1) by (metis fst_conv)
  define b2 where "b2 = maybe_expire_startup_grace cfg now (track_heartbeat obs now (track_semantic obs now b))"
  have "track_semantic obs now b = b" using assms(3) by (simp add: track_semantic_def)
  then have f: "clocked t (max_budget cfg) b2" "b_semantic_fp b2 \<noteq> None" "control b2 = control b"
    using c assms(3) by (simp_all add: b2_def)
  have "warns (tick cfg obs True now b)"
  proof (cases "b_hook_mode b2 = HookActive")
    case True
    have m: "b_hook_mode b = HookActive"
      using True by (auto simp: b2_def maybe_expire_startup_grace_def split: option.splits if_splits)
    let ?b3 = "track_hook_progress obs now (b2\<lparr>b_reconcile_fp := None, b_reconcile_since := 0\<rparr>)"
    have "clocked t (max_budget cfg) ?b3" "b_semantic_fp ?b3 \<noteq> None" using f by simp_all
    from overdue_warns [OF this assms(5)] have "warns (tick_hook_active cfg obs now b2)"
      using assms(6) [OF m] assms(4) f(3)
      by (auto simp: tick_hook_active_def hook_watchdog_def Let_def case_prod_beta warns_def)
    then show ?thesis using True assms(4) by (simp add: tick_def b2_def)
  next
    case False
    have "warns (on_busy cfg obs now (update_post_submit cfg obs now b2))"
      by (rule busy_warns [OF _ _ assms(5)]) (use f in simp_all)
    then have "warns (screen_tick cfg obs now b2)"
      using assms(4) by (simp add: screen_tick_def PROMPT_KINDS_def Let_def case_prod_beta warns_def)
    then show ?thesis using False assms(4) by (simp add: tick_def b2_def)
  qed
  then show ?thesis by (simp add: warns_def)
qed

theorem frozen_screen_is_surfaced_witness:
  "\<exists>b as. belief_run BeliefConfig [Tick (demo_obs ''none'') True 0] BeliefEngine = (b, as) \<and>
     list_ex (\<lambda>a. case a of Publish x r (InterventionKey n) p \<Rightarrow> x = ''intervention_required'' \<and> \<not> r | _ \<Rightarrow> False)
       (snd (tick BeliefConfig (demo_obs ''none'') True 1800 b))"
proof -
  obtain b as where r: "belief_run BeliefConfig [Tick (demo_obs ''none'') True 0] BeliefEngine = (b, as)" by fastforce
  have "b_semantic_fp (fst (belief_run BeliefConfig [Tick (demo_obs ''none'') True 0] BeliefEngine)) = Some ''s'' \<and>
      b_hook_mode (fst (belief_run BeliefConfig [Tick (demo_obs ''none'') True 0] BeliefEngine)) \<noteq> HookActive" by code_simp
  with r have "b_semantic_fp b = Some ''s''" "b_hook_mode b \<noteq> HookActive" by simp_all
  moreover have "list_all (op_at_most 0) [Tick (demo_obs ''none'') True 0]" by (simp add: op_at_most_def)
  ultimately show ?thesis
    using frozen_screen_is_surfaced [OF r, of 0 "demo_obs ''none''" 1800] r
    by (auto simp: demo_obs_def max_budget_def BeliefConfig_def)
qed

section \<open>Questions are never swallowed\<close>

text \<open>
  In screen mode a modal or permission prompt always leaves the session awaiting the user
  over exactly that prompt: either the decision for it is already published, or this tick
  publishes a respondable one (after withdrawing a decision for a different prompt); the
  echo, grace, flap and settling filters of free-text prompts never apply to it.
\<close>
theorem questions_are_never_swallowed:
  assumes "ob_prompt_kind obs \<in> {''modal_choice'', ''permission_choice''}" "b_hook_mode b \<noteq> HookActive"
    "tick cfg obs True now b = (b', as)"
  shows "control b' = ''awaiting_user'' \<and> b_published_key b' \<noteq> None \<and> b_published_prompt_fp b' = Some (ob_prompt_fp obs) \<and>
    (b_published_key b' = b_published_key b \<and> as = [] \<or>
     as \<noteq> [] \<and> (\<exists>p. b_published_key b' = Some (ScreenKey (ob_prompt_kind obs) (ob_semantic_fp obs)) \<and>
        last as = Publish ''waiting_for_user'' True (ScreenKey (ob_prompt_kind obs) (ob_semantic_fp obs)) p))"
proof -
  define b2 where "b2 = update_post_submit cfg obs now (maybe_expire_startup_grace cfg now (track_heartbeat obs now (track_semantic obs now b)))"
  have pk: "b_published_key b2 = b_published_key b" "b_hook_mode b2 \<noteq> HookActive"
    using assms(2) by (auto simp: b2_def maybe_expire_startup_grace_def split: option.split)
  define b3 where "b3 = fst (on_prompt cfg obs now b2)"
  have "screen_tick cfg obs now (maybe_expire_startup_grace cfg now (track_heartbeat obs now (track_semantic obs now b))) = (b', as)"
    using assms pk(2) by (auto simp: tick_def Let_def b2_def)
  then have r: "on_prompt cfg obs now b2 = (b3, as)" and b': "b' = refresh_state cfg obs now b3"
    using assms(1) by (auto simp: screen_tick_def PROMPT_KINDS_def Let_def case_prod_beta b2_def b3_def intro: prod_eqI)
  have q: "b_published_key b3 \<noteq> None \<and> b_published_prompt_fp b3 = Some (ob_prompt_fp obs) \<and>
    (b_published_key b3 = b_published_key b2 \<and> as = [] \<or>
     as \<noteq> [] \<and> (\<exists>p. b_published_key b3 = Some (ScreenKey (ob_prompt_kind obs) (ob_semantic_fp obs)) \<and>
        last as = Publish ''waiting_for_user'' True (ScreenKey (ob_prompt_kind obs) (ob_semantic_fp obs)) p))"
    using assms(1) r unfolding on_prompt_def Let_def case_prod_beta
    by (auto simp: publish_decision_def set_phase_def Let_def split: if_splits)
  have "control b' = (if b_published_key b3 \<noteq> None then ''awaiting_user''
      else if b_intervention_active b3 then ''intervention_required'' else ''busy'')"
    "b_published_prompt_fp b' = b_published_prompt_fp b3" "b_published_key b' = b_published_key b3"
    by (simp_all add: b' refresh_state_def refresh_fields_def set_control_def)
  then show ?thesis using q pk(1) by auto
qed

theorem questions_are_never_swallowed_witness:
  "\<exists>b' as. tick BeliefConfig (demo_obs ''modal_choice'') True 1 BeliefEngine = (b', as) \<and> control b' = ''awaiting_user''"
proof -
  obtain b' as where r: "tick BeliefConfig (demo_obs ''modal_choice'') True 1 BeliefEngine = (b', as)" by fastforce
  have "ob_prompt_kind (demo_obs ''modal_choice'') \<in> {''modal_choice'', ''permission_choice''}" "b_hook_mode BeliefEngine \<noteq> HookActive"
    by (simp_all add: demo_obs_def BeliefEngine_def)
  from questions_are_never_swallowed [OF this r] r show ?thesis by blast
qed

end
