(* ===== verification/Nelix_Start.thy ===== *)
theory Nelix_Start
  imports Nelix_Ledger
begin

text \<open>
  \<^verbatim>\<open>router/start.py\<close>: the START path over the ledger. Outside the model, as
  arguments: the digests (\<open>hashlib\<close>, \<open>json.dumps\<close>), \<open>str\<close> and \<open>repr\<close> of a
  reply, what \<open>registry.active()\<close> returned and how the forward to the generation ended.
  The request threads share the ledger, so the handler is also given as a sequence of
  steps, each with one ledger transaction, which other threads may interleave.
\<close>

section \<open>Status codes\<close>

fun http_status :: "error_code \<Rightarrow> nat" where
  "http_status INVALID_REQUEST = 400"
| "http_status IDEMPOTENCY_CONFLICT = 409"
| "http_status CONCURRENCY_LIMIT = 429"
| "http_status ADMISSION_UNAVAILABLE = 503"
| "http_status REBUILDING = 503"
| "http_status STALE_RECONCILIATION_ID = 503"
| "http_status GENERATION_UNAVAILABLE = 503"
| "http_status STORE_UNAVAILABLE = 503"
| "http_status _ = 500"

definition MAX_REASON :: nat where
  "MAX_REASON = 500"

section \<open>The outside\<close>

record start_lib =
  sl_sha256 :: "string \<Rightarrow> string"
  sl_request_digest :: "string \<Rightarrow> string \<Rightarrow> string \<Rightarrow> pyval \<Rightarrow> string \<Rightarrow> string"
  sl_str :: "pyval \<Rightarrow> string"
  sl_repr :: "pyval \<Rightarrow> string"
  sl_bind_message :: string

record generation_handle =
  gh_generation_id :: string
  gh_epoch :: string

text \<open>\<open>registry.active()\<close>: a generation, or the code and message of its \<open>NelixError\<close>.\<close>

type_synonym picked = "(error_code \<times> string) + generation_handle"

text \<open>How \<open>RpcClient.start\<close> ended: by phase of the failure, or with a reply.\<close>

datatype forward_outcome =
    ForwardConnectError string
  | ForwardResponseError string
  | Replied pyval

section \<open>The request\<close>

definition require_str :: "pyval \<Rightarrow> string res" where
  "require_str v = (case v of VStr s \<Rightarrow> if s \<noteq> [] then Inr s else err INVALID_REQUEST | _ \<Rightarrow> err INVALID_REQUEST)"

text \<open>\<open>body.get(k)\<close>.\<close>

definition dict_get :: "(string \<times> pyval) list \<Rightarrow> string \<Rightarrow> pyval" where
  "dict_get d k = (case map_of d k of None \<Rightarrow> VNone | Some v \<Rightarrow> v)"

definition derive_orchestration_id :: "start_lib \<Rightarrow> string \<Rightarrow> string \<Rightarrow> string" where
  "derive_orchestration_id lib owner key = ''o-'' @ take 32 (sl_sha256 lib (owner @ [CHR 0x00] @ key))"

record start_request =
  sq_owner :: string
  sq_key :: string
  sq_executor :: string
  sq_task :: string
  sq_cwd :: string
  sq_model :: pyval
  sq_orchestration :: string

definition parse_start :: "start_lib \<Rightarrow> pyval \<Rightarrow> start_request res" where
  "parse_start lib body =
     (case body of
        VDict d \<Rightarrow>
          rbind (invalid_id_as_request (validate_owner_id (dict_get d ''owner_id''))) (\<lambda>owner.
          rbind (require_str (dict_get d ''idempotency_key'')) (\<lambda>key.
          rbind (require_str (dict_get d ''executor'')) (\<lambda>executor.
          rbind (require_str (dict_get d ''task'')) (\<lambda>task.
          rbind (require_str (dict_get d ''cwd'')) (\<lambda>cwd.
          let model = dict_get d ''model'' in
          rbind (require (model = VNone \<or> is_str model) (NelixError INVALID_REQUEST)) (\<lambda>_.
          rbind (if dict_get d ''orchestration_id'' = VNone then Inr (derive_orchestration_id lib owner key)
                 else invalid_id_as_request (validate_orchestration_id (dict_get d ''orchestration_id''))) (\<lambda>orch.
            Inr \<lparr>sq_owner = owner, sq_key = key, sq_executor = executor, sq_task = task, sq_cwd = cwd,
                 sq_model = model, sq_orchestration = orch\<rparr>)))))))
      | _ \<Rightarrow> err INVALID_REQUEST)"

definition request_fingerprint :: "start_lib \<Rightarrow> start_request \<Rightarrow> string" where
  "request_fingerprint lib q =
     sl_request_digest lib (sq_executor q) (sq_task q) (sq_cwd q) (sq_model q) (sq_orchestration q)"

section \<open>Failure reasons\<close>

fun truthy :: "pyval \<Rightarrow> bool" where
  "truthy VNone = False"
| "truthy (VBool b) = b"
| "truthy (VInt i) = (i \<noteq> 0)"
| "truthy (VFloat f) = (f \<noteq> Fin 0)"
| "truthy (VStr s) = (s \<noteq> [])"
| "truthy (VList xs) = (xs \<noteq> [])"
| "truthy (VTuple xs) = (xs \<noteq> [])"
| "truthy (VDict d) = (d \<noteq> [])"

definition py_or :: "pyval \<Rightarrow> pyval \<Rightarrow> pyval" where
  "py_or a b = (if truthy a then a else b)"

definition reason_from_reply :: "start_lib \<Rightarrow> pyval \<Rightarrow> string" where
  "reason_from_reply lib reply =
     (case reply of
        VDict d \<Rightarrow>
          (case dict_get d ''error'' of
             VDict e \<Rightarrow> sl_str lib (py_or (py_or (dict_get e ''message'') (dict_get e ''code'')) (VStr ''generation error''))
           | e \<Rightarrow> if truthy e then sl_str lib e else ''unexpected start reply: '' @ sl_repr lib reply)
      | _ \<Rightarrow> ''unexpected start reply: '' @ sl_repr lib reply)"

text \<open>\<open>_fail\<close>: best effort, a \<open>NelixError\<close> of the ledger is swallowed, anything else escapes.\<close>

definition failure_text :: "string \<Rightarrow> string" where
  "failure_text reason = (if take MAX_REASON reason \<noteq> [] then take MAX_REASON reason else ''start failed'')"

definition try_fail :: "string \<Rightarrow> string \<Rightarrow> db \<Rightarrow> db res" where
  "try_fail sid reason d =
     (case fail_start sid (VStr (failure_text reason)) d of
        Inr (d', _) \<Rightarrow> Inr d'
      | Inl (NelixError c) \<Rightarrow> Inr d
      | Inl e \<Rightarrow> Inl e)"

section \<open>The handler\<close>

type_synonym start_reply = "(string \<times> pyval) list"

text \<open>A part of the handler goes on with a value, or ends the request: it returned or raised.\<close>

datatype 'a flow = Proceed 'a | Ended "start_reply res"

definition replay_reply :: "reservation \<Rightarrow> start_reply res" where
  "replay_reply r =
     (if rs_state r = ''started'' \<or> rs_state r = ''starting''
      then Inr [(''operation'', VStr ''start''), (''status'', VStr (rs_state r)), (''session_id'', VStr (rs_session_id r)),
                (''generation_id'', opt_str (rs_generation_id r)), (''replay'', VBool True)]
      else err GENERATION_UNAVAILABLE)"

definition start_begin ::
  "start_lib \<Rightarrow> pyval \<Rightarrow> string \<Rightarrow> pyval \<Rightarrow> db \<Rightarrow> db \<times> (string \<times> start_request) flow" where
  "start_begin lib body minted clock d =
     (case parse_start lib body of
        Inl e \<Rightarrow> (d, Ended (Inl e))
      | Inr q \<Rightarrow>
          (case reserve (VStr (sq_key q)) (VStr (sq_owner q)) (VStr (sq_orchestration q))
                  (VStr (request_fingerprint lib q)) minted clock d of
             Inl e \<Rightarrow> (d, Ended (Inl e))
           | Inr (d', r) \<Rightarrow> (d', if rs_replay r then Ended (replay_reply r) else Proceed (rs_session_id r, q))))"

text \<open>Record the failure, then raise: \<open>self._fail(sid, reason); raise NelixError(code, ...)\<close>.\<close>

definition fail_and_raise :: "string \<Rightarrow> string \<Rightarrow> error_code \<Rightarrow> db \<Rightarrow> db \<times> start_reply res" where
  "fail_and_raise sid reason code d =
     (case try_fail sid reason d of
        Inr d' \<Rightarrow> (d', err code)
      | Inl e \<Rightarrow> (d, Inl e))"

definition start_picked :: "(error_code \<Rightarrow> string) \<Rightarrow> picked \<Rightarrow> string \<Rightarrow> db \<Rightarrow> db \<times> generation_handle flow" where
  "start_picked code_name p sid d =
     (case p of
        Inl (code, message) \<Rightarrow> apsnd Ended (fail_and_raise sid (code_name code @ '': '' @ message) code d)
      | Inr gen \<Rightarrow> (d, Proceed gen))"

definition start_bind :: "start_lib \<Rightarrow> string \<Rightarrow> generation_handle \<Rightarrow> db \<Rightarrow> db \<times> unit flow" where
  "start_bind lib sid gen d =
     (case assign_generation sid (VStr (gh_generation_id gen)) (VStr (gh_epoch gen)) d of
        Inr (d', _) \<Rightarrow> (d', Proceed ())
      | Inl (NelixError code) \<Rightarrow>
          apsnd Ended (fail_and_raise sid (''could not bind generation: '' @ sl_bind_message lib) code d)
      | Inl e \<Rightarrow> (d, Ended (Inl e)))"

definition confirmed :: "string \<Rightarrow> pyval \<Rightarrow> bool" where
  "confirmed sid reply =
     (case reply of
        VDict d \<Rightarrow> dict_get d ''status'' = VStr ''started'' \<and> dict_get d ''session_id'' = VStr sid
      | _ \<Rightarrow> False)"

definition passed_on :: "pyval \<Rightarrow> start_reply" where
  "passed_on reply =
     (case reply of
        VDict d \<Rightarrow> List.map_filter (\<lambda>k. map_option (Pair k) (map_of d k)) [''snapshot'', ''next_after_seq'', ''next_action'']
      | _ \<Rightarrow> [])"

text \<open>After the forward: what its outcome makes of the reservation.\<close>

definition start_settle ::
  "start_lib \<Rightarrow> string \<Rightarrow> generation_handle \<Rightarrow> forward_outcome \<Rightarrow> db \<Rightarrow> db \<times> start_reply res" where
  "start_settle lib sid gen outcome d =
     (case outcome of
        ForwardConnectError e \<Rightarrow>
          fail_and_raise sid (''forward to generation failed before delivery: '' @ e) GENERATION_UNAVAILABLE d
      | ForwardResponseError e \<Rightarrow> (d, err GENERATION_UNAVAILABLE)
      | Replied reply \<Rightarrow>
          if confirmed sid reply then
            (case commit sid (VStr (gh_generation_id gen)) (VStr (gh_epoch gen)) d of
               Inl e \<Rightarrow> (d, Inl e)
             | Inr (d', _) \<Rightarrow>
                 (d', Inr ([(''operation'', VStr ''start''), (''status'', VStr ''started''), (''session_id'', VStr sid),
                       (''generation_id'', VStr (gh_generation_id gen))] @ passed_on reply)))
          else fail_and_raise sid (reason_from_reply lib reply) GENERATION_UNAVAILABLE d)"

text \<open>
  The whole handler, run by one thread: the ledger it leaves, what it returns, and the
  session and request it forwarded, if it did.
\<close>

definition drive_fresh ::
  "start_lib \<Rightarrow> (error_code \<Rightarrow> string) \<Rightarrow> picked \<Rightarrow> forward_outcome \<Rightarrow> string \<Rightarrow> start_request \<Rightarrow> db \<Rightarrow>
     db \<times> start_reply res \<times> (string \<times> start_request) option" where
  "drive_fresh lib code_name p outcome sid q d =
     (case start_picked code_name p sid d of
        (d1, Ended r) \<Rightarrow> (d1, r, None)
      | (d1, Proceed gen) \<Rightarrow>
          (case start_bind lib sid gen d1 of
             (d2, Ended r) \<Rightarrow> (d2, r, None)
           | (d2, Proceed _) \<Rightarrow> (let (d3, r) = start_settle lib sid gen outcome d2 in (d3, r, Some (sid, q)))))"

definition handle_start ::
  "start_lib \<Rightarrow> (error_code \<Rightarrow> string) \<Rightarrow> pyval \<Rightarrow> string \<Rightarrow> pyval \<Rightarrow> picked \<Rightarrow> forward_outcome \<Rightarrow> db \<Rightarrow>
     db \<times> start_reply res \<times> (string \<times> start_request) option" where
  "handle_start lib code_name body minted clock p outcome d =
     (case start_begin lib body minted clock d of
        (d1, Ended r) \<Rightarrow> (d1, r, None)
      | (d1, Proceed (sid, q)) \<Rightarrow> drive_fresh lib code_name p outcome sid q d1)"

text \<open>\<open>handle\<close>: a \<open>NelixError\<close> becomes a status and an envelope.\<close>

definition start_response :: "start_reply res \<Rightarrow> (nat \<times> (error_code + start_reply)) res" where
  "start_response r =
     (case r of
        Inr reply \<Rightarrow> Inr (200, Inr reply)
      | Inl (NelixError code) \<Rightarrow> Inr (http_status code, Inl code)
      | Inl e \<Rightarrow> Inl e)"

section \<open>Request threads over the shared ledger\<close>

text \<open>
  Where a request thread stands between two ledger transactions. Forwarding is a step of its
  own, without a transaction: the outcome arrives later.
\<close>

datatype start_pc =
    Idle
  | Picking string start_request
  | Binding string start_request generation_handle
  | Forwarding string start_request generation_handle
  | Awaiting string generation_handle
  | Responded "start_reply res"

datatype thread_input =
    Arrive pyval string pyval
  | Picked picked
  | Bind
  | Forward
  | Outcome forward_outcome

definition continue :: "('a \<Rightarrow> start_pc) \<Rightarrow> 'a flow \<Rightarrow> start_pc" where
  "continue k f = (case f of Proceed x \<Rightarrow> k x | Ended r \<Rightarrow> Responded r)"

text \<open>
  One step of a thread: the ledger, its place, and the forward it sent. An input that does
  not fit its place does nothing.
\<close>

fun thread_step ::
  "start_lib \<Rightarrow> (error_code \<Rightarrow> string) \<Rightarrow> thread_input \<Rightarrow> db \<times> start_pc \<Rightarrow> (db \<times> start_pc) \<times> (string \<times> start_request) list" where
  "thread_step lib cn (Arrive body minted clock) (d, Idle) =
     (apsnd (continue (\<lambda>(sid, q). Picking sid q)) (start_begin lib body minted clock d), [])"
| "thread_step lib cn (Picked p) (d, Picking sid q) =
     (apsnd (continue (Binding sid q)) (start_picked cn p sid d), [])"
| "thread_step lib cn Bind (d, Binding sid q gen) =
     (apsnd (continue (\<lambda>_. Forwarding sid q gen)) (start_bind lib sid gen d), [])"
| "thread_step lib cn Forward (d, Forwarding sid q gen) = ((d, Awaiting sid gen), [(sid, q)])"
| "thread_step lib cn (Outcome oc) (d, Awaiting sid gen) = (apsnd Responded (start_settle lib sid gen oc d), [])"
| "thread_step lib cn _ s = (s, [])"

primrec thread_run ::
  "start_lib \<Rightarrow> (error_code \<Rightarrow> string) \<Rightarrow> thread_input list \<Rightarrow> db \<times> start_pc \<Rightarrow> (db \<times> start_pc) \<times> (string \<times> start_request) list" where
  "thread_run lib cn [] s = (s, [])"
| "thread_run lib cn (i # is) s =
     (let (s1, f1) = thread_step lib cn i s; (s2, f2) = thread_run lib cn is s1 in (s2, f1 @ f2))"

end
