(* ===== verification/Nelix_Start_Props.thy ===== *)
theory Nelix_Start_Props
  imports Nelix_Start Nelix_Store_Props
begin

text \<open>
  The START path's promises: the handler is the composition of its steps, at most one
  forward per owner and key under any interleaving of request threads, and what each
  outcome of the forward records and a retry is told.
\<close>

section \<open>The handler and its steps\<close>


section \<open>The ledger under the steps\<close>

text \<open>Every step's effect on the ledger is that of store operations that collect nothing.\<close>

definition ledger_move :: "db \<Rightarrow> db \<Rightarrow> bool" where
  "ledger_move d d' \<longleftrightarrow> (\<exists>ops. minted_run d ops \<and> list_all (\<lambda>op. \<not> collects op) ops \<and> d' = store_run d ops)"

lemma ledger_move_refl [simp]: "ledger_move d d"
  unfolding ledger_move_def by (rule exI [of _ "[]"]) (simp add: store_run_def)

lemma ledger_move_step: "minted_ok d op \<Longrightarrow> \<not> collects op \<Longrightarrow> d' = store_step d op \<Longrightarrow> ledger_move d d'"
  unfolding ledger_move_def by (rule exI [of _ "[op]"]) (simp add: store_run_def)

lemma ledger_moveD:
  assumes "ledger_move d d'" "db_ok d"
  shows "db_ok d'" "kept d d'"
  using assms store_run_ok store_run_kept by (auto simp: ledger_move_def)

lemma move_reserve:
  assumes "reserve k ow orc fp m c d = Inr (d', r)" "match_hex_id (CHR ''s'') m"
  shows "ledger_move d d'"
  by (rule ledger_move_step [of _ "Reserve k ow orc fp m c"]) (simp_all add: assms committed_def)

lemma move_assign: "assign_generation sid g e d = Inr (d', u) \<Longrightarrow> ledger_move d d'"
  by (rule ledger_move_step [of _ "AssignGeneration sid g e"]) (simp_all add: committed_def)

lemma move_commit: "commit sid g e d = Inr (d', u) \<Longrightarrow> ledger_move d d'"
  by (rule ledger_move_step [of _ "Commit sid g e"]) (simp_all add: committed_def)

lemma move_fail: "fail_start sid why d = Inr (d', u) \<Longrightarrow> ledger_move d d'"
  by (rule ledger_move_step [of _ "FailStart sid why"]) (simp_all add: committed_def)

lemma move_fail_and_raise: "ledger_move d (fst (fail_and_raise sid why code d))"
  by (auto simp: fail_and_raise_def try_fail_def dest: move_fail split: sum.split exn.split)

lemma move_begin: "match_hex_id (CHR ''s'') minted \<Longrightarrow> ledger_move d (fst (start_begin lib body minted clock d))"
  by (auto simp: start_begin_def dest: move_reserve split: sum.split)

lemma move_picked: "ledger_move d (fst (start_picked cn p sid d))"
  by (auto simp: start_picked_def move_fail_and_raise split: sum.split)

lemma move_bind: "ledger_move d (fst (start_bind lib sid gen d))"
  by (auto simp: start_bind_def move_fail_and_raise dest: move_assign split: sum.split exn.split)

lemma move_settle: "ledger_move d (fst (start_settle lib sid gen oc d))"
  by (auto simp: start_settle_def move_fail_and_raise dest: move_commit split: sum.split forward_outcome.split)

lemmas ledger_moves = move_begin move_picked move_bind move_settle

section \<open>At most one forward\<close>

text \<open>The router: the shared ledger, its request threads, the forwards sent so far; beside them anyone may use the store.\<close>

record router =
  rt_db :: db
  rt_pcs :: "nat \<Rightarrow> start_pc"
  rt_sent :: "(string \<times> start_request) list"

datatype router_event = Thread nat thread_input | Elsewhere store_op

fun router_step :: "start_lib \<Rightarrow> (error_code \<Rightarrow> string) \<Rightarrow> router_event \<Rightarrow> router \<Rightarrow> router" where
  "router_step lib cn (Thread t i) r =
     (let ((d, pc), sent) = thread_step lib cn i (rt_db r, rt_pcs r t)
      in \<lparr>rt_db = d, rt_pcs = (rt_pcs r)(t := pc), rt_sent = rt_sent r @ sent\<rparr>)"
| "router_step lib cn (Elsewhere op) r = r\<lparr>rt_db := store_step (rt_db r) op\<rparr>"

primrec router_run :: "start_lib \<Rightarrow> (error_code \<Rightarrow> string) \<Rightarrow> router_event list \<Rightarrow> router \<Rightarrow> router" where
  "router_run lib cn [] r = r"
| "router_run lib cn (e # es) r = router_run lib cn es (router_step lib cn e r)"

definition router_start :: "db \<Rightarrow> router" where
  "router_start d = \<lparr>rt_db = d, rt_pcs = (\<lambda>_. Idle), rt_sent = []\<rparr>"

text \<open>Minted ids have the shape of session ids; the retention job is not running.\<close>

fun event_ok :: "router_event \<Rightarrow> bool" where
  "event_ok (Thread _ (Arrive _ minted _)) = match_hex_id (CHR ''s'') minted"
| "event_ok (Thread _ _) = True"
| "event_ok (Elsewhere (Reserve _ _ _ _ minted _)) = match_hex_id (CHR ''s'') minted"
| "event_ok (Elsewhere op) = (\<not> collects op)"

text \<open>The session a thread may still forward.\<close>

fun pending :: "start_pc \<Rightarrow> (string \<times> start_request) option" where
  "pending (Picking sid q) = Some (sid, q)"
| "pending (Binding sid q gen) = Some (sid, q)"
| "pending (Forwarding sid q gen) = Some (sid, q)"
| "pending _ = None"

definition row_of :: "db \<Rightarrow> string \<times> start_request \<Rightarrow> bool" where
  "row_of d x = (case start_of d (fst x) of None \<Rightarrow> False
     | Some st \<Rightarrow> st_owner_id st = sq_owner (snd x) \<and> st_idempotency_key st = sq_key (snd x))"

definition router_ok :: "router \<Rightarrow> bool" where
  "router_ok r \<longleftrightarrow> db_ok (rt_db r) \<and> list_all (row_of (rt_db r)) (rt_sent r) \<and> distinct (map fst (rt_sent r)) \<and>
     (\<forall>t x. pending (rt_pcs r t) = Some x \<longrightarrow> row_of (rt_db r) x \<and> fst x \<notin> fst ` set (rt_sent r)) \<and>
     (\<forall>t u x y. t \<noteq> u \<longrightarrow> pending (rt_pcs r t) = Some x \<longrightarrow> pending (rt_pcs r u) = Some y \<longrightarrow> fst x \<noteq> fst y)"

lemma row_ofD:
  "row_of d x \<Longrightarrow> \<exists>st. start_of d (fst x) = Some st \<and> st_owner_id st = sq_owner (snd x) \<and> st_idempotency_key st = sq_key (snd x)"
  by (cases "start_of d (fst x)") (simp_all add: row_of_def)

lemma row_of_kept: "kept d d' \<Longrightarrow> row_of d x \<Longrightarrow> row_of d' x"
  using keptD(1) [of d d' "fst x"] by (fastforce simp: row_of_def start_kept_def split: option.splits)

lemma begin_fresh:
  assumes "start_begin lib body minted clock d = (d', Proceed x)"
  shows "start_of d (fst x) = None" "row_of d' x"
proof -
  obtain q r where q: "parse_start lib body = Inr q" and res: "reserve (VStr (sq_key q)) (VStr (sq_owner q))
      (VStr (sq_orchestration q)) (VStr (request_fingerprint lib q)) minted clock d = Inr (d', r)"
    and x: "\<not> rs_replay r" "x = (rs_session_id r, q)"
    using assms by (auto simp: start_begin_def split: sum.splits if_splits)
  from res show "start_of d (fst x) = None"
  proof (cases rule: reserve_cases)
    case (replay o' r' k f sid' st)
    then show ?thesis using x(1) by (auto simp: row_to_reservation_def split: if_splits)
  qed (simp add: x)
  from res show "row_of d' x"
  proof (cases rule: reserve_cases)
    case (replay o' r' k f sid' st)
    then show ?thesis using x(1) by (auto simp: row_to_reservation_def split: if_splits)
  qed (simp add: x row_of_def)
qed

lemma thread_step_move:
  assumes "event_ok (Thread t i)"
  shows "ledger_move d (fst (fst (thread_step lib cn i (d, pc))))"
  using assms by (cases "(lib, cn, i, (d, pc))" rule: thread_step.cases) (simp_all add: ledger_moves)

text \<open>What a step does to the session its thread may forward.\<close>

lemma thread_step_pending:
  obtains (fresh) x where "pending pc = None" "start_of d (fst x) = None" "row_of (fst (fst (thread_step lib cn i (d, pc)))) x"
      "pending (snd (fst (thread_step lib cn i (d, pc)))) = Some x" "snd (thread_step lib cn i (d, pc)) = []"
  | (sent) x where "pending pc = Some x" "pending (snd (fst (thread_step lib cn i (d, pc)))) = None"
      "snd (thread_step lib cn i (d, pc)) = [x]"
  | (same) "pending (snd (fst (thread_step lib cn i (d, pc)))) \<in> {None, pending pc}" "snd (thread_step lib cn i (d, pc)) = []"
proof -
  have same_flow: "pending (continue k f) \<in> {None, v}" if "\<And>x. pending (k x) = v" for k :: "'x \<Rightarrow> start_pc" and f v
    using that by (cases f) (simp_all add: continue_def)
  show thesis
  proof (cases "(lib, cn, i, (d, pc))" rule: thread_step.cases)
    case (1 lib' cn' body minted clock d')
    obtain d1 f where b: "start_begin lib body minted clock d = (d1, f)" by (cases "start_begin lib body minted clock d")
    show thesis
    proof (cases f)
      case (Proceed x)
      then show thesis using fresh [of x] begin_fresh [of lib body minted clock d d1 x] b 1
        by (cases x) (simp add: continue_def)
    next
      case (Ended r)
      then show thesis using same b 1 by (simp add: continue_def)
    qed
  next
    case (2 lib' cn' p d' sid q)
    then show thesis using same same_flow [of "Binding sid q" "Some (sid, q)" "snd (start_picked cn p sid d)"] by simp
  next
    case (3 lib' cn' d' sid q gen)
    then show thesis using same same_flow [of "\<lambda>_. Forwarding sid q gen" "Some (sid, q)" "snd (start_bind lib sid gen d)"] by simp
  next
    case (4 lib' cn' d' sid q gen)
    then show thesis using sent [of "(sid, q)"] by simp
  qed (use same in simp_all)
qed

lemma router_okD:
  assumes "router_ok r"
  shows "db_ok (rt_db r)" "x \<in> set (rt_sent r) \<Longrightarrow> row_of (rt_db r) x" "distinct (map fst (rt_sent r))"
    "pending (rt_pcs r t) = Some x \<Longrightarrow> row_of (rt_db r) x"
    "pending (rt_pcs r t) = Some x \<Longrightarrow> fst x \<notin> fst ` set (rt_sent r)"
    "t \<noteq> u \<Longrightarrow> pending (rt_pcs r t) = Some x \<Longrightarrow> pending (rt_pcs r u) = Some y \<Longrightarrow> fst x \<noteq> fst y"
  using assms unfolding router_ok_def list_all_iff by blast+

lemma router_okI:
  assumes "db_ok (rt_db r)" "\<And>x. x \<in> set (rt_sent r) \<Longrightarrow> row_of (rt_db r) x" "distinct (map fst (rt_sent r))"
    "\<And>t x. pending (rt_pcs r t) = Some x \<Longrightarrow> row_of (rt_db r) x"
    "\<And>t x. pending (rt_pcs r t) = Some x \<Longrightarrow> fst x \<notin> fst ` set (rt_sent r)"
    "\<And>t u x y. t \<noteq> u \<Longrightarrow> pending (rt_pcs r t) = Some x \<Longrightarrow> pending (rt_pcs r u) = Some y \<Longrightarrow> fst x \<noteq> fst y"
  shows "router_ok r"
  using assms unfolding router_ok_def list_all_iff by blast

lemma router_ok_db:
  assumes ok: "router_ok r" and m: "ledger_move (rt_db r) d"
  shows "router_ok (r\<lparr>rt_db := d\<rparr>)"
proof -
  note k = ledger_moveD [OF m router_okD(1) [OF ok]]
  show ?thesis
  proof (rule router_okI)
    show "db_ok (rt_db (r\<lparr>rt_db := d\<rparr>))" using k(1) by simp
    show "row_of (rt_db (r\<lparr>rt_db := d\<rparr>)) x" if "x \<in> set (rt_sent (r\<lparr>rt_db := d\<rparr>))" for x
      using that row_of_kept [OF k(2) router_okD(2) [OF ok]] by simp
    show "distinct (map fst (rt_sent (r\<lparr>rt_db := d\<rparr>)))" using router_okD(3) [OF ok] by simp
    show "row_of (rt_db (r\<lparr>rt_db := d\<rparr>)) x" if "pending (rt_pcs (r\<lparr>rt_db := d\<rparr>) t) = Some x" for t x
      using that row_of_kept [OF k(2) router_okD(4) [OF ok, of t]] by simp
    show "fst x \<notin> fst ` set (rt_sent (r\<lparr>rt_db := d\<rparr>))" if "pending (rt_pcs (r\<lparr>rt_db := d\<rparr>) t) = Some x" for t x
      using that router_okD(5) [OF ok, of t] by simp
    show "fst x \<noteq> fst y" if "t \<noteq> u" "pending (rt_pcs (r\<lparr>rt_db := d\<rparr>) t) = Some x"
      "pending (rt_pcs (r\<lparr>rt_db := d\<rparr>) u) = Some y" for t u x y
      using that router_okD(6) [OF ok that(1)] by simp
  qed
qed

text \<open>The three changes of a thread's place, on a router whose ledger has moved already.\<close>

lemma router_ok_same:
  assumes ok: "router_ok r" and pc: "pending pc \<in> {None, pending (rt_pcs r t)}"
  shows "router_ok (r\<lparr>rt_pcs := (rt_pcs r)(t := pc)\<rparr>)"
proof -
  have old: "pending (rt_pcs r u) = Some x" if "pending (((rt_pcs r)(t := pc)) u) = Some x" for u x
    using that pc by (cases "u = t") auto
  show ?thesis
    by (rule router_okI) (use router_okD(1,2,3) [OF ok] in \<open>simp_all del: fun_upd_apply, (blast dest: old router_okD(4,5,6) [OF ok])+\<close>)
qed

lemma router_ok_sent:
  assumes ok: "router_ok r" and x: "pending (rt_pcs r t) = Some x" and pc: "pending pc = None"
  shows "router_ok (r\<lparr>rt_pcs := (rt_pcs r)(t := pc), rt_sent := rt_sent r @ [x]\<rparr>)"
proof (rule router_okI)
  let ?r = "r\<lparr>rt_pcs := (rt_pcs r)(t := pc), rt_sent := rt_sent r @ [x]\<rparr>"
  have old: "u \<noteq> t \<and> pending (rt_pcs r u) = Some y" if "pending (rt_pcs ?r u) = Some y" for u y
    using that pc by (cases "u = t") auto
  show "db_ok (rt_db ?r)" using router_okD(1) [OF ok] by simp
  show "row_of (rt_db ?r) y" if "y \<in> set (rt_sent ?r)" for y
    using that router_okD(2) [OF ok, of y] router_okD(4) [OF ok x] by auto
  show "distinct (map fst (rt_sent ?r))" using router_okD(3) [OF ok] router_okD(5) [OF ok x] by auto
  show "row_of (rt_db ?r) y" if "pending (rt_pcs ?r u) = Some y" for u y
    using old [OF that] router_okD(4) [OF ok, of u y] by simp
  show "fst y \<notin> fst ` set (rt_sent ?r)" if "pending (rt_pcs ?r u) = Some y" for u y
    using old [OF that] router_okD(5) [OF ok, of u y] router_okD(6) [OF ok _ x, of u y] by auto
  show "fst y \<noteq> fst z" if "u \<noteq> v" "pending (rt_pcs ?r u) = Some y" "pending (rt_pcs ?r v) = Some z" for u v y z
    using old [OF that(2)] old [OF that(3)] router_okD(6) [OF ok that(1)] by blast
qed

lemma router_ok_fresh:
  assumes ok: "router_ok (r\<lparr>rt_db := d\<rparr>)" and old: "router_ok r" and new: "start_of (rt_db r) (fst x) = None"
    and x: "row_of d x" "pending pc = Some x"
  shows "router_ok (r\<lparr>rt_db := d, rt_pcs := (rt_pcs r)(t := pc)\<rparr>)"
proof (rule router_okI)
  let ?r = "r\<lparr>rt_db := d, rt_pcs := (rt_pcs r)(t := pc)\<rparr>"
  have no: "fst y \<noteq> fst x" if "row_of (rt_db r) y" for y using that new by (auto simp: row_of_def)
  have p: "u = t \<and> y = x \<or> u \<noteq> t \<and> pending (rt_pcs r u) = Some y" if "pending (rt_pcs ?r u) = Some y" for u y
    using that x(2) by (cases "u = t") auto
  show "db_ok (rt_db ?r)" using router_okD(1) [OF ok] by simp
  show "row_of (rt_db ?r) y" if "y \<in> set (rt_sent ?r)" for y using that router_okD(2) [OF ok, of y] by simp
  show "distinct (map fst (rt_sent ?r))" using router_okD(3) [OF ok] by simp
  show "row_of (rt_db ?r) y" if "pending (rt_pcs ?r u) = Some y" for u y
    using p [OF that] router_okD(4) [OF ok, of u y] x(1) by auto
  show "fst y \<notin> fst ` set (rt_sent ?r)" if "pending (rt_pcs ?r u) = Some y" for u y
  proof -
    have "fst x \<notin> fst ` set (rt_sent r)" using no router_okD(2) [OF old] by (metis imageE)
    then show ?thesis using p [OF that] router_okD(5) [OF old, of u y] by auto
  qed
  show "fst y \<noteq> fst z" if "u \<noteq> v" "pending (rt_pcs ?r u) = Some y" "pending (rt_pcs ?r v) = Some z" for u v y z
    using p [OF that(2)] p [OF that(3)] that(1) router_okD(6) [OF old that(1), of y z]
      no [OF router_okD(4) [OF old, of u y]] no [OF router_okD(4) [OF old, of v z]] by auto
qed

lemma router_step_ok:
  assumes ok: "router_ok r" and e: "event_ok e"
  shows "router_ok (router_step lib cn e r)"
proof (cases e)
  case (Elsewhere op)
  have "minted_ok (rt_db r) op" "\<not> collects op" using e by (cases op; simp add: Elsewhere)+
  then have "ledger_move (rt_db r) (store_step (rt_db r) op)" by (rule ledger_move_step) simp
  then show ?thesis using router_ok_db [OF ok] by (simp add: Elsewhere)
next
  case (Thread t i)
  define d pc s where "d = fst (fst (thread_step lib cn i (rt_db r, rt_pcs r t)))"
    and "pc = snd (fst (thread_step lib cn i (rt_db r, rt_pcs r t)))" and "s = snd (thread_step lib cn i (rt_db r, rt_pcs r t))"
  have ok1: "router_ok (r\<lparr>rt_db := d\<rparr>)"
    unfolding d_def by (rule router_ok_db [OF ok thread_step_move]) (use e Thread in simp)
  have step: "router_step lib cn e r = r\<lparr>rt_db := d, rt_pcs := (rt_pcs r)(t := pc), rt_sent := rt_sent r @ s\<rparr>"
    by (simp add: Thread d_def pc_def s_def case_prod_beta Let_def)
  show ?thesis
  proof (cases rule: thread_step_pending [of "rt_pcs r t" "rt_db r" lib cn i])
    case (fresh x)
    then show ?thesis unfolding step using router_ok_fresh [OF ok1 ok, of x pc t] by (simp add: d_def pc_def s_def)
  next
    case (sent x)
    then show ?thesis unfolding step using router_ok_sent [OF ok1, of t x pc] by (simp add: pc_def s_def)
  next
    case same
    then show ?thesis unfolding step using router_ok_same [OF ok1, of pc t] by (simp add: pc_def s_def)
  qed
qed

lemma router_run_ok: "router_ok r \<Longrightarrow> list_all event_ok es \<Longrightarrow> router_ok (router_run lib cn es r)"
  by (induction es arbitrary: r) (simp_all add: router_step_ok)

text \<open>
  C1: However the request threads of the router interleave with each other and with any other
  use of the store (retention aside), at most one start request is ever forwarded to a
  generation per owner and idempotency key: no two workers for one start.
\<close>
theorem at_most_one_forward:
  assumes "store_reachable d" "list_all event_ok es"
  shows "distinct (map (\<lambda>(sid, q). (sq_owner q, sq_key q)) (rt_sent (router_run lib cn es (router_start d))))"
proof -
  let ?r = "router_run lib cn es (router_start d)"
  have "router_ok (router_start d)" using store_reachable_ok [OF assms(1)] by (simp add: router_ok_def router_start_def)
  then have ok: "router_ok ?r" using assms(2) by (rule router_run_ok)
  have same: "fst x = fst y" if s: "row_of (rt_db ?r) x" "row_of (rt_db ?r) y"
    "sq_owner (snd x) = sq_owner (snd y)" "sq_key (snd x) = sq_key (snd y)" for x y
  proof -
    obtain a b where "start_of (rt_db ?r) (fst x) = Some a" "start_of (rt_db ?r) (fst y) = Some b"
      "st_owner_id a = st_owner_id b" "st_idempotency_key a = st_idempotency_key b"
      using row_ofD [OF s(1)] row_ofD [OF s(2)] s(3,4) by auto
    with db_okD(1) [OF router_okD(1) [OF ok]] show ?thesis unfolding starts_ok_def start_of_def by blast
  qed
  have "inj_on (\<lambda>(sid, q). (sq_owner q, sq_key q)) (set (rt_sent ?r))"
  proof (rule inj_onI)
    fix x y assume xy: "x \<in> set (rt_sent ?r)" "y \<in> set (rt_sent ?r)"
      and "(\<lambda>(sid, q). (sq_owner q, sq_key q)) x = (\<lambda>(sid, q). (sq_owner q, sq_key q)) y"
    then have "fst x = fst y" using router_okD(2) [OF ok] by (intro same) (auto simp: case_prod_beta)
    then show "x = y" using router_okD(3) [OF ok] xy by (auto simp: distinct_map dest: inj_onD)
  qed
  then show ?thesis using router_okD(3) [OF ok] by (simp add: distinct_map)
qed

section \<open>What an outcome records, what a retry is told\<close>

lemma handle_forwarded:
  assumes "handle_start lib cn body minted clock p oc d = (d', r, Some (sid, q))"
  obtains d1 gen d2 where "start_begin lib body minted clock d = (d1, Proceed (sid, q))" "p = Inr gen"
    "start_bind lib sid gen d1 = (d2, Proceed ())" "start_settle lib sid gen oc d2 = (d', r)"
  using assms by (auto simp: handle_start_def drive_fresh_def start_picked_def case_prod_beta apsnd_def map_prod_def Let_def
      prod_eq_iff split: prod.splits flow.splits sum.splits)

lemma begin_row:
  assumes ok: "db_ok d" and b: "start_begin lib body minted clock d = (d1, Proceed (sid, q))"
    and m: "match_hex_id (CHR ''s'') minted"
  obtains st where "start_of d1 sid = Some st" "st_state st = ''starting''" "st_generation_id st = None"
    "st_request_fingerprint st = request_fingerprint lib q" "st_orchestration_id st = sq_orchestration q"
    "st_owner_id st = sq_owner q" "st_idempotency_key st = sq_key q" "map_of (db_sessions d1) sid = None"
    "parse_start lib body = Inr q"
proof -
  obtain r where q: "parse_start lib body = Inr q" and res: "reserve (VStr (sq_key q)) (VStr (sq_owner q))
      (VStr (sq_orchestration q)) (VStr (request_fingerprint lib q)) minted clock d = Inr (d1, r)"
    and x: "\<not> rs_replay r" "sid = rs_session_id r"
    using b by (auto simp: start_begin_def split: sum.splits if_splits)
  from res show thesis
  proof (cases rule: reserve_cases)
    case (new o' r' k f now)
    have "map_of (db_sessions d) minted = None"
      using db_okD(2) [OF ok] new(8) by (cases "map_of (db_sessions d) minted") (force simp: sessions_ok_def start_of_def)+
    then show thesis
      by (intro that [of "\<lparr>st_owner_id = o', st_orchestration_id = r', st_idempotency_key = k,
         st_request_fingerprint = f, st_state = ''starting'', st_generation_id = None,
         st_generation_epoch = None, st_reason = None, st_created_at = now\<rparr>"]) (use new q x in simp_all)
  next
    case (replay o' r' k f sid' st)
    then show thesis using x(1) by (auto simp: row_to_reservation_def split: if_splits)
  qed
qed

lemma bind_assigns:
  assumes "start_bind lib sid gen d1 = (d2, Proceed ())"
  shows "assign_generation sid (VStr (gh_generation_id gen)) (VStr (gh_epoch gen)) d1 = Inr (d2, ())"
  using assms
  by (auto simp: start_bind_def apsnd_def map_prod_def case_prod_beta prod_eq_iff split: sum.splits exn.splits)

lemma bind_row:
  assumes "start_bind lib sid gen d1 = (d2, Proceed ())" "start_of d1 sid = Some st"
  shows "d2 = put_start sid (st\<lparr>st_generation_id := Some (gh_generation_id gen), st_generation_epoch := Some (gh_epoch gen)\<rparr>) d1"
  using bind_assigns [OF assms(1)] by (cases rule: assign_generation_cases) (use assms(2) in auto)

lemma fail_and_raise_starting:
  assumes "start_of d sid = Some st" "st_state st = ''starting''" "map_of (db_sessions d) sid = None"
  obtains why where
    "fail_and_raise sid reason code d = (put_start sid (st\<lparr>st_state := ''failed'', st_reason := Some why\<rparr>) d, err code)"
proof -
  let ?why = "failure_text reason"
  have "nonempty_text (VStr ?why) = Inr ?why" by (simp add: nonempty_text_def failure_text_def)
  then have "fail_start sid (VStr ?why) d = Inr (put_start sid (st\<lparr>st_state := ''failed'', st_reason := Some ?why\<rparr>) d, ())"
    using assms by (simp add: fail_start_def require_start_def)
  then show thesis by (intro that [of ?why]) (simp add: fail_and_raise_def try_fail_def)
qed

text \<open>
  C3: The outcome of a forward decides what the ledger records, and only a definite failure is
  recorded as one: a confirmed start as \<open>started\<close>, a failure before delivery or a rejection as
  \<open>failed\<close>, a failure after delivery, when a worker may exist, not at all (the start stays
  \<open>starting\<close>); each time bound to the generation it was sent to, and the caller is told success
  exactly when the ledger says so.
\<close>
theorem start_outcome_is_recorded:
  assumes "store_reachable d" "match_hex_id (CHR ''s'') minted"
    "handle_start lib cn body minted clock (Inr gen) oc d = (d', r, Some (sid, q))"
  shows "\<exists>st. start_of d' sid = Some st \<and> st_generation_id st = Some (gh_generation_id gen) \<and>
     st_generation_epoch st = Some (gh_epoch gen) \<and>
     st_state st = (case oc of ForwardConnectError _ \<Rightarrow> ''failed'' | ForwardResponseError _ \<Rightarrow> ''starting''
       | Replied reply \<Rightarrow> if confirmed sid reply then ''started'' else ''failed'') \<and>
     (if st_state st = ''started''
      then (\<exists>more. r = Inr ([(''operation'', VStr ''start''), (''status'', VStr ''started''), (''session_id'', VStr sid),
                            (''generation_id'', VStr (gh_generation_id gen))] @ more))
      else r = err GENERATION_UNAVAILABLE)"
proof -
  have ok: "db_ok d" by (rule store_reachable_ok [OF assms(1)])
  obtain d1 d2 where h: "start_begin lib body minted clock d = (d1, Proceed (sid, q))"
    "start_bind lib sid gen d1 = (d2, Proceed ())" "start_settle lib sid gen oc d2 = (d', r)"
    using handle_forwarded [OF assms(3)] by (metis Inr_inject)
  obtain st where st: "start_of d1 sid = Some st" "st_state st = ''starting''" "map_of (db_sessions d1) sid = None"
    using begin_row [OF ok h(1) assms(2)] by metis
  define st2 where "st2 = st\<lparr>st_generation_id := Some (gh_generation_id gen), st_generation_epoch := Some (gh_epoch gen)\<rparr>"
  have d2: "d2 = put_start sid st2 d1" unfolding st2_def by (rule bind_row [OF h(2) st(1)])
  have s2: "start_of d2 sid = Some st2" "st_state st2 = ''starting''" "map_of (db_sessions d2) sid = None"
    using st by (simp_all add: d2 st2_def)
  have g: "match_hex_id (CHR ''g'') (gh_generation_id gen)" "match_hex_id (CHR ''g'') (gh_epoch gen)"
    using bind_assigns [OF h(2)] by (auto elim: assign_generation_cases)
  have failed: "\<exists>st. start_of d' sid = Some st \<and> st_generation_id st = Some (gh_generation_id gen) \<and>
     st_generation_epoch st = Some (gh_epoch gen) \<and> st_state st = ''failed'' \<and> r = err GENERATION_UNAVAILABLE"
    if "fail_and_raise sid reason GENERATION_UNAVAILABLE d2 = (d', r)" for reason
  proof (rule fail_and_raise_starting [OF s2, of reason GENERATION_UNAVAILABLE])
    fix why
    assume "fail_and_raise sid reason GENERATION_UNAVAILABLE d2 =
      (put_start sid (st2\<lparr>st_state := ''failed'', st_reason := Some why\<rparr>) d2, err GENERATION_UNAVAILABLE)"
    with that show ?thesis by (auto simp: st2_def)
  qed
  show ?thesis
  proof (cases oc)
    case (ForwardConnectError e)
    then have "fail_and_raise sid (''forward to generation failed before delivery: '' @ e) GENERATION_UNAVAILABLE d2 = (d', r)"
      using h(3) by (simp add: start_settle_def)
    from failed [OF this] obtain st where "start_of d' sid = Some st" "st_generation_id st = Some (gh_generation_id gen)"
      "st_generation_epoch st = Some (gh_epoch gen)" "st_state st = ''failed''" "r = err GENERATION_UNAVAILABLE" by blast
    then show ?thesis by (intro exI [of _ st]) (simp add: ForwardConnectError)
  next
    case (ForwardResponseError e)
    then show ?thesis using h(3) s2 by (auto simp: start_settle_def st2_def)
  next
    case (Replied reply)
    show ?thesis
    proof (cases "confirmed sid reply")
      case False
      then have "fail_and_raise sid (reason_from_reply lib reply) GENERATION_UNAVAILABLE d2 = (d', r)"
        using h(3) Replied by (simp add: start_settle_def)
      from failed [OF this] obtain st where "start_of d' sid = Some st" "st_generation_id st = Some (gh_generation_id gen)"
        "st_generation_epoch st = Some (gh_epoch gen)" "st_state st = ''failed''" "r = err GENERATION_UNAVAILABLE" by blast
      then show ?thesis using False by (intro exI [of _ st]) (simp add: Replied)
    next
      case True
      have "commit sid (VStr (gh_generation_id gen)) (VStr (gh_epoch gen)) d2 = Inr (put_start sid (st2\<lparr>st_state := ''started''\<rparr>) d2, ())"
        using s2 g by (simp add: commit_def validate_id_defs require_start_def st2_def)
      then show ?thesis using h(3) True Replied by (auto simp: start_settle_def st2_def)
    qed
  qed
qed

text \<open>
  C2: A retry is told the recorded outcome and never forwards. After a start was forwarded, and any further
  use of the store without retention, the same body handled again (whatever fresh id is minted,
  whichever generation is active, however a forward would end) leaves the ledger as it is, sends
  nothing, and answers with the same session: its state and generation, or the recorded failure.
\<close>
theorem retry_never_forwards:
  assumes "store_reachable d" "match_hex_id (CHR ''s'') minted"
    "handle_start lib cn body minted clock p oc d = (d', r, Some (sid, q))"
    "minted_run d' ops" "list_all (\<lambda>op. \<not> collects op) ops" "d2 = store_run d' ops" "moment clock' = Inr now"
  shows "\<exists>st. start_of d2 sid = Some st \<and>
     handle_start lib cn body minted' clock' p' oc' d2 =
       (d2, if st_state st = ''failed'' then err GENERATION_UNAVAILABLE
            else Inr [(''operation'', VStr ''start''), (''status'', VStr (st_state st)), (''session_id'', VStr sid),
                      (''generation_id'', opt_str (st_generation_id st)), (''replay'', VBool True)], None)"
proof -
  have ok: "db_ok d" by (rule store_reachable_ok [OF assms(1)])
  obtain d1 gen dx where h: "start_begin lib body minted clock d = (d1, Proceed (sid, q))"
    "start_bind lib sid gen d1 = (dx, Proceed ())" "start_settle lib sid gen oc dx = (d', r)"
    using handle_forwarded [OF assms(3)] by metis
  obtain st where st: "start_of d1 sid = Some st" "st_request_fingerprint st = request_fingerprint lib q"
    "st_orchestration_id st = sq_orchestration q" "st_owner_id st = sq_owner q" "st_idempotency_key st = sq_key q"
    and q: "parse_start lib body = Inr q" using begin_row [OF ok h(1) assms(2)] by metis
  have m1: "ledger_move d d1" using move_begin [OF assms(2), of d lib body clock] by (simp add: h(1))
  have m2: "ledger_move d1 dx" using move_bind [of d1 lib sid gen] by (simp add: h(2))
  have m3: "ledger_move dx d'" using move_settle [of dx lib sid gen oc] by (simp add: h(3))
  note ok1 = ledger_moveD(1) [OF m1 ok] and okx = ledger_moveD(1) [OF m2 ledger_moveD(1) [OF m1 ok]]
  have m4: "ledger_move d' d2" using assms(4-6) by (auto simp: ledger_move_def)
  note ok' = ledger_moveD(1) [OF m3 okx]
  have "kept d1 d2"
    by (rule kept_trans [OF ledger_moveD(2) [OF m2 ok1] kept_trans [OF ledger_moveD(2) [OF m3 okx] ledger_moveD(2) [OF m4 ok']]])
  then obtain st2 where s2: "start_of d2 sid = Some st2" "start_kept st st2" using keptD(1) st(1) by blast
  have ok2: "db_ok d2" by (rule ledger_moveD(1) [OF m4 ok'])
  obtain r0 where "reserve (VStr (sq_key q)) (VStr (sq_owner q)) (VStr (sq_orchestration q)) (VStr (request_fingerprint lib q)) minted clock d = Inr r0"
    using h(1) q by (auto simp: start_begin_def split: sum.splits)
  then have a: "match_owner (sq_owner q)" "match_hex_id (CHR ''o'') (sq_orchestration q)"
    "bounded_text (VStr (sq_key q)) MAX_IDEMPOTENCY_KEY_BYTES = Inr (sq_key q)"
    "bounded_text (VStr (request_fingerprint lib q)) MAX_REQUEST_FINGERPRINT_BYTES = Inr (request_fingerprint lib q)"
    by (auto elim!: reserve_args)
  have i: "st_owner_id st2 = sq_owner q" "st_idempotency_key st2 = sq_key q" "st_request_fingerprint st2 = request_fingerprint lib q"
    "st_orchestration_id st2 = sq_orchestration q" using s2(2) st by (simp_all add: start_kept_def)
  have "reserve (VStr (sq_key q)) (VStr (sq_owner q)) (VStr (sq_orchestration q)) (VStr (request_fingerprint lib q)) minted' clock' d2 =
    Inr (d2, \<lparr>rs_session_id = sid, rs_state = st_state st2, rs_generation_id = st_generation_id st2, rs_reason = st_reason st2, rs_replay = True\<rparr>)"
    using reserve_eq_replay [OF ok2 s2(1), of "VStr (sq_owner q)" "VStr (sq_key q)"] a assms(7) i by simp
  then have "handle_start lib cn body minted' clock' p' oc' d2 = (d2, replay_reply \<lparr>rs_session_id = sid, rs_state = st_state st2,
      rs_generation_id = st_generation_id st2, rs_reason = st_reason st2, rs_replay = True\<rparr>, None)"
    by (simp add: handle_start_def start_begin_def q)
  moreover have "st_state st2 \<in> {''starting'', ''started'', ''failed''}" using start_of_ok [OF ok2 s2(1)] by (simp add: start_ok_def)
  ultimately show ?thesis using s2(1) by (auto simp: replay_reply_def)
qed

section \<open>A concrete run\<close>

definition demo_lib :: start_lib where
  "demo_lib = \<lparr>sl_sha256 = (\<lambda>_. replicate 64 (CHR ''a'')), sl_request_digest = (\<lambda>e t c m orch. t),
     sl_str = (\<lambda>_. ''x''), sl_repr = (\<lambda>_. ''x''), sl_bind_message = ''x''\<rparr>"

definition demo_body :: pyval where
  "demo_body = VDict [(''owner_id'', VStr ''alice''), (''idempotency_key'', VStr ''k''), (''executor'', VStr ''claude''),
     (''task'', VStr ''t''), (''cwd'', VStr ''c'')]"

definition demo_gen :: generation_handle where
  "demo_gen = \<lparr>gh_generation_id = demo_gid, gh_epoch = demo_epoch\<rparr>"

definition demo_yes :: forward_outcome where
  "demo_yes = Replied (VDict [(''status'', VStr ''started''), (''session_id'', VStr demo_sid)])"

definition demo_names :: "error_code \<Rightarrow> string" where
  "demo_names _ = ''code''"

definition demo_handled :: "db \<times> start_reply res \<times> (string \<times> start_request) option" where
  "demo_handled = handle_start demo_lib demo_names demo_body demo_sid (at_time 1) (Inr demo_gen) demo_yes demo_ready"

lemma demo_forwarded: "map_option fst (snd (snd demo_handled)) = Some demo_sid"
  by code_simp

lemma demo_handled_eq:
  obtains q where "handle_start demo_lib demo_names demo_body demo_sid (at_time 1) (Inr demo_gen) demo_yes demo_ready =
    (fst demo_handled, fst (snd demo_handled), Some (demo_sid, q))"
proof -
  obtain q where "snd (snd demo_handled) = Some (demo_sid, q)" using demo_forwarded by auto
  then have "demo_handled = (fst demo_handled, fst (snd demo_handled), Some (demo_sid, q))" by (metis prod.collapse)
  then show thesis using that [of q] by (simp only: demo_handled_def [symmetric])
qed

theorem start_outcome_is_recorded_witness:
  "\<exists>st. start_of (fst demo_handled) demo_sid = Some st \<and> st_state st = ''started''"
proof (rule demo_handled_eq)
  fix q
  assume h: "handle_start demo_lib demo_names demo_body demo_sid (at_time 1) (Inr demo_gen) demo_yes demo_ready =
    (fst demo_handled, fst (snd demo_handled), Some (demo_sid, q))"
  have m: "match_hex_id (CHR ''s'') demo_sid" "confirmed demo_sid (VDict [(''status'', VStr ''started''), (''session_id'', VStr demo_sid)])"
    by code_simp+
  show ?thesis
    using start_outcome_is_recorded [OF demo_reachable(1) m(1) h] m(2) by (auto simp: demo_yes_def)
qed

theorem retry_never_forwards_witness:
  "\<exists>st. start_of (fst demo_handled) demo_sid = Some st \<and>
     (st_state st = ''failed'' \<or> handle_start demo_lib demo_names demo_body demo_epoch (at_time 9) (Inr demo_gen) (ForwardResponseError ''lost'') (fst demo_handled) =
       (fst demo_handled, Inr [(''operation'', VStr ''start''), (''status'', VStr (st_state st)), (''session_id'', VStr demo_sid),
          (''generation_id'', opt_str (st_generation_id st)), (''replay'', VBool True)], None))"
proof (rule demo_handled_eq)
  fix q
  assume h: "handle_start demo_lib demo_names demo_body demo_sid (at_time 1) (Inr demo_gen) demo_yes demo_ready =
    (fst demo_handled, fst (snd demo_handled), Some (demo_sid, q))"
  have m: "match_hex_id (CHR ''s'') demo_sid" by code_simp
  have "fst demo_handled = store_run (fst demo_handled) []" by (simp add: store_run_def)
  from retry_never_forwards [OF demo_reachable(1) m h _ _ this moment_VFloat [of 9],
      of demo_epoch "Inr demo_gen" "ForwardResponseError ''lost''"]
  obtain st where "start_of (fst demo_handled) demo_sid = Some st"
    "handle_start demo_lib demo_names demo_body demo_epoch (at_time 9) (Inr demo_gen) (ForwardResponseError ''lost'') (fst demo_handled) =
       (fst demo_handled, if st_state st = ''failed'' then err GENERATION_UNAVAILABLE
            else Inr [(''operation'', VStr ''start''), (''status'', VStr (st_state st)), (''session_id'', VStr demo_sid),
                      (''generation_id'', opt_str (st_generation_id st)), (''replay'', VBool True)], None)" by auto
  then show ?thesis by (intro exI [of _ st]) (cases "st_state st = ''failed''"; simp)
qed

theorem at_most_one_forward_witness:
  "distinct (map (\<lambda>(sid, q). (sq_owner q, sq_key q)) (rt_sent (router_run demo_lib demo_names
     [Thread 0 (Arrive demo_body demo_sid (at_time 1)), Thread 1 (Arrive demo_body demo_sid (at_time 2)),
      Thread 0 (Picked (Inr demo_gen)), Thread 0 Bind, Thread 1 Bind, Thread 0 Forward, Thread 1 Forward] (router_start demo_ready))))"
  by (rule at_most_one_forward [OF demo_reachable(1)]) code_simp

end
