(* ===== verification/Nelix_Board.thy ===== *)
theory Nelix_Board
  imports Nelix_Store Nelix_Cursor Nelix_Start
begin

text \<open>
  \<^verbatim>\<open>router/board.py\<close>, with \<^verbatim>\<open>router/forwarding.py\<close> and
  \<^verbatim>\<open>router/waiters.py\<close>: the fan-out board, merged from the boards of the
  generations and the archived records of the store. How each generation answers is an
  argument, and so is whether the store could be read.
\<close>

section \<open>forwarding.py\<close>

text \<open>How a forward ended: a failure of either phase, or a status and a decoded body.\<close>

datatype raw_outcome = NotDelivered | Ambiguous | Answer int pyval

definition relay :: "raw_outcome \<Rightarrow> (int \<times> pyval) res" where
  "relay oc =
     (case oc of
        NotDelivered \<Rightarrow> err GENERATION_UNAVAILABLE
      | Ambiguous \<Rightarrow> err GENERATION_UNAVAILABLE
      | Answer status body \<Rightarrow> Inr (status, body))"

section \<open>waiters.py\<close>

type_synonym waiters = "(string, nat) dict"

definition waiter_count :: "waiters \<Rightarrow> string \<Rightarrow> nat" where
  "waiter_count ws orch = (case map_of ws orch of None \<Rightarrow> 0 | Some n \<Rightarrow> n)"

text \<open>Entering and leaving the block of \<open>attached\<close>.\<close>

definition attach :: "string \<Rightarrow> waiters \<Rightarrow> waiters" where
  "attach orch ws = AList.update orch (Suc (waiter_count ws orch)) ws"

definition detach :: "string \<Rightarrow> waiters \<Rightarrow> waiters" where
  "detach orch ws =
     (let remaining = int (case map_of ws orch of None \<Rightarrow> 1 | Some n \<Rightarrow> n) - 1
      in if 0 < remaining then AList.update orch (nat remaining) ws else AList.delete orch ws)"

section \<open>board.py: one generation\<close>

definition is_dict :: "pyval \<Rightarrow> bool" where
  "is_dict v = (case v of VDict _ \<Rightarrow> True | _ \<Rightarrow> False)"

definition the_dict :: "pyval \<Rightarrow> (string, pyval) dict" where
  "the_dict v = (case v of VDict d \<Rightarrow> d | _ \<Rightarrow> [])"

definition is_healthy_board :: "(string, pyval) dict \<Rightarrow> bool" where
  "is_healthy_board body \<longleftrightarrow>
     nonneg_int (dict_get body ''cursor'') \<and> is_dict (dict_get body ''sessions'') \<and> is_dict (dict_get body ''recent_terminal'')"

definition forward_one :: "raw_outcome \<Rightarrow> (string, pyval) dict option res" where
  "forward_one oc =
     (case relay oc of
        Inl (NelixError code) \<Rightarrow> if code \<noteq> GENERATION_UNAVAILABLE then err code else Inr None
      | Inl e \<Rightarrow> Inl e
      | Inr (status, body) \<Rightarrow>
          if status \<noteq> 200 \<or> \<not> is_dict body \<or> \<not> is_healthy_board (the_dict body) then Inr None
          else Inr (Some (the_dict body)))"

section \<open>board.py: merging\<close>

text \<open>\<open>d.update(other)\<close>.\<close>

definition dict_merge :: "(string, pyval) dict \<Rightarrow> (string, pyval) dict \<Rightarrow> (string, pyval) dict" where
  "dict_merge d other = fold (\<lambda>(k, v). AList.update k v) other d"

record board =
  bo_sessions :: "(string, pyval) dict"
  bo_recent_terminal :: "(string, pyval) dict"

definition merge_boards :: "(string \<times> (string, pyval) dict) list \<Rightarrow> board" where
  "merge_boards per_generation =
     fold (\<lambda>(_, b) m. \<lparr>bo_sessions = dict_merge (bo_sessions m) (the_dict (dict_get b ''sessions'')),
                        bo_recent_terminal = dict_merge (bo_recent_terminal m) (the_dict (dict_get b ''recent_terminal''))\<rparr>)
       per_generation \<lparr>bo_sessions = [], bo_recent_terminal = []\<rparr>"

definition archive_entry :: "terminal_record \<Rightarrow> pyval" where
  "archive_entry tr = VDict
     [(''session_id'', VStr (tr_session_id tr)), (''terminal_kind'', VStr (tr_terminal_kind tr)),
      (''screen_excerpt'', VStr (tr_summary tr)), (''control_state'', VStr ''terminal''),
      (''pending'', VBool False), (''terminal'', VBool True)]"

definition merge_archive_into :: "board \<Rightarrow> terminal_record list \<Rightarrow> board" where
  "merge_archive_into live records =
     fold (\<lambda>tr m. let sid = tr_session_id tr in
         \<lparr>bo_sessions = AList.delete sid (bo_sessions m),
          bo_recent_terminal = AList.update sid (archive_entry tr) (AList.delete sid (bo_recent_terminal m))\<rparr>)
       records live"

section \<open>board.py: the board\<close>

text \<open>Reading the store: a raw SQLite or OS error, or what the store's method gave.\<close>

datatype 'a store_read = ReadError | ReadResult "'a res"

text \<open>The reads the router tolerates: \<open>None\<close> is a store that is not available now.\<close>

definition tolerant_read :: "'a store_read \<Rightarrow> 'a option res" where
  "tolerant_read r =
     (case r of
        ReadError \<Rightarrow> Inr None
      | ReadResult (Inl (NelixError code)) \<Rightarrow> if code = STORE_UNAVAILABLE then Inr None else err code
      | ReadResult (Inl e) \<Rightarrow> Inl e
      | ReadResult (Inr x) \<Rightarrow> Inr (Some x))"

record board_reply =
  br_board :: board
  br_cursor :: string
  br_incomplete :: "string list"
  br_archive_incomplete :: bool
  br_orchestrations :: "(string \<times> nat \<times> nat) list option"

text \<open>The loop over the generations: the cursor, the healthy boards, the unavailable ones.\<close>

fun collect_boards ::
  "(generation_handle \<Rightarrow> raw_outcome) \<Rightarrow> generation_handle list \<Rightarrow> cursor \<Rightarrow> (cursor \<times> (string \<times> (string, pyval) dict) list \<times> string list) res" where
  "collect_boards forward [] c = Inr (c, [], [])"
| "collect_boards forward (gen # gens) c =
     rbind (forward_one (forward gen)) (\<lambda>reply.
       case reply of
         None \<Rightarrow> rbind (collect_boards forward gens c) (\<lambda>(c', hs, us). Inr (c', hs, gh_generation_id gen # us))
       | Some b \<Rightarrow>
           rbind (advance c (VStr (gh_generation_id gen)) (gh_epoch gen) (dict_get b ''cursor'')) (\<lambda>c1.
           rbind (collect_boards forward gens c1) (\<lambda>(c', hs, us). Inr (c', (gh_generation_id gen, b) # hs, us))))"

text \<open>The archive arm: the store, if there is one, with the router's archive epoch.\<close>

definition read_archive ::
  "(int \<times> (int \<times> terminal_record list) store_read) option \<Rightarrow> board \<times> cursor \<Rightarrow> (board \<times> cursor \<times> bool) res" where
  "read_archive archive bc =
     (case archive of
        None \<Rightarrow> Inr (fst bc, snd bc, False)
      | Some (archive_epoch, r) \<Rightarrow>
          rbind (tolerant_read r) (\<lambda>snapshot.
            case snapshot of
              None \<Rightarrow> Inr (fst bc, snd bc, True)
            | Some (archive_seq, records) \<Rightarrow>
                rbind (advance_archive (snd bc) (VInt archive_epoch) (VInt archive_seq)) (\<lambda>c.
                  Inr (merge_archive_into (fst bc) records, c, False))))"

fun orchestration_counts :: "string \<Rightarrow> db \<Rightarrow> waiters \<Rightarrow> string list \<Rightarrow> (string \<times> nat \<times> nat) list res" where
  "orchestration_counts owner d ws [] = Inr []"
| "orchestration_counts owner d ws (orch # rest) =
     rbind (sessions_for_orchestration (VStr owner) (VStr orch) d) (\<lambda>ss.
     rbind (orchestration_counts owner d ws rest) (\<lambda>xs. Inr ((orch, length ss, waiter_count ws orch) # xs)))"

definition board_orchestrations :: "string \<Rightarrow> (db \<times> waiters) option \<Rightarrow> (string \<times> nat \<times> nat) list option res" where
  "board_orchestrations owner lw =
     (case lw of
        None \<Rightarrow> Inr None
      | Some (d, ws) \<Rightarrow>
          rbind (orchestrations_for_owner (VStr owner) d) (\<lambda>orchs.
          rbind (orchestration_counts owner d ws orchs) (\<lambda>xs. Inr (Some xs))))"

definition board_status ::
  "(pyval \<Rightarrow> string) \<Rightarrow> string \<Rightarrow> int \<Rightarrow> (generation_handle \<Rightarrow> raw_outcome) \<Rightarrow> generation_handle list \<Rightarrow>
     (int \<times> (int \<times> terminal_record list) store_read) option \<Rightarrow> (db \<times> waiters) option \<Rightarrow> pyval \<Rightarrow> board_reply res" where
  "board_status dumps router_epoch topology forward gens archive lw owner_id =
     rbind (invalid_id_as_request (validate_owner_id owner_id)) (\<lambda>owner.
     rbind (new_cursor router_epoch topology) (\<lambda>c0.
     rbind (collect_boards forward gens c0) (\<lambda>(c, healthy, unavailable).
     rbind (read_archive archive (merge_boards healthy, c)) (\<lambda>(merged, c', archive_incomplete).
     rbind (board_orchestrations owner lw) (\<lambda>orchs.
       Inr \<lparr>br_board = merged, br_cursor = encode dumps c', br_incomplete = unavailable,
            br_archive_incomplete = archive_incomplete, br_orchestrations = orchs\<rparr>)))))"

end
