(* ===== verification/Nelix_Wait.thy ===== *)
theory Nelix_Wait
  imports Nelix_Board
begin

text \<open>
  \<^verbatim>\<open>router/wait.py\<close>: the long-poll of one orchestration. What the environment
  answers is an argument: the store's board counter, the clock and the generation's reply,
  each as a function of the poll they belong to.
\<close>

section \<open>Replies\<close>

text \<open>
  The 200 bodies: the markers, a timeout with the unchanged cursor, an event of the
  generation or of the archive with the advanced cursor.
\<close>

datatype wait_reply =
    EmptyOrchestration
  | CursorExpired
  | BoardChanged
  | Unownable
  | NoEvent string
  | GenerationEvent pyval string
  | ArchiveEvent string

definition healthy_int_cursor :: "pyval \<Rightarrow> bool" where
  "healthy_int_cursor v \<longleftrightarrow> nonneg_int v"

section \<open>The generation\<close>

definition current_seq :: "raw_outcome \<Rightarrow> pyval res" where
  "current_seq oc =
     rbind (relay oc) (\<lambda>(status, body).
       if status = 200 \<and> is_dict body \<and> healthy_int_cursor (dict_get (the_dict body) ''cursor'')
       then Inr (dict_get (the_dict body) ''cursor'')
       else err GENERATION_UNAVAILABLE)"

definition wait_on_generation ::
  "(pyval \<Rightarrow> string) \<Rightarrow> generation_handle \<Rightarrow> cursor \<Rightarrow> raw_outcome \<Rightarrow> wait_reply res" where
  "wait_on_generation dumps gen c oc =
     rbind (relay oc) (\<lambda>(status, body).
       if status = 404 then Inr Unownable
       else if status \<noteq> 200 \<or> \<not> is_dict body then err GENERATION_UNAVAILABLE
       else if truthy (dict_get (the_dict body) ''cursor_expired'') then Inr CursorExpired
       else
         let evt = dict_get (the_dict body) ''event'' in
         if evt = VNone then Inr (NoEvent (encode dumps c))
         else
           let sq = (if is_dict evt then dict_get (the_dict evt) ''seq'' else VNone) in
           if \<not> healthy_int_cursor sq then err GENERATION_UNAVAILABLE
           else rbind (advance c (VStr (gh_generation_id gen)) (gh_epoch gen) sq) (\<lambda>c'.
                  Inr (GenerationEvent evt (encode dumps c'))))"

section \<open>The multiplexed loop\<close>

text \<open>
  From poll \<open>i\<close> on: \<open>seq_read i\<close> is the read of the owner's board counter, \<open>clock i\<close> the
  time after it, \<open>forward i t\<close> how the generation's wait with timeout \<open>t\<close> ended. Not
  returning is \<open>None\<close>.
\<close>

partial_function (option) wait_multiplex ::
  "(pyval \<Rightarrow> string) \<Rightarrow> generation_handle \<Rightarrow> cursor \<Rightarrow> int \<Rightarrow> int \<Rightarrow> rat \<Rightarrow> rat \<Rightarrow> rat \<Rightarrow>
     (nat \<Rightarrow> int store_read) \<Rightarrow> (nat \<Rightarrow> rat) \<Rightarrow> (nat \<Rightarrow> rat \<Rightarrow> raw_outcome) \<Rightarrow> nat \<Rightarrow> wait_reply res option" where
  "wait_multiplex dumps gen c archive_epoch archive_seq start window poll seq_read clock forward i =
     (case tolerant_read (seq_read i) of
        Inl e \<Rightarrow> Some (Inl e)
      | Inr cur \<Rightarrow>
          (if (case cur of None \<Rightarrow> False | Some n \<Rightarrow> archive_seq < n)
           then Some (rbind (advance_archive c (VInt archive_epoch) (VInt (the cur))) (\<lambda>c'. Inr (ArchiveEvent (encode dumps c'))))
           else
             (let remaining = window - (clock i - start) in
              if remaining \<le> 0 then Some (Inr (NoEvent (encode dumps c)))
              else
                (case wait_on_generation dumps gen c (forward i (if poll < remaining then poll else remaining)) of
                   Inl (NelixError GENERATION_UNAVAILABLE) \<Rightarrow>
                     wait_multiplex dumps gen c archive_epoch archive_seq start window poll seq_read clock forward (Suc i)
                 | Inr (NoEvent _) \<Rightarrow>
                     wait_multiplex dumps gen c archive_epoch archive_seq start window poll seq_read clock forward (Suc i)
                 | r \<Rightarrow> Some r))))"

section \<open>One wait\<close>

text \<open>The router's side of a wait: its epochs, whether it has a store, and the class's two durations.\<close>

record wait_router =
  wr_router_epoch :: string
  wr_topology :: int
  wr_archive_epoch :: "int option"
  wr_window :: rat
  wr_poll :: rat

text \<open>What the environment answers during it.\<close>

record wait_world =
  ww_active :: "generation_handle res"
  ww_status :: raw_outcome
  ww_first_seq :: "int store_read"
  ww_start :: rat
  ww_seq :: "nat \<Rightarrow> int store_read"
  ww_clock :: "nat \<Rightarrow> rat"
  ww_forward :: "nat \<Rightarrow> rat \<Rightarrow> raw_outcome"
  ww_single :: raw_outcome

text \<open>The cursor a wait starts from; a resynchronisation is a reply.\<close>

definition wait_cursor ::
  "(pyval \<Rightarrow> string) \<Rightarrow> (string \<Rightarrow> pyval option) \<Rightarrow> wait_router \<Rightarrow> string option \<Rightarrow> (wait_reply + cursor) res" where
  "wait_cursor py_str loads r token =
     (case token of
        Some t \<Rightarrow>
          if t \<noteq> [] then
            (case decode py_str loads (VStr t) (wr_router_epoch r) (wr_topology r) of
               Inr c \<Rightarrow> Inr (Inr c)
             | Inl (NelixError CURSOR_EXPIRED) \<Rightarrow> Inr (Inl CursorExpired)
             | Inl (NelixError BOARD_CHANGED) \<Rightarrow> Inr (Inl BoardChanged)
             | Inl e \<Rightarrow> Inl e)
          else rbind (new_cursor (wr_router_epoch r) (wr_topology r)) (\<lambda>c. Inr (Inr c))
      | None \<Rightarrow> rbind (new_cursor (wr_router_epoch r) (wr_topology r)) (\<lambda>c. Inr (Inr c)))"

text \<open>The generation's component: the position to wait after, establishing one when there is none.\<close>

definition wait_component :: "generation_handle \<Rightarrow> raw_outcome \<Rightarrow> cursor \<Rightarrow> (wait_reply + cursor) res" where
  "wait_component gen status c =
     (case position_for c (gh_generation_id gen) of
        None \<Rightarrow>
          rbind (current_seq status) (\<lambda>sq.
          rbind (advance c (VStr (gh_generation_id gen)) (gh_epoch gen) sq) (\<lambda>c'. Inr (Inr c')))
      | Some (epoch, _) \<Rightarrow> Inr (if epoch \<noteq> gh_epoch gen then Inl CursorExpired else Inr c))"

text \<open>The archive component, with the position to watch from.\<close>

definition wait_archive :: "wait_router \<Rightarrow> int store_read \<Rightarrow> cursor \<Rightarrow> (wait_reply + cursor \<times> int option) res" where
  "wait_archive r first c =
     (case wr_archive_epoch r of
        None \<Rightarrow> Inr (Inr (c, None))
      | Some ae \<Rightarrow>
          (case cu_archive c of
             Some (epoch, sq) \<Rightarrow> Inr (if epoch \<noteq> ae then Inl CursorExpired else Inr (c, Some sq))
           | None \<Rightarrow>
               rbind (tolerant_read first) (\<lambda>seen.
                 case seen of
                   None \<Rightarrow> Inr (Inr (c, None))
                 | Some sq \<Rightarrow> rbind (advance_archive c (VInt ae) (VInt sq)) (\<lambda>c'. Inr (Inr (c', Some sq))))))"

definition wait_inner ::
  "(pyval \<Rightarrow> string) \<Rightarrow> (pyval \<Rightarrow> string) \<Rightarrow> (string \<Rightarrow> pyval option) \<Rightarrow> wait_router \<Rightarrow> wait_world \<Rightarrow> db \<Rightarrow>
     string \<Rightarrow> string \<Rightarrow> string option \<Rightarrow> wait_reply res option" where
  "wait_inner dumps py_str loads r w d owner orch token =
     (case sessions_for_orchestration (VStr owner) (VStr orch) d of
        Inl e \<Rightarrow> Some (Inl e)
      | Inr sessions \<Rightarrow>
          if sessions = [] then Some (Inr EmptyOrchestration)
          else
            (case wait_cursor py_str loads r token of
               Inl e \<Rightarrow> Some (Inl e)
             | Inr (Inl reply) \<Rightarrow> Some (Inr reply)
             | Inr (Inr c0) \<Rightarrow>
                 (case ww_active w of
                    Inl e \<Rightarrow> Some (Inl e)
                  | Inr gen \<Rightarrow>
                      (case wait_component gen (ww_status w) c0 of
                         Inl e \<Rightarrow> Some (Inl e)
                       | Inr (Inl reply) \<Rightarrow> Some (Inr reply)
                       | Inr (Inr c1) \<Rightarrow>
                           (case wait_archive r (ww_first_seq w) c1 of
                              Inl e \<Rightarrow> Some (Inl e)
                            | Inr (Inl reply) \<Rightarrow> Some (Inr reply)
                            | Inr (Inr (c2, None)) \<Rightarrow> Some (wait_on_generation dumps gen c2 (ww_single w))
                            | Inr (Inr (c2, Some sq)) \<Rightarrow>
                                wait_multiplex dumps gen c2 (the (wr_archive_epoch r)) sq (ww_start w)
                                  (wr_window r) (wr_poll r) (ww_seq w) (ww_clock w) (ww_forward w) 0)))))"

text \<open>
  \<open>wait\<close>: the ids are checked before the waiter is counted; \<open>attached\<close> is balanced on every path,
  so the waiters afterwards are those before it.
\<close>

definition wait_orchestration ::
  "(pyval \<Rightarrow> string) \<Rightarrow> (pyval \<Rightarrow> string) \<Rightarrow> (string \<Rightarrow> pyval option) \<Rightarrow> wait_router \<Rightarrow> wait_world \<Rightarrow> db \<Rightarrow>
     waiters \<Rightarrow> pyval \<Rightarrow> pyval \<Rightarrow> string option \<Rightarrow> (waiters \<times> wait_reply res) option" where
  "wait_orchestration dumps py_str loads r w d ws owner_id orchestration_id token =
     (case rbind (invalid_id_as_request (validate_owner_id owner_id)) (\<lambda>owner.
           rbind (invalid_id_as_request (validate_orchestration_id orchestration_id)) (\<lambda>orch. Inr (owner, orch))) of
        Inl e \<Rightarrow> Some (ws, Inl e)
      | Inr (owner, orch) \<Rightarrow>
          map_option (Pair (detach orch (attach orch ws))) (wait_inner dumps py_str loads r w d owner orch token))"

end
