(* ===== verification/Nelix_Board_Merge.thy ===== *)
theory Nelix_Board_Merge
  imports Nelix_Board Nelix_Board_Props
begin

text \<open>
  The merged board: no generation is silently missing, archived records are authoritative.
\<close>

section \<open>Merging dictionaries\<close>

lemma dict_merge_None: "map_of (dict_merge d other) k = None \<longleftrightarrow> map_of d k = None \<and> map_of other k = None"
proof (induction other arbitrary: d)
  case (Cons p other)
  obtain a v where p: "p = (a, v)" by (cases p)
  have "dict_merge d (p # other) = dict_merge (AList.update a v d) other" by (simp add: dict_merge_def p)
  then show ?case using Cons [of "AList.update a v d"] by (cases "k = a") (simp_all add: p)
qed (simp add: dict_merge_def)

lemma merge_boards_None:
  "map_of (bo_sessions (merge_boards bs)) sid = None \<longleftrightarrow>
     (\<forall>(g, b) \<in> set bs. map_of (the_dict (dict_get b ''sessions'')) sid = None)"
proof -
  have "map_of (bo_sessions (fold (\<lambda>(_, b) m. \<lparr>bo_sessions = dict_merge (bo_sessions m) (the_dict (dict_get b ''sessions'')),
            bo_recent_terminal = dict_merge (bo_recent_terminal m) (the_dict (dict_get b ''recent_terminal''))\<rparr>) bs m)) sid = None \<longleftrightarrow>
     map_of (bo_sessions m) sid = None \<and> (\<forall>(g, b) \<in> set bs. map_of (the_dict (dict_get b ''sessions'')) sid = None)" for m
    by (induction bs arbitrary: m) (auto simp: dict_merge_None)
  then show ?thesis by (simp add: merge_boards_def)
qed

lemma merge_archive_sessions:
  "map_of (bo_sessions (merge_archive_into m rs)) sid =
     (if sid \<in> tr_session_id ` set rs then None else map_of (bo_sessions m) sid)"
  unfolding merge_archive_into_def by (induction rs arbitrary: m) (auto simp: Let_def)

lemma merge_archive_other:
  "sid \<notin> tr_session_id ` set rs \<Longrightarrow>
     map_of (bo_recent_terminal (merge_archive_into m rs)) sid = map_of (bo_recent_terminal m) sid"
  unfolding merge_archive_into_def by (induction rs arbitrary: m) (auto simp: Let_def)

lemma merge_archive_entry:
  assumes "distinct (map tr_session_id rs)" "tr \<in> set rs"
  shows "map_of (bo_recent_terminal (merge_archive_into m rs)) (tr_session_id tr) = Some (archive_entry tr)"
  using assms
proof (induction rs arbitrary: m)
  case (Cons r rs)
  let ?m = "\<lparr>bo_sessions = AList.delete (tr_session_id r) (bo_sessions m),
    bo_recent_terminal = AList.update (tr_session_id r) (archive_entry r) (AList.delete (tr_session_id r) (bo_recent_terminal m))\<rparr>"
  have e: "merge_archive_into m (r # rs) = merge_archive_into ?m rs" by (simp add: merge_archive_into_def Let_def)
  show ?case
  proof (cases "tr = r")
    case True
    then have "tr_session_id tr \<notin> tr_session_id ` set rs" using Cons.prems(1) by simp
    from merge_archive_other [OF this, of ?m] show ?thesis unfolding e by (simp add: True)
  next
    case False
    then show ?thesis unfolding e using Cons by simp
  qed
qed simp

section \<open>The loop over the generations\<close>

lemma forward_one_total: "\<exists>b. forward_one oc = Inr b"
  by (cases oc) (simp_all add: forward_one_def relay_def)

text \<open>The board a generation contributes, if it is healthy.\<close>

definition board_of :: "(generation_handle \<Rightarrow> raw_outcome) \<Rightarrow> generation_handle \<Rightarrow> (string, pyval) dict option" where
  "board_of forward gen = (case forward_one (forward gen) of Inr b \<Rightarrow> b | _ \<Rightarrow> None)"

lemma forward_one_board: "forward_one (forward gen) = Inr (board_of forward gen)"
  using forward_one_total [of "forward gen"] by (auto simp: board_of_def)

lemma board_of_healthy: "board_of forward gen = Some b \<Longrightarrow> is_healthy_board b"
  by (cases "forward gen") (auto simp: board_of_def forward_one_def relay_def split: if_splits)

lemma collect_boards_eq:
  assumes "cursor_ok c" "list_all (\<lambda>gen. match_hex_id (CHR ''g'') (gh_generation_id gen)) gens"
    "distinct (map gh_generation_id gens)" "\<And>gen. gen \<in> set gens \<Longrightarrow> position_for c (gh_generation_id gen) = None"
  shows "\<exists>c'. cursor_ok c' \<and> collect_boards forward gens c =
     Inr (c', List.map_filter (\<lambda>gen. map_option (Pair (gh_generation_id gen)) (board_of forward gen)) gens,
          map gh_generation_id (filter (\<lambda>gen. board_of forward gen = None) gens)) \<and>
     (\<forall>gen \<in> set gens. position_for c' (gh_generation_id gen) =
        map_option (\<lambda>b. (gh_epoch gen, the_int (dict_get b ''cursor''))) (board_of forward gen)) \<and>
     (\<forall>g. g \<notin> gh_generation_id ` set gens \<longrightarrow> position_for c' g = position_for c g)"
  using assms
proof (induction gens arbitrary: c)
  case (Cons gen gens)
  let ?g = "gh_generation_id gen"
  have hex: "match_hex_id (CHR ''g'') ?g" using Cons.prems(2) by simp
  have fresh: "?g \<notin> gh_generation_id ` set gens" using Cons.prems(3) by simp
  show ?case
  proof (cases "board_of forward gen")
    case None
    obtain c' where "cursor_ok c'" "collect_boards forward gens c =
     Inr (c', List.map_filter (\<lambda>gen. map_option (Pair (gh_generation_id gen)) (board_of forward gen)) gens,
          map gh_generation_id (filter (\<lambda>gen. board_of forward gen = None) gens))"
     "\<forall>gen \<in> set gens. position_for c' (gh_generation_id gen) =
        map_option (\<lambda>b. (gh_epoch gen, the_int (dict_get b ''cursor''))) (board_of forward gen)"
     "\<forall>g. g \<notin> gh_generation_id ` set gens \<longrightarrow> position_for c' g = position_for c g"
      using Cons.IH [of c] Cons.prems by auto
    then show ?thesis using None Cons.prems(4) [of gen] fresh
      by (intro exI [of _ c']) (simp add: forward_one_board List.map_filter_simps)
  next
    case (Some b)
    have n: "nonneg_int (dict_get b ''cursor'')" using board_of_healthy [OF Some] by (simp add: is_healthy_board_def)
    then obtain n where n: "dict_get b ''cursor'' = VInt n" "0 \<le> n" by (auto simp: nonneg_int_iff)
    let ?c1 = "c\<lparr>cu_positions := AList.update ?g (gh_epoch gen, n) (cu_positions c)\<rparr>"
    have a: "advance c (VStr ?g) (gh_epoch gen) (dict_get b ''cursor'') = Inr ?c1"
      using Cons.prems(4) [of gen] hex n by (simp add: advance_eq_Inr)
    have ok1: "cursor_ok ?c1" by (rule advance_ok [OF Cons.prems(1) a])
    have p1: "position_for ?c1 g = (if g = ?g then Some (gh_epoch gen, n) else position_for c g)" for g
      by (simp add: position_for_def)
    have q: "list_all (\<lambda>gen. match_hex_id (CHR ''g'') (gh_generation_id gen)) gens" "distinct (map gh_generation_id gens)"
      using Cons.prems(2,3) by simp_all
    have n1: "position_for ?c1 (gh_generation_id gen') = None" if "gen' \<in> set gens" for gen'
    proof -
      have "gh_generation_id gen' \<noteq> ?g" using that fresh by (metis imageI)
      then show ?thesis using that Cons.prems(4) [of gen'] by (simp add: p1)
    qed
    obtain c' where "cursor_ok c'" "collect_boards forward gens ?c1 =
     Inr (c', List.map_filter (\<lambda>gen. map_option (Pair (gh_generation_id gen)) (board_of forward gen)) gens,
          map gh_generation_id (filter (\<lambda>gen. board_of forward gen = None) gens))"
     "\<forall>gen \<in> set gens. position_for c' (gh_generation_id gen) =
        map_option (\<lambda>b. (gh_epoch gen, the_int (dict_get b ''cursor''))) (board_of forward gen)"
     "\<forall>g. g \<notin> gh_generation_id ` set gens \<longrightarrow> position_for c' g = position_for ?c1 g"
      using Cons.IH [OF ok1 q n1] by blast
    then show ?thesis using Some a n fresh p1
      by (intro exI [of _ c']) (simp add: forward_one_board List.map_filter_simps)
  qed
qed (simp add: List.map_filter_simps)

section \<open>The archive\<close>

lemma joined_keys: "map fst (joined d t) = filter (\<lambda>sid. start_of d sid \<noteq> None) (map fst t)"
  by (induction t) (auto simp: joined_def List.map_filter_simps List.map_filter_def)

lemma read_rows_all:
  "(\<And>x. x \<in> set xs \<Longrightarrow> f x = Inr (g x)) \<Longrightarrow> read_rows (map f xs) = Inr (map g xs)"
  by (induction xs) simp_all

definition snapshot_rows :: "string \<Rightarrow> db \<Rightarrow> (string \<times> start_row \<times> terminal_row) list" where
  "snapshot_rows owner d = sort_key (\<lambda>(sid, st, te). (te_ended_at te, sid)) (board_rows owner d)"

lemma snapshot_eq:
  assumes ok: "db_ok d" and o: "owner \<noteq> []"
  shows "read_board_snapshot (VStr owner) d =
     Inr (board_seq d owner, map (\<lambda>(sid, st, te). terminal_of sid st te) (snapshot_rows owner d))"
proof -
  have dt: "dict_ok (db_terminal d)" using db_okD(3) [OF ok] by (simp add: terminal_ok_def)
  have "list_terminal owner d = Inr (map (\<lambda>(sid, st, te). terminal_of sid st te) (snapshot_rows owner d))"
    unfolding list_terminal_def snapshot_rows_def
    by (rule read_rows_all) (auto simp: board_rows_def joined_mem [OF dt] terminal_decodes [OF ok])
  then show ?thesis using o by (simp add: read_board_snapshot_def nonempty_text_def get_owner_board_seq_eq)
qed

lemma snapshot_rows_mem:
  assumes ok: "db_ok d"
  shows "(sid, st, te) \<in> set (snapshot_rows owner d) \<longleftrightarrow> start_of d sid = Some st \<and> (sid, te) \<in> owner_board owner d"
proof -
  have dt: "dict_ok (db_terminal d)" and v: "\<And>te. map_of (db_terminal d) sid = Some te \<Longrightarrow> te_schema_version te = SCHEMA_VERSION"
    using db_okD(3) [OF ok] by (simp_all add: terminal_ok_def receipt_ok_def)
  show ?thesis using v
    by (auto simp: snapshot_rows_def board_rows_def joined_mem [OF dt] owner_board_def owner_of_session_def)
qed

lemma snapshot_fst:
  assumes ok: "db_ok d"
  shows "fst ` set (snapshot_rows owner d) = fst ` owner_board owner d"
proof (intro set_eqI iffI)
  fix sid assume "sid \<in> fst ` set (snapshot_rows owner d)"
  then obtain st te where "(sid, st, te) \<in> set (snapshot_rows owner d)" by force
  then have "(sid, te) \<in> owner_board owner d" using snapshot_rows_mem [OF ok] by blast
  then show "sid \<in> fst ` owner_board owner d" by (rule image_eqI [rotated]) simp
next
  fix sid assume "sid \<in> fst ` owner_board owner d"
  then obtain te where te: "(sid, te) \<in> owner_board owner d" by force
  then obtain st where "start_of d sid = Some st" by (auto simp: owner_board_def owner_of_session_def)
  then have "(sid, st, te) \<in> set (snapshot_rows owner d)" using te snapshot_rows_mem [OF ok] by blast
  then show "sid \<in> fst ` set (snapshot_rows owner d)" by (rule image_eqI [rotated]) simp
qed

lemma snapshot_distinct:
  assumes ok: "db_ok d"
  shows "distinct (map tr_session_id (map (\<lambda>(sid, st, te). terminal_of sid st te) (snapshot_rows owner d)))"
proof -
  have "dict_ok (db_terminal d)" using db_okD(3) [OF ok] by (simp add: terminal_ok_def)
  then have "distinct (map fst (joined d (db_terminal d)))" by (simp add: joined_keys)
  then have "distinct (map fst (board_rows owner d))" by (auto simp: board_rows_def intro: distinct_map_filter)
  then have "distinct (map fst (snapshot_rows owner d))" by (simp add: snapshot_rows_def distinct_map)
  moreover have "map tr_session_id (map (\<lambda>(sid, st, te). terminal_of sid st te) rows) = map fst rows" for rows
    by (induction rows) (auto simp: terminal_of_def)
  ultimately show ?thesis by (simp only:)
qed

section \<open>The board\<close>

text \<open>What a healthy generation lists as live.\<close>

definition lists_live :: "(generation_handle \<Rightarrow> raw_outcome) \<Rightarrow> string \<Rightarrow> generation_handle \<Rightarrow> bool" where
  "lists_live forward sid gen =
     (case board_of forward gen of None \<Rightarrow> False | Some b \<Rightarrow> map_of (the_dict (dict_get b ''sessions'')) sid \<noteq> None)"

lemma merged_live:
  "map_of (bo_sessions (merge_boards (List.map_filter (\<lambda>gen. map_option (Pair (gh_generation_id gen)) (board_of forward gen)) gens))) sid \<noteq> None
     \<longleftrightarrow> list_ex (lists_live forward sid) gens"
  unfolding merge_boards_None by (induction gens) (auto simp: List.map_filter_simps lists_live_def split: option.split)

text \<open>
  C32: The fan-out board never fails because a generation does, never omits one silently, and the
  archive is authoritative. However the generations answer, an owner gets a board; the
  generations that did not give a healthy board are exactly those named in \<open>board_incomplete\<close>; a
  session is live on it exactly when some healthy generation lists it and it is not on the owner's
  archived board; and every record of the owner's archived board is on it as terminal with the
  stored outcome, over whatever the generations say.
\<close>
theorem board_is_complete:
  assumes "store_reachable d" "match_owner owner" "router_epoch \<noteq> []" "0 \<le> topology"
    "list_all (\<lambda>gen. match_hex_id (CHR ''g'') (gh_generation_id gen)) gens" "distinct (map gh_generation_id gens)"
    "board_orchestrations owner lw = Inr orchs"
  shows "\<exists>r. board_status dumps router_epoch topology forward gens (Some (ep, ReadResult (read_board_snapshot (VStr owner) d))) lw (VStr owner) = Inr r \<and>
     br_incomplete r = map gh_generation_id (filter (\<lambda>gen. board_of forward gen = None) gens) \<and>
     (\<forall>sid. map_of (bo_sessions (br_board r)) sid \<noteq> None \<longleftrightarrow>
        list_ex (lists_live forward sid) gens \<and> sid \<notin> fst ` owner_board owner d) \<and>
     (\<forall>(sid, te) \<in> owner_board owner d. \<forall>st. start_of d sid = Some st \<longrightarrow>
        map_of (bo_recent_terminal (br_board r)) sid = Some (archive_entry (terminal_of sid st te)))"
proof -
  have ok: "db_ok d" by (rule store_reachable_ok [OF assms(1)])
  have o: "owner \<noteq> []" using assms(2) by (auto simp: match_owner_def)
  obtain c0 where c0: "new_cursor router_epoch topology = Inr c0" "cursor_ok c0" "cu_positions c0 = []"
    using assms(3,4) by (simp add: new_cursor_def Cursor_def cursor_ok_def)
  obtain c' where c': "collect_boards forward gens c0 =
     Inr (c', List.map_filter (\<lambda>gen. map_option (Pair (gh_generation_id gen)) (board_of forward gen)) gens,
          map gh_generation_id (filter (\<lambda>gen. board_of forward gen = None) gens))"
    using collect_boards_eq [OF c0(2) assms(5,6), of forward] c0(3) by (auto simp: position_for_def)
  let ?hs = "List.map_filter (\<lambda>gen. map_option (Pair (gh_generation_id gen)) (board_of forward gen)) gens"
  let ?rs = "map (\<lambda>(sid, st, te). terminal_of sid st te) (snapshot_rows owner d)"
  let ?b = "merge_archive_into (merge_boards ?hs) ?rs"
  obtain c2 where c2: "read_archive (Some (ep, ReadResult (read_board_snapshot (VStr owner) d))) (merge_boards ?hs, c') = Inr (?b, c2, False)"
  proof -
    have "0 \<le> board_seq d owner" using db_okD(8) [OF ok] by (force simp: board_seq_def split: option.split)
    then show thesis using that
      by (simp add: read_archive_def tolerant_read_def snapshot_eq [OF ok o] advance_archive_def)
  qed
  have r: "board_status dumps router_epoch topology forward gens (Some (ep, ReadResult (read_board_snapshot (VStr owner) d))) lw (VStr owner) =
    Inr \<lparr>br_board = ?b, br_cursor = encode dumps c2,
         br_incomplete = map gh_generation_id (filter (\<lambda>gen. board_of forward gen = None) gens),
         br_archive_incomplete = False, br_orchestrations = orchs\<rparr>"
    using assms(2,7) c0(1) c' c2 by (simp add: board_status_def validate_id_defs del: rbind_eq_Inr)
  have ids: "tr_session_id ` set ?rs = fst ` owner_board owner d"
  proof -
    have "tr_session_id ` set ?rs = fst ` set (snapshot_rows owner d)" by (force simp: terminal_of_def)
    then show ?thesis by (simp only: snapshot_fst [OF ok])
  qed
  have live: "map_of (bo_sessions ?b) sid \<noteq> None \<longleftrightarrow> list_ex (lists_live forward sid) gens \<and> sid \<notin> fst ` owner_board owner d" for sid
    using merged_live [of forward gens sid] unfolding merge_archive_sessions ids by simp
  have dead: "map_of (bo_recent_terminal ?b) sid = Some (archive_entry (terminal_of sid st te))"
    if "(sid, te) \<in> owner_board owner d" "start_of d sid = Some st" for sid st te
  proof -
    have "terminal_of sid st te \<in> set ?rs" using snapshot_rows_mem [OF ok] that by force
    from merge_archive_entry [OF snapshot_distinct [OF ok] this] show ?thesis by (simp add: terminal_of_def)
  qed
  show ?thesis unfolding r using live dead by auto
qed

theorem board_is_complete_witness:
  "\<exists>r. board_status (\<lambda>_. ''x'') ''router'' 0 (\<lambda>_. NotDelivered) [\<lparr>gh_generation_id = demo_gid, gh_epoch = demo_epoch\<rparr>]
      (Some (1, ReadResult (read_board_snapshot (VStr ''alice'') demo_published))) None (VStr ''alice'') = Inr r \<and>
     br_incomplete r = [demo_gid]"
proof -
  have m: "match_owner ''alice''" "match_hex_id (CHR ''g'') demo_gid" by code_simp+
  have n: "board_orchestrations ''alice'' None = Inr None" by (simp add: board_orchestrations_def)
  have u: "board_of (\<lambda>_. NotDelivered) gen = None" for gen by (simp add: board_of_def forward_one_def relay_def)
  show ?thesis
    using board_is_complete [OF demo_reachable(4) m(1) _ _ _ _ n, of "''router''" 0
        "[\<lparr>gh_generation_id = demo_gid, gh_epoch = demo_epoch\<rparr>]" "\<lambda>_. ''x''" "\<lambda>_. NotDelivered" 1] m(2)
    by (auto simp: u)
qed

end
