(* ===== verification/Nelix_Wait_Props.thy ===== *)
theory Nelix_Wait_Props
  imports Nelix_Wait Nelix_Board_Merge
begin

text \<open>
  The orchestration wait: it returns within its window, reports an archive change at the
  first poll that sees it, and hands back the cursor it was given but for the component that woke it.
\<close>

section \<open>The loop\<close>

text \<open>What poll \<open>i\<close> decides: nothing (\<open>None\<close>), or the outcome of the loop.\<close>

definition poll_decides ::
  "(pyval \<Rightarrow> string) \<Rightarrow> generation_handle \<Rightarrow> cursor \<Rightarrow> int \<Rightarrow> int \<Rightarrow> rat \<Rightarrow> rat \<Rightarrow> rat \<Rightarrow>
     int store_read \<Rightarrow> rat \<Rightarrow> (rat \<Rightarrow> raw_outcome) \<Rightarrow> wait_reply res option" where
  "poll_decides dumps gen c ae sq start window poll seen now forward =
     (case tolerant_read seen of
        Inl e \<Rightarrow> Some (Inl e)
      | Inr cur \<Rightarrow>
          if (case cur of None \<Rightarrow> False | Some n \<Rightarrow> sq < n)
          then Some (rbind (advance_archive c (VInt ae) (VInt (the cur))) (\<lambda>c'. Inr (ArchiveEvent (encode dumps c'))))
          else if window - (now - start) \<le> 0 then Some (Inr (NoEvent (encode dumps c)))
          else (case wait_on_generation dumps gen c (forward (if poll < window - (now - start) then poll else window - (now - start))) of
                  Inl (NelixError GENERATION_UNAVAILABLE) \<Rightarrow> None
                | Inr (NoEvent _) \<Rightarrow> None
                | r \<Rightarrow> Some r))"

lemma poll_case:
  "(case x of Inl (NelixError GENERATION_UNAVAILABLE) \<Rightarrow> k | Inr (NoEvent t) \<Rightarrow> k | r \<Rightarrow> Some r) =
      (case (case x of Inl (NelixError GENERATION_UNAVAILABLE) \<Rightarrow> None | Inr (NoEvent t) \<Rightarrow> None | r \<Rightarrow> Some r) of
         Some r \<Rightarrow> Some r | None \<Rightarrow> k)" for x :: "wait_reply res" and k
  by (simp split: sum.split exn.split error_code.split wait_reply.split)

text \<open>One round of the loop, whatever the rest of it is.\<close>

lemma poll_round:
  "(case tolerant_read seen of
        Inl e \<Rightarrow> Some (Inl e)
      | Inr cur \<Rightarrow>
          (if (case cur of None \<Rightarrow> False | Some n \<Rightarrow> sq < n)
           then Some (rbind (advance_archive c (VInt ae) (VInt (the cur))) (\<lambda>c'. Inr (ArchiveEvent (encode dumps c'))))
           else
             (let remaining = window - (now - start) in
              if remaining \<le> 0 then Some (Inr (NoEvent (encode dumps c)))
              else
                (case wait_on_generation dumps gen c (forward (if poll < remaining then poll else remaining)) of
                   Inl (NelixError GENERATION_UNAVAILABLE) \<Rightarrow> k
                 | Inr (NoEvent _) \<Rightarrow> k
                 | r \<Rightarrow> Some r)))) =
   (case poll_decides dumps gen c ae sq start window poll seen now forward of Some r \<Rightarrow> Some r | None \<Rightarrow> k)"
  unfolding poll_decides_def Let_def by (subst poll_case) (simp split: sum.split option.split)

lemma multiplex_step:
  "wait_multiplex dumps gen c ae sq start window poll seq_read clock forward i =
     (case poll_decides dumps gen c ae sq start window poll (seq_read i) (clock i) (forward i) of
        Some r \<Rightarrow> Some r
      | None \<Rightarrow> wait_multiplex dumps gen c ae sq start window poll seq_read clock forward (Suc i))"
  by (subst wait_multiplex.simps) (rule poll_round)

lemma multiplex_stops:
  assumes "poll_decides dumps gen c ae sq start window poll (seq_read n) (clock n) (forward n) \<noteq> None" "i \<le> n"
  shows "\<exists>m r. m \<le> n \<and> i \<le> m \<and> wait_multiplex dumps gen c ae sq start window poll seq_read clock forward i = Some r \<and>
     poll_decides dumps gen c ae sq start window poll (seq_read m) (clock m) (forward m) = Some r"
  using assms(2)
proof (induction "n - i" arbitrary: i rule: less_induct)
  case less
  show ?case
  proof (cases "poll_decides dumps gen c ae sq start window poll (seq_read i) (clock i) (forward i)")
    case (Some r)
    then show ?thesis using less.prems
      by (intro exI [of _ i] exI [of _ r]) (simp add: multiplex_step [of dumps gen c ae sq start window poll seq_read clock forward i])
  next
    case None
    then have "i \<noteq> n" using assms(1) by auto
    then have n: "n - Suc i < n - i" "Suc i \<le> n" using less.prems by simp_all
    from less.hyps [OF n] obtain m r where "m \<le> n" "Suc i \<le> m"
      "wait_multiplex dumps gen c ae sq start window poll seq_read clock forward (Suc i) = Some r"
      "poll_decides dumps gen c ae sq start window poll (seq_read m) (clock m) (forward m) = Some r" by blast
    then show ?thesis using None
      by (intro exI [of _ m] exI [of _ r]) (simp add: multiplex_step [of dumps gen c ae sq start window poll seq_read clock forward i])
  qed
qed

lemma multiplex_result:
  assumes "wait_multiplex dumps gen c ae sq start window poll seq_read clock forward i = Some r"
  shows "\<exists>m :: nat. poll_decides dumps gen c ae sq start window poll (seq_read m) (clock m) (forward m) = Some r"
proof (rule wait_multiplex.raw_induct [where
    P = "\<lambda>dumps gen c ae sq start window poll seq_read clock forward i r.
      \<exists>m :: nat. poll_decides dumps gen c ae sq start window poll (seq_read m) (clock m) (forward m) = Some r", OF _ assms])
  fix rest and dumps :: "pyval \<Rightarrow> string" and gen c ae sq start window poll
    and seq_read :: "nat \<Rightarrow> int store_read" and clock forward and i :: nat and r
  assume ih: "\<And>dumps gen c ae sq start window poll seq_read clock forward (i :: nat) r.
      rest dumps gen c ae sq start window poll seq_read clock forward i = Some r \<Longrightarrow>
      \<exists>m :: nat. poll_decides dumps gen c ae sq start window poll (seq_read m) (clock m) (forward m) = Some r"
  show "\<exists>m :: nat. poll_decides dumps gen c ae sq start window poll (seq_read m) (clock m) (forward m) = Some r"
    if "(case tolerant_read (seq_read i) of
        Inl e \<Rightarrow> Some (Inl e)
      | Inr cur \<Rightarrow>
          (if (case cur of None \<Rightarrow> False | Some n \<Rightarrow> sq < n)
           then Some (rbind (advance_archive c (VInt ae) (VInt (the cur))) (\<lambda>c'. Inr (ArchiveEvent (encode dumps c'))))
           else
             (let remaining = window - (clock i - start) in
              if remaining \<le> 0 then Some (Inr (NoEvent (encode dumps c)))
              else
                (case wait_on_generation dumps gen c (forward i (if poll < remaining then poll else remaining)) of
                   Inl (NelixError GENERATION_UNAVAILABLE) \<Rightarrow> rest dumps gen c ae sq start window poll seq_read clock forward (Suc i)
                 | Inr (NoEvent _) \<Rightarrow> rest dumps gen c ae sq start window poll seq_read clock forward (Suc i)
                 | r \<Rightarrow> Some r)))) = Some r"
    using that [unfolded poll_round] ih
    by (cases "poll_decides dumps gen c ae sq start window poll (seq_read i) (clock i) (forward i)") auto
qed

section \<open>It returns\<close>

lemma poll_decides_window:
  "window \<le> now - start \<Longrightarrow> poll_decides dumps gen c ae sq start window poll seen now forward \<noteq> None"
  by (simp add: poll_decides_def split: sum.split option.split)

lemma poll_decides_change:
  "sq < n \<Longrightarrow> poll_decides dumps gen c ae sq start window poll (ReadResult (Inr n)) now forward \<noteq> None"
  by (simp add: poll_decides_def tolerant_read_def)

lemma waiters_balanced: "waiter_count (detach orch (attach orch ws)) x = waiter_count ws x"
  by (cases "map_of ws orch") (simp_all add: waiter_count_def detach_def attach_def Let_def)

lemma wait_inner_returns:
  assumes "\<And>gen c ae sq. poll_decides dumps gen c ae sq (ww_start w) (wr_window r) (wr_poll r) (ww_seq w n) (ww_clock w n) (ww_forward w n) \<noteq> None"
  shows "wait_inner dumps py_str loads r w d owner orch token \<noteq> None"
proof -
  have "wait_multiplex dumps gen c ae sq (ww_start w) (wr_window r) (wr_poll r) (ww_seq w) (ww_clock w) (ww_forward w) 0 \<noteq> None" for gen c ae sq
    using multiplex_stops [of dumps gen c ae sq "ww_start w" "wr_window r" "wr_poll r" "ww_seq w" n "ww_clock w" "ww_forward w" 0] assms
    by auto
  then show ?thesis by (simp add: wait_inner_def split: sum.split option.split)
qed

text \<open>
  C31: A wait always returns: as soon as some poll finds the window over, whatever the store, the
  clock in between and the generation answer (errors and malformed replies included), the wait
  has returned by that poll, and the waiter it counted is released.
\<close>
theorem wait_returns_within_window:
  assumes "wr_window r \<le> ww_clock w n - ww_start w"
  shows "\<exists>ws' reply. wait_orchestration dumps py_str loads r w d ws owner_id orchestration_id token = Some (ws', reply) \<and>
     (\<forall>orch. waiter_count ws' orch = waiter_count ws orch)"
proof -
  have "\<exists>reply. wait_inner dumps py_str loads r w d owner orch token = Some reply" for owner orch
    using wait_inner_returns [of dumps w r n, OF poll_decides_window [OF assms]] by auto
  then show ?thesis
    by (simp add: wait_orchestration_def waiters_balanced split: sum.split prod.split)
qed

section \<open>The cursor it hands back\<close>

text \<open>What a reply may be, for a wait resumed from \<open>c\<close> with both components current.\<close>

definition one_component ::
  "(pyval \<Rightarrow> string) \<Rightarrow> generation_handle \<Rightarrow> cursor \<Rightarrow> int \<Rightarrow> int \<Rightarrow> int \<Rightarrow> wait_reply \<Rightarrow> bool" where
  "one_component dumps gen c n ae sq reply =
     (case reply of
        NoEvent t \<Rightarrow> t = encode dumps c
      | GenerationEvent e t \<Rightarrow> (\<exists>m. n \<le> m \<and> dict_get (the_dict e) ''seq'' = VInt m \<and>
          t = encode dumps (c\<lparr>cu_positions := AList.update (gh_generation_id gen) (gh_epoch gen, m) (cu_positions c)\<rparr>))
      | ArchiveEvent t \<Rightarrow> (\<exists>m. sq < m \<and> t = encode dumps (c\<lparr>cu_archive := Some (ae, m)\<rparr>))
      | BoardChanged \<Rightarrow> False
      | _ \<Rightarrow> True)"

lemma generation_component:
  assumes p: "position_for c (gh_generation_id gen) = Some (gh_epoch gen, n)"
    and w: "wait_on_generation dumps gen c oc = Inr reply"
  shows "one_component dumps gen c n ae sq reply"
proof (cases oc)
  case (Answer status body)
  let ?evt = "dict_get (the_dict body) ''event''"
  show ?thesis
  proof (cases "status = 404 \<or> status \<noteq> 200 \<or> \<not> is_dict body \<or> truthy (dict_get (the_dict body) ''cursor_expired'') \<or> ?evt = VNone")
    case True
    then show ?thesis using w Answer by (auto simp: wait_on_generation_def relay_def one_component_def split: if_splits)
  next
    case False
    let ?sq = "if is_dict ?evt then dict_get (the_dict ?evt) ''seq'' else VNone"
    from w False Answer obtain c' where h: "healthy_int_cursor ?sq"
      and a: "advance c (VStr (gh_generation_id gen)) (gh_epoch gen) ?sq = Inr c'" "reply = GenerationEvent ?evt (encode dumps c')"
      by (auto simp: wait_on_generation_def relay_def Let_def split: if_splits)
    from a(1) p obtain m where m: "?sq = VInt m" "n \<le> m"
      "c' = c\<lparr>cu_positions := AList.update (gh_generation_id gen) (gh_epoch gen, m) (cu_positions c)\<rparr>"
      by (auto simp: advance_eq_Inr)
    have "is_dict ?evt" using h by (auto simp: healthy_int_cursor_def split: if_splits)
    then show ?thesis using m a(2) by (auto simp: one_component_def)
  qed
qed (use w in \<open>simp_all add: wait_on_generation_def relay_def\<close>)

lemma poll_component:
  assumes p: "position_for c (gh_generation_id gen) = Some (gh_epoch gen, n)"
    and d: "poll_decides dumps gen c ae sq start window poll seen now forward = Some (Inr reply)"
  shows "one_component dumps gen c n ae sq reply"
proof (cases "tolerant_read seen")
  case (Inl e)
  then show ?thesis using d by (simp add: poll_decides_def)
next
  case (Inr cur)
  consider (news) m where "cur = Some m" "sq < m" | (over) "window - (now - start) \<le> 0" "\<not> (case cur of None \<Rightarrow> False | Some n \<Rightarrow> sq < n)"
    | (gen) "\<not> window - (now - start) \<le> 0" "\<not> (case cur of None \<Rightarrow> False | Some n \<Rightarrow> sq < n)"
    by (cases cur) auto
  then show ?thesis
  proof cases
    case news
    then show ?thesis using d Inr by (auto simp: poll_decides_def one_component_def advance_archive_def split: if_splits)
  next
    case over
    then show ?thesis using d Inr by (auto simp: poll_decides_def one_component_def split: if_splits)
  next
    case gen
    then obtain oc where "wait_on_generation dumps gen c oc = Inr reply"
      using d Inr unfolding poll_decides_def
      by (auto split: sum.splits exn.splits error_code.splits wait_reply.splits if_splits)
    then show ?thesis by (rule generation_component [OF p])
  qed
qed

text \<open>
  A wait resumed with a current cursor hands back that cursor except for the one component
  that woke it: unchanged when nothing happened; after an event of the generation with that
  generation's position at the event's number, never below where it was; after an archive change
  with the archive position past where it was. So no event of the other source is skipped.
\<close>
theorem wait_advances_one_component:
  assumes "decode py_str loads (VStr t) (wr_router_epoch r) (wr_topology r) = Inr c"
    "position_for c (gh_generation_id gen) = Some (gh_epoch gen, n)" "cu_archive c = Some (ae, sq)"
    "wr_archive_epoch r = Some ae" "ww_active w = Inr gen"
    "wait_inner dumps py_str loads r w d owner orch (Some t) = Some (Inr reply)"
  shows "one_component dumps gen c n ae sq reply"
proof -
  have t: "t \<noteq> []" using assms(1) by (auto simp: decode_def)
  obtain ss where ss: "sessions_for_orchestration (VStr owner) (VStr orch) d = Inr ss"
    using assms(6) by (cases "sessions_for_orchestration (VStr owner) (VStr orch) d") (simp_all add: wait_inner_def)
  have cur: "wait_cursor py_str loads r (Some t) = Inr (Inr c)" using assms(1) t by (simp add: wait_cursor_def)
  have comp: "wait_component gen (ww_status w) c = Inr (Inr c)" using assms(2) by (simp add: wait_component_def)
  have arch: "wait_archive r (ww_first_seq w) c = Inr (Inr (c, Some sq))" using assms(3,4) by (simp add: wait_archive_def)
  show ?thesis
  proof (cases "ss = []")
    case True
    then have "reply = EmptyOrchestration" using assms(6) ss by (simp add: wait_inner_def)
    then show ?thesis by (simp add: one_component_def)
  next
    case False
    then have "wait_multiplex dumps gen c ae sq (ww_start w) (wr_window r) (wr_poll r) (ww_seq w) (ww_clock w) (ww_forward w) 0 = Some (Inr reply)"
      using assms(4-6) ss cur comp arch by (simp add: wait_inner_def)
    from multiplex_result [OF this] show ?thesis using poll_component [OF assms(2)] by blast
  qed
qed

section \<open>A concrete wait\<close>

definition demo_router :: wait_router where
  "demo_router = \<lparr>wr_router_epoch = ''r'', wr_topology = 0, wr_archive_epoch = Some 1, wr_window = 25, wr_poll = 1\<rparr>"

definition demo_handle :: generation_handle where
  "demo_handle = \<lparr>gh_generation_id = demo_gid, gh_epoch = demo_epoch\<rparr>"

definition demo_world :: wait_world where
  "demo_world = \<lparr>ww_active = Inr demo_handle, ww_status = NotDelivered, ww_first_seq = ReadError, ww_start = 0,
     ww_seq = (\<lambda>i. ReadResult (Inr (int i))), ww_clock = (\<lambda>i. of_nat i), ww_forward = (\<lambda>_ _. NotDelivered), ww_single = NotDelivered\<rparr>"

text \<open>A text layer for one token.\<close>

definition demo_token :: "(string, pyval) dict" where
  "demo_token = [(''v'', VInt 2), (''re'', VStr ''r''), (''tr'', VInt 0), (''a'', VList [VInt 1, VInt 2]),
     (''p'', VDict [(demo_gid, VList [VStr demo_epoch, VInt 7])])]"

definition demo_str :: "pyval \<Rightarrow> string" where
  "demo_str v = (case v of VStr s \<Rightarrow> s | _ \<Rightarrow> [])"

theorem wait_returns_within_window_witness:
  "\<exists>ws' reply. wait_orchestration (\<lambda>_. ''x'') demo_str (\<lambda>_. Some (VDict demo_token)) demo_router demo_world demo_started []
     (VStr ''alice'') (VStr demo_orch) (Some ''t'') = Some (ws', reply)"
proof -
  have "wr_window demo_router \<le> ww_clock demo_world 25 - ww_start demo_world" by (simp add: demo_router_def demo_world_def)
  from wait_returns_within_window [OF this] show ?thesis by blast
qed

theorem wait_advances_one_component_witness:
  "\<exists>c reply. decode demo_str (\<lambda>_. Some (VDict demo_token)) (VStr ''t'') ''r'' 0 = Inr c \<and>
     wait_inner (\<lambda>_. ''x'') demo_str (\<lambda>_. Some (VDict demo_token)) demo_router demo_world demo_started ''alice'' demo_orch (Some ''t'')
       = Some (Inr reply) \<and> one_component (\<lambda>_. ''x'') demo_handle c 7 1 2 reply"
proof -
  define c where "c = \<lparr>cu_router_epoch = ''r'', cu_topology_revision = 0, cu_positions = [(demo_gid, demo_epoch, 7)], cu_archive = Some (1, 2 :: int)\<rparr>"
  have dec: "decode demo_str (\<lambda>_. Some (VDict demo_token)) (VStr ''t'') ''r'' 0 = Inr c"
  proof -
    have "decode_body demo_str demo_token = Some c" unfolding c_def by code_simp
    then show ?thesis by (simp add: decode_def MAX_TOKEN_def V_def demo_token_def) (simp add: c_def)
  qed
  have pos: "position_for c (gh_generation_id demo_handle) = Some (gh_epoch demo_handle, 7)" "cu_archive c = Some (1, 2)"
    by (simp_all add: c_def demo_handle_def position_for_def)
  have rw: "wr_router_epoch demo_router = ''r''" "wr_topology demo_router = 0" "wr_archive_epoch demo_router = Some 1"
    "ww_active demo_world = Inr demo_handle" by (simp_all add: demo_router_def demo_world_def)
  obtain ss where ss: "sessions_for_orchestration (VStr ''alice'') (VStr demo_orch) demo_started = Inr ss" "ss \<noteq> []"
  proof -
    have "sessions_for_orchestration (VStr ''alice'') (VStr demo_orch) demo_started = Inr [demo_sid]" by code_simp
    then show thesis using that by blast
  qed
  have quiet: "poll_decides (\<lambda>_. ''x'') demo_handle c 1 2 0 25 1 (ReadResult (Inr (int i))) (of_nat i) (\<lambda>_. NotDelivered) =
      (if i = 3 then Some (Inr (ArchiveEvent ''x'')) else None)" if "i \<le> 3" for i
    using that by (auto simp: poll_decides_def tolerant_read_def wait_on_generation_def relay_def advance_archive_def encode_def)
  let ?W = "wait_multiplex (\<lambda>_. ''x'') demo_handle c 1 2 0 25 1 (\<lambda>i. ReadResult (Inr (int i))) (\<lambda>i. of_nat i) (\<lambda>_ _. NotDelivered)"
  have st: "?W i = (if i = 3 then Some (Inr (ArchiveEvent ''x'')) else ?W (Suc i))" if "i \<le> 3" for i
    by (subst multiplex_step) (simp add: quiet [OF that])
  have "?W 0 = ?W 1" using st [of 0] by simp
  also have "\<dots> = ?W 2" using st [of 1] by (simp add: numeral_2_eq_2)
  also have "\<dots> = ?W 3" using st [of 2] by (simp add: numeral_2_eq_2 numeral_3_eq_3)
  also have "\<dots> = Some (Inr (ArchiveEvent ''x''))" using st [of 3] by simp
  finally have "?W 0 = Some (Inr (ArchiveEvent ''x''))" .
  then have inner: "wait_inner (\<lambda>_. ''x'') demo_str (\<lambda>_. Some (VDict demo_token)) demo_router demo_world demo_started ''alice'' demo_orch (Some ''t'')
       = Some (Inr (ArchiveEvent ''x''))"
    using ss dec pos rw
    by (simp add: wait_inner_def wait_cursor_def wait_component_def wait_archive_def) (simp add: demo_router_def demo_world_def)
  have "one_component (\<lambda>_. ''x'') demo_handle c 7 1 2 (ArchiveEvent ''x'')"
    by (rule wait_advances_one_component [OF _ pos rw(3,4) inner]) (use dec rw in simp)
  with dec inner show ?thesis by blast
qed

end
