(* ===== verification/Nelix_Lease_Client.thy ===== *)
theory Nelix_Lease_Client
  imports Nelix_Leases Nelix_Start
begin

text \<open>
  The lease protocol between a generation and the router: the router's three lease routes
  (\<^verbatim>\<open>router/server.py\<close>), the client (\<^verbatim>\<open>daemon/lease_client.py\<close>) and the tables and
  choreography of the session manager that use it (\<^verbatim>\<open>daemon/manager.py\<close>). An
  operation of the client is a request and what the client does with the reply; how the
  request travels is a parameter. Identifiers and tokens are strings; the body of a reply is
  any JSON value.
\<close>

section \<open>Messages\<close>

text \<open>The names of the codes on the wire; a reply may carry one that this build does not know.\<close>

fun code_name :: "error_code \<Rightarrow> string" where
  "code_name OWNER_MISMATCH = ''owner_mismatch''"
| "code_name UNKNOWN_SESSION = ''unknown_session''"
| "code_name CURSOR_EXPIRED = ''cursor_expired''"
| "code_name BOARD_CHANGED = ''board_changed''"
| "code_name BOARD_INCOMPLETE = ''board_incomplete''"
| "code_name ARCHIVE_INCOMPLETE = ''archive_incomplete''"
| "code_name UNSUPPORTED_BY_GENERATION = ''unsupported_by_generation''"
| "code_name CONCURRENCY_LIMIT = ''concurrency_limit''"
| "code_name DUPLICATE_START = ''duplicate_start''"
| "code_name GENERATION_UNAVAILABLE = ''generation_unavailable''"
| "code_name ORPHAN_REAPED = ''orphan_reaped''"
| "code_name GENERATION_LOST = ''generation_lost''"
| "code_name INVALID_REQUEST = ''invalid_request''"
| "code_name SCHEMA_TOO_NEW = ''schema_too_new''"
| "code_name IDEMPOTENCY_CONFLICT = ''idempotency_conflict''"
| "code_name STORE_CORRUPT = ''store_corrupt''"
| "code_name STORE_UNAVAILABLE = ''store_unavailable''"
| "code_name STORE_UNSUPPORTED = ''store_unsupported''"
| "code_name INTERNAL_ERROR = ''internal_error''"
| "code_name ADMISSION_UNAVAILABLE = ''admission_unavailable''"
| "code_name REBUILDING = ''rebuilding''"
| "code_name STALE_RECONCILIATION_ID = ''stale_reconciliation_id''"
| "code_name TERMINAL_EXPIRED = ''terminal_expired''"

definition ALL_CODES :: "error_code list" where
  "ALL_CODES =
     [OWNER_MISMATCH, UNKNOWN_SESSION, CURSOR_EXPIRED, BOARD_CHANGED, BOARD_INCOMPLETE,
      ARCHIVE_INCOMPLETE, UNSUPPORTED_BY_GENERATION, CONCURRENCY_LIMIT, DUPLICATE_START,
      GENERATION_UNAVAILABLE, ORPHAN_REAPED, GENERATION_LOST, INVALID_REQUEST,
      SCHEMA_TOO_NEW, IDEMPOTENCY_CONFLICT, STORE_CORRUPT, STORE_UNAVAILABLE,
      STORE_UNSUPPORTED, INTERNAL_ERROR, ADMISSION_UNAVAILABLE, REBUILDING,
      STALE_RECONCILIATION_ID, TERMINAL_EXPIRED]"

definition to_envelope :: "error_code \<Rightarrow> (string, pyval) dict" where
  "to_envelope c = [(''error'', VDict [(''code'', VStr (code_name c)), (''retryable'', VBool (retryable c))])]"

text \<open>What a value is after \<open>json.dumps\<close> and \<open>json.loads\<close>.\<close>

fun json_wire :: "pyval \<Rightarrow> pyval" where
  "json_wire (VTuple xs) = VList (map json_wire xs)"
| "json_wire (VList xs) = VList (map json_wire xs)"
| "json_wire (VDict d) = VDict (map (\<lambda>p. (fst p, json_wire (snd p))) d)"
| "json_wire v = v"

datatype lease_request =
    AcquireRequest string string string string "string list" pyval
  | ReleaseRequest string string string pyval
  | RegisterRequest string string pyval "pyval list" "pyval list"

text \<open>How a call ended: unreachable router, a body that is not JSON, a status with a JSON body.\<close>

datatype lease_reply =
    Unreachable
  | Garbled
  | Answered nat pyval

section \<open>The router's routes\<close>

definition answer :: "nat \<Rightarrow> (string, pyval) dict \<Rightarrow> lease_service \<Rightarrow> lease_reply" where
  "answer status body ls = Answered status (VDict (body @ [(''reconciliation_id'', VStr (ls_reconciliation_id ls))]))"

text \<open>An exception of the service: a \<open>NelixError\<close> with the current id, anything else the bare 500 of \<open>_guarded\<close>.\<close>

definition send_error :: "exn \<Rightarrow> lease_service \<Rightarrow> lease_reply" where
  "send_error x ls =
     (case x of NelixError c \<Rightarrow> answer (http_status c) (to_envelope c) ls
      | _ \<Rightarrow> Answered 500 (VDict (to_envelope INTERNAL_ERROR)))"

text \<open>The id as the service compares it: only a string can equal the service's.\<close>

definition rid_arg :: "pyval \<Rightarrow> string option" where
  "rid_arg v = (case v of VStr s \<Rightarrow> Some s | _ \<Rightarrow> None)"

definition tokens_json :: "lease_results \<Rightarrow> pyval" where
  "tokens_json res = VDict (map (\<lambda>(kind, tok, fresh). (kind, VDict [(''token_id'', VStr tok), (''fresh'', VBool fresh)])) res)"

definition handle_lease_acquire ::
  "string \<Rightarrow> string \<Rightarrow> string \<Rightarrow> string \<Rightarrow> string list \<Rightarrow> pyval \<Rightarrow> string \<Rightarrow> string \<Rightarrow> lease_service \<Rightarrow> lease_reply \<times> lease_service" where
  "handle_lease_acquire g e s a kinds rid tok_active tok_live ls =
     (if g = [] \<or> e = [] \<or> s = [] \<or> kinds = [] then (answer 400 (to_envelope INVALID_REQUEST) ls, ls)
      else if \<not> truthy rid then (answer 503 (to_envelope STALE_RECONCILIATION_ID) ls, ls)
      else case acquire g e s a kinds (rid_arg rid) tok_active tok_live ls of
             (Inl x, ls1) \<Rightarrow> (send_error x ls1, ls1)
           | (Inr res, ls1) \<Rightarrow> (answer 200 [(''tokens'', tokens_json res)] ls1, ls1))"

definition handle_lease_release ::
  "string \<Rightarrow> string \<Rightarrow> string \<Rightarrow> pyval \<Rightarrow> lease_service \<Rightarrow> lease_reply \<times> lease_service" where
  "handle_lease_release t g e rid ls =
     (if t = [] then (answer 400 (to_envelope INVALID_REQUEST) ls, ls)
      else if \<not> truthy rid then (answer 503 (to_envelope STALE_RECONCILIATION_ID) ls, ls)
      else case release g e t (rid_arg rid) ls of
             (Inl x, ls1) \<Rightarrow> (send_error x ls1, ls1)
           | (Inr released, ls1) \<Rightarrow> (answer 200 [(''released'', VBool released)] ls1, ls1))"

definition handle_lease_register_snapshot ::
  "string \<Rightarrow> string \<Rightarrow> pyval \<Rightarrow> pyval list \<Rightarrow> pyval list \<Rightarrow> lease_service \<Rightarrow> lease_reply \<times> lease_service" where
  "handle_lease_register_snapshot g e rid active live ls =
     (if g = [] \<or> e = [] \<or> \<not> truthy rid then (answer 400 (to_envelope INVALID_REQUEST) ls, ls)
      else case rid of
             VStr r \<Rightarrow>
               (case register_snapshot g e r active live ls of
                  (Inl x, ls1) \<Rightarrow> (send_error x ls1, ls1)
                | (Inr _, ls1) \<Rightarrow> (answer 200 [] ls1, ls1))
           | _ \<Rightarrow> (send_error (NelixError STALE_RECONCILIATION_ID) ls, ls))"

text \<open>The dispatch of the three routes; the two ids an acquire may mint are arguments.\<close>

fun handle_lease :: "string \<Rightarrow> string \<Rightarrow> lease_request \<Rightarrow> lease_service \<Rightarrow> lease_reply \<times> lease_service" where
  "handle_lease ta tv (AcquireRequest g e s a kinds rid) ls = handle_lease_acquire g e s a kinds rid ta tv ls"
| "handle_lease ta tv (ReleaseRequest t g e rid) ls = handle_lease_release t g e rid ls"
| "handle_lease ta tv (RegisterRequest g e rid active live) ls = handle_lease_register_snapshot g e rid active live ls"

section \<open>The client\<close>

record lease_client =
  lc_gen_id :: string
  lc_gen_epoch :: string
  lc_rid :: pyval
  lc_outbox :: "string list"
  lc_handshook :: pyval

text \<open>\<open>generation_id or ""\<close>: without them the client's own ids are empty.\<close>

definition LeaseClient :: "string option \<Rightarrow> string option \<Rightarrow> lease_client" where
  "LeaseClient g e =
     \<lparr>lc_gen_id = (case g of Some s \<Rightarrow> s | None \<Rightarrow> []), lc_gen_epoch = (case e of Some s \<Rightarrow> s | None \<Rightarrow> []),
      lc_rid = VNone, lc_outbox = [], lc_handshook = VNone\<rparr>"

text \<open>Python's \<open>!=\<close> on the ids (scalars).\<close>

definition needs_handshake :: "lease_client \<Rightarrow> bool" where
  "needs_handshake lc \<longleftrightarrow> lc_rid lc \<noteq> VNone \<and> py_norm (lc_handshook lc) \<noteq> py_norm (lc_rid lc)"

definition mark_handshook :: "pyval \<Rightarrow> lease_client \<Rightarrow> lease_client" where
  "mark_handshook rid lc = lc\<lparr>lc_handshook := rid\<rparr>"

definition outbox_add :: "string \<Rightarrow> lease_client \<Rightarrow> lease_client" where
  "outbox_add t lc = (if t \<in> set (lc_outbox lc) then lc else lc\<lparr>lc_outbox := lc_outbox lc @ [t]\<rparr>)"

definition outbox_remove :: "string \<Rightarrow> lease_client \<Rightarrow> lease_client" where
  "outbox_remove t lc = lc\<lparr>lc_outbox := filter (\<lambda>u. u \<noteq> t) (lc_outbox lc)\<rparr>"

text \<open>Every reply that is an object and names an id updates the client's; \<open>.get\<close> of anything else raises.\<close>

definition update_from_response :: "pyval \<Rightarrow> lease_client \<Rightarrow> (string, pyval) dict res \<times> lease_client" where
  "update_from_response data lc =
     (case data of
        VDict d \<Rightarrow> (Inr d, case map_of d ''reconciliation_id'' of
                            Some v \<Rightarrow> if v = VNone then lc else lc\<lparr>lc_rid := v\<rparr>
                          | None \<Rightarrow> lc)
      | _ \<Rightarrow> (Inl AttributeError, lc))"

text \<open>The error object of a reply and the exception it is raised as: an unknown code is a \<open>ValueError\<close> of \<open>NelixError\<close> itself.\<close>

definition error_of :: "(string, pyval) dict \<Rightarrow> (string, pyval) dict res" where
  "error_of d = (case map_of d ''error'' of None \<Rightarrow> Inr [] | Some (VDict eo) \<Rightarrow> Inr eo | Some _ \<Rightarrow> Inl AttributeError)"

definition raised :: "(string, pyval) dict \<Rightarrow> exn" where
  "raised eo =
     (case map_of eo ''code'' of
        None \<Rightarrow> NelixError INTERNAL_ERROR
      | Some (VStr s) \<Rightarrow> (case find (\<lambda>c. code_name c = s) ALL_CODES of Some c \<Rightarrow> NelixError c | None \<Rightarrow> ValueError)
      | Some (VList _) \<Rightarrow> TypeError
      | Some (VDict _) \<Rightarrow> TypeError
      | Some _ \<Rightarrow> ValueError)"

definition raise_error :: "(string, pyval) dict \<Rightarrow> exn" where
  "raise_error d = (case error_of d of Inl x \<Rightarrow> x | Inr eo \<Rightarrow> raised eo)"

text \<open>A reply as every operation starts on it: the status and the object, the id taken up.\<close>

definition receive :: "lease_reply \<Rightarrow> lease_client \<Rightarrow> (nat \<times> (string, pyval) dict) res \<times> lease_client" where
  "receive rep lc =
     (case rep of
        Unreachable \<Rightarrow> (Inl RouterUnavailable, lc)
      | Garbled \<Rightarrow> (Inl ValueError, lc)
      | Answered status data \<Rightarrow> (case update_from_response data lc of (r, lc1) \<Rightarrow> (rbind r (\<lambda>d. Inr (status, d)), lc1)))"

definition rid_or_empty :: "lease_client \<Rightarrow> pyval" where
  "rid_or_empty lc = py_or (lc_rid lc) (VStr [])"

subsection \<open>acquire\<close>

definition acquire_request :: "string \<Rightarrow> string \<Rightarrow> string \<Rightarrow> string \<Rightarrow> string list \<Rightarrow> lease_client \<Rightarrow> lease_request" where
  "acquire_request g e s a kinds lc = AcquireRequest g e s a kinds (rid_or_empty lc)"

definition acquire_reply :: "lease_reply \<Rightarrow> lease_client \<Rightarrow> pyval res \<times> lease_client" where
  "acquire_reply rep lc =
     (case receive rep lc of
        (Inl x, lc1) \<Rightarrow> (Inl x, lc1)
      | (Inr (status, d), lc1) \<Rightarrow>
          (if status = 200 then
             (case map_of d ''tokens'' of
                Some toks \<Rightarrow> if truthy toks then Inr toks else Inl RouterUnavailable
              | None \<Rightarrow> Inl RouterUnavailable)
           else Inl (raise_error d), lc1))"

subsection \<open>release and the outbox\<close>

definition release_request :: "string \<Rightarrow> lease_client \<Rightarrow> lease_request" where
  "release_request t lc = ReleaseRequest t (lc_gen_id lc) (lc_gen_epoch lc) (rid_or_empty lc)"

text \<open>Only an unreachable router or a retryable refusal puts the token into the outbox.\<close>

definition release_reply :: "string \<Rightarrow> lease_reply \<Rightarrow> lease_client \<Rightarrow> pyval res \<times> lease_client" where
  "release_reply t rep lc =
     (case receive rep lc of
        (Inl RouterUnavailable, lc1) \<Rightarrow> (Inr (VBool False), outbox_add t lc1)
      | (Inl x, lc1) \<Rightarrow> (Inl x, lc1)
      | (Inr (status, d), lc1) \<Rightarrow>
          (if status = 200
           then (Inr (case map_of d ''released'' of Some v \<Rightarrow> v | None \<Rightarrow> VBool False), outbox_remove t lc1)
           else (case error_of d of
                   Inl x \<Rightarrow> (Inl x, lc1)
                 | Inr eo \<Rightarrow>
                     (if (case map_of eo ''retryable'' of Some v \<Rightarrow> truthy v | None \<Rightarrow> False)
                      then (Inr (VBool False), outbox_add t lc1)
                      else (Inl (raised eo), lc1)))))"

text \<open>\<open>_do_release\<close>: the id is left out of the body when there is none.\<close>

definition do_release_request :: "string \<Rightarrow> pyval \<Rightarrow> lease_client \<Rightarrow> lease_request" where
  "do_release_request t rid lc = ReleaseRequest t (lc_gen_id lc) (lc_gen_epoch lc) (if truthy rid then rid else VNone)"

definition do_release_reply :: "lease_reply \<Rightarrow> lease_client \<Rightarrow> pyval res \<times> lease_client" where
  "do_release_reply rep lc =
     (case receive rep lc of
        (Inl x, lc1) \<Rightarrow> (Inl x, lc1)
      | (Inr (status, d), lc1) \<Rightarrow> (if status = 200 then Inr (VDict d) else Inl (raise_error d), lc1))"

text \<open>One entry of \<open>retry_outbox\<close>: done, still pending, or an exception that ends the loop.\<close>

definition retry_reply :: "string \<Rightarrow> lease_reply \<Rightarrow> lease_client \<Rightarrow> bool res \<times> lease_client" where
  "retry_reply t rep lc =
     (case do_release_reply rep lc of
        (Inr _, lc1) \<Rightarrow> (Inr True, outbox_remove t lc1)
      | (Inl RouterUnavailable, lc1) \<Rightarrow> (Inr False, lc1)
      | (Inl (NelixError c), lc1) \<Rightarrow> (Inr False, lc1)
      | (Inl x, lc1) \<Rightarrow> (Inl x, lc1))"

subsection \<open>register_snapshot\<close>

definition register_request :: "string \<Rightarrow> string \<Rightarrow> pyval \<Rightarrow> pyval list \<Rightarrow> pyval list \<Rightarrow> lease_request" where
  "register_request g e rid active live =
     RegisterRequest g e (py_or rid (VStr [])) (map json_wire active) (map json_wire live)"

definition register_reply :: "lease_reply \<Rightarrow> lease_client \<Rightarrow> pyval res \<times> lease_client" where
  "register_reply = do_release_reply"

end
