(* ===== verification/Nelix_Lease_Net.thy ===== *)
theory Nelix_Lease_Net
  imports Nelix_Lease_Client
begin

text \<open>
  The session manager's side of the leases (\<^verbatim>\<open>daemon/manager.py\<close>) and the protocol as a
  whole: the manager's tables of tokens, its threads as program counters between two
  critical sections, the client they share, the router, and a network that may lose a
  request or its reply.
\<close>

section \<open>The manager's tables\<close>

record lease_tables =
  lt_gen_id :: string
  lt_gen_epoch :: string
  lt_active :: "(string, string) dict"
  lt_live :: "(string, string) dict"
  lt_active_activation :: "(string, string) dict"
  lt_live_activation :: "(string, string) dict"
  lt_handshake_in_flight :: pyval

definition lease_tables_init :: "string \<Rightarrow> string \<Rightarrow> lease_tables" where
  "lease_tables_init g e =
     \<lparr>lt_gen_id = g, lt_gen_epoch = e, lt_active = [], lt_live = [], lt_active_activation = [],
      lt_live_activation = [], lt_handshake_in_flight = VNone\<rparr>"

text \<open>\<open>_lease_snapshot\<close>: every token held, with the activation it was acquired for.\<close>

definition snapshot_entry :: "string \<Rightarrow> (string, string) dict \<Rightarrow> lease_tables \<Rightarrow> string \<times> string \<Rightarrow> pyval" where
  "snapshot_entry kind acts lt p =
     VDict [(''token_id'', VStr (snd p)),
            (''key'', VTuple [VStr (lt_gen_id lt), VStr (lt_gen_epoch lt), VStr (fst p),
                              VStr (case map_of acts (fst p) of Some a \<Rightarrow> a | None \<Rightarrow> ''0''), VStr kind])]"

definition lease_snapshot :: "lease_tables \<Rightarrow> pyval list \<times> pyval list" where
  "lease_snapshot lt =
     (map (snapshot_entry ''active'' (lt_active_activation lt) lt) (lt_active lt),
      map (snapshot_entry ''live'' (lt_live_activation lt) lt) (lt_live lt))"

text \<open>The entry of one kind in an acquire's result, its token id, and whether it is to be rolled back.\<close>

definition token_info :: "string \<Rightarrow> pyval \<Rightarrow> pyval" where
  "token_info kind tokens = (case tokens of VDict d \<Rightarrow> py_or (Nelix_Leases.dict_get d kind) (VDict []) | _ \<Rightarrow> VDict [])"

definition extract_tid :: "pyval \<Rightarrow> string option" where
  "extract_tid info =
     (case info of
        VDict d \<Rightarrow> (case map_of d ''token_id'' of Some (VStr s) \<Rightarrow> if s \<noteq> [] then Some s else None | _ \<Rightarrow> None)
      | VStr s \<Rightarrow> if s \<noteq> [] then Some s else None
      | _ \<Rightarrow> None)"

definition is_fresh :: "pyval \<Rightarrow> bool" where
  "is_fresh info = (case info of VDict d \<Rightarrow> map_of d ''fresh'' \<noteq> Some (VBool False) | _ \<Rightarrow> True)"

text \<open>\<open>_release_lease_tokens\<close>: the tokens a roll-back releases, in order; repeated grants are left alone.\<close>

definition rollback_tokens :: "pyval \<Rightarrow> string list" where
  "rollback_tokens tokens =
     (case tokens of
        VDict d \<Rightarrow> List.map_filter (\<lambda>p. if is_fresh (snd p) then extract_tid (snd p) else None) d
      | _ \<Rightarrow> [])"

definition put_token :: "string \<Rightarrow> string option \<Rightarrow> (string, string) dict \<Rightarrow> (string, string) dict" where
  "put_token sid t d = (case t of Some tid \<Rightarrow> AList.update sid tid d | None \<Rightarrow> d)"

text \<open>\<open>_spawn\<close>: both tokens into the tables, for activation 0.\<close>

definition commit_start :: "string \<Rightarrow> pyval \<Rightarrow> lease_tables \<Rightarrow> lease_tables" where
  "commit_start sid tokens lt =
     (let a = extract_tid (token_info ''active'' tokens); l = extract_tid (token_info ''live'' tokens) in
      lt\<lparr>lt_active := put_token sid a (lt_active lt), lt_live := put_token sid l (lt_live lt),
         lt_active_activation := (if a = None then lt_active_activation lt else AList.update sid ''0'' (lt_active_activation lt)),
         lt_live_activation := (if l = None then lt_live_activation lt else AList.update sid ''0'' (lt_live_activation lt))\<rparr>)"

text \<open>\<open>_lease_send_turn\<close>: the new active token replaces an old one, which is to be released.\<close>

definition commit_turn :: "string \<Rightarrow> string \<Rightarrow> pyval \<Rightarrow> lease_tables \<Rightarrow> lease_tables \<times> string list" where
  "commit_turn sid act tokens lt =
     (case extract_tid (token_info ''active'' tokens) of
        None \<Rightarrow> (lt, [])
      | Some tid \<Rightarrow>
          (lt\<lparr>lt_active := AList.update sid tid (AList.delete sid (lt_active lt)),
              lt_active_activation := AList.update sid act (lt_active_activation lt)\<rparr>,
           case map_of (lt_active lt) sid of Some old \<Rightarrow> [old] | None \<Rightarrow> []))"

text \<open>The roll-back of a turn: its active token if it was granted to this acquire.\<close>

definition rollback_turn :: "pyval \<Rightarrow> string list" where
  "rollback_turn tokens =
     (let info = token_info ''active'' tokens in
      if is_fresh info then (case extract_tid info of Some t \<Rightarrow> [t] | None \<Rightarrow> []) else [])"

text \<open>\<open>_on_idle\<close> and \<open>_persist_terminal_for_publish\<close>: tokens taken off the tables, to be released.\<close>

definition pop_active :: "string \<Rightarrow> lease_tables \<Rightarrow> lease_tables \<times> string list" where
  "pop_active sid lt =
     (lt\<lparr>lt_active := AList.delete sid (lt_active lt)\<rparr>, case map_of (lt_active lt) sid of Some t \<Rightarrow> [t] | None \<Rightarrow> [])"

definition pop_live :: "string \<Rightarrow> lease_tables \<Rightarrow> lease_tables \<times> string list" where
  "pop_live sid lt =
     (lt\<lparr>lt_live := AList.delete sid (lt_live lt)\<rparr>, case map_of (lt_live lt) sid of Some t \<Rightarrow> [t] | None \<Rightarrow> [])"

definition pop_terminal :: "string \<Rightarrow> lease_tables \<Rightarrow> lease_tables \<times> string list" where
  "pop_terminal sid lt =
     (let (lt1, as) = pop_active sid lt; (lt2, ls) = pop_live sid lt1 in (lt2, as @ ls))"

text \<open>\<open>_free_slot\<close>: only a session that still has its active token gives up its tokens.\<close>

definition pop_freed :: "string \<Rightarrow> lease_tables \<Rightarrow> lease_tables \<times> string list" where
  "pop_freed sid lt = (if map_of (lt_active lt) sid = None then (lt, []) else pop_terminal sid lt)"

definition finish_handshake :: "pyval \<Rightarrow> lease_tables \<Rightarrow> lease_tables" where
  "finish_handshake rid lt = (if lt_handshake_in_flight lt = rid then lt\<lparr>lt_handshake_in_flight := VNone\<rparr> else lt)"

section \<open>Threads\<close>

text \<open>
  Where a thread of the manager stands: tokens off the tables whose release is to be called,
  a release whose reply is on its way, an outbox retry (with the handshake it ends), an
  acquire, a grant not yet in the tables, a handshake before its snapshot, with its snapshot,
  and with its reply; a turn that could not be sent, whose token is released first and taken
  off the table after.
\<close>

datatype lease_pc =
    Resting
  | Releasing "string list"
  | ReleaseReplied string lease_reply "string list"
  | Retrying pyval "string list" "pyval option"
  | RetryReplied pyval string lease_reply "string list" "pyval option"
  | Acquiring string string bool
  | AcquireReplied string string bool lease_reply
  | Granted string string bool pyval
  | Snapshotting pyval
  | Registering pyval "pyval list" "pyval list"
  | RegisterReplied pyval lease_reply
  | FailingTurn string string
  | FailingReplied string string lease_reply

text \<open>The network delivers a call and its reply, loses the call, or loses the reply.\<close>

datatype fault = Delivered | RequestLost | ReplyLost

definition deliver :: "fault \<Rightarrow> string \<Rightarrow> string \<Rightarrow> lease_request \<Rightarrow> lease_service \<Rightarrow> lease_reply \<times> lease_service" where
  "deliver f ta tv req ls =
     (case f of
        Delivered \<Rightarrow> handle_lease ta tv req ls
      | RequestLost \<Rightarrow> (Unreachable, ls)
      | ReplyLost \<Rightarrow> (Unreachable, snd (handle_lease ta tv req ls)))"

text \<open>
  The whole: \<open>ln_stray\<close> records (it decides nothing) the tokens that left the protocol's
  single ownership: granted in a reply that was lost, granted again to a repeated acquire, or
  released by a failing turn while still in the table.
\<close>

record lease_net =
  ln_router :: lease_service
  ln_client :: lease_client
  ln_tables :: lease_tables
  ln_threads :: "lease_pc list"
  ln_stray :: "string list"

definition grants_of :: "pyval \<Rightarrow> (string \<times> bool) list" where
  "grants_of tokens =
     (case tokens of
        VDict d \<Rightarrow> List.map_filter (\<lambda>p. map_option (\<lambda>t. (t, is_fresh (snd p))) (extract_tid (snd p))) d
      | _ \<Rightarrow> [])"

definition granted_tokens :: "lease_reply \<Rightarrow> (string \<times> bool) list" where
  "granted_tokens rep =
     (case rep of
        Answered _ (VDict d) \<Rightarrow> (case map_of d ''tokens'' of Some tokens \<Rightarrow> grants_of tokens | None \<Rightarrow> [])
      | _ \<Rightarrow> [])"

text \<open>The tokens that go astray in a call: all of a lost reply, the repeated ones of a delivered one.\<close>

definition strays :: "fault \<Rightarrow> string \<Rightarrow> string \<Rightarrow> lease_request \<Rightarrow> lease_service \<Rightarrow> string list" where
  "strays f ta tv req ls =
     (let granted = granted_tokens (fst (handle_lease ta tv req ls)) in
      case f of
        Delivered \<Rightarrow> map fst (filter (\<lambda>p. \<not> snd p) granted)
      | RequestLost \<Rightarrow> []
      | ReplyLost \<Rightarrow> map fst granted)"

definition kinds_of :: "bool \<Rightarrow> string list" where
  "kinds_of start = (if start then [''active'', ''live''] else [''active''])"

definition call :: "fault \<Rightarrow> string \<Rightarrow> string \<Rightarrow> lease_request \<Rightarrow> lease_net \<Rightarrow> lease_reply \<times> lease_net" where
  "call f ta tv req n =
     (let (rep, ls) = deliver f ta tv req (ln_router n)
      in (rep, n\<lparr>ln_router := ls, ln_stray := ln_stray n @ strays f ta tv req (ln_router n)\<rparr>))"

definition end_retry :: "pyval option \<Rightarrow> lease_tables \<Rightarrow> lease_tables" where
  "end_retry fin lt = (case fin of Some rid \<Rightarrow> finish_handshake rid lt | None \<Rightarrow> lt)"

text \<open>
  One step of a thread: up to its next call of the router, or the handling of a reply. An
  exception of a release is logged and the next token is released; one of a retry that is
  neither a \<open>NelixError\<close> nor \<open>RouterUnavailable\<close> ends the loop. \<open>ok\<close> tells whether a granted
  session or turn goes ahead.
\<close>

fun lease_thread :: "fault \<Rightarrow> string \<Rightarrow> string \<Rightarrow> bool \<Rightarrow> lease_pc \<Rightarrow> lease_net \<Rightarrow> lease_pc \<times> lease_net" where
  "lease_thread f ta tv ok Resting n = (Resting, n)"
| "lease_thread f ta tv ok (Releasing []) n = (Resting, n)"
| "lease_thread f ta tv ok (Releasing (t # ts)) n =
     (let (rep, n1) = call f ta tv (release_request t (ln_client n)) n in (ReleaseReplied t rep ts, n1))"
| "lease_thread f ta tv ok (ReleaseReplied t rep ts) n =
     (Releasing ts, n\<lparr>ln_client := snd (release_reply t rep (ln_client n))\<rparr>)"
| "lease_thread f ta tv ok (Retrying rid [] fin) n = (Resting, n\<lparr>ln_tables := end_retry fin (ln_tables n)\<rparr>)"
| "lease_thread f ta tv ok (Retrying rid (t # ts) fin) n =
     (let (rep, n1) = call f ta tv (do_release_request t rid (ln_client n)) n in (RetryReplied rid t rep ts fin, n1))"
| "lease_thread f ta tv ok (RetryReplied rid t rep ts fin) n =
     (case retry_reply t rep (ln_client n) of
        (Inr _, lc) \<Rightarrow> (Retrying rid ts fin, n\<lparr>ln_client := lc\<rparr>)
      | (Inl _, lc) \<Rightarrow> (Resting, n\<lparr>ln_client := lc, ln_tables := end_retry fin (ln_tables n)\<rparr>))"
| "lease_thread f ta tv ok (Acquiring s a start) n =
     (let (rep, n1) = call f ta tv (acquire_request (lt_gen_id (ln_tables n)) (lt_gen_epoch (ln_tables n)) s a (kinds_of start) (ln_client n)) n
      in (AcquireReplied s a start rep, n1))"
| "lease_thread f ta tv ok (AcquireReplied s a start rep) n =
     (case acquire_reply rep (ln_client n) of
        (Inr tokens, lc) \<Rightarrow> (Granted s a start tokens, n\<lparr>ln_client := lc\<rparr>)
      | (Inl _, lc) \<Rightarrow> (Resting, n\<lparr>ln_client := lc\<rparr>))"
| "lease_thread f ta tv ok (Granted s a start tokens) n =
     (if start then
        (if ok then (Resting, n\<lparr>ln_tables := commit_start s tokens (ln_tables n)\<rparr>) else (Releasing (rollback_tokens tokens), n))
      else
        (if ok then (let (lt, stale) = commit_turn s a tokens (ln_tables n) in (Releasing stale, n\<lparr>ln_tables := lt\<rparr>))
         else (Releasing (rollback_turn tokens), n)))"
| "lease_thread f ta tv ok (Snapshotting rid) n =
     (if needs_handshake (ln_client n)
      then (let (active, live) = lease_snapshot (ln_tables n) in (Registering rid active live, n))
      else (Resting, n\<lparr>ln_tables := finish_handshake rid (ln_tables n)\<rparr>))"
| "lease_thread f ta tv ok (Registering rid active live) n =
     (let (rep, n1) = call f ta tv (register_request (lt_gen_id (ln_tables n)) (lt_gen_epoch (ln_tables n)) rid active live) n
      in (RegisterReplied rid rep, n1))"
| "lease_thread f ta tv ok (RegisterReplied rid rep) n =
     (case register_reply rep (ln_client n) of
        (Inr _, lc) \<Rightarrow> (Retrying (lc_rid lc) (lc_outbox lc) (Some rid), n\<lparr>ln_client := mark_handshook rid lc\<rparr>)
      | (Inl _, lc) \<Rightarrow> (Resting, n\<lparr>ln_client := lc, ln_tables := finish_handshake rid (ln_tables n)\<rparr>))"
| "lease_thread f ta tv ok (FailingTurn s t) n =
     (let (rep, n1) = call f ta tv (release_request t (ln_client n)) n in (FailingReplied s t rep, n1))"
| "lease_thread f ta tv ok (FailingReplied s t rep) n =
     (let (lt, popped) = pop_active s (ln_tables n)
      in (Resting, n\<lparr>ln_client := snd (release_reply t rep (ln_client n)), ln_tables := lt, ln_stray := ln_stray n @ popped\<rparr>))"

section \<open>Steps of the whole\<close>

text \<open>
  A resting thread may begin any operation (so also whatever the manager does next); a
  working one advances; the router restarts with another id; the router serves anyone else.
\<close>

datatype lease_event =
    Session_idle nat string
  | Session_ended nat string
  | Slot_freed nat string
  | Retry_outbox nat
  | Acquire_leases nat string string bool
  | Ensure_handshake nat
  | Turn_failed nat string string
  | Advance nat fault string string bool
  | Router_restart string
  | Router_op lease_op

definition set_thread :: "nat \<Rightarrow> lease_pc \<Rightarrow> lease_net \<Rightarrow> lease_net" where
  "set_thread i pc n = n\<lparr>ln_threads := (ln_threads n)[i := pc]\<rparr>"

definition ready :: "nat \<Rightarrow> lease_net \<Rightarrow> bool" where
  "ready i n \<longleftrightarrow> i < length (ln_threads n) \<and> ln_threads n ! i = Resting"

definition begin_pop :: "nat \<Rightarrow> lease_tables \<times> string list \<Rightarrow> lease_net \<Rightarrow> lease_net" where
  "begin_pop i r n = set_thread i (Releasing (snd r)) (n\<lparr>ln_tables := fst r\<rparr>)"

text \<open>\<open>_ensure_handshake\<close> up to the snapshot: nothing to do, or another thread is at it, or this one marks it in flight.\<close>

definition begin_handshake :: "nat \<Rightarrow> lease_net \<Rightarrow> lease_net" where
  "begin_handshake i n =
     (let rid = lc_rid (ln_client n) in
      if \<not> needs_handshake (ln_client n) then n
      else if py_norm (lt_handshake_in_flight (ln_tables n)) = py_norm rid then n
      else set_thread i (Snapshotting rid) (n\<lparr>ln_tables := (ln_tables n)\<lparr>lt_handshake_in_flight := rid\<rparr>\<rparr>))"

definition new_router :: "string \<Rightarrow> lease_service \<Rightarrow> lease_service" where
  "new_router rid ls = LeaseService (ls_active_limit ls) (ls_live_pty_limit ls) rid"

fun lease_net_step :: "lease_net \<Rightarrow> lease_event \<Rightarrow> lease_net" where
  "lease_net_step n (Session_idle i sid) = (if ready i n then begin_pop i (pop_active sid (ln_tables n)) n else n)"
| "lease_net_step n (Session_ended i sid) = (if ready i n then begin_pop i (pop_terminal sid (ln_tables n)) n else n)"
| "lease_net_step n (Slot_freed i sid) = (if ready i n then begin_pop i (pop_freed sid (ln_tables n)) n else n)"
| "lease_net_step n (Retry_outbox i) =
     (if ready i n then set_thread i (Retrying (lc_rid (ln_client n)) (lc_outbox (ln_client n)) None) n else n)"
| "lease_net_step n (Acquire_leases i s a start) = (if ready i n then set_thread i (Acquiring s a start) n else n)"
| "lease_net_step n (Ensure_handshake i) = (if ready i n then begin_handshake i n else n)"
| "lease_net_step n (Turn_failed i sid t) =
     (if ready i n then set_thread i (FailingTurn sid t) (n\<lparr>ln_stray := ln_stray n @ [t]\<rparr>) else n)"
| "lease_net_step n (Advance i f ta tv ok) =
     (if i < length (ln_threads n)
      then (let (pc, n1) = lease_thread f ta tv ok (ln_threads n ! i) n in set_thread i pc n1)
      else n)"
| "lease_net_step n (Router_restart rid) = n\<lparr>ln_router := new_router rid (ln_router n)\<rparr>"
| "lease_net_step n (Router_op op) = n\<lparr>ln_router := lease_step (ln_router n) op\<rparr>"

end
