(* ===== verification/Nelix_Lease_Net_Inv.thy ===== *)
theory Nelix_Lease_Net_Inv
  imports Nelix_Lease_Net Nelix_Leases_Inv
begin

text \<open>
  The invariant of the lease protocol: a token that did not go astray has one owner (a table
  entry or a grant in transit) or is being released, never both; what the router holds for
  the generation is known to it; and a snapshot on its way to an unreconciled router names
  only known tokens with no acknowledgement in flight.
\<close>

section \<open>The routes seen from the generation\<close>

definition held_tokens :: "epoch_key \<Rightarrow> lease_service \<Rightarrow> string set" where
  "held_tokens k ls = dom (map_of (es_tokens (held ls k)))"

definition reconciled :: "epoch_key \<Rightarrow> lease_service \<Rightarrow> bool" where
  "reconciled k ls \<longleftrightarrow> es_reconciled_rid (held ls k) = Some (ls_reconciliation_id ls)"

abbreviation same_gate :: "epoch_key \<Rightarrow> lease_service \<Rightarrow> lease_service \<Rightarrow> bool" where
  "same_gate k ls ls' \<equiv> ls_reconciliation_id ls' = ls_reconciliation_id ls \<and> reconciled k ls' = reconciled k ls"

lemma held_epoch_of:
  assumes "epoch_of k0 ls = (es, ls1)"
  shows "held ls1 k = held ls k" "ls_reconciliation_id ls1 = ls_reconciliation_id ls" "es = held ls k0"
  using assms by (auto simp: epoch_of_def split: option.splits if_splits)

lemma held_put: "held (put_epoch k0 es ls) k = (if k = k0 then es else held ls k)"
  by (simp add: held_eq put_epoch_def)

lemma put_rid [simp]: "ls_reconciliation_id (put_epoch k0 es ls) = ls_reconciliation_id ls"
  by (simp add: put_epoch_def)

lemma held_bump [simp]: "held (ls_bump kind i ls) k = held ls k"
  by (simp add: held_eq)

lemma untouched:
  assumes "epoch_of k0 ls = (es, ls1)"
  shows "held_tokens k ls1 = held_tokens k ls" "same_gate k ls ls1"
  using held_epoch_of [OF assms] by (simp_all add: held_tokens_def reconciled_def)

text \<open>A reply to a release that the client can act on, and one that acknowledges it.\<close>

definition acknowledges :: "lease_reply \<Rightarrow> bool" where
  "acknowledges rep \<longleftrightarrow> (\<exists>d. rep = Answered 200 (VDict d))"

definition refuses :: "lease_reply \<Rightarrow> bool" where
  "refuses rep \<longleftrightarrow> rep = Unreachable \<or> (\<exists>ls c. retryable c \<and> rep = answer 503 (to_envelope c) ls)"

lemma acknowledges_simps [simp]:
  "acknowledges (answer 200 d ls)" "\<not> acknowledges (answer 503 d ls)" "\<not> acknowledges Unreachable"
  by (simp_all add: acknowledges_def answer_def)

lemma ack_not_refuses: "acknowledges rep \<Longrightarrow> \<not> refuses rep"
  by (auto simp: refuses_def)

lemma handle_release_view:
  assumes "t \<noteq> []" "handle_lease_release t g e rid ls = (rep, ls')"
  shows "acknowledges rep \<and> reconciled (g, e) ls \<and> held_tokens k ls' = (if k = (g, e) then held_tokens k ls - {t} else held_tokens k ls)
         \<or> refuses rep \<and> held_tokens k ls' = held_tokens k ls" (is ?view)
    and "same_gate k ls ls'"
proof -
  have stale: "refuses (answer 503 (to_envelope STALE_RECONCILIATION_ID) ls)" for ls
    unfolding refuses_def by (intro disjI2 exI [of _ ls] exI [of _ STALE_RECONCILIATION_ID]) simp
  have rebuilding: "refuses (answer 503 (to_envelope REBUILDING) ls)" for ls
    unfolding refuses_def by (intro disjI2 exI [of _ ls] exI [of _ REBUILDING]) simp
  have "?view \<and> same_gate k ls ls'"
  proof (cases "truthy rid")
    case False
    with assms stale show ?thesis by (auto simp: handle_lease_release_def)
  next
    case t: True
    show ?thesis
    proof (cases rule: release_cases [of "rid_arg rid" ls g e t])
      case stale
      with assms t \<open>\<And>ls. refuses (answer 503 (to_envelope STALE_RECONCILIATION_ID) ls)\<close>
      show ?thesis by (auto simp: handle_lease_release_def send_error_def)
    next
      case (rebuilding es ls1)
      with assms t \<open>\<And>ls. refuses (answer 503 (to_envelope REBUILDING) ls)\<close> untouched [OF rebuilding(2)]
      show ?thesis by (auto simp: handle_lease_release_def send_error_def)
    next
      case (absent es ls1)
      have "t \<notin> held_tokens (g, e) ls" using absent(4) held_epoch_of(3) [OF absent(2)] by (auto simp: held_tokens_def)
      moreover have "reconciled (g, e) ls" using absent(1,3) held_epoch_of(3) [OF absent(2)] by (simp add: reconciled_def)
      moreover have "rep = answer 200 [(''released'', VBool False)] ls'" "ls' = ls1"
        using assms t absent(5) by (auto simp: handle_lease_release_def)
      ultimately show ?thesis using untouched [OF absent(2), of k] by auto
    next
      case (freed es ls1 entry)
      note h = held_epoch_of [OF freed(2)]
      have "rep = answer 200 [(''released'', VBool True)] ls'"
        "ls' = put_epoch (g, e) (es_bump (le_kind entry) (-1) (drop_entry t entry es)) (ls_bump (le_kind entry) (-1) ls1)"
        using assms t freed(5) by (auto simp: handle_lease_release_def)
      moreover from this freed(1,3) h have "same_gate k ls ls'" "reconciled (g, e) ls"
        by (simp_all add: reconciled_def held_put)
      ultimately show ?thesis using h by (auto simp: held_tokens_def held_put dom_def)
    qed
  qed
  then show ?view "same_gate k ls ls'" by blast+
qed

text \<open>An acquire: refused with nothing changed, or granted with the new tokens held.\<close>

definition fails :: "lease_reply \<Rightarrow> bool" where
  "fails rep \<longleftrightarrow> rep = Unreachable \<or> (\<exists>st c ls. st \<noteq> 200 \<and> rep = answer st (to_envelope c) ls)"

lemma failsI: "st \<noteq> 200 \<Longrightarrow> fails (answer st (to_envelope c) ls)"
  by (auto simp: fails_def)

lemma http_status_not_ok [simp]: "http_status c \<noteq> 200"
  by (cases c) simp_all

definition grants_reply :: "lease_reply \<Rightarrow> lease_results \<Rightarrow> bool" where
  "grants_reply rep res \<longleftrightarrow> (\<exists>ls. rep = answer 200 [(''tokens'', tokens_json res)] ls) \<and> dict_ok res \<and> res \<noteq> []"

definition new_tokens :: "lease_results \<Rightarrow> string set" where
  "new_tokens res = {t. \<exists>kind. map_of res kind = Some (t, True)}"

lemma acquire_distinct: "acquire g e s a kinds rid ta tv ls = (Inr res, ls') \<Longrightarrow> dict_ok res"
  by (cases "epoch_of (g, e) ls") (auto simp: acquire_def Let_def split: if_splits option.splits)

lemma granted_held:
  "held_tokens k (put_epoch k0 (fst (grants na nl ta tv ka kl (held ls k0, ls1))) (snd (grants na nl ta tv ka kl (held ls k0, ls1)))) =
     (if k = k0 then held_tokens k ls \<union> (if na then {ta} else {}) \<union> (if nl then {tv} else {}) else held_tokens k ls1)"
  for na nl
proof (cases "k = k0")
  case True
  then show ?thesis by (cases na; cases nl) (simp_all add: held_tokens_def held_put grants_def grant_def insert_commute)
next
  case False
  have "held (snd (grants na nl ta tv ka kl (es, ls1))) k = held ls1 k" for es
    by (cases na; cases nl) (simp_all add: grants_def grant_def)
  with False show ?thesis by (simp add: held_tokens_def held_put)
qed

lemma granted_gate:
  "es_reconciled_rid (held (put_epoch k0 (fst (grants na nl ta tv ka kl (held ls k0, ls1))) (snd (grants na nl ta tv ka kl (held ls k0, ls1)))) k) =
     es_reconciled_rid (if k = k0 then held ls k else held ls1 k)"
proof -
  have "held (snd (grants na nl ta tv ka kl (es, ls1))) k = held ls1 k" for es
    by (cases na; cases nl) (simp_all add: grants_def grant_def)
  then show ?thesis by (simp add: held_put grants_simps(9))
qed

lemma handle_acquire_view:
  assumes k: "start_kinds = kinds_of start" and fresh: "ta \<noteq> []" "tv \<noteq> []" "ta \<noteq> tv"
    and h: "handle_lease_acquire g e s a start_kinds rid ta tv ls = (rep, ls')"
  shows "fails rep \<and> held_tokens k ls' = held_tokens k ls \<or>
      (\<exists>res. grants_reply rep res \<and> set (map fst res) \<subseteq> set (kinds_of start) \<and>
         (\<forall>t. map_of res ''active'' = Some (t, True) \<longrightarrow> t = ta) \<and> (\<forall>t. map_of res ''live'' = Some (t, True) \<longrightarrow> t = tv) \<and>
         held_tokens k ls' = (if k = (g, e) then held_tokens k ls \<union> new_tokens res else held_tokens k ls))" (is ?view)
    and "same_gate k ls ls'"
proof -
  have kinds: "set start_kinds \<subseteq> {''active'', ''live''}" using k by (simp add: kinds_of_def)
  have "?view \<and> same_gate k ls ls'"
  proof (cases "g = [] \<or> e = [] \<or> s = [] \<or> start_kinds = [] \<or> \<not> truthy rid")
    case True
    then have "ls' = ls" "fails rep" using h failsI by (auto simp: handle_lease_acquire_def split: if_splits)
    then show ?thesis by simp
  next
    case False
    then have h2: "(rep, ls') = (case acquire g e s a start_kinds (rid_arg rid) ta tv ls of
             (Inl x, ls1) \<Rightarrow> (send_error x ls1, ls1)
           | (Inr res, ls1) \<Rightarrow> (answer 200 [(''tokens'', tokens_json res)] ls1, ls1))"
      using h by (simp add: handle_lease_acquire_def)
    show ?thesis
    proof (cases rule: acquire_cases [of "rid_arg rid" ls g e s a start_kinds ta tv])
      case stale
      then have "rep = send_error (NelixError STALE_RECONCILIATION_ID) ls" "ls' = ls" using h2 by simp_all
      then show ?thesis using failsI by (simp add: send_error_def)
    next
      case (rebuilding es ls1)
      then have "rep = send_error (NelixError REBUILDING) ls1" "ls' = ls1" using h2 by simp_all
      then show ?thesis using failsI untouched [OF rebuilding(2), of k] by (simp add: send_error_def)
    next
      case (limit es ls1)
      then have "rep = send_error (NelixError CONCURRENCY_LIMIT) ls1" "ls' = ls1" using h2 by simp_all
      then show ?thesis using failsI untouched [OF limit(2), of k] by (simp add: send_error_def)
    next
      case (granted es ls1 na nl res)
      note eh = held_epoch_of [OF granted(2)]
      have rep: "rep = answer 200 [(''tokens'', tokens_json res)] ls'" using h2 granted(9) by simp
      have ls': "ls' = put_epoch (g, e) (fst (grants na nl ta tv (kind_keys g e s a ''active'') (kind_keys g e s a ''live'') (es, ls1)))
          (snd (grants na nl ta tv (kind_keys g e s a ''active'') (kind_keys g e s a ''live'') (es, ls1)))"
        using h2 granted(9) by simp
      have d: "dict_ok res" by (rule acquire_distinct [OF granted(9)])
      have "start_kinds \<noteq> []" using False by simp
      then have "''active'' \<in> set start_kinds \<or> ''live'' \<in> set start_kinds" using kinds by (cases start_kinds) auto
      then have "res \<noteq> []" using granted(8) by (auto split: option.splits if_splits dest: fun_cong)
      with rep d have r: "grants_reply rep res" by (auto simp: grants_reply_def)
      have "dom (map_of res) \<subseteq> set start_kinds" unfolding granted(8) by (auto split: if_splits option.splits)
      then have sub: "set (map fst res) \<subseteq> set (kinds_of start)" using k by (simp add: dom_map_of_conv_image_fst)
      have at: "map_of res ''active'' = Some (t, True) \<longleftrightarrow> na \<and> t = ta" "map_of res ''live'' = Some (t, True) \<longleftrightarrow> nl \<and> t = tv" for t
        unfolding granted(8) granted(4,5) by (simp_all split: option.splits) blast+
      have "map_of res kind = Some (t, True) \<longleftrightarrow> kind = ''active'' \<and> na \<and> t = ta \<or> kind = ''live'' \<and> nl \<and> t = tv" for kind t
        using at [of t] \<open>dom (map_of res) \<subseteq> set start_kinds\<close> kinds by (cases "kind \<in> {''active'', ''live''}") auto
      then have new: "new_tokens res = (if na then {ta} else {}) \<union> (if nl then {tv} else {})"
        unfolding new_tokens_def by simp blast
      have "held_tokens k ls' = (if k = (g, e) then held_tokens k ls \<union> new_tokens res else held_tokens k ls)"
        unfolding ls' new eh(3) granted_held using untouched(1) [OF granted(2), of k] by auto
      moreover have rid': "ls_reconciliation_id ls' = ls_reconciliation_id ls"
        unfolding ls' using eh(2) by (simp add: grants_simps(4))
      moreover have "es_reconciled_rid (held ls' k) = es_reconciled_rid (held ls k)"
        unfolding ls' eh(3) granted_gate eh(1) by simp
      then have "same_gate k ls ls'" by (simp only: reconciled_def rid')
      ultimately show ?thesis using r sub at by blast
    qed
  qed
  then show ?view "same_gate k ls ls'" by blast+
qed

text \<open>A registration: it either changes nothing or loads exactly the snapshot into an epoch that had not reconciled.\<close>

lemma handle_register_view:
  assumes "handle_lease_register_snapshot g e rid act live ls = (rep, ls')"
  shows "held_tokens k ls' = held_tokens k ls \<and> same_gate k ls ls' \<or>
      k = (g, e) \<and> rid = VStr (ls_reconciliation_id ls) \<and> \<not> reconciled k ls \<and>
      held_tokens k ls' = entry_tid ` (set act \<union> set live) \<and> reconciled k ls' \<and> ls_reconciliation_id ls' = ls_reconciliation_id ls" (is ?goal)
proof (cases "g = [] \<or> e = [] \<or> \<not> truthy rid \<or> rid_arg rid = None")
  case True
  then have "ls' = ls" using assms
    by (auto simp: handle_lease_register_snapshot_def rid_arg_def split: if_splits pyval.splits)
  then show ?thesis by simp
next
  case False
  then obtain r where r: "rid = VStr r" by (cases rid) (auto simp: rid_arg_def)
  then have ls': "ls' = snd (register_snapshot g e r act live ls)"
    using False assms by (auto simp: handle_lease_register_snapshot_def split: prod.splits sum.splits)
  show ?thesis
  proof (cases rule: register_cases [of r ls g e act live])
    case stale
    with ls' show ?thesis by simp
  next
    case (already es ls1)
    with ls' untouched [OF already(2), of k] show ?thesis by simp
  next
    case (refused es ls1 x)
    with ls' untouched [OF refused(2), of k] show ?thesis by simp
  next
    case (loaded es ls1)
    note eh = held_epoch_of [OF loaded(2)] and un = untouched [OF loaded(2), of k] and sn = snapshot_epoch_facts(2) [OF loaded(4)]
    have other: "held ls' k = held ls k" if "k \<noteq> (g, e)"
      using that ls' loaded(5) eh(1) [of k] by (simp add: held_put) (simp add: held_eq)
    have "held_tokens (g, e) ls' = entry_tid ` (set act \<union> set live)"
      using ls' loaded(5) by (auto simp: held_tokens_def held_put sn dom_map_of_conv_image_fst entries_of_def image_iff)
    moreover have "reconciled (g, e) ls'" "ls_reconciliation_id ls' = ls_reconciliation_id ls"
      using ls' loaded(1,5) eh(2) by (simp_all add: reconciled_def held_put)
    moreover have "\<not> reconciled (g, e) ls" using loaded(1,3) eh(3) by (simp add: reconciled_def)
    ultimately show ?thesis using other r loaded(1) by (cases "k = (g, e)") (simp_all add: held_tokens_def reconciled_def)
  qed
qed

section \<open>One token\<close>

text \<open>What a thread does with tokens: owns, is to release, retries, has an acknowledgement for, will register.\<close>

fun th_owned :: "lease_pc \<Rightarrow> string set" where
  "th_owned (AcquireReplied s a start rep) = fst ` set (granted_tokens rep)"
| "th_owned (Granted s a start tokens) = fst ` set (grants_of tokens)"
| "th_owned pc = {}"

fun th_staged :: "lease_pc \<Rightarrow> string set" where
  "th_staged (Releasing ts) = set ts"
| "th_staged (ReleaseReplied t rep ts) = insert t (set ts)"
| "th_staged pc = {}"

fun th_retried :: "lease_pc \<Rightarrow> string set" where
  "th_retried (Retrying rid ts fin) = set ts"
| "th_retried (RetryReplied rid t rep ts fin) = insert t (set ts)"
| "th_retried pc = {}"

fun th_acked :: "lease_pc \<Rightarrow> string set" where
  "th_acked (ReleaseReplied t rep ts) = (if acknowledges rep then {t} else {})"
| "th_acked (RetryReplied rid t rep ts fin) = (if acknowledges rep then {t} else {})"
| "th_acked pc = {}"

fun th_snapshot :: "pyval \<Rightarrow> lease_pc \<Rightarrow> string set" where
  "th_snapshot rid (Registering rid' active live) =
     (if rid' = rid then entry_tid ` json_wire ` (set active \<union> set live) else {})"
| "th_snapshot rid pc = {}"

lemma th_acked_released: "t \<in> th_acked pc \<Longrightarrow> t \<in> th_staged pc \<union> th_retried pc"
  by (cases pc) (auto split: if_splits)

datatype owner = Active string | Live string | Thread nat

record token_view =
  tv_active :: "string \<Rightarrow> string option"
  tv_live :: "string \<Rightarrow> string option"
  tv_threads :: "nat \<Rightarrow> lease_pc"
  tv_outbox :: "string set"
  tv_held :: "string set"
  tv_rid :: string
  tv_reconciled :: bool

primrec owns :: "token_view \<Rightarrow> owner \<Rightarrow> string \<Rightarrow> bool" where
  "owns v (Active s) t = (tv_active v s = Some t)"
| "owns v (Live s) t = (tv_live v s = Some t)"
| "owns v (Thread i) t = (t \<in> th_owned (tv_threads v i))"

definition staged :: "token_view \<Rightarrow> string \<Rightarrow> bool" where
  "staged v t \<longleftrightarrow> (\<exists>i. t \<in> th_staged (tv_threads v i))"

definition released :: "token_view \<Rightarrow> string \<Rightarrow> bool" where
  "released v t \<longleftrightarrow> t \<in> tv_outbox v \<or> staged v t \<or> (\<exists>i. t \<in> th_retried (tv_threads v i))"

definition acked :: "token_view \<Rightarrow> string \<Rightarrow> bool" where
  "acked v t \<longleftrightarrow> (\<exists>i. t \<in> th_acked (tv_threads v i))"

definition known :: "token_view \<Rightarrow> string \<Rightarrow> bool" where
  "known v t \<longleftrightarrow> (\<exists>w. owns v w t) \<or> t \<in> tv_outbox v \<or> staged v t"

definition needed :: "token_view \<Rightarrow> string \<Rightarrow> bool" where
  "needed v t \<longleftrightarrow> t \<in> tv_held v \<or> \<not> tv_reconciled v \<and> (\<exists>i. t \<in> th_snapshot (VStr (tv_rid v)) (tv_threads v i))"

definition token_ok :: "token_view \<Rightarrow> string \<Rightarrow> bool" where
  "token_ok v t \<longleftrightarrow>
     (\<forall>w w'. owns v w t \<longrightarrow> owns v w' t \<longrightarrow> w = w') \<and>
     (\<forall>w. owns v w t \<longrightarrow> \<not> released v t) \<and>
     ((\<exists>w. owns v w t) \<or> released v t \<longrightarrow> t \<noteq> []) \<and>
     (needed v t \<longrightarrow> known v t \<and> \<not> acked v t)"

lemma acked_released: "acked v t \<Longrightarrow> released v t"
  unfolding acked_def released_def staged_def using th_acked_released by blast

text \<open>One thread moves: everything splits into that thread and the others.\<close>

definition move :: "nat \<Rightarrow> lease_pc \<Rightarrow> token_view \<Rightarrow> token_view" where
  "move i pc v = v\<lparr>tv_threads := (tv_threads v)(i := pc)\<rparr>"

definition others :: "(lease_pc \<Rightarrow> bool) \<Rightarrow> nat \<Rightarrow> token_view \<Rightarrow> bool" where
  "others P i v \<longleftrightarrow> (\<exists>j. j \<noteq> i \<and> P (tv_threads v j))"

lemma split_thread: "(\<exists>j. P (tv_threads v j)) \<longleftrightarrow> P (tv_threads v i) \<or> others P i v"
  unfolding others_def by metis

lemma others_move [simp]: "others P i (move i pc v) = others P i v"
  by (auto simp: others_def move_def)

lemma move_simps [simp]:
  "tv_active (move i pc v) = tv_active v" "tv_live (move i pc v) = tv_live v" "tv_outbox (move i pc v) = tv_outbox v"
  "tv_held (move i pc v) = tv_held v" "tv_rid (move i pc v) = tv_rid v" "tv_reconciled (move i pc v) = tv_reconciled v"
  "tv_threads (move i pc v) = (tv_threads v)(i := pc)"
  by (simp_all add: move_def)

text \<open>
  A step that leaves the tables alone: enough that the thread takes up only a token it owned or
  that nobody has, releases only what was being released or what it gives up, forgets nothing
  that is needed, and creates acknowledgements only for what is not.
\<close>

lemma token_ok_step:
  assumes ok: "token_ok v t" and v': "v' = move i pc (v\<lparr>tv_outbox := Ob, tv_held := R, tv_reconciled := rec\<rparr>)"
    and own: "t \<in> th_owned pc \<Longrightarrow> t \<in> th_owned (tv_threads v i) \<or> t \<noteq> [] \<and> \<not> (\<exists>w. owns v w t) \<and> \<not> released v t"
    and rel: "t \<in> Ob \<or> t \<in> th_staged pc \<or> t \<in> th_retried pc \<Longrightarrow>
      released v t \<or> t \<in> th_owned (tv_threads v i) \<and> t \<notin> th_owned pc"
    and excl: "t \<in> th_owned pc \<Longrightarrow> t \<notin> Ob \<and> t \<notin> th_staged pc \<and> t \<notin> th_retried pc"
    and need: "needed v' t \<Longrightarrow> known v' t \<and> \<not> acked v' t"
  shows "token_ok v' t"
proof -
  have owner': "owns v' w t \<longleftrightarrow> (if w = Thread i then t \<in> th_owned pc else owns v w t)" for w
    by (cases w) (auto simp: v')
  have uniq: "owns v w t \<Longrightarrow> owns v w' t \<Longrightarrow> w = w'" and ndis: "owns v w t \<Longrightarrow> \<not> released v t"
    and ne: "owns v w t \<or> released v t \<Longrightarrow> t \<noteq> []" for w w'
    using ok unfolding token_ok_def by blast+
  have here: "owns v (Thread i) t \<longleftrightarrow> t \<in> th_owned (tv_threads v i)" by simp
  have rel_others: "released v' t \<Longrightarrow> t \<in> Ob \<or> t \<in> th_staged pc \<or> t \<in> th_retried pc \<or>
      (\<exists>j. j \<noteq> i \<and> t \<in> th_staged (tv_threads v j) \<union> th_retried (tv_threads v j))"
    by (auto simp: released_def staged_def v' split: if_splits)
  have old: "\<exists>j. j \<noteq> i \<and> t \<in> th_staged (tv_threads v j) \<union> th_retried (tv_threads v j) \<Longrightarrow> released v t"
    by (auto simp: released_def staged_def)
  have rel': "released v' t \<Longrightarrow> released v t \<or> owns v (Thread i) t \<and> t \<notin> th_owned pc"
    using rel_others rel old here by blast
  show ?thesis unfolding token_ok_def
  proof (intro conjI allI impI)
    fix w w' assume "owns v' w t" "owns v' w' t"
    then show "w = w'" using uniq own here unfolding owner' by (metis (full_types))
  next
    fix w assume w: "owns v' w t"
    show "\<not> released v' t"
    proof
      assume r: "released v' t"
      show False
      proof (cases "w = Thread i")
        case True
        then have p: "t \<in> th_owned pc" using w owner' by metis
        from rel_others [OF r] excl [OF p] old have "released v t" by blast
        with own [OF p] ndis here show False by blast
      next
        case False
        then have "owns v w t" using w owner' by metis
        with rel' [OF r] ndis uniq False show False by blast
      qed
    qed
  next
    assume "(\<exists>w. owns v' w t) \<or> released v' t"
    then show "t \<noteq> []" using owner' own ne here rel' by (metis (full_types))
  qed (use need in blast)+
qed

text \<open>The same facts split by thread, for a step of thread \<open>i\<close>.\<close>

definition tabled :: "token_view \<Rightarrow> string \<Rightarrow> bool" where
  "tabled v t \<longleftrightarrow> (\<exists>s. tv_active v s = Some t) \<or> (\<exists>s. tv_live v s = Some t)"

lemma owned_at:
  "(\<exists>w. owns v w t) \<longleftrightarrow> tabled v t \<or> t \<in> th_owned (tv_threads v i) \<or> others (\<lambda>p. t \<in> th_owned p) i v"
proof -
  have "(\<exists>w. owns v w t) \<longleftrightarrow> tabled v t \<or> (\<exists>j. t \<in> th_owned (tv_threads v j))"
    unfolding tabled_def by (metis owner.exhaust owns.simps)
  with split_thread [of "\<lambda>p. t \<in> th_owned p" v i] show ?thesis by simp
qed

lemma staged_at: "staged v t \<longleftrightarrow> t \<in> th_staged (tv_threads v i) \<or> others (\<lambda>p. t \<in> th_staged p) i v"
  unfolding staged_def by (rule split_thread)

lemma released_at:
  "released v t \<longleftrightarrow> t \<in> tv_outbox v \<or> t \<in> th_staged (tv_threads v i) \<or> others (\<lambda>p. t \<in> th_staged p) i v \<or>
     t \<in> th_retried (tv_threads v i) \<or> others (\<lambda>p. t \<in> th_retried p) i v"
  unfolding released_def staged_at [of _ _ i] using split_thread [of "\<lambda>p. t \<in> th_retried p" v i] by simp

lemma acked_at: "acked v t \<longleftrightarrow> t \<in> th_acked (tv_threads v i) \<or> others (\<lambda>p. t \<in> th_acked p) i v"
  unfolding acked_def by (rule split_thread)

lemma known_at:
  "known v t \<longleftrightarrow> tabled v t \<or> t \<in> th_owned (tv_threads v i) \<or> others (\<lambda>p. t \<in> th_owned p) i v \<or> t \<in> tv_outbox v \<or>
     t \<in> th_staged (tv_threads v i) \<or> others (\<lambda>p. t \<in> th_staged p) i v"
  unfolding known_def owned_at [of _ _ i] staged_at [of _ _ i] by simp

lemma needed_at:
  "needed v t \<longleftrightarrow> t \<in> tv_held v \<or> \<not> tv_reconciled v \<and>
     (t \<in> th_snapshot (VStr (tv_rid v)) (tv_threads v i) \<or> others (\<lambda>p. t \<in> th_snapshot (VStr (tv_rid v)) p) i v)"
  unfolding needed_def using split_thread [of "\<lambda>p. t \<in> th_snapshot (VStr (tv_rid v)) p" v i] by simp

lemma others_update [simp]:
  "others P i (v\<lparr>tv_outbox := xs\<rparr>) = others P i v" "others P i (v\<lparr>tv_held := xs\<rparr>) = others P i v"
  "others P i (v\<lparr>tv_reconciled := b\<rparr>) = others P i v"
  by (simp_all add: others_def)

section \<open>The whole\<close>

definition thread_at :: "lease_net \<Rightarrow> nat \<Rightarrow> lease_pc" where
  "thread_at n i = (if i < length (ln_threads n) then ln_threads n ! i else Resting)"

definition net_view :: "epoch_key \<Rightarrow> lease_net \<Rightarrow> token_view" where
  "net_view k n =
     \<lparr>tv_active = map_of (lt_active (ln_tables n)), tv_live = map_of (lt_live (ln_tables n)), tv_threads = thread_at n,
      tv_outbox = set (lc_outbox (ln_client n)), tv_held = held_tokens k (ln_router n),
      tv_rid = ls_reconciliation_id (ln_router n), tv_reconciled = reconciled k (ln_router n)\<rparr>"

lemma net_view_simps [simp]:
  "tv_active (net_view k n) = map_of (lt_active (ln_tables n))" "tv_live (net_view k n) = map_of (lt_live (ln_tables n))"
  "tv_threads (net_view k n) = thread_at n" "tv_outbox (net_view k n) = set (lc_outbox (ln_client n))"
  "tv_held (net_view k n) = held_tokens k (ln_router n)" "tv_rid (net_view k n) = ls_reconciliation_id (ln_router n)"
  "tv_reconciled (net_view k n) = reconciled k (ln_router n)"
  by (simp_all add: net_view_def)

text \<open>The results of a delivered acquire, and the replies a thread may be holding.\<close>

definition results_ok :: "string set \<Rightarrow> bool \<Rightarrow> lease_results \<Rightarrow> bool" where
  "results_ok U start res \<longleftrightarrow>
     dict_ok res \<and> set (map fst res) \<subseteq> set (kinds_of start) \<and>
     (\<forall>kind t. map_of res kind = Some (t, False) \<longrightarrow> t \<in> U \<or> t = []) \<and>
     (\<forall>t. map_of res ''active'' = Some (t, True) \<longrightarrow> map_of res ''live'' = Some (t, True) \<longrightarrow> t \<in> U)"

fun th_ok :: "string set \<Rightarrow> lease_pc \<Rightarrow> bool" where
  "th_ok U (AcquireReplied s a start rep) \<longleftrightarrow> fails rep \<or> (\<exists>res. grants_reply rep res \<and> results_ok U start res)"
| "th_ok U (Granted s a start tokens) \<longleftrightarrow> (\<exists>res. tokens = tokens_json res \<and> results_ok U start res)"
| "th_ok U (ReleaseReplied t rep ts) \<longleftrightarrow> t \<in> U \<or> acknowledges rep \<or> refuses rep"
| "th_ok U (FailingTurn s t) \<longleftrightarrow> t \<in> U"
| "th_ok U (FailingReplied s t rep) \<longleftrightarrow> t \<in> U"
| "th_ok U pc \<longleftrightarrow> True"

lemma results_ok_mono: "U \<subseteq> U' \<Longrightarrow> results_ok U start res \<Longrightarrow> results_ok U' start res"
  unfolding results_ok_def by blast

lemma th_ok_mono: "U \<subseteq> U' \<Longrightarrow> th_ok U pc \<Longrightarrow> th_ok U' pc"
  using results_ok_mono by (cases pc) auto

definition net_ok :: "epoch_key \<Rightarrow> lease_net \<Rightarrow> bool" where
  "net_ok k n \<longleftrightarrow>
     (lt_gen_id (ln_tables n), lt_gen_epoch (ln_tables n)) = k \<and> (lc_gen_id (ln_client n), lc_gen_epoch (ln_client n)) = k \<and>
     dict_ok (lt_active (ln_tables n)) \<and> dict_ok (lt_live (ln_tables n)) \<and>
     (\<forall>i. th_ok (set (ln_stray n)) (thread_at n i)) \<and>
     (\<forall>t. t \<notin> set (ln_stray n) \<longrightarrow> token_ok (net_view k n) t)"

lemma thread_at_set: "i < length (ln_threads n) \<Longrightarrow> thread_at (set_thread i pc n) = (thread_at n)(i := pc)"
  by (auto simp: thread_at_def set_thread_def fun_eq_iff)

lemma net_view_set:
  assumes "i < length (ln_threads n)" "ln_threads n1 = ln_threads n"
    "map_of (lt_active (ln_tables n1)) = map_of (lt_active (ln_tables n))"
    "map_of (lt_live (ln_tables n1)) = map_of (lt_live (ln_tables n))"
    "ls_reconciliation_id (ln_router n1) = ls_reconciliation_id (ln_router n)"
  shows "net_view k (set_thread i pc n1) = move i pc ((net_view k n)\<lparr>tv_outbox := set (lc_outbox (ln_client n1)),
    tv_held := held_tokens k (ln_router n1), tv_reconciled := reconciled k (ln_router n1)\<rparr>)"
  using assms by (simp add: net_view_def move_def thread_at_set) (simp add: set_thread_def thread_at_def fun_eq_iff)

end
