(* ===== verification/Nelix_Lease_Net_Steps.thy ===== *)
theory Nelix_Lease_Net_Steps
  imports Nelix_Lease_Net_Inv
begin

text \<open>Every step of the lease protocol keeps its invariant.\<close>

section \<open>Steps of a thread that leave the tables alone\<close>

lemmas at_thread = known_at released_at acked_at needed_at

text \<open>What the invariant says of a token, split at a thread.\<close>

lemma token_facts:
  assumes "net_ok k n" "t \<notin> set (ln_stray n)"
  shows "t \<in> th_owned (thread_at n i) \<Longrightarrow> \<not> released (net_view k n) t"
    "t \<in> th_owned (thread_at n i) \<Longrightarrow> t \<noteq> []"
    "released (net_view k n) t \<Longrightarrow> t \<noteq> []"
    "tabled (net_view k n) t \<Longrightarrow> \<not> released (net_view k n) t"
    "needed (net_view k n) t \<Longrightarrow> known (net_view k n) t" "needed (net_view k n) t \<Longrightarrow> \<not> acked (net_view k n) t"
    "acked (net_view k n) t \<Longrightarrow> released (net_view k n) t"
proof -
  have ok: "token_ok (net_view k n) t" using assms by (simp add: net_ok_def)
  have o: "owns (net_view k n) (Thread i) t" if "t \<in> th_owned (thread_at n i)" using that by simp
  show "t \<in> th_owned (thread_at n i) \<Longrightarrow> \<not> released (net_view k n) t"
    "t \<in> th_owned (thread_at n i) \<Longrightarrow> t \<noteq> []" "released (net_view k n) t \<Longrightarrow> t \<noteq> []"
    "needed (net_view k n) t \<Longrightarrow> known (net_view k n) t" "needed (net_view k n) t \<Longrightarrow> \<not> acked (net_view k n) t"
    using ok o unfolding token_ok_def by blast+
  show "tabled (net_view k n) t \<Longrightarrow> \<not> released (net_view k n) t"
    using ok owned_at [of "net_view k n" t i] unfolding token_ok_def by blast
qed (rule acked_released)

lemma thread_step_ok:
  assumes ok: "net_ok k n" and i: "i < length (ln_threads n)"
    and threads: "ln_threads n1 = ln_threads n"
    and tables: "lt_active (ln_tables n1) = lt_active (ln_tables n)" "lt_live (ln_tables n1) = lt_live (ln_tables n)"
      "lt_gen_id (ln_tables n1) = lt_gen_id (ln_tables n)" "lt_gen_epoch (ln_tables n1) = lt_gen_epoch (ln_tables n)"
    and client: "lc_gen_id (ln_client n1) = lc_gen_id (ln_client n)" "lc_gen_epoch (ln_client n1) = lc_gen_epoch (ln_client n)"
    and rid: "ls_reconciliation_id (ln_router n1) = ls_reconciliation_id (ln_router n)"
    and stray: "set (ln_stray n) \<subseteq> set (ln_stray n1)" and pc: "th_ok (set (ln_stray n1)) pc"
    and own: "\<And>t. t \<notin> set (ln_stray n1) \<Longrightarrow> t \<in> th_owned pc \<Longrightarrow> t \<in> th_owned (thread_at n i) \<or>
      t \<noteq> [] \<and> \<not> (\<exists>w. owns (net_view k n) w t) \<and> \<not> released (net_view k n) t"
    and rel: "\<And>t. t \<notin> set (ln_stray n1) \<Longrightarrow> t \<in> set (lc_outbox (ln_client n1)) \<or> t \<in> th_staged pc \<or> t \<in> th_retried pc \<Longrightarrow>
      released (net_view k n) t \<or> t \<in> th_owned (thread_at n i) \<and> t \<notin> th_owned pc"
    and excl: "\<And>t. t \<notin> set (ln_stray n1) \<Longrightarrow> t \<in> th_owned pc \<Longrightarrow>
      t \<notin> set (lc_outbox (ln_client n1)) \<and> t \<notin> th_staged pc \<and> t \<notin> th_retried pc"
    and need: "\<And>t. t \<notin> set (ln_stray n1) \<Longrightarrow>
      t \<in> held_tokens k (ln_router n1) \<or> \<not> reconciled k (ln_router n1) \<and>
        (t \<in> th_snapshot (VStr (ls_reconciliation_id (ln_router n))) pc \<or>
         others (\<lambda>p. t \<in> th_snapshot (VStr (ls_reconciliation_id (ln_router n))) p) i (net_view k n)) \<Longrightarrow>
      (tabled (net_view k n) t \<or> t \<in> th_owned pc \<or> others (\<lambda>p. t \<in> th_owned p) i (net_view k n) \<or>
        t \<in> set (lc_outbox (ln_client n1)) \<or> t \<in> th_staged pc \<or> others (\<lambda>p. t \<in> th_staged p) i (net_view k n)) \<and>
      \<not> (t \<in> th_acked pc \<or> others (\<lambda>p. t \<in> th_acked p) i (net_view k n))"
  shows "net_ok k (set_thread i pc n1)"
proof -
  let ?v = "net_view k n"
  have v': "net_view k (set_thread i pc n1) = move i pc (?v\<lparr>tv_outbox := set (lc_outbox (ln_client n1)),
    tv_held := held_tokens k (ln_router n1), tv_reconciled := reconciled k (ln_router n1)\<rparr>)" (is "_ = ?v'")
    by (rule net_view_set [OF i threads _ _ rid]) (simp_all add: tables)
  have th': "thread_at (set_thread i pc n1) = (thread_at n)(i := pc)"
    using thread_at_set [of i n1 pc] i threads by (simp add: thread_at_def fun_eq_iff)
  have "token_ok ?v' t" if t: "t \<notin> set (ln_stray n1)" for t
  proof (rule token_ok_step [OF _ refl])
    show "token_ok ?v t" using ok t stray unfolding net_ok_def by blast
    show "needed ?v' t \<Longrightarrow> known ?v' t \<and> \<not> acked ?v' t"
      using need [OF t] unfolding at_thread [of _ t i] by (simp add: tabled_def)
  qed (use own [OF t] rel [OF t] excl [OF t] in simp_all)
  moreover have "th_ok (set (ln_stray n1)) (thread_at (set_thread i pc n1) j)" for j
    using ok pc th_ok_mono [OF stray] unfolding net_ok_def th' by simp
  ultimately show ?thesis
    using ok tables client unfolding net_ok_def v' by (simp add: set_thread_def)
qed

section \<open>Calls of the router\<close>

text \<open>What a call can do to the client's view of the router and to the reply.\<close>

lemma call_frame:
  assumes "call f ta tv req n = (rep, n1)"
  shows "ln_threads n1 = ln_threads n" "ln_tables n1 = ln_tables n" "ln_client n1 = ln_client n"
    "ln_stray n1 = ln_stray n @ strays f ta tv req (ln_router n)"
    "f = RequestLost \<Longrightarrow> rep = Unreachable \<and> ln_router n1 = ln_router n"
    "f = Delivered \<Longrightarrow> (rep, ln_router n1) = handle_lease ta tv req (ln_router n)"
    "f = ReplyLost \<Longrightarrow> rep = Unreachable \<and> ln_router n1 = snd (handle_lease ta tv req (ln_router n))"
  using assms by (auto simp: call_def deliver_def split: fault.splits prod.splits)

lemma no_strays:
  "granted_tokens (fst (handle_lease ta tv req ls)) = [] \<Longrightarrow> strays f ta tv req ls = []"
  by (simp add: strays_def Let_def split: fault.splits)

lemma granted_answer: "granted_tokens (answer st d ls) = (case map_of d ''tokens'' of Some x \<Rightarrow> grants_of x | None \<Rightarrow> [])"
  by (simp add: granted_tokens_def answer_def map_add_def split: option.split)

lemma envelope_no_tokens [simp]: "map_of (to_envelope c) ''tokens'' = None"
  by (simp add: to_envelope_def)

lemma granted_error [simp]: "granted_tokens (answer st (to_envelope c) ls) = []" "granted_tokens Unreachable = []"
  by (simp_all add: granted_answer) (simp add: granted_tokens_def)

lemma granted_send_error [simp]: "granted_tokens (send_error x ls) = []"
  by (cases x) (simp_all add: send_error_def, simp_all add: granted_tokens_def to_envelope_def)

text \<open>A release: acknowledged by a reconciled router that no longer holds the token, or nothing known changes.\<close>

lemma call_release:
  assumes c: "call f ta tv (ReleaseRequest t (fst k) (snd k) rid) n = (rep, n1)"
  shows "ls_reconciliation_id (ln_router n1) = ls_reconciliation_id (ln_router n)"
    "reconciled k (ln_router n1) = reconciled k (ln_router n)" "ln_stray n1 = ln_stray n"
    "held_tokens k (ln_router n1) \<subseteq> held_tokens k (ln_router n)"
    "held_tokens k (ln_router n) - {t} \<subseteq> held_tokens k (ln_router n1)"
    "t \<noteq> [] \<Longrightarrow> acknowledges rep \<Longrightarrow> reconciled k (ln_router n) \<and> t \<notin> held_tokens k (ln_router n1)"
    "t \<noteq> [] \<Longrightarrow> acknowledges rep \<or> refuses rep"
proof -
  let ?ls = "ln_router n" and ?h = "handle_lease_release t (fst k) (snd k) rid (ln_router n)"
  have "granted_tokens (fst ?h) = []"
    by (auto simp: handle_lease_release_def granted_answer split: prod.splits sum.splits)
  then show "ln_stray n1 = ln_stray n" using call_frame(4) [OF c] no_strays by simp
  obtain rep0 ls0 where h: "?h = (rep0, ls0)" by fastforce
  have cases: "ln_router n1 = ?ls \<and> rep = Unreachable \<or> ln_router n1 = ls0 \<and> rep = rep0 \<or> ln_router n1 = ls0 \<and> rep = Unreachable"
    using call_frame(5-7) [OF c] h by (cases f) simp_all
  have empty: "ls0 = ?ls" if "t = []" using that h by (simp add: handle_lease_release_def)
  have gate: "same_gate k ?ls ls0" and held0: "held_tokens k ls0 \<subseteq> held_tokens k ?ls" "held_tokens k ?ls - {t} \<subseteq> held_tokens k ls0"
    using empty handle_release_view [OF _ h, of k] by (cases "t = []"; auto)+
  have router: "ln_router n1 = ?ls \<or> ln_router n1 = ls0" using cases by blast
  from router gate held0 show "ls_reconciliation_id (ln_router n1) = ls_reconciliation_id (ln_router n)"
    "reconciled k (ln_router n1) = reconciled k (ln_router n)"
    "held_tokens k (ln_router n1) \<subseteq> held_tokens k (ln_router n)"
    "held_tokens k (ln_router n) - {t} \<subseteq> held_tokens k (ln_router n1)"
    by (metis order_refl Diff_subset)+
  have view: "acknowledges rep0 \<and> reconciled k ?ls \<and> held_tokens k ls0 = held_tokens k ?ls - {t} \<or> refuses rep0" if "t \<noteq> []"
    using handle_release_view(1) [OF that h, of k] by auto
  show "reconciled k ?ls \<and> t \<notin> held_tokens k (ln_router n1)" if t: "t \<noteq> []" and ack: "acknowledges rep"
  proof -
    have "ln_router n1 = ls0" "rep = rep0" using cases ack by auto
    with view [OF t] ack ack_not_refuses show ?thesis by auto
  qed
  have "refuses Unreachable" by (simp add: refuses_def)
  then show "acknowledges rep \<or> refuses rep" if "t \<noteq> []"
    using cases view [OF that] by metis
qed

section \<open>The client's side of a reply\<close>

definition same_client :: "lease_client \<Rightarrow> lease_client \<Rightarrow> bool" where
  "same_client lc lc' \<longleftrightarrow> lc_gen_id lc' = lc_gen_id lc \<and> lc_gen_epoch lc' = lc_gen_epoch lc"

lemma receive_frame:
  assumes "receive rep lc = (r, lc')"
  shows "same_client lc lc'" "lc_outbox lc' = lc_outbox lc"
    "(\<exists>d. r = Inr (200, d)) \<longleftrightarrow> acknowledges rep"
    "r = Inr (st, d) \<Longrightarrow> rep = Answered st (VDict d)"
  using assms
  by (auto simp: receive_def update_from_response_def same_client_def acknowledges_def split: lease_reply.splits pyval.splits option.splits if_splits)

lemma receive_refusal:
  assumes "refuses rep"
  shows "fst (receive rep lc) = Inl RouterUnavailable \<or>
    (\<exists>(ls::lease_service) c. retryable c \<and> fst (receive rep lc) = Inr (503, to_envelope c @ [(''reconciliation_id'', VStr (ls_reconciliation_id ls))]))"
proof (cases "rep = Unreachable")
  case False
  with assms obtain ls c where "retryable c" "rep = answer 503 (to_envelope c) ls" by (auto simp: refuses_def)
  then show ?thesis
    by (intro disjI2 exI [of _ ls] exI [of _ c]) (simp add: receive_def answer_def update_from_response_def)
qed (simp add: receive_def)

lemma release_reply_effect:
  assumes "release_reply t rep lc = (r, lc')"
  shows "same_client lc lc'" "set (lc_outbox lc') - {t} = set (lc_outbox lc) - {t}"
    "acknowledges rep \<Longrightarrow> set (lc_outbox lc') = set (lc_outbox lc) - {t}"
    "refuses rep \<Longrightarrow> set (lc_outbox lc') = insert t (set (lc_outbox lc))"
proof -
  obtain rr lc1 where rc: "receive rep lc = (rr, lc1)" by fastforce
  note f = receive_frame [OF rc]
  have out: "set (lc_outbox (outbox_add t lc1)) = insert t (set (lc_outbox lc))"
    "set (lc_outbox (outbox_remove t lc1)) = set (lc_outbox lc) - {t}"
    "same_client lc (outbox_add t lc1)" "same_client lc (outbox_remove t lc1)"
    using f(1,2) by (auto simp: outbox_add_def outbox_remove_def same_client_def)
  have "lc' = lc1 \<or> lc' = outbox_add t lc1 \<or> lc' = outbox_remove t lc1"
  proof (cases rr)
    case (Inl x)
    then show ?thesis using assms by (cases x) (simp_all add: release_reply_def rc)
  next
    case (Inr sd)
    obtain st d where "sd = (st, d)" by fastforce
    then show ?thesis using assms Inr by (cases "error_of d") (simp_all add: release_reply_def rc split: if_splits)
  qed
  then show "same_client lc lc'" "set (lc_outbox lc') - {t} = set (lc_outbox lc) - {t}"
    by (elim disjE; simp add: out f(1,2))+
  show "acknowledges rep \<Longrightarrow> set (lc_outbox lc') = set (lc_outbox lc) - {t}"
  proof -
    assume "acknowledges rep"
    then obtain d where "rr = Inr (200, d)" using f(3) by blast
    then have "lc' = outbox_remove t lc1" using assms by (simp add: release_reply_def rc)
    then show "set (lc_outbox lc') = set (lc_outbox lc) - {t}" using out by simp
  qed
  show "set (lc_outbox lc') = insert t (set (lc_outbox lc))" if ref: "refuses rep"
  proof (cases "rr = Inl RouterUnavailable")
    case True
    then show ?thesis using assms out by (simp add: release_reply_def rc)
  next
    case False
    then obtain c and ls :: lease_service where c: "retryable c"
      and rr: "rr = Inr (503, to_envelope c @ [(''reconciliation_id'', VStr (ls_reconciliation_id ls))])"
      using receive_refusal [OF ref, of lc] by (auto simp: rc)
    then have "lc' = outbox_add t lc1" using assms by (simp add: release_reply_def rc error_of_def to_envelope_def)
    then show ?thesis using out by simp
  qed
qed

lemma retry_reply_effect:
  assumes "retry_reply t rep lc = (r, lc')"
  shows "same_client lc lc'" "set (lc_outbox lc') = (if acknowledges rep then set (lc_outbox lc) - {t} else set (lc_outbox lc))"
proof -
  obtain rr lc1 where rc: "receive rep lc = (rr, lc1)" by fastforce
  note f = receive_frame [OF rc]
  show "same_client lc lc'" "set (lc_outbox lc') = (if acknowledges rep then set (lc_outbox lc) - {t} else set (lc_outbox lc))"
    using assms rc f by (auto simp: retry_reply_def do_release_reply_def outbox_remove_def same_client_def
        split: sum.splits exn.splits if_splits prod.splits)
qed

lemma register_reply_effect:
  assumes "register_reply rep lc = (r, lc')"
  shows "same_client lc lc'" "lc_outbox lc' = lc_outbox lc"
  using assms receive_frame [of rep lc "fst (receive rep lc)" "snd (receive rep lc)"]
  by (auto simp: register_reply_def do_release_reply_def split: sum.splits prod.splits)

lemma acquire_reply_effect:
  assumes "acquire_reply rep lc = (r, lc')"
  shows "same_client lc lc'" "lc_outbox lc' = lc_outbox lc" "fails rep \<Longrightarrow> \<exists>x. r = Inl x"
    "grants_reply rep res \<Longrightarrow> r = Inr (tokens_json res)"
proof -
  obtain rr lc1 where rc: "receive rep lc = (rr, lc1)" by fastforce
  note f = receive_frame [OF rc]
  show "same_client lc lc'" "lc_outbox lc' = lc_outbox lc"
    using assms f by (auto simp: acquire_reply_def rc split: sum.splits prod.splits)
  show "\<exists>x. r = Inl x" if "fails rep"
    using assms that by (auto simp: acquire_reply_def fails_def receive_def answer_def update_from_response_def)
  show "r = Inr (tokens_json res)" if "grants_reply rep res"
  proof -
    from that obtain ls where rep: "rep = answer 200 [(''tokens'', tokens_json res)] ls" and ne: "res \<noteq> []"
      by (auto simp: grants_reply_def)
    have "truthy (tokens_json res)" using ne by (simp add: tokens_json_def)
    with assms rep show ?thesis by (auto simp: acquire_reply_def receive_def answer_def update_from_response_def)
  qed
qed

section \<open>The steps of a thread\<close>

lemma net_ids:
  assumes "net_ok k n"
  shows "release_request t (ln_client n) = ReleaseRequest t (fst k) (snd k) (rid_or_empty (ln_client n))"
    "do_release_request t rid (ln_client n) = ReleaseRequest t (fst k) (snd k) (if truthy rid then rid else VNone)"
    "fst k = lt_gen_id (ln_tables n)" "snd k = lt_gen_epoch (ln_tables n)"
  using assms by (auto simp: net_ok_def release_request_def do_release_request_def)

text \<open>The token facts of a step, split at its thread, once the thread's position is known.\<close>

lemma split_facts:
  assumes "net_ok k n" "t \<notin> set (ln_stray n)"
  shows "t \<in> held_tokens k (ln_router n) \<or> \<not> reconciled k (ln_router n) \<and>
      (t \<in> th_snapshot (VStr (ls_reconciliation_id (ln_router n))) (thread_at n i) \<or>
       others (\<lambda>p. t \<in> th_snapshot (VStr (ls_reconciliation_id (ln_router n))) p) i (net_view k n)) \<Longrightarrow>
     (tabled (net_view k n) t \<or> t \<in> th_owned (thread_at n i) \<or> others (\<lambda>p. t \<in> th_owned p) i (net_view k n) \<or>
       t \<in> set (lc_outbox (ln_client n)) \<or> t \<in> th_staged (thread_at n i) \<or> others (\<lambda>p. t \<in> th_staged p) i (net_view k n)) \<and>
     \<not> (t \<in> th_acked (thread_at n i) \<or> others (\<lambda>p. t \<in> th_acked p) i (net_view k n))"
  using token_facts(5,6) [OF assms] unfolding needed_at [of _ _ i] known_at [of _ _ i] acked_at [of _ _ i] by simp

lemma step_release:
  assumes ok: "net_ok k n" and i: "i < length (ln_threads n)" and pc: "thread_at n i = Releasing (u # ts)"
    and c: "call f ta tv (release_request u (ln_client n)) n = (rep, n1)"
  shows "net_ok k (set_thread i (ReleaseReplied u rep ts) n1)"
proof -
  note c' = c [unfolded net_ids(1) [OF ok]]
  note fr = call_frame [OF c'] and rel = call_release [OF c']
  have rel_u: "released (net_view k n) u" using pc by (simp add: released_at [of _ _ i])
  have u: "u \<in> set (ln_stray n) \<or> u \<noteq> []" using token_facts(3) [OF ok _ rel_u] by blast
  show ?thesis
  proof (rule thread_step_ok [OF ok i])
    show "th_ok (set (ln_stray n1)) (ReleaseReplied u rep ts)" using u rel(3,7) by auto
  next
    fix t assume t: "t \<notin> set (ln_stray n1)"
    then have t': "t \<notin> set (ln_stray n)" using rel(3) by simp
    show "t \<in> set (lc_outbox (ln_client n1)) \<or> t \<in> th_staged (ReleaseReplied u rep ts) \<or> t \<in> th_retried (ReleaseReplied u rep ts) \<Longrightarrow>
        released (net_view k n) t \<or> t \<in> th_owned (thread_at n i) \<and> t \<notin> th_owned (ReleaseReplied u rep ts)"
      using pc fr(3) by (auto simp: released_at [of _ _ i])
    assume need: "t \<in> held_tokens k (ln_router n1) \<or> \<not> reconciled k (ln_router n1) \<and>
        (t \<in> th_snapshot (VStr (ls_reconciliation_id (ln_router n))) (ReleaseReplied u rep ts) \<or>
         others (\<lambda>p. t \<in> th_snapshot (VStr (ls_reconciliation_id (ln_router n))) p) i (net_view k n))"
    have "\<not> (t \<in> th_acked (ReleaseReplied u rep ts))"
      using need rel(2,6) u t' by auto
    with split_facts [OF ok t', of i] need pc fr(3) rel(2,4)
    show "(tabled (net_view k n) t \<or> t \<in> th_owned (ReleaseReplied u rep ts) \<or> others (\<lambda>p. t \<in> th_owned p) i (net_view k n) \<or>
        t \<in> set (lc_outbox (ln_client n1)) \<or> t \<in> th_staged (ReleaseReplied u rep ts) \<or> others (\<lambda>p. t \<in> th_staged p) i (net_view k n)) \<and>
      \<not> (t \<in> th_acked (ReleaseReplied u rep ts) \<or> others (\<lambda>p. t \<in> th_acked p) i (net_view k n))"
      by auto
  qed (use fr rel in simp_all)
qed

lemma step_retry:
  assumes ok: "net_ok k n" and i: "i < length (ln_threads n)" and pc: "thread_at n i = Retrying rid (u # ts) fin"
    and c: "call f ta tv (do_release_request u rid (ln_client n)) n = (rep, n1)"
  shows "net_ok k (set_thread i (RetryReplied rid u rep ts fin) n1)"
proof -
  note c' = c [unfolded net_ids(2) [OF ok]]
  note fr = call_frame [OF c'] and rel = call_release [OF c']
  have rel_u: "released (net_view k n) u" using pc by (simp add: released_at [of _ _ i])
  have u: "u \<in> set (ln_stray n) \<or> u \<noteq> []" using token_facts(3) [OF ok _ rel_u] by blast
  show ?thesis
  proof (rule thread_step_ok [OF ok i])
    fix t assume t: "t \<notin> set (ln_stray n1)"
    then have t': "t \<notin> set (ln_stray n)" using rel(3) by simp
    show "t \<in> set (lc_outbox (ln_client n1)) \<or> t \<in> th_staged (RetryReplied rid u rep ts fin) \<or> t \<in> th_retried (RetryReplied rid u rep ts fin) \<Longrightarrow>
        released (net_view k n) t \<or> t \<in> th_owned (thread_at n i) \<and> t \<notin> th_owned (RetryReplied rid u rep ts fin)"
      using pc fr(3) by (auto simp: released_at [of _ _ i])
    assume need: "t \<in> held_tokens k (ln_router n1) \<or> \<not> reconciled k (ln_router n1) \<and>
        (t \<in> th_snapshot (VStr (ls_reconciliation_id (ln_router n))) (RetryReplied rid u rep ts fin) \<or>
         others (\<lambda>p. t \<in> th_snapshot (VStr (ls_reconciliation_id (ln_router n))) p) i (net_view k n))"
    have "\<not> (t \<in> th_acked (RetryReplied rid u rep ts fin))"
      using need rel(2,6) u t' by auto
    with split_facts [OF ok t', of i] need pc fr(3) rel(2,4)
    show "(tabled (net_view k n) t \<or> t \<in> th_owned (RetryReplied rid u rep ts fin) \<or> others (\<lambda>p. t \<in> th_owned p) i (net_view k n) \<or>
        t \<in> set (lc_outbox (ln_client n1)) \<or> t \<in> th_staged (RetryReplied rid u rep ts fin) \<or> others (\<lambda>p. t \<in> th_staged p) i (net_view k n)) \<and>
      \<not> (t \<in> th_acked (RetryReplied rid u rep ts fin) \<or> others (\<lambda>p. t \<in> th_acked p) i (net_view k n))"
      by auto
  qed (use fr rel in simp_all)
qed

text \<open>A step that only changes the outbox of the client, and the tables at most in the handshake mark.\<close>

lemma outbox_step:
  assumes ok: "net_ok k n" and i: "i < length (ln_threads n)" and client: "same_client (ln_client n) lc"
    and tables: "lt_active lt = lt_active (ln_tables n)" "lt_live lt = lt_live (ln_tables n)"
      "lt_gen_id lt = lt_gen_id (ln_tables n)" "lt_gen_epoch lt = lt_gen_epoch (ln_tables n)"
    and pc: "th_ok (set (ln_stray n)) pc" "th_acked pc = {}" "th_owned pc \<subseteq> th_owned (thread_at n i)"
      "th_snapshot (VStr (ls_reconciliation_id (ln_router n))) pc = {}"
    and rel: "\<And>t. t \<notin> set (ln_stray n) \<Longrightarrow> t \<in> set (lc_outbox lc) \<or> t \<in> th_staged pc \<or> t \<in> th_retried pc \<Longrightarrow>
      released (net_view k n) t \<or> t \<in> th_owned (thread_at n i) \<and> t \<notin> th_owned pc"
    and keep: "\<And>t. t \<notin> set (ln_stray n) \<Longrightarrow> t \<notin> th_acked (thread_at n i) \<Longrightarrow>
      t \<in> set (lc_outbox (ln_client n)) \<or> t \<in> th_staged (thread_at n i) \<or> t \<in> th_owned (thread_at n i) \<Longrightarrow>
      t \<in> set (lc_outbox lc) \<or> t \<in> th_staged pc \<or> t \<in> th_owned pc"
  shows "net_ok k (set_thread i pc (n\<lparr>ln_client := lc, ln_tables := lt\<rparr>))"
proof (rule thread_step_ok [OF ok i])
  fix t assume t: "t \<notin> set (ln_stray (n\<lparr>ln_client := lc, ln_tables := lt\<rparr>))"
  then have t': "t \<notin> set (ln_stray n)" by simp
  show "t \<in> set (lc_outbox (ln_client (n\<lparr>ln_client := lc, ln_tables := lt\<rparr>))) \<or> t \<in> th_staged pc \<or> t \<in> th_retried pc \<Longrightarrow>
      released (net_view k n) t \<or> t \<in> th_owned (thread_at n i) \<and> t \<notin> th_owned pc"
    using rel [OF t'] by simp
  show "t \<in> th_owned pc \<Longrightarrow> t \<notin> set (lc_outbox (ln_client (n\<lparr>ln_client := lc, ln_tables := lt\<rparr>))) \<and> t \<notin> th_staged pc \<and> t \<notin> th_retried pc"
    using rel [OF t'] pc(3) token_facts(1) [OF ok t', of i] by auto
  assume need: "t \<in> held_tokens k (ln_router (n\<lparr>ln_client := lc, ln_tables := lt\<rparr>)) \<or>
      \<not> reconciled k (ln_router (n\<lparr>ln_client := lc, ln_tables := lt\<rparr>)) \<and>
      (t \<in> th_snapshot (VStr (ls_reconciliation_id (ln_router n))) pc \<or>
       others (\<lambda>p. t \<in> th_snapshot (VStr (ls_reconciliation_id (ln_router n))) p) i (net_view k n))"
  with split_facts [OF ok t', of i] keep [OF t'] pc(2,4)
  show "(tabled (net_view k n) t \<or> t \<in> th_owned pc \<or> others (\<lambda>p. t \<in> th_owned p) i (net_view k n) \<or>
      t \<in> set (lc_outbox (ln_client (n\<lparr>ln_client := lc, ln_tables := lt\<rparr>))) \<or> t \<in> th_staged pc \<or> others (\<lambda>p. t \<in> th_staged p) i (net_view k n)) \<and>
    \<not> (t \<in> th_acked pc \<or> others (\<lambda>p. t \<in> th_acked p) i (net_view k n))"
    by auto
qed (use client pc tables in \<open>auto simp: same_client_def\<close>)

lemma step_release_replied:
  assumes ok: "net_ok k n" and i: "i < length (ln_threads n)" and pc: "thread_at n i = ReleaseReplied u rep ts"
  shows "net_ok k (set_thread i (Releasing ts) (n\<lparr>ln_client := snd (release_reply u rep (ln_client n))\<rparr>))"
proof -
  obtain r lc where rr: "release_reply u rep (ln_client n) = (r, lc)" by fastforce
  note f = release_reply_effect [OF rr]
  have u: "u \<in> set (ln_stray n) \<or> acknowledges rep \<or> refuses rep"
    using ok pc unfolding net_ok_def by (metis th_ok.simps(3))
  have other: "t \<in> set (lc_outbox lc) \<longleftrightarrow> t \<in> set (lc_outbox (ln_client n))" if "t \<noteq> u" for t
    using f(2) that by blast
  have self: "u \<in> set (lc_outbox lc)" if "refuses rep" using f(4) [OF that] by simp
  have "net_ok k (set_thread i (Releasing ts) (n\<lparr>ln_client := lc, ln_tables := ln_tables n\<rparr>))"
  proof (rule outbox_step [OF ok i f(1)])
    fix t assume t: "t \<notin> set (ln_stray n)"
    show "t \<in> set (lc_outbox lc) \<or> t \<in> th_staged (Releasing ts) \<or> t \<in> th_retried (Releasing ts) \<Longrightarrow>
        released (net_view k n) t \<or> t \<in> th_owned (thread_at n i) \<and> t \<notin> th_owned (Releasing ts)"
      using other [of t] pc by (cases "t = u") (auto simp: released_at [of _ _ i])
    assume "t \<notin> th_acked (thread_at n i)"
      "t \<in> set (lc_outbox (ln_client n)) \<or> t \<in> th_staged (thread_at n i) \<or> t \<in> th_owned (thread_at n i)"
    then show "t \<in> set (lc_outbox lc) \<or> t \<in> th_staged (Releasing ts) \<or> t \<in> th_owned (Releasing ts)"
      using other [of t] self pc u t by (cases "t = u") auto
  qed simp_all
  then show ?thesis by (simp add: rr)
qed

lemma step_retry_replied:
  assumes ok: "net_ok k n" and i: "i < length (ln_threads n)" and pc: "thread_at n i = RetryReplied rid u rep ts fin"
    and rr: "retry_reply u rep (ln_client n) = (r, lc)" and pc': "pc' = Retrying rid ts fin \<or> pc' = Resting"
    and tables: "lt_active lt = lt_active (ln_tables n)" "lt_live lt = lt_live (ln_tables n)"
      "lt_gen_id lt = lt_gen_id (ln_tables n)" "lt_gen_epoch lt = lt_gen_epoch (ln_tables n)"
  shows "net_ok k (set_thread i pc' (n\<lparr>ln_client := lc, ln_tables := lt\<rparr>))"
proof -
  note f = retry_reply_effect [OF rr]
  have out: "t \<in> set (lc_outbox lc) \<longleftrightarrow> t \<in> set (lc_outbox (ln_client n)) \<and> \<not> (acknowledges rep \<and> t = u)" for t
    using f(2) by (cases "acknowledges rep") simp_all
  show ?thesis
  proof (rule outbox_step [OF ok i f(1) tables])
    fix t assume t: "t \<notin> set (ln_stray n)"
    show "t \<in> set (lc_outbox lc) \<or> t \<in> th_staged pc' \<or> t \<in> th_retried pc' \<Longrightarrow>
        released (net_view k n) t \<or> t \<in> th_owned (thread_at n i) \<and> t \<notin> th_owned pc'"
      using pc' by (elim disjE) (simp_all add: released_at [of _ _ i] pc out)
    assume "t \<notin> th_acked (thread_at n i)"
      "t \<in> set (lc_outbox (ln_client n)) \<or> t \<in> th_staged (thread_at n i) \<or> t \<in> th_owned (thread_at n i)"
    then show "t \<in> set (lc_outbox lc) \<or> t \<in> th_staged pc' \<or> t \<in> th_owned pc'"
      by (simp add: out pc split: if_splits)
  qed (use pc' in auto)
qed

section \<open>Acquiring\<close>

text \<open>An id that occurs nowhere in the protocol, as a minted one does not.\<close>

definition unused :: "epoch_key \<Rightarrow> lease_net \<Rightarrow> string \<Rightarrow> bool" where
  "unused k n t \<longleftrightarrow> t \<noteq> [] \<and> map_of (es_tokens (held (ln_router n) k)) t = None \<and> t \<notin> set (lc_outbox (ln_client n)) \<and>
     t \<notin> snd ` set (lt_active (ln_tables n)) \<and> t \<notin> snd ` set (lt_live (ln_tables n)) \<and>
     list_all (\<lambda>pc. t \<notin> th_owned pc \<and> t \<notin> th_staged pc \<and> t \<notin> th_retried pc \<and>
       t \<notin> th_snapshot (VStr (ls_reconciliation_id (ln_router n))) pc) (ln_threads n)"

lemma unused_thread:
  assumes "unused k n t"
  shows "t \<notin> th_owned (thread_at n j) \<and> t \<notin> th_staged (thread_at n j) \<and> t \<notin> th_retried (thread_at n j) \<and>
     t \<notin> th_snapshot (VStr (ls_reconciliation_id (ln_router n))) (thread_at n j)"
  using assms unfolding unused_def thread_at_def list_all_length by simp

lemma unused_facts:
  assumes "unused k n t"
  shows "\<not> (\<exists>w. owns (net_view k n) w t)" "\<not> released (net_view k n) t" "\<not> needed (net_view k n) t" "\<not> acked (net_view k n) t"
    "t \<noteq> []" "t \<notin> set (lc_outbox (ln_client n))"
proof -
  note th = unused_thread [OF assms]
  have "t \<noteq> u" if "map_of (lt_active (ln_tables n)) s = Some u \<or> map_of (lt_live (ln_tables n)) s = Some u" for s u
    using assms that unfolding unused_def by (metis image_eqI map_of_SomeD snd_conv)
  then have "\<not> tabled (net_view k n) t" unfolding tabled_def by auto
  then show "\<not> (\<exists>w. owns (net_view k n) w t)" unfolding owned_at [of _ _ 0] others_def using th by auto
  show r: "\<not> released (net_view k n) t" using assms th unfolding released_def staged_def by (simp add: unused_def)
  show "\<not> needed (net_view k n) t" using assms th unfolding needed_def by (auto simp: unused_def held_tokens_def)
  show "\<not> acked (net_view k n) t" using r acked_released by blast
  show "t \<noteq> []" "t \<notin> set (lc_outbox (ln_client n))" using assms by (simp_all add: unused_def)
qed

lemma grants_of_json:
  "set (grants_of (tokens_json res)) = {(t, f). t \<noteq> [] \<and> (\<exists>kind. (kind, t, f) \<in> set res)}"
proof -
  have "grants_of (tokens_json res) = map snd (filter (\<lambda>p. fst (snd p) \<noteq> []) res)"
    by (induction res) (auto simp: grants_of_def tokens_json_def extract_tid_def is_fresh_def List.map_filter_simps)
  then show ?thesis by force
qed

lemma granted_reply:
  assumes "grants_reply rep res"
  shows "set (granted_tokens rep) = {(t, f). t \<noteq> [] \<and> (\<exists>kind. map_of res kind = Some (t, f))}"
proof -
  from assms obtain ls where rep: "rep = answer 200 [(''tokens'', tokens_json res)] ls" and d: "dict_ok res"
    by (auto simp: grants_reply_def)
  have "granted_tokens rep = grants_of (tokens_json res)" by (simp add: rep granted_answer)
  then show ?thesis by (simp add: grants_of_json dict_set_conv [OF d])
qed

lemma granted_fails: "fails rep \<Longrightarrow> granted_tokens rep = []"
  by (auto simp: fails_def)

lemma step_acquire:
  assumes ok: "net_ok k n" and i: "i < length (ln_threads n)" and pc: "thread_at n i = Acquiring s a start"
    and c: "call f ta tv (acquire_request (lt_gen_id (ln_tables n)) (lt_gen_epoch (ln_tables n)) s a (kinds_of start) (ln_client n)) n = (rep, n1)"
    and fresh: "unused k n ta" "unused k n tv" "ta \<noteq> tv"
  shows "net_ok k (set_thread i (AcquireReplied s a start rep) n1)"
proof -
  let ?req = "acquire_request (lt_gen_id (ln_tables n)) (lt_gen_epoch (ln_tables n)) s a (kinds_of start) (ln_client n)"
  note fr = call_frame [OF c] and ta = unused_facts [OF fresh(1)] and tv = unused_facts [OF fresh(2)]
  obtain rep0 ls0 where h: "handle_lease ta tv ?req (ln_router n) = (rep0, ls0)" by fastforce
  then have h': "handle_lease_acquire (fst k) (snd k) s a (kinds_of start) (rid_or_empty (ln_client n)) ta tv (ln_router n) = (rep0, ls0)"
    by (simp add: acquire_request_def net_ids(3,4) [OF ok])
  note gate = handle_acquire_view(2) [OF refl ta(5) tv(5) fresh(3) h', of k]
  have strays: "ln_stray n1 = ln_stray n @ (case f of Delivered \<Rightarrow> map fst (filter (\<lambda>p. \<not> snd p) (granted_tokens rep0))
      | RequestLost \<Rightarrow> [] | ReplyLost \<Rightarrow> map fst (granted_tokens rep0))"
    using fr(4) by (simp add: strays_def h Let_def)
  have out: "rep = (if f = Delivered then rep0 else Unreachable)" "ln_router n1 = (if f = RequestLost then ln_router n else ls0)"
    using fr(5-7) h by (cases f; simp)+
  have gate1: "ls_reconciliation_id (ln_router n1) = ls_reconciliation_id (ln_router n)"
    "reconciled k (ln_router n1) = reconciled k (ln_router n)"
    using gate out(2) by auto
  have none: "fails Unreachable" by (simp add: fails_def)
  obtain new where held0: "held_tokens k ls0 = held_tokens k (ln_router n) \<union> new"
    and new: "\<And>t. t \<in> new \<Longrightarrow> (t = ta \<or> t = tv) \<and> (t, True) \<in> set (granted_tokens rep0)"
    and granted: "\<And>t fr. (t, fr) \<in> set (granted_tokens rep0) \<Longrightarrow> fr \<Longrightarrow> t = ta \<or> t = tv"
    and res: "fails rep0 \<or> (\<exists>res. grants_reply rep0 res \<and> dict_ok res \<and> set (map fst res) \<subseteq> set (kinds_of start) \<and>
        (\<forall>kind t. map_of res kind = Some (t, False) \<longrightarrow> t = [] \<or> (t, False) \<in> set (granted_tokens rep0)) \<and>
        \<not> (\<exists>t. map_of res ''active'' = Some (t, True) \<and> map_of res ''live'' = Some (t, True)))"
  proof (rule disjE [OF handle_acquire_view(1) [OF refl ta(5) tv(5) fresh(3) h', of k]])
    assume "fails rep0 \<and> held_tokens k ls0 = held_tokens k (ln_router n)"
    then show ?thesis using that [of "{}"] granted_fails by simp
  next
    assume "\<exists>res. grants_reply rep0 res \<and> set (map fst res) \<subseteq> set (kinds_of start) \<and>
         (\<forall>t. map_of res ''active'' = Some (t, True) \<longrightarrow> t = ta) \<and> (\<forall>t. map_of res ''live'' = Some (t, True) \<longrightarrow> t = tv) \<and>
         held_tokens k ls0 = (if k = (fst k, snd k) then held_tokens k (ln_router n) \<union> new_tokens res else held_tokens k (ln_router n))"
    then obtain res where r: "grants_reply rep0 res" "set (map fst res) \<subseteq> set (kinds_of start)"
      and act: "\<And>t. map_of res ''active'' = Some (t, True) \<Longrightarrow> t = ta" and live: "\<And>t. map_of res ''live'' = Some (t, True) \<Longrightarrow> t = tv"
      and held: "held_tokens k ls0 = held_tokens k (ln_router n) \<union> new_tokens res" by auto
    note g = granted_reply [OF r(1)]
    have d: "dict_ok res" using r(1) by (simp add: grants_reply_def)
    have kind: "kind = ''active'' \<or> kind = ''live''" if "map_of res kind = Some x" for kind x
      using r(2) map_of_SomeD [OF that] by (force simp: kinds_of_def split: if_splits)
    have fresh_t: "t = ta \<or> t = tv" if "map_of res kind = Some (t, True)" for kind t
      using kind [OF that] act live that by blast
    show ?thesis
    proof (rule that [OF held])
      show "(t = ta \<or> t = tv) \<and> (t, True) \<in> set (granted_tokens rep0)" if "t \<in> new_tokens res" for t
        using that fresh_t ta(5) tv(5) unfolding g new_tokens_def by blast
      show "t = ta \<or> t = tv" if "(t, fr) \<in> set (granted_tokens rep0)" fr for t fr
        using that fresh_t unfolding g by auto
      show "fails rep0 \<or> (\<exists>res. grants_reply rep0 res \<and> dict_ok res \<and> set (map fst res) \<subseteq> set (kinds_of start) \<and>
        (\<forall>kind t. map_of res kind = Some (t, False) \<longrightarrow> t = [] \<or> (t, False) \<in> set (granted_tokens rep0)) \<and>
        \<not> (\<exists>t. map_of res ''active'' = Some (t, True) \<and> map_of res ''live'' = Some (t, True)))"
        using r d act live fresh(3) unfolding g by blast
    qed
  qed
  have owned: "t \<in> th_owned (AcquireReplied s a start rep) \<Longrightarrow> f = Delivered \<and> (t = ta \<or> t = tv)" if "t \<notin> set (ln_stray n1)" for t
  proof -
    assume "t \<in> th_owned (AcquireReplied s a start rep)"
    then obtain fr where fr: "(t, fr) \<in> set (granted_tokens rep)" by auto
    then have d: "f = Delivered" using out(1) by (cases "f = Delivered") auto
    with fr that have "fr" unfolding strays out(1) by force
    with granted fr d out(1) show ?thesis by auto
  qed
  show ?thesis
  proof (rule thread_step_ok [OF ok i])
    show "th_ok (set (ln_stray n1)) (AcquireReplied s a start rep)"
    proof (cases "f = Delivered \<and> \<not> fails rep0")
      case True
      with res obtain res where r: "grants_reply rep0 res" "dict_ok res" "set (map fst res) \<subseteq> set (kinds_of start)"
        "\<And>kind t. map_of res kind = Some (t, False) \<Longrightarrow> t = [] \<or> (t, False) \<in> set (granted_tokens rep0)"
        "\<not> (\<exists>t. map_of res ''active'' = Some (t, True) \<and> map_of res ''live'' = Some (t, True))" by blast
      have "t \<in> set (ln_stray n1) \<or> t = []" if "map_of res kind = Some (t, False)" for kind t
        using r(4) [OF that] True unfolding strays by force
      then have "results_ok (set (ln_stray n1)) start res" unfolding results_ok_def using r(2,3,5) by blast
      then show ?thesis using r(1) True out(1) by auto
    next
      case False
      then show ?thesis using none out(1) by auto
    qed
  next
    fix t assume t: "t \<notin> set (ln_stray n1)"
    then have t': "t \<notin> set (ln_stray n)" using strays by simp
    note o = owned [OF t]
    show "t \<in> th_owned (AcquireReplied s a start rep) \<Longrightarrow> t \<in> th_owned (thread_at n i) \<or>
      t \<noteq> [] \<and> \<not> (\<exists>w. owns (net_view k n) w t) \<and> \<not> released (net_view k n) t"
      using o ta tv by blast
    show "t \<in> set (lc_outbox (ln_client n1)) \<or> t \<in> th_staged (AcquireReplied s a start rep) \<or> t \<in> th_retried (AcquireReplied s a start rep) \<Longrightarrow>
      released (net_view k n) t \<or> t \<in> th_owned (thread_at n i) \<and> t \<notin> th_owned (AcquireReplied s a start rep)"
      using fr(3) by (simp add: released_def)
    show "t \<in> th_owned (AcquireReplied s a start rep) \<Longrightarrow>
      t \<notin> set (lc_outbox (ln_client n1)) \<and> t \<notin> th_staged (AcquireReplied s a start rep) \<and> t \<notin> th_retried (AcquireReplied s a start rep)"
      using o ta tv fr(3) by auto
    assume need: "t \<in> held_tokens k (ln_router n1) \<or> \<not> reconciled k (ln_router n1) \<and>
        (t \<in> th_snapshot (VStr (ls_reconciliation_id (ln_router n))) (AcquireReplied s a start rep) \<or>
         others (\<lambda>p. t \<in> th_snapshot (VStr (ls_reconciliation_id (ln_router n))) p) i (net_view k n))"
    show "(tabled (net_view k n) t \<or> t \<in> th_owned (AcquireReplied s a start rep) \<or> others (\<lambda>p. t \<in> th_owned p) i (net_view k n) \<or>
        t \<in> set (lc_outbox (ln_client n1)) \<or> t \<in> th_staged (AcquireReplied s a start rep) \<or> others (\<lambda>p. t \<in> th_staged p) i (net_view k n)) \<and>
      \<not> (t \<in> th_acked (AcquireReplied s a start rep) \<or> others (\<lambda>p. t \<in> th_acked p) i (net_view k n))"
    proof (cases "t \<in> held_tokens k (ln_router n1) \<and> t \<notin> held_tokens k (ln_router n)")
      case True
      then have "f \<noteq> RequestLost" "t \<in> new" using out(2) held0 by (auto split: if_splits)
      note n = new [OF \<open>t \<in> new\<close>]
      have "f = Delivered"
      proof (cases f)
        case ReplyLost
        then show ?thesis using t n unfolding strays by force
      qed (use \<open>f \<noteq> RequestLost\<close> in simp_all)
      then have "t \<in> th_owned (AcquireReplied s a start rep)" using n out(1) by force
      moreover have "\<not> acked (net_view k n) t" using n ta tv by blast
      ultimately show ?thesis by (simp add: acked_at [of _ _ i])
    next
      case False
      with split_facts [OF ok t', of i] need pc fr(3) gate1(2)
      show ?thesis by auto
    qed
  qed (use fr gate1 strays in simp_all)
qed

lemma granted_shape:
  assumes "results_ok U start res"
  shows "fst ` set (grants_of (tokens_json res)) = {t. t \<noteq> [] \<and> (\<exists>kind f. map_of res kind = Some (t, f))}"
    "\<And>kind x. map_of res kind = Some x \<Longrightarrow> kind = ''active'' \<or> kind = ''live'' \<and> start"
    "t \<notin> U \<Longrightarrow> t \<noteq> [] \<Longrightarrow> map_of res kind = Some (t, f) \<Longrightarrow> f"
proof -
  have d: "dict_ok res" using assms by (simp add: results_ok_def)
  show "fst ` set (grants_of (tokens_json res)) = {t. t \<noteq> [] \<and> (\<exists>kind f. map_of res kind = Some (t, f))}"
    unfolding grants_of_json by (force simp: dict_set_conv [OF d])
  show "kind = ''active'' \<or> kind = ''live'' \<and> start" if "map_of res kind = Some x" for kind x
    using assms map_of_SomeD [OF that] by (force simp: results_ok_def kinds_of_def split: if_splits)
  show "t \<notin> U \<Longrightarrow> t \<noteq> [] \<Longrightarrow> map_of res kind = Some (t, f) \<Longrightarrow> f"
    using assms by (cases f) (auto simp: results_ok_def)
qed

lemma step_acquire_replied:
  assumes ok: "net_ok k n" and i: "i < length (ln_threads n)" and pc: "thread_at n i = AcquireReplied s a start rep"
    and r: "acquire_reply rep (ln_client n) = (r, lc)"
    and pc': "pc' = (case r of Inl _ \<Rightarrow> Resting | Inr tokens \<Rightarrow> Granted s a start tokens)"
  shows "net_ok k (set_thread i pc' (n\<lparr>ln_client := lc\<rparr>))"
proof -
  note f = acquire_reply_effect [OF r]
  have th: "fails rep \<or> (\<exists>res. grants_reply rep res \<and> results_ok (set (ln_stray n)) start res)"
    using ok pc unfolding net_ok_def by (metis th_ok.simps(1))
  have pc2: "th_ok (set (ln_stray n)) pc' \<and> th_owned pc' = th_owned (thread_at n i) \<and> th_acked pc' = {} \<and> th_staged pc' = {} \<and>
      th_retried pc' = {} \<and> th_snapshot (VStr (ls_reconciliation_id (ln_router n))) pc' = {}"
  proof (cases "fails rep")
    case True
    then show ?thesis using pc f(3) granted_fails [OF True] pc' by auto
  next
    case False
    with th obtain res where g: "grants_reply rep res" "results_ok (set (ln_stray n)) start res" by blast
    then have "granted_tokens rep = grants_of (tokens_json res)" by (auto simp: grants_reply_def granted_answer)
    then show ?thesis using g pc f(4) [OF g(1)] pc' by auto
  qed
  have "net_ok k (set_thread i pc' (n\<lparr>ln_client := lc, ln_tables := ln_tables n\<rparr>))"
    by (rule outbox_step [OF ok i f(1)]) (use pc2 f(2) pc in \<open>auto simp: released_at [of _ _ i]\<close>)
  then show ?thesis by simp
qed

lemma rollback_json: "set (rollback_tokens (tokens_json res)) = {t. t \<noteq> [] \<and> (\<exists>kind. (kind, t, True) \<in> set res)}"
proof -
  have "rollback_tokens (tokens_json res) = map (fst \<circ> snd) (filter (\<lambda>p. fst (snd p) \<noteq> [] \<and> snd (snd p)) res)"
    by (induction res) (auto simp: rollback_tokens_def tokens_json_def extract_tid_def is_fresh_def List.map_filter_simps)
  then show ?thesis by force
qed

lemma tokens_json_lookup:
  "map_of (map (\<lambda>(kind, tok, fresh). (kind, VDict [(''token_id'', VStr tok), (''fresh'', VBool fresh)])) res) kind =
     map_option (\<lambda>(tok, fresh). VDict [(''token_id'', VStr tok), (''fresh'', VBool fresh)]) (map_of res kind)"
  by (induction res) auto

lemma token_info_json:
  "token_info kind (tokens_json res) =
     (case map_of res kind of None \<Rightarrow> VDict [] | Some (t, f) \<Rightarrow> VDict [(''token_id'', VStr t), (''fresh'', VBool f)])"
  by (simp add: token_info_def tokens_json_def Nelix_Leases.dict_get_def tokens_json_lookup py_or_def split: option.split prod.split)

lemma extract_json:
  "extract_tid (token_info kind (tokens_json res)) = (case map_of res kind of Some (t, f) \<Rightarrow> if t \<noteq> [] then Some t else None | None \<Rightarrow> None)"
  by (simp add: token_info_json extract_tid_def split: option.split prod.split)

lemma rollback_turn_json:
  "t \<in> set (rollback_turn (tokens_json res)) \<longleftrightarrow> t \<noteq> [] \<and> map_of res ''active'' = Some (t, True)"
proof (cases "map_of res ''active''")
  case None
  then have e: "extract_tid (token_info ''active'' (tokens_json res)) = None" by (simp only: extract_json option.case)
  have "rollback_turn (tokens_json res) = []" unfolding rollback_turn_def Let_def e by (simp only: option.case if_cancel)
  with None show ?thesis by (simp only: list.set) blast
next
  case (Some x)
  obtain u f where "x = (u, f)" by fastforce
  with Some show ?thesis unfolding rollback_turn_def Let_def extract_json token_info_json is_fresh_def by (cases f) (auto simp: extract_tid_def)
qed

lemma step_rollback:
  assumes ok: "net_ok k n" and i: "i < length (ln_threads n)" and pc: "thread_at n i = Granted s a start tokens"
    and ts: "ts = (if start then rollback_tokens tokens else rollback_turn tokens)"
  shows "net_ok k (set_thread i (Releasing ts) n)"
proof -
  have "th_ok (set (ln_stray n)) (Granted s a start tokens)" using ok pc unfolding net_ok_def by metis
  then obtain res where tok: "tokens = tokens_json res" and res: "results_ok (set (ln_stray n)) start res" by auto
  note g = granted_shape [OF res]
  have d: "dict_ok res" using res by (simp add: results_ok_def)
  have ts': "t \<in> set ts \<longleftrightarrow> t \<noteq> [] \<and> (\<exists>kind. map_of res kind = Some (t, True))" for t
    using g(2) by (cases start) (auto simp: ts tok rollback_json rollback_turn_json dict_set_conv [OF d])
  have own: "t \<in> th_owned (thread_at n i) \<longleftrightarrow> t \<noteq> [] \<and> (\<exists>kind f. map_of res kind = Some (t, f))" for t
    using g(1) by (simp add: pc tok)
  have "net_ok k (set_thread i (Releasing ts) (n\<lparr>ln_client := ln_client n, ln_tables := ln_tables n\<rparr>))"
  proof (rule outbox_step [OF ok i])
    fix t assume t: "t \<notin> set (ln_stray n)"
    show "t \<in> set (lc_outbox (ln_client n)) \<or> t \<in> th_staged (Releasing ts) \<or> t \<in> th_retried (Releasing ts) \<Longrightarrow>
        released (net_view k n) t \<or> t \<in> th_owned (thread_at n i) \<and> t \<notin> th_owned (Releasing ts)"
      using own [of t] by (auto simp: released_at [of _ _ i] ts')
    have "\<exists>kind. map_of res kind = Some (t, True)" if "t \<in> th_owned (thread_at n i)"
      using that g(3) [OF t] unfolding own by (metis (full_types))
    moreover assume "t \<in> set (lc_outbox (ln_client n)) \<or> t \<in> th_staged (thread_at n i) \<or> t \<in> th_owned (thread_at n i)"
    moreover have "th_staged (thread_at n i) = {}" by (simp add: pc)
    ultimately show "t \<in> set (lc_outbox (ln_client n)) \<or> t \<in> th_staged (Releasing ts) \<or> t \<in> th_owned (Releasing ts)"
      using own [of t] ts' [of t] by auto
  qed (simp_all add: same_client_def)
  then show ?thesis by simp
qed

section \<open>Registering\<close>

lemma snapshot_tid [simp]: "entry_tid (json_wire (snapshot_entry kind acts lt p)) = snd p"
  by (simp add: snapshot_entry_def Nelix_Leases.dict_get_def)

lemma snapshot_tids:
  assumes "lease_snapshot lt = (act, live)"
  shows "entry_tid ` json_wire ` (set act \<union> set live) = snd ` set (lt_active lt) \<union> snd ` set (lt_live lt)"
proof -
  have "act = map (snapshot_entry ''active'' (lt_active_activation lt) lt) (lt_active lt)"
    "live = map (snapshot_entry ''live'' (lt_live_activation lt) lt) (lt_live lt)"
    using assms by (simp_all add: lease_snapshot_def)
  then show ?thesis by (simp add: image_Un image_image)
qed

lemma step_snapshot:
  assumes ok: "net_ok k n" and i: "i < length (ln_threads n)" and pc: "thread_at n i = Snapshotting rid"
    and s: "lease_snapshot (ln_tables n) = (act, live)"
  shows "net_ok k (set_thread i (Registering rid act live) n)"
proof (rule thread_step_ok [OF ok i])
  fix t assume t: "t \<notin> set (ln_stray n)"
  show "t \<in> set (lc_outbox (ln_client n)) \<or> t \<in> th_staged (Registering rid act live) \<or> t \<in> th_retried (Registering rid act live) \<Longrightarrow>
      released (net_view k n) t \<or> t \<in> th_owned (thread_at n i) \<and> t \<notin> th_owned (Registering rid act live)"
    by (simp add: released_def)
  have d: "dict_ok (lt_active (ln_tables n))" "dict_ok (lt_live (ln_tables n))" using ok by (simp_all add: net_ok_def)
  have "tabled (net_view k n) t" if "t \<in> th_snapshot (VStr (ls_reconciliation_id (ln_router n))) (Registering rid act live)"
    using that snapshot_tids [OF s] by (auto simp: tabled_def dict_set_conv [OF d(1)] dict_set_conv [OF d(2)] split: if_splits)
  moreover have "\<not> acked (net_view k n) t" if "tabled (net_view k n) t"
    using token_facts(4,7) [OF ok t] that by blast
  moreover assume "t \<in> held_tokens k (ln_router n) \<or> \<not> reconciled k (ln_router n) \<and>
      (t \<in> th_snapshot (VStr (ls_reconciliation_id (ln_router n))) (Registering rid act live) \<or>
       others (\<lambda>p. t \<in> th_snapshot (VStr (ls_reconciliation_id (ln_router n))) p) i (net_view k n))"
  ultimately show "(tabled (net_view k n) t \<or> t \<in> th_owned (Registering rid act live) \<or> others (\<lambda>p. t \<in> th_owned p) i (net_view k n) \<or>
      t \<in> set (lc_outbox (ln_client n)) \<or> t \<in> th_staged (Registering rid act live) \<or> others (\<lambda>p. t \<in> th_staged p) i (net_view k n)) \<and>
    \<not> (t \<in> th_acked (Registering rid act live) \<or> others (\<lambda>p. t \<in> th_acked p) i (net_view k n))"
    using split_facts [OF ok t, of i] unfolding acked_at [of _ _ i] by (auto simp: pc)
qed simp_all

lemma step_register:
  assumes ok: "net_ok k n" and i: "i < length (ln_threads n)" and pc: "thread_at n i = Registering rid act live"
    and c: "call f ta tv (register_request (lt_gen_id (ln_tables n)) (lt_gen_epoch (ln_tables n)) rid act live) n = (rep, n1)"
  shows "net_ok k (set_thread i (RegisterReplied rid rep) n1)"
proof -
  let ?req = "register_request (lt_gen_id (ln_tables n)) (lt_gen_epoch (ln_tables n)) rid act live"
  note fr = call_frame [OF c]
  obtain rep0 ls0 where h: "handle_lease ta tv ?req (ln_router n) = (rep0, ls0)" by fastforce
  then have h': "handle_lease_register_snapshot (fst k) (snd k) (py_or rid (VStr [])) (map json_wire act) (map json_wire live) (ln_router n) = (rep0, ls0)"
    by (simp add: register_request_def net_ids(3,4) [OF ok])
  have "granted_tokens rep0 = []"
    using h' by (auto simp: handle_lease_register_snapshot_def granted_answer split: if_splits pyval.splits prod.splits sum.splits)
  then have strays: "ln_stray n1 = ln_stray n" using fr(4) no_strays h by simp
  have out: "ln_router n1 = ln_router n \<or> ln_router n1 = ls0" using fr(5-7) h by (cases f) simp_all
  let ?snap = "th_snapshot (VStr (ls_reconciliation_id (ln_router n))) (thread_at n i)"
  have snap: "entry_tid ` (set (map json_wire act) \<union> set (map json_wire live)) = entry_tid ` json_wire ` (set act \<union> set live)" by auto
  have "held_tokens k ls0 = held_tokens k (ln_router n) \<and> same_gate k (ln_router n) ls0 \<or>
      \<not> reconciled k (ln_router n) \<and> held_tokens k ls0 = ?snap \<and> reconciled k ls0 \<and> ls_reconciliation_id ls0 = ls_reconciliation_id (ln_router n)"
  proof (cases "truthy rid")
    case True
    then have "py_or rid (VStr []) = rid" by (simp add: py_or_def)
    with handle_register_view [OF h', of k] snap pc show ?thesis by auto
  next
    case False
    then have "ls0 = ln_router n" using h' by (auto simp: handle_lease_register_snapshot_def py_or_def)
    then show ?thesis by simp
  qed
  with out have effect: "held_tokens k (ln_router n1) = held_tokens k (ln_router n) \<and> same_gate k (ln_router n) (ln_router n1) \<or>
      \<not> reconciled k (ln_router n) \<and> held_tokens k (ln_router n1) = ?snap \<and> reconciled k (ln_router n1) \<and>
      ls_reconciliation_id (ln_router n1) = ls_reconciliation_id (ln_router n)" by metis
  show ?thesis
  proof (rule thread_step_ok [OF ok i])
    show "ls_reconciliation_id (ln_router n1) = ls_reconciliation_id (ln_router n)" using effect by blast
    fix t assume "t \<notin> set (ln_stray n1)"
    then have t: "t \<notin> set (ln_stray n)" using strays by simp
    show "t \<in> set (lc_outbox (ln_client n1)) \<or> t \<in> th_staged (RegisterReplied rid rep) \<or> t \<in> th_retried (RegisterReplied rid rep) \<Longrightarrow>
        released (net_view k n) t \<or> t \<in> th_owned (thread_at n i) \<and> t \<notin> th_owned (RegisterReplied rid rep)"
      using fr(3) by (simp add: released_def)
    assume "t \<in> held_tokens k (ln_router n1) \<or> \<not> reconciled k (ln_router n1) \<and>
        (t \<in> th_snapshot (VStr (ls_reconciliation_id (ln_router n))) (RegisterReplied rid rep) \<or>
         others (\<lambda>p. t \<in> th_snapshot (VStr (ls_reconciliation_id (ln_router n))) p) i (net_view k n))"
    then have "t \<in> held_tokens k (ln_router n) \<or> \<not> reconciled k (ln_router n) \<and> (t \<in> ?snap \<or>
         others (\<lambda>p. t \<in> th_snapshot (VStr (ls_reconciliation_id (ln_router n))) p) i (net_view k n))"
      using effect by auto
    from split_facts [OF ok t this] pc fr(3)
    show "(tabled (net_view k n) t \<or> t \<in> th_owned (RegisterReplied rid rep) \<or> others (\<lambda>p. t \<in> th_owned p) i (net_view k n) \<or>
        t \<in> set (lc_outbox (ln_client n1)) \<or> t \<in> th_staged (RegisterReplied rid rep) \<or> others (\<lambda>p. t \<in> th_staged p) i (net_view k n)) \<and>
      \<not> (t \<in> th_acked (RegisterReplied rid rep) \<or> others (\<lambda>p. t \<in> th_acked p) i (net_view k n))"
      by simp
  qed (use fr strays in simp_all)
qed

section \<open>Steps that change the tables\<close>

text \<open>Tokens leave the tables to be released, or enter them from the thread's own grant.\<close>

lemma others_tables [simp]:
  "others P i (v\<lparr>tv_active := A\<rparr>) = others P i v" "others P i (v\<lparr>tv_live := L\<rparr>) = others P i v"
  by (simp_all add: others_def)

lemma token_ok_tables:
  assumes ok: "token_ok v t" and v': "v' = move i pc (v\<lparr>tv_active := A, tv_live := L, tv_outbox := Ob\<rparr>)"
    and quiet: "th_owned pc = {}" "th_retried pc = {}" "th_acked pc = {}" "\<And>r. th_snapshot r pc = {}"
    and old: "th_staged (tv_threads v i) = {}"
    and gain: "\<And>w. owns v' w t \<Longrightarrow> \<not> owns v w t \<Longrightarrow> t \<in> th_owned (tv_threads v i)"
    and one: "\<And>w w'. owns v' w t \<Longrightarrow> \<not> owns v w t \<Longrightarrow> owns v' w' t \<Longrightarrow> \<not> owns v w' t \<Longrightarrow> w = w'"
    and stage: "t \<in> th_staged pc \<Longrightarrow> \<exists>w. w \<noteq> Thread i \<and> owns v w t \<and> \<not> owns v' w t"
    and outbox: "t \<in> Ob \<longleftrightarrow> t \<in> tv_outbox v"
    and lose: "\<And>w. owns v w t \<Longrightarrow> \<not> owns v' w t \<Longrightarrow> t \<in> th_staged pc \<or> (\<exists>w'. owns v' w' t)"
  shows "token_ok v' t"
proof -
  have uniq: "owns v w t \<Longrightarrow> owns v w' t \<Longrightarrow> w = w'" and ndis: "owns v w t \<Longrightarrow> \<not> released v t"
    and ne: "owns v w t \<or> released v t \<Longrightarrow> t \<noteq> []" and need: "needed v t \<Longrightarrow> known v t \<and> \<not> acked v t" for w w'
    using ok unfolding token_ok_def by blast+
  have here: "owns v (Thread i) t \<longleftrightarrow> t \<in> th_owned (tv_threads v i)" "\<not> owns v' (Thread i) t" by (simp_all add: v' quiet)
  have had: "\<exists>w0. owns v w0 t \<and> (w0 = w \<or> w0 = Thread i)" if "owns v' w t" for w
    using gain [OF that] here(1) by blast
  have rel': "released v' t \<Longrightarrow> released v t \<or> t \<in> th_staged pc"
    by (auto simp: released_at [of _ _ i] v' quiet outbox)
  have staged_free: "\<not> owns v' w t" if "t \<in> th_staged pc" for w
  proof
    assume w: "owns v' w t"
    from stage [OF that] obtain w1 where w1: "w1 \<noteq> Thread i" "owns v w1 t" "\<not> owns v' w1 t" by blast
    from had [OF w] obtain w0 where "owns v w0 t" "w0 = w \<or> w0 = Thread i" by blast
    with uniq [OF w1(2)] w w1 show False by metis
  qed
  show ?thesis unfolding token_ok_def
  proof (intro conjI allI impI)
    fix w w' assume w: "owns v' w t" "owns v' w' t"
    show "w = w'"
    proof (cases "owns v w t \<or> owns v w' t")
      case True
      with had [OF w(1)] had [OF w(2)] uniq here(2) w show ?thesis by metis
    qed (use one w in blast)
  next
    fix w assume w: "owns v' w t"
    then show "\<not> released v' t" using had [OF w] ndis rel' staged_free by blast
  next
    assume "(\<exists>w. owns v' w t) \<or> released v' t"
    then show "t \<noteq> []" using had ne rel' stage by blast
  next
    assume "needed v' t"
    then have n: "needed v t"
      by (auto simp: needed_at [of _ _ i] v' quiet)
    have "\<not> acked v' t" using need [OF n] by (auto simp: acked_at [of _ _ i] v' quiet)
    moreover have "known v' t"
    proof (cases "\<exists>w. owns v w t")
      case True
      then show ?thesis using lose by (auto simp: known_def staged_at [of _ _ i] v')
    next
      case False
      then have "t \<in> tv_outbox v \<or> staged v t" using need [OF n] by (simp add: known_def)
      then show ?thesis by (auto simp: known_def staged_at [of _ _ i] v' old outbox)
    qed
    ultimately show "known v' t" "\<not> acked v' t" by blast+
  qed
qed

lemma tables_ok:
  assumes ok: "net_ok k n" and i: "i < length (ln_threads n)"
    and n1: "ln_threads n1 = ln_threads n" "ln_router n1 = ln_router n" "same_client (ln_client n) (ln_client n1)"
      "lt_gen_id (ln_tables n1) = lt_gen_id (ln_tables n)" "lt_gen_epoch (ln_tables n1) = lt_gen_epoch (ln_tables n)"
      "dict_ok (lt_active (ln_tables n1))" "dict_ok (lt_live (ln_tables n1))"
    and stray: "set (ln_stray n) \<subseteq> set (ln_stray n1)" and pc: "th_ok (set (ln_stray n1)) pc"
    and quiet: "th_owned pc = {}" "th_retried pc = {}" "th_acked pc = {}" "\<And>r. th_snapshot r pc = {}"
    and old: "th_staged (thread_at n i) = {}"
    and tok: "\<And>t v'. t \<notin> set (ln_stray n1) \<Longrightarrow> v' = net_view k (set_thread i pc n1) \<Longrightarrow>
      (\<forall>w. owns v' w t \<longrightarrow> \<not> owns (net_view k n) w t \<longrightarrow> t \<in> th_owned (thread_at n i)) \<and>
      (\<forall>w w'. owns v' w t \<longrightarrow> \<not> owns (net_view k n) w t \<longrightarrow> owns v' w' t \<longrightarrow> \<not> owns (net_view k n) w' t \<longrightarrow> w = w') \<and>
      (t \<in> th_staged pc \<longrightarrow> (\<exists>w. w \<noteq> Thread i \<and> owns (net_view k n) w t \<and> \<not> owns v' w t)) \<and>
      (t \<in> set (lc_outbox (ln_client n1)) \<longleftrightarrow> t \<in> set (lc_outbox (ln_client n))) \<and>
      (\<forall>w. owns (net_view k n) w t \<longrightarrow> \<not> owns v' w t \<longrightarrow> t \<in> th_staged pc \<or> (\<exists>w'. owns v' w' t))"
  shows "net_ok k (set_thread i pc n1)"
proof -
  let ?v = "net_view k n" and ?v' = "net_view k (set_thread i pc n1)"
  have th': "thread_at (set_thread i pc n1) = (thread_at n)(i := pc)"
    using thread_at_set [of i n1 pc] i n1(1) by (simp add: thread_at_def fun_eq_iff)
  have v': "?v' = move i pc (?v\<lparr>tv_active := map_of (lt_active (ln_tables n1)), tv_live := map_of (lt_live (ln_tables n1)),
      tv_outbox := set (lc_outbox (ln_client n1))\<rparr>)"
    using n1(2) by (simp add: net_view_def move_def th') (simp add: set_thread_def)
  have "token_ok ?v' t" if t: "t \<notin> set (ln_stray n1)" for t
  proof (rule token_ok_tables [OF _ v'])
    show "token_ok ?v t" using ok t stray unfolding net_ok_def by blast
  qed (use tok [OF t refl] quiet old in simp_all)
  moreover have "th_ok (set (ln_stray n1)) (thread_at (set_thread i pc n1) j)" for j
    using ok pc th_ok_mono [OF stray] unfolding net_ok_def th' by simp
  ultimately show ?thesis
    using ok n1 unfolding net_ok_def by (simp add: set_thread_def same_client_def)
qed

text \<open>Taking a session's tokens off the tables.\<close>

lemma view_set_tables:
  assumes i: "i < length (ln_threads n)" and n1: "ln_threads n1 = ln_threads n"
  shows "tv_active (net_view k (set_thread i pc n1)) = map_of (lt_active (ln_tables n1))"
    "tv_live (net_view k (set_thread i pc n1)) = map_of (lt_live (ln_tables n1))"
    "tv_threads (net_view k (set_thread i pc n1)) = (thread_at n)(i := pc)"
proof -
  show "tv_threads (net_view k (set_thread i pc n1)) = (thread_at n)(i := pc)"
    using thread_at_set [of i n1 pc] i n1 by (simp add: thread_at_def fun_eq_iff)
qed (simp_all add: set_thread_def)

lemma pop_step:
  assumes ok: "net_ok k n" and i: "i < length (ln_threads n)"
    and pc0: "th_owned (thread_at n i) = {}" "th_staged (thread_at n i) = {}"
    and n1: "ln_threads n1 = ln_threads n" "ln_router n1 = ln_router n" "same_client (ln_client n) (ln_client n1)"
      "lt_gen_id (ln_tables n1) = lt_gen_id (ln_tables n)" "lt_gen_epoch (ln_tables n1) = lt_gen_epoch (ln_tables n)"
      "dict_ok (lt_active (ln_tables n1))" "dict_ok (lt_live (ln_tables n1))"
    and stray: "set (ln_stray n) \<subseteq> set (ln_stray n1)"
    and pc: "pc = Releasing ts \<or> pc = Resting \<and> ts = []"
    and outbox: "\<And>t. t \<notin> set (ln_stray n1) \<Longrightarrow> t \<in> set (lc_outbox (ln_client n1)) \<longleftrightarrow> t \<in> set (lc_outbox (ln_client n))"
    and sub: "map_of (lt_active (ln_tables n1)) \<subseteq>\<^sub>m map_of (lt_active (ln_tables n))"
      "map_of (lt_live (ln_tables n1)) \<subseteq>\<^sub>m map_of (lt_live (ln_tables n))"
    and gone: "\<And>s t. map_of (lt_active (ln_tables n)) s = Some t \<Longrightarrow> map_of (lt_active (ln_tables n1)) s = None \<Longrightarrow> t \<in> set ts \<or> t \<in> set (ln_stray n1)"
      "\<And>s t. map_of (lt_live (ln_tables n)) s = Some t \<Longrightarrow> map_of (lt_live (ln_tables n1)) s = None \<Longrightarrow> t \<in> set ts \<or> t \<in> set (ln_stray n1)"
    and src: "\<And>t. t \<in> set ts \<Longrightarrow> (\<exists>s. map_of (lt_active (ln_tables n)) s = Some t \<and> map_of (lt_active (ln_tables n1)) s = None) \<or>
      (\<exists>s. map_of (lt_live (ln_tables n)) s = Some t \<and> map_of (lt_live (ln_tables n1)) s = None)"
  shows "net_ok k (set_thread i pc n1)"
proof (rule tables_ok [OF ok i n1 stray])
  show "th_ok (set (ln_stray n1)) pc" "th_owned pc = {}" "th_retried pc = {}" "th_acked pc = {}" "th_snapshot r pc = {}" for r
    using pc by auto
  show "th_staged (thread_at n i) = {}" by (rule pc0)
next
  fix t v'
  assume t: "t \<notin> set (ln_stray n1)" and v': "v' = net_view k (set_thread i pc n1)"
  note owns' = view_set_tables [OF i n1(1), of k pc, folded v']
  have st: "th_staged pc = set ts" "th_owned pc = {}" using pc by auto
  have less: "owns v' w t \<Longrightarrow> owns (net_view k n) w t" for w
    using sub pc0 st by (cases w) (auto simp: owns' map_le_def dom_def split: if_splits)
  have lost: "t \<in> set ts" if w: "owns (net_view k n) w t" "\<not> owns v' w t" for w
  proof (cases w)
    case (Active s)
    then have "map_of (lt_active (ln_tables n)) s = Some t" "map_of (lt_active (ln_tables n1)) s \<noteq> Some t"
      using w by (simp_all add: owns')
    moreover from this sub(1) have "map_of (lt_active (ln_tables n1)) s = None"
      by (cases "map_of (lt_active (ln_tables n1)) s") (auto simp: map_le_def dom_def)
    ultimately show ?thesis using gone(1) t by blast
  next
    case (Live s)
    then have "map_of (lt_live (ln_tables n)) s = Some t" "map_of (lt_live (ln_tables n1)) s \<noteq> Some t"
      using w by (simp_all add: owns')
    moreover from this sub(2) have "map_of (lt_live (ln_tables n1)) s = None"
      by (cases "map_of (lt_live (ln_tables n1)) s") (auto simp: map_le_def dom_def)
    ultimately show ?thesis using gone(2) t by blast
  next
    case (Thread j)
    then show ?thesis using w pc0 by (simp add: owns' split: if_splits)
  qed
  have staged: "\<exists>w. w \<noteq> Thread i \<and> owns (net_view k n) w t \<and> \<not> owns v' w t" if "t \<in> set ts"
  proof -
    from src [OF that] obtain w where "w \<noteq> Thread i \<and> owns (net_view k n) w t \<and> \<not> owns v' w t"
    proof
      assume "\<exists>s. map_of (lt_active (ln_tables n)) s = Some t \<and> map_of (lt_active (ln_tables n1)) s = None"
      then obtain s where "map_of (lt_active (ln_tables n)) s = Some t" "map_of (lt_active (ln_tables n1)) s = None" by blast
      then show ?thesis using that [of "Active s"] by (simp add: owns')
    next
      assume "\<exists>s. map_of (lt_live (ln_tables n)) s = Some t \<and> map_of (lt_live (ln_tables n1)) s = None"
      then obtain s where "map_of (lt_live (ln_tables n)) s = Some t" "map_of (lt_live (ln_tables n1)) s = None" by blast
      then show ?thesis using that [of "Live s"] by (simp add: owns')
    qed
    then show ?thesis by blast
  qed
  show "(\<forall>w. owns v' w t \<longrightarrow> \<not> owns (net_view k n) w t \<longrightarrow> t \<in> th_owned (thread_at n i)) \<and>
      (\<forall>w w'. owns v' w t \<longrightarrow> \<not> owns (net_view k n) w t \<longrightarrow> owns v' w' t \<longrightarrow> \<not> owns (net_view k n) w' t \<longrightarrow> w = w') \<and>
      (t \<in> th_staged pc \<longrightarrow> (\<exists>w. w \<noteq> Thread i \<and> owns (net_view k n) w t \<and> \<not> owns v' w t)) \<and>
      (t \<in> set (lc_outbox (ln_client n1)) \<longleftrightarrow> t \<in> set (lc_outbox (ln_client n))) \<and>
      (\<forall>w. owns (net_view k n) w t \<longrightarrow> \<not> owns v' w t \<longrightarrow> t \<in> th_staged pc \<or> (\<exists>w'. owns v' w' t))"
    using less lost staged outbox [OF t] unfolding st by blast
qed

lemma pop_active_facts:
  assumes "pop_active sid lt = (lt', ts)"
  shows "lt_gen_id lt' = lt_gen_id lt" "lt_gen_epoch lt' = lt_gen_epoch lt" "lt_live lt' = lt_live lt"
    "map_of (lt_active lt') = (map_of (lt_active lt))(sid := None)" "dict_ok (lt_active lt) \<Longrightarrow> dict_ok (lt_active lt')"
    "set ts = {t. map_of (lt_active lt) sid = Some t}"
  using assms by (auto simp: pop_active_def split: option.splits)

lemma pop_terminal_facts:
  assumes "pop_terminal sid lt = (lt', ts)"
  shows "lt_gen_id lt' = lt_gen_id lt" "lt_gen_epoch lt' = lt_gen_epoch lt"
    "map_of (lt_active lt') = (map_of (lt_active lt))(sid := None)" "map_of (lt_live lt') = (map_of (lt_live lt))(sid := None)"
    "dict_ok (lt_active lt) \<Longrightarrow> dict_ok (lt_active lt')" "dict_ok (lt_live lt) \<Longrightarrow> dict_ok (lt_live lt')"
    "set ts = {t. map_of (lt_active lt) sid = Some t} \<union> {t. map_of (lt_live lt) sid = Some t}"
  using assms by (auto simp: pop_terminal_def pop_active_def pop_live_def split: option.splits)

lemma map_le_drop: "m(s := None) \<subseteq>\<^sub>m m"
  by (simp add: map_le_def)

lemma ready_thread: "ready i n \<Longrightarrow> i < length (ln_threads n) \<and> thread_at n i = Resting"
  by (simp add: ready_def thread_at_def)

lemma net_ok_dicts: "net_ok k n \<Longrightarrow> dict_ok (lt_active (ln_tables n)) \<and> dict_ok (lt_live (ln_tables n))"
  by (simp add: net_ok_def)

lemma same_client_refl [simp]: "same_client lc lc"
  by (simp add: same_client_def)

lemma step_idle:
  assumes ok: "net_ok k n" and r: "ready i n"
  shows "net_ok k (begin_pop i (pop_active sid (ln_tables n)) n)"
proof -
  obtain lt ts where p: "pop_active sid (ln_tables n) = (lt, ts)" by fastforce
  note f = pop_active_facts [OF p] and t = ready_thread [OF r] and d = net_ok_dicts [OF ok]
  show ?thesis unfolding begin_pop_def p fst_conv snd_conv
    by (rule pop_step [OF ok, of i _ "Releasing ts" ts]) (use t d f(1-5) in \<open>auto simp: f(6) map_le_drop split: if_splits\<close>)
qed

lemma step_ended:
  assumes ok: "net_ok k n" and r: "ready i n"
  shows "net_ok k (begin_pop i (pop_terminal sid (ln_tables n)) n)"
proof -
  obtain lt ts where p: "pop_terminal sid (ln_tables n) = (lt, ts)" by fastforce
  note f = pop_terminal_facts [OF p] and t = ready_thread [OF r] and d = net_ok_dicts [OF ok]
  show ?thesis unfolding begin_pop_def p fst_conv snd_conv
    by (rule pop_step [OF ok, of i _ "Releasing ts" ts]) (use t d f(1-6) in \<open>auto simp: f(7) map_le_drop split: if_splits\<close>)
qed

lemma step_freed:
  assumes ok: "net_ok k n" and r: "ready i n"
  shows "net_ok k (begin_pop i (pop_freed sid (ln_tables n)) n)"
proof (cases "map_of (lt_active (ln_tables n)) sid")
  case None
  note t = ready_thread [OF r] and d = net_ok_dicts [OF ok]
  have "net_ok k (set_thread i (Releasing []) (n\<lparr>ln_tables := ln_tables n\<rparr>))"
    by (rule pop_step [OF ok, of i _ "Releasing []" "[]"]) (use t d in auto)
  with None show ?thesis by (simp add: begin_pop_def pop_freed_def)
next
  case (Some a)
  then show ?thesis using step_ended [OF ok r, of sid] by (simp add: pop_freed_def)
qed

lemma step_failing:
  assumes ok: "net_ok k n" and i: "i < length (ln_threads n)" and pc: "thread_at n i = FailingTurn s u"
    and c: "call f ta tv (release_request u (ln_client n)) n = (rep, n1)"
  shows "net_ok k (set_thread i (FailingReplied s u rep) n1)"
proof -
  note c' = c [unfolded net_ids(1) [OF ok]]
  note fr = call_frame [OF c'] and rel = call_release [OF c']
  have u: "u \<in> set (ln_stray n)" using ok pc unfolding net_ok_def by (metis th_ok.simps(4))
  show ?thesis
  proof (rule thread_step_ok [OF ok i])
    show "th_ok (set (ln_stray n1)) (FailingReplied s u rep)" using u rel(3) by simp
  next
    fix t assume "t \<notin> set (ln_stray n1)"
    then have t: "t \<notin> set (ln_stray n)" using rel(3) by simp
    show "t \<in> set (lc_outbox (ln_client n1)) \<or> t \<in> th_staged (FailingReplied s u rep) \<or> t \<in> th_retried (FailingReplied s u rep) \<Longrightarrow>
        released (net_view k n) t \<or> t \<in> th_owned (thread_at n i) \<and> t \<notin> th_owned (FailingReplied s u rep)"
      using fr(3) by (simp add: released_def)
    assume "t \<in> held_tokens k (ln_router n1) \<or> \<not> reconciled k (ln_router n1) \<and>
        (t \<in> th_snapshot (VStr (ls_reconciliation_id (ln_router n))) (FailingReplied s u rep) \<or>
         others (\<lambda>p. t \<in> th_snapshot (VStr (ls_reconciliation_id (ln_router n))) p) i (net_view k n))"
    with split_facts [OF ok t, of i] pc fr(3) rel(2,4)
    show "(tabled (net_view k n) t \<or> t \<in> th_owned (FailingReplied s u rep) \<or> others (\<lambda>p. t \<in> th_owned p) i (net_view k n) \<or>
        t \<in> set (lc_outbox (ln_client n1)) \<or> t \<in> th_staged (FailingReplied s u rep) \<or> others (\<lambda>p. t \<in> th_staged p) i (net_view k n)) \<and>
      \<not> (t \<in> th_acked (FailingReplied s u rep) \<or> others (\<lambda>p. t \<in> th_acked p) i (net_view k n))"
      by auto
  qed (use fr rel in simp_all)
qed

lemma step_failing_replied:
  assumes ok: "net_ok k n" and i: "i < length (ln_threads n)" and pc: "thread_at n i = FailingReplied s u rep"
    and p: "pop_active s (ln_tables n) = (lt, ts)"
  shows "net_ok k (set_thread i Resting (n\<lparr>ln_client := snd (release_reply u rep (ln_client n)), ln_tables := lt, ln_stray := ln_stray n @ ts\<rparr>))"
proof -
  obtain r lc where rr: "release_reply u rep (ln_client n) = (r, lc)" by fastforce
  note e = release_reply_effect [OF rr] and f = pop_active_facts [OF p] and d = net_ok_dicts [OF ok]
  have u: "u \<in> set (ln_stray n)" using ok pc unfolding net_ok_def by (metis th_ok.simps(5))
  have other: "t \<in> set (lc_outbox lc) \<longleftrightarrow> t \<in> set (lc_outbox (ln_client n))" if "t \<notin> set (ln_stray n)" for t
    using e(2) u that by blast
  show ?thesis
    by (rule pop_step [OF ok i, of _ Resting "[]"])
      (use pc d f(1-5) e(1) u other in \<open>auto simp: rr f(6) map_le_drop split: if_splits\<close>)
qed

text \<open>A grant that goes into the tables.\<close>

lemma put_token_facts:
  "map_of (put_token sid x d) = (case x of None \<Rightarrow> map_of d | Some t \<Rightarrow> (map_of d)(sid \<mapsto> t))" "dict_ok d \<Longrightarrow> dict_ok (put_token sid x d)"
  by (simp_all add: put_token_def split: option.split)

lemma step_commit_start:
  assumes ok: "net_ok k n" and i: "i < length (ln_threads n)" and pc: "thread_at n i = Granted s a True tokens"
    and new: "map_of (lt_active (ln_tables n)) s = None" "map_of (lt_live (ln_tables n)) s = None"
  shows "net_ok k (set_thread i Resting (n\<lparr>ln_tables := commit_start s tokens (ln_tables n)\<rparr>))"
proof -
  have "th_ok (set (ln_stray n)) (Granted s a True tokens)" using ok pc unfolding net_ok_def by metis
  then obtain res where tok: "tokens = tokens_json res" and res: "results_ok (set (ln_stray n)) True res" by auto
  note g = granted_shape [OF res] and d = net_ok_dicts [OF ok]
  let ?n1 = "n\<lparr>ln_tables := commit_start s tokens (ln_tables n)\<rparr>"
  have tables: "lt_active (ln_tables ?n1) = put_token s (extract_tid (token_info ''active'' tokens)) (lt_active (ln_tables n))"
    "lt_live (ln_tables ?n1) = put_token s (extract_tid (token_info ''live'' tokens)) (lt_live (ln_tables n))"
    "lt_gen_id (ln_tables ?n1) = lt_gen_id (ln_tables n)" "lt_gen_epoch (ln_tables ?n1) = lt_gen_epoch (ln_tables n)"
    by (simp_all add: commit_start_def Let_def)
  have act: "map_of (lt_active (ln_tables ?n1)) x = Some t \<longleftrightarrow>
      map_of (lt_active (ln_tables n)) x = Some t \<or> x = s \<and> t \<noteq> [] \<and> (\<exists>f. map_of res ''active'' = Some (t, f))" for x t
    unfolding tables put_token_facts unfolding tok extract_json using new(1) by (auto split: option.splits if_splits)
  have live: "map_of (lt_live (ln_tables ?n1)) x = Some t \<longleftrightarrow>
      map_of (lt_live (ln_tables n)) x = Some t \<or> x = s \<and> t \<noteq> [] \<and> (\<exists>f. map_of res ''live'' = Some (t, f))" for x t
    unfolding tables put_token_facts unfolding tok extract_json using new(2) by (auto split: option.splits if_splits)
  show ?thesis
  proof (rule tables_ok [OF ok i])
    show "dict_ok (lt_active (ln_tables ?n1))" "dict_ok (lt_live (ln_tables ?n1))"
      unfolding tables using d put_token_facts(2) by blast+
    fix t v'
    assume "t \<notin> set (ln_stray ?n1)" and v': "v' = net_view k (set_thread i Resting ?n1)"
    then have t: "t \<notin> set (ln_stray n)" by simp
    have view: "tv_active v' = map_of (lt_active (ln_tables ?n1))" "tv_live v' = map_of (lt_live (ln_tables ?n1))"
      "tv_threads v' = (thread_at n)(i := Resting)"
      unfolding v' by (rule view_set_tables [OF i], simp)+
    have gain: "w = Active s \<and> (\<exists>f. map_of res ''active'' = Some (t, f)) \<and> t \<noteq> [] \<or> w = Live s \<and> (\<exists>f. map_of res ''live'' = Some (t, f)) \<and> t \<noteq> []"
      if "owns v' w t" "\<not> owns (net_view k n) w t" for w
      using that act live by (cases w) (auto simp: view split: if_splits)
    have both: "\<not> (\<exists>f f'. map_of res ''active'' = Some (t, f) \<and> map_of res ''live'' = Some (t, f')) \<or> t = []"
      using g(3) [OF t] res t unfolding results_ok_def by (metis (full_types))
    have keep: "\<exists>w'. owns v' w' t" if w: "owns (net_view k n) w t" "\<not> owns v' w t" for w
    proof -
      have "w = Thread i"
        using w act live by (cases w) (auto simp: view split: if_splits)
      with w have "t \<in> th_owned (thread_at n i)" by simp
      then obtain kind f where kf: "map_of res kind = Some (t, f)" "t \<noteq> []" using g(1) by (auto simp: pc tok)
      from g(2) [OF kf(1)] show ?thesis
      proof
        assume "kind = ''active''"
        with kf act [of s t] have "owns v' (Active s) t" by (auto simp: view)
        then show ?thesis by blast
      next
        assume "kind = ''live'' \<and> True"
        with kf live [of s t] have "owns v' (Live s) t" by (auto simp: view)
        then show ?thesis by blast
      qed
    qed
    show "(\<forall>w. owns v' w t \<longrightarrow> \<not> owns (net_view k n) w t \<longrightarrow> t \<in> th_owned (thread_at n i)) \<and>
      (\<forall>w w'. owns v' w t \<longrightarrow> \<not> owns (net_view k n) w t \<longrightarrow> owns v' w' t \<longrightarrow> \<not> owns (net_view k n) w' t \<longrightarrow> w = w') \<and>
      (t \<in> th_staged Resting \<longrightarrow> (\<exists>w. w \<noteq> Thread i \<and> owns (net_view k n) w t \<and> \<not> owns v' w t)) \<and>
      (t \<in> set (lc_outbox (ln_client ?n1)) \<longleftrightarrow> t \<in> set (lc_outbox (ln_client n))) \<and>
      (\<forall>w. owns (net_view k n) w t \<longrightarrow> \<not> owns v' w t \<longrightarrow> t \<in> th_staged Resting \<or> (\<exists>w'. owns v' w' t))"
    proof (intro conjI allI impI)
      fix w assume w: "owns v' w t" "\<not> owns (net_view k n) w t"
      from gain [OF this] show "t \<in> th_owned (thread_at n i)" using g(1) by (auto simp: pc tok)
      fix w' assume w': "owns v' w' t" "\<not> owns (net_view k n) w' t"
      show "w = w'" using gain [OF w] gain [OF w'] both by blast
    qed (use keep in auto)
  qed (simp_all add: pc commit_start_def Let_def)
qed

lemma step_commit_turn:
  assumes ok: "net_ok k n" and i: "i < length (ln_threads n)" and pc: "thread_at n i = Granted s a False tokens"
    and c: "commit_turn s a tokens (ln_tables n) = (lt, stale)"
  shows "net_ok k (set_thread i (Releasing stale) (n\<lparr>ln_tables := lt\<rparr>))"
proof -
  have "th_ok (set (ln_stray n)) (Granted s a False tokens)" using ok pc unfolding net_ok_def by metis
  then obtain res where tok: "tokens = tokens_json res" and res: "results_ok (set (ln_stray n)) False res" by auto
  note g = granted_shape [OF res] and d = net_ok_dicts [OF ok]
  define x where "x = extract_tid (token_info ''active'' tokens)"
  have x: "x = Some t \<longleftrightarrow> t \<noteq> [] \<and> (\<exists>f. map_of res ''active'' = Some (t, f))" for t
    unfolding x_def tok extract_json by (auto split: option.splits if_splits)
  have own: "t \<in> th_owned (thread_at n i) \<longleftrightarrow> x = Some t" for t
    unfolding x using g(1,2) by (auto simp: pc tok)
  have lt: "lt_live lt = lt_live (ln_tables n)" "lt_gen_id lt = lt_gen_id (ln_tables n)" "lt_gen_epoch lt = lt_gen_epoch (ln_tables n)"
    "map_of (lt_active lt) = (case x of None \<Rightarrow> map_of (lt_active (ln_tables n)) | Some t \<Rightarrow> (map_of (lt_active (ln_tables n)))(s \<mapsto> t))"
    "dict_ok (lt_active lt)" "set stale = {t. x \<noteq> None \<and> map_of (lt_active (ln_tables n)) s = Some t}"
    using c d unfolding commit_turn_def x_def by (auto split: option.splits)
  let ?n1 = "n\<lparr>ln_tables := lt\<rparr>"
  show ?thesis
  proof (rule tables_ok [OF ok i])
    show "dict_ok (lt_active (ln_tables ?n1))" "dict_ok (lt_live (ln_tables ?n1))" using lt d by simp_all
    fix t v'
    assume "t \<notin> set (ln_stray ?n1)" and v': "v' = net_view k (set_thread i (Releasing stale) ?n1)"
    then have t: "t \<notin> set (ln_stray n)" by simp
    have view: "tv_active v' = map_of (lt_active (ln_tables ?n1))" "tv_live v' = map_of (lt_live (ln_tables ?n1))"
      "tv_threads v' = (thread_at n)(i := Releasing stale)"
      unfolding v' by (rule view_set_tables [OF i], simp)+
    have uniq: "owns (net_view k n) w t \<Longrightarrow> owns (net_view k n) w' t \<Longrightarrow> w = w'" for w w'
      using ok t unfolding net_ok_def token_ok_def by blast
    have gain: "w = Active s \<and> x = Some t" if "owns v' w t" "\<not> owns (net_view k n) w t" for w
      using that by (cases w) (auto simp: view lt split: if_splits option.splits)
    have lost: "x = Some t \<and> w = Thread i \<or> w = Active s \<and> t \<in> set stale" if "owns (net_view k n) w t" "\<not> owns v' w t" for w
      using that own [of t] by (cases w) (auto simp: view lt split: if_splits option.splits)
    have kept: "owns v' (Active s) t" if "x = Some t" using that by (simp add: view lt)
    have keep: "t \<in> set stale \<or> (\<exists>w'. owns v' w' t)" if "owns (net_view k n) w t" "\<not> owns v' w t" for w
      using lost [OF that] kept by blast
    show "(\<forall>w. owns v' w t \<longrightarrow> \<not> owns (net_view k n) w t \<longrightarrow> t \<in> th_owned (thread_at n i)) \<and>
      (\<forall>w w'. owns v' w t \<longrightarrow> \<not> owns (net_view k n) w t \<longrightarrow> owns v' w' t \<longrightarrow> \<not> owns (net_view k n) w' t \<longrightarrow> w = w') \<and>
      (t \<in> th_staged (Releasing stale) \<longrightarrow> (\<exists>w. w \<noteq> Thread i \<and> owns (net_view k n) w t \<and> \<not> owns v' w t)) \<and>
      (t \<in> set (lc_outbox (ln_client ?n1)) \<longleftrightarrow> t \<in> set (lc_outbox (ln_client n))) \<and>
      (\<forall>w. owns (net_view k n) w t \<longrightarrow> \<not> owns v' w t \<longrightarrow> t \<in> th_staged (Releasing stale) \<or> (\<exists>w'. owns v' w' t))"
    proof (intro conjI allI impI)
      assume "t \<in> th_staged (Releasing stale)"
      then have st: "x \<noteq> None" "map_of (lt_active (ln_tables n)) s = Some t" using lt(6) by auto
      then have a: "owns (net_view k n) (Active s) t" by simp
      moreover have "x \<noteq> Some t"
      proof
        assume "x = Some t"
        then have "owns (net_view k n) (Thread i) t" using own by simp
        from uniq [OF a this] show False by simp
      qed
      then have "\<not> owns v' (Active s) t" using st(1) by (auto simp: view lt)
      ultimately show "\<exists>w. w \<noteq> Thread i \<and> owns (net_view k n) w t \<and> \<not> owns v' w t" by blast
    qed (use gain keep own in auto)
  qed (simp_all add: lt pc)
qed

section \<open>Every step\<close>

text \<open>
  What the environment promises: minted ids are new, a start uses a session that has no tokens,
  a restarted router an id that no registration under way carries, and the router serves other
  generations (or drops ours when it is dead) without reopening a reconciliation.
\<close>

fun op_elsewhere :: "epoch_key \<Rightarrow> lease_op \<Rightarrow> bool" where
  "op_elsewhere k (Acquire_op g e s a kinds rid ta tv) = ((g, e) \<noteq> k)"
| "op_elsewhere k (Release_op g e t rid) = ((g, e) \<noteq> k)"
| "op_elsewhere k (Release_epoch_op g e) = True"
| "op_elsewhere k (Register_op g e rid act live) = ((g, e) \<noteq> k)"
| "op_elsewhere k _ = False"

definition own_epoch :: "lease_net \<Rightarrow> epoch_key" where
  "own_epoch n = (lt_gen_id (ln_tables n), lt_gen_epoch (ln_tables n))"

definition advance_legal :: "lease_net \<Rightarrow> lease_pc \<Rightarrow> string \<Rightarrow> string \<Rightarrow> bool \<Rightarrow> bool" where
  "advance_legal n pc ta tv go =
     (case pc of
        Acquiring s a start \<Rightarrow> unused (own_epoch n) n ta \<and> unused (own_epoch n) n tv \<and> ta \<noteq> tv
      | Granted s a start tokens \<Rightarrow>
          \<not> (start \<and> go) \<or> map_of (lt_active (ln_tables n)) s = None \<and> map_of (lt_live (ln_tables n)) s = None
      | _ \<Rightarrow> True)"

fun lease_net_legal :: "lease_net \<Rightarrow> lease_event \<Rightarrow> bool" where
  "lease_net_legal n (Advance i f ta tv go) = advance_legal n (if i < length (ln_threads n) then ln_threads n ! i else Resting) ta tv go"
| "lease_net_legal n (Router_restart rid) = list_all (\<lambda>pc. th_snapshot (VStr rid) pc = {}) (ln_threads n)"
| "lease_net_legal n (Router_op op) = op_elsewhere (own_epoch n) op"
| "lease_net_legal n _ = True"

lemma own_epoch_ok: "net_ok k n \<Longrightarrow> own_epoch n = k"
  by (simp add: net_ok_def own_epoch_def)

lemma outbox_released: "t \<in> set (lc_outbox (ln_client n)) \<Longrightarrow> released (net_view k n) t"
  by (simp add: released_def)

lemma staged_released: "t \<in> th_staged (thread_at n i) \<Longrightarrow> released (net_view k n) t"
  by (auto simp: released_def staged_def)

text \<open>The quiet steps: a thread moves on with nothing but the handshake mark changed.\<close>

lemma step_quiet:
  assumes ok: "net_ok k n" and i: "i < length (ln_threads n)" and client: "same_client (ln_client n) lc" "lc_outbox lc = lc_outbox (ln_client n)"
    and pc: "th_owned pc = th_owned (thread_at n i)" "th_staged pc = th_staged (thread_at n i)" "th_acked pc = {}"
      "th_snapshot (VStr (ls_reconciliation_id (ln_router n))) pc = {}" "th_ok (set (ln_stray n)) pc"
      "\<And>t. t \<in> th_retried pc \<Longrightarrow> released (net_view k n) t"
    and tables: "lt_active lt = lt_active (ln_tables n)" "lt_live lt = lt_live (ln_tables n)"
      "lt_gen_id lt = lt_gen_id (ln_tables n)" "lt_gen_epoch lt = lt_gen_epoch (ln_tables n)"
  shows "net_ok k (set_thread i pc (n\<lparr>ln_client := lc, ln_tables := lt\<rparr>))"
  by (rule outbox_step [OF ok i client(1) tables])
    (use pc client(2) in \<open>auto dest: outbox_released staged_released\<close>)

lemma handshake_mark [simp]:
  "lt_active (finish_handshake rid lt) = lt_active lt" "lt_live (finish_handshake rid lt) = lt_live lt"
  "lt_gen_id (finish_handshake rid lt) = lt_gen_id lt" "lt_gen_epoch (finish_handshake rid lt) = lt_gen_epoch lt"
  "lt_active (end_retry fin lt) = lt_active lt" "lt_live (end_retry fin lt) = lt_live lt"
  "lt_gen_id (end_retry fin lt) = lt_gen_id lt" "lt_gen_epoch (end_retry fin lt) = lt_gen_epoch lt"
  by (simp_all add: finish_handshake_def end_retry_def split: option.split)

lemma client_only: "n\<lparr>ln_client := lc\<rparr> = n\<lparr>ln_client := lc, ln_tables := ln_tables n\<rparr>"
  by simp

lemma step_register_replied:
  assumes ok: "net_ok k n" and i: "i < length (ln_threads n)" and pc: "thread_at n i = RegisterReplied rid rep"
    and l: "lease_thread f ta tv go (RegisterReplied rid rep) n = (pc', n1)"
  shows "net_ok k (set_thread i pc' n1)"
proof -
  obtain r lc where rr: "register_reply rep (ln_client n) = (r, lc)" by fastforce
  note e = register_reply_effect [OF rr]
  show ?thesis
  proof (cases r)
    case (Inl x)
    then have "pc' = Resting" "n1 = n\<lparr>ln_client := lc, ln_tables := finish_handshake rid (ln_tables n)\<rparr>"
      using l by (simp_all add: rr)
    then show ?thesis by (simp only:) (rule step_quiet [OF ok i e], simp_all add: pc)
  next
    case (Inr x)
    then have eq: "pc' = Retrying (lc_rid lc) (lc_outbox lc) (Some rid)" "n1 = n\<lparr>ln_client := mark_handshook rid lc, ln_tables := ln_tables n\<rparr>"
      unfolding client_only [symmetric] using l by (simp_all add: rr)
    have "same_client (ln_client n) (mark_handshook rid lc)" "lc_outbox (mark_handshook rid lc) = lc_outbox (ln_client n)"
      using e by (simp_all add: mark_handshook_def same_client_def)
    then show ?thesis unfolding eq by (rule step_quiet [OF ok i]) (simp_all add: pc e(2) outbox_released)
  qed
qed

lemma step_advance:
  assumes ok: "net_ok k n" and i: "i < length (ln_threads n)" and legal: "advance_legal n (ln_threads n ! i) ta tv go"
    and l: "lease_thread f ta tv go (ln_threads n ! i) n = (pc', n1)"
  shows "net_ok k (set_thread i pc' n1)"
proof -
  have at: "thread_at n i = ln_threads n ! i" using i by (simp add: thread_at_def)
  note k = own_epoch_ok [OF ok]
  have quiet: "net_ok k (set_thread i Resting (n\<lparr>ln_client := ln_client n, ln_tables := lt\<rparr>))"
    if "th_owned (ln_threads n ! i) = {}" "th_staged (ln_threads n ! i) = {}"
      "lt_active lt = lt_active (ln_tables n)" "lt_live lt = lt_live (ln_tables n)"
      "lt_gen_id lt = lt_gen_id (ln_tables n)" "lt_gen_epoch lt = lt_gen_epoch (ln_tables n)" for lt
    by (rule step_quiet [OF ok i same_client_refl refl]) (use that at in simp_all)
  show ?thesis
  proof (cases "ln_threads n ! i")
    case Resting
    then show ?thesis using l quiet [of "ln_tables n"] by simp
  next
    case (Releasing ts)
    show ?thesis
    proof (cases ts)
      case Nil
      then show ?thesis using l Releasing quiet [of "ln_tables n"] by simp
    next
      case (Cons u us)
      then show ?thesis using l Releasing step_release [OF ok i, of u us] at by (auto split: prod.splits)
    qed
  next
    case (ReleaseReplied u rep ts)
    then show ?thesis using l step_release_replied [OF ok i] at by auto
  next
    case (Retrying rid ts fin)
    show ?thesis
    proof (cases ts)
      case Nil
      then show ?thesis using l Retrying quiet [of "end_retry fin (ln_tables n)"] by simp
    next
      case (Cons u us)
      then show ?thesis using l Retrying step_retry [OF ok i, of rid u us fin] at by (auto split: prod.splits)
    qed
  next
    case (RetryReplied rid u rep ts fin)
    obtain r lc where rr: "retry_reply u rep (ln_client n) = (r, lc)" by fastforce
    note st = step_retry_replied [OF ok i at [unfolded RetryReplied] rr]
    show ?thesis
    proof (cases r)
      case (Inl x)
      then have "pc' = Resting" "n1 = n\<lparr>ln_client := lc, ln_tables := end_retry fin (ln_tables n)\<rparr>"
        using l by (simp_all add: RetryReplied rr)
      then show ?thesis using st [of Resting "end_retry fin (ln_tables n)"] by simp
    next
      case (Inr x)
      then have "pc' = Retrying rid ts fin" "n1 = n\<lparr>ln_client := lc, ln_tables := ln_tables n\<rparr>"
        unfolding client_only [symmetric] using l by (simp_all add: RetryReplied rr)
      then show ?thesis using st [of "Retrying rid ts fin" "ln_tables n"] by simp
    qed
  next
    case (Acquiring s a start)
    then have "unused k n ta" "unused k n tv" "ta \<noteq> tv" using legal by (simp_all add: advance_legal_def k)
    then show ?thesis using l Acquiring step_acquire [OF ok i, of s a start] at by (auto split: prod.splits)
  next
    case (AcquireReplied s a start rep)
    obtain r lc where rr: "acquire_reply rep (ln_client n) = (r, lc)" by fastforce
    have "pc' = (case r of Inl _ \<Rightarrow> Resting | Inr tokens \<Rightarrow> Granted s a start tokens)" "n1 = n\<lparr>ln_client := lc\<rparr>"
      using l by (cases r; simp add: AcquireReplied rr)+
    then show ?thesis using step_acquire_replied [OF ok i at [unfolded AcquireReplied] rr] by simp
  next
    case (Granted s a start tokens)
    show ?thesis
    proof (cases go)
      case False
      then have "pc' = Releasing (if start then rollback_tokens tokens else rollback_turn tokens)" "n1 = n"
        using l by (simp_all add: Granted split: if_splits)
      then show ?thesis using step_rollback [OF ok i at [unfolded Granted] refl] by simp
    next
      case True
      show ?thesis
      proof (cases start)
        case start: True
        then have "pc' = Resting" "n1 = n\<lparr>ln_tables := commit_start s tokens (ln_tables n)\<rparr>"
          using l True by (simp_all add: Granted)
        moreover have "map_of (lt_active (ln_tables n)) s = None" "map_of (lt_live (ln_tables n)) s = None"
          using legal True start by (simp_all add: advance_legal_def Granted)
        ultimately show ?thesis using step_commit_start [OF ok i, of s a tokens] at Granted start by simp
      next
        case start: False
        obtain lt stale where c: "commit_turn s a tokens (ln_tables n) = (lt, stale)" by fastforce
        then have "pc' = Releasing stale" "n1 = n\<lparr>ln_tables := lt\<rparr>" using l True start by (simp_all add: Granted)
        then show ?thesis using step_commit_turn [OF ok i _ c] at Granted start by simp
      qed
    qed
  next
    case (Snapshotting rid)
    obtain act live where s: "lease_snapshot (ln_tables n) = (act, live)" by fastforce
    show ?thesis
    proof (cases "needs_handshake (ln_client n)")
      case True
      then show ?thesis using l step_snapshot [OF ok i at [unfolded Snapshotting] s] by (simp add: Snapshotting s)
    next
      case False
      then show ?thesis using l quiet [of "finish_handshake rid (ln_tables n)"] by (simp add: Snapshotting)
    qed
  next
    case (Registering rid act live)
    then show ?thesis using l step_register [OF ok i, of rid act live] at by (auto split: prod.splits)
  next
    case (RegisterReplied rid rep)
    then show ?thesis using l step_register_replied [OF ok i] at by metis
  next
    case (FailingTurn s u)
    then show ?thesis using l step_failing [OF ok i, of s u] at by (auto split: prod.splits)
  next
    case (FailingReplied s u rep)
    obtain lt ts where p: "pop_active s (ln_tables n) = (lt, ts)" by fastforce
    then show ?thesis using l FailingReplied step_failing_replied [OF ok i _ p] at by auto
  qed
qed

end
