(* ===== verification/Nelix_Lease_Net_Props.thy ===== *)
theory Nelix_Lease_Net_Props
  imports Nelix_Lease_Net_Steps Nelix_Leases_Props
begin

text \<open>
  What the lease protocol promises as a whole: along every run, through lost messages, lost
  replies and router restarts, no lease of the generation is forgotten, except the ones the
  model names as stray; a client without ids never frees anything.
\<close>

section \<open>The remaining events\<close>

lemma router_ok:
  assumes ok: "net_ok k n"
    and need: "\<And>t. needed (net_view k (n\<lparr>ln_router := ls\<rparr>)) t \<Longrightarrow> needed (net_view k n) t"
  shows "net_ok k (n\<lparr>ln_router := ls\<rparr>)"
proof -
  have th: "thread_at (n\<lparr>ln_router := ls\<rparr>) = thread_at n" by (simp add: thread_at_def fun_eq_iff)
  have owns: "owns (net_view k (n\<lparr>ln_router := ls\<rparr>)) w t = owns (net_view k n) w t" for w t
    by (cases w) (simp_all add: th)
  have same: "released (net_view k (n\<lparr>ln_router := ls\<rparr>)) t = released (net_view k n) t"
    "known (net_view k (n\<lparr>ln_router := ls\<rparr>)) t = known (net_view k n) t"
    "acked (net_view k (n\<lparr>ln_router := ls\<rparr>)) t = acked (net_view k n) t" for t
    by (simp_all add: released_def staged_def known_def acked_def owns th)
  have "token_ok (net_view k (n\<lparr>ln_router := ls\<rparr>)) t" if "t \<notin> set (ln_stray n)" for t
  proof -
    have "token_ok (net_view k n) t" using ok that by (simp add: net_ok_def)
    then show ?thesis using need [of t] unfolding token_ok_def owns same by blast
  qed
  then show ?thesis using ok unfolding net_ok_def th by simp
qed

lemma release_all_frame:
  "es_reconciled_rid (fst (release_all ps (es, ls))) = es_reconciled_rid es \<and>
   ls_epochs (snd (release_all ps (es, ls))) = ls_epochs ls \<and>
   ls_reconciliation_id (snd (release_all ps (es, ls))) = ls_reconciliation_id ls"
proof (induction ps arbitrary: es ls)
  case (Cons p ps)
  show ?case using Cons.IH by (cases p) simp
qed simp

text \<open>What the router does for others leaves the generation's leases and its gate alone; a dead epoch only loses them.\<close>

lemma op_elsewhere_view:
  fixes ls :: lease_service
  assumes "op_elsewhere k op"
  shows "held_tokens k (lease_step ls op) \<subseteq> held_tokens k ls" "same_gate k ls (lease_step ls op)"
proof -
  have put: "held_tokens k (put_epoch k0 es ls1) = held_tokens k ls \<and> same_gate k ls (put_epoch k0 es ls1)"
    if "k0 \<noteq> k" "\<And>j. held ls1 j = held ls j" "ls_reconciliation_id ls1 = ls_reconciliation_id ls" for k0 es ls1
    using that by (simp add: held_tokens_def reconciled_def held_put)
  have "held_tokens k (lease_step ls op) \<subseteq> held_tokens k ls \<and> same_gate k ls (lease_step ls op)"
  proof (cases op)
    case (Acquire_op g e s a kinds rid ta tv)
    then have ne: "(g, e) \<noteq> k" using assms by simp
    show ?thesis
    proof (cases rule: acquire_cases [of rid ls g e s a kinds ta tv])
      case (granted es ls1 na nl res)
      have "held (snd (grants na nl ta tv ka kl (es, ls1))) j = held ls1 j" for ka kl j
        by (cases na; cases nl) (simp_all add: grants_def grant_def)
      then show ?thesis using put [OF ne] held_epoch_of [OF granted(2)] by (simp add: Acquire_op granted(9) grants_simps(4))
    qed (simp_all add: Acquire_op untouched)
  next
    case (Release_op g e t rid)
    then have ne: "(g, e) \<noteq> k" using assms by simp
    show ?thesis
    proof (cases rule: release_cases [of rid ls g e t])
      case (freed es ls1 entry)
      then show ?thesis using put [OF ne] held_epoch_of [OF freed(2)] by (simp add: Release_op)
    qed (simp_all add: Release_op untouched)
  next
    case (Release_epoch_op g e)
    show ?thesis
    proof (cases "map_of (ls_epochs ls) (g, e)")
      case (Some es)
      obtain es' ls' where r: "release_all (es_tokens es) (es, ls) = (es', ls')" by fastforce
      note f = release_all_frame [of "es_tokens es" es ls, unfolded r fst_conv snd_conv]
      have "held ls' j = held ls j" for j using f by (simp add: held_eq)
      moreover have "held ls (g, e) = es" using Some by (simp add: held_eq)
      ultimately show ?thesis
        using f by (cases "k = (g, e)") (simp_all add: Release_epoch_op release_epoch_def Some r held_tokens_def reconciled_def held_put)
    qed (simp add: Release_epoch_op release_epoch_def)
  next
    case (Register_op g e rid act live)
    then have ne: "(g, e) \<noteq> k" using assms by simp
    show ?thesis
    proof (cases rule: register_cases [of rid ls g e act live])
      case (loaded es ls1)
      note eh = held_epoch_of [OF loaded(2)]
      have "held (ls1\<lparr>ls_global_active_count := x, ls_global_live_pty_count := y\<rparr>) j = held ls1 j" for x y j
        by (simp add: held_eq)
      then show ?thesis using put [OF ne] eh by (simp add: Register_op loaded(5))
    qed (simp_all add: Register_op untouched)
  qed (use assms in simp_all)
  then show "held_tokens k (lease_step ls op) \<subseteq> held_tokens k ls" "same_gate k ls (lease_step ls op)" by blast+
qed

lemma step_router_op:
  assumes ok: "net_ok k n" and op: "op_elsewhere k op"
  shows "net_ok k (n\<lparr>ln_router := lease_step (ln_router n) op\<rparr>)"
proof (rule router_ok [OF ok])
  have th: "thread_at (n\<lparr>ln_router := ls\<rparr>) = thread_at n" for ls by (simp add: thread_at_def fun_eq_iff)
  show "needed (net_view k (n\<lparr>ln_router := lease_step (ln_router n) op\<rparr>)) t \<Longrightarrow> needed (net_view k n) t" for t
    using op_elsewhere_view [OF op, of "ln_router n"] by (auto simp: needed_def th)
qed

lemma new_router_facts:
  "held_tokens k (new_router rid ls) = {}" "\<not> reconciled k (new_router rid ls)" "ls_reconciliation_id (new_router rid ls) = rid"
  by (simp_all add: new_router_def LeaseService_def held_tokens_def reconciled_def held_eq EpochLeaseState_def)

lemma step_restart:
  assumes ok: "net_ok k n" and fresh: "list_all (\<lambda>pc. th_snapshot (VStr rid) pc = {}) (ln_threads n)"
  shows "net_ok k (n\<lparr>ln_router := new_router rid (ln_router n)\<rparr>)"
proof (rule router_ok [OF ok])
  have th: "thread_at (n\<lparr>ln_router := ls\<rparr>) = thread_at n" for ls by (simp add: thread_at_def fun_eq_iff)
  have "th_snapshot (VStr rid) (thread_at n i) = {}" for i
    using fresh by (simp add: thread_at_def list_all_length)
  then show "needed (net_view k (n\<lparr>ln_router := new_router rid (ln_router n)\<rparr>)) t \<Longrightarrow> needed (net_view k n) t" for t
    by (simp add: needed_def th new_router_facts)
qed

lemma stray_ok:
  assumes ok: "net_ok k n"
  shows "net_ok k (n\<lparr>ln_stray := ln_stray n @ xs\<rparr>)"
proof -
  have th: "thread_at (n\<lparr>ln_stray := ls\<rparr>) = thread_at n" for ls by (simp add: thread_at_def fun_eq_iff)
  have v: "net_view k (n\<lparr>ln_stray := ls\<rparr>) = net_view k n" for ls by (simp add: net_view_def th)
  have "th_ok (set (ln_stray n) \<union> set xs) (thread_at n i)" for i
    using ok th_ok_mono [of "set (ln_stray n)" "set (ln_stray n) \<union> set xs"] by (simp add: net_ok_def)
  then show ?thesis using ok unfolding net_ok_def v th by simp
qed

lemma step_begin:
  assumes ok: "net_ok k n" and r: "ready i n"
    and pc: "th_owned pc = {}" "th_staged pc = {}" "th_acked pc = {}" "th_snapshot (VStr (ls_reconciliation_id (ln_router n))) pc = {}"
      "th_ok (set (ln_stray n)) pc" "th_retried pc \<subseteq> set (lc_outbox (ln_client n))"
    and tables: "lt_active lt = lt_active (ln_tables n)" "lt_live lt = lt_live (ln_tables n)"
      "lt_gen_id lt = lt_gen_id (ln_tables n)" "lt_gen_epoch lt = lt_gen_epoch (ln_tables n)"
  shows "net_ok k (set_thread i pc (n\<lparr>ln_tables := lt\<rparr>))"
proof -
  note t = ready_thread [OF r]
  have "net_ok k (set_thread i pc (n\<lparr>ln_client := ln_client n, ln_tables := lt\<rparr>))"
    by (rule step_quiet [OF ok _ same_client_refl refl]) (use t pc tables in \<open>auto intro: outbox_released\<close>)
  then show ?thesis by simp
qed

lemma step_begin_here:
  assumes "net_ok k n" "ready i n"
    "th_owned pc = {}" "th_staged pc = {}" "th_acked pc = {}" "th_snapshot (VStr (ls_reconciliation_id (ln_router n))) pc = {}"
    "th_ok (set (ln_stray n)) pc" "th_retried pc \<subseteq> set (lc_outbox (ln_client n))"
  shows "net_ok k (set_thread i pc n)"
  using step_begin [OF assms refl refl refl refl] by simp

section \<open>The invariant along a run\<close>

lemma lease_net_step_ok:
  assumes ok: "net_ok k n" and legal: "lease_net_legal n ev"
  shows "net_ok k (lease_net_step n ev)"
proof (cases ev)
  case (Session_idle i sid)
  then show ?thesis using ok step_idle [OF ok] by simp
next
  case (Session_ended i sid)
  then show ?thesis using ok step_ended [OF ok] by simp
next
  case (Slot_freed i sid)
  then show ?thesis using ok step_freed [OF ok] by simp
next
  case (Retry_outbox i)
  then show ?thesis using ok step_begin_here [OF ok, of i] by simp
next
  case (Acquire_leases i s a start)
  then show ?thesis using ok step_begin_here [OF ok, of i] by simp
next
  case (Ensure_handshake i)
  show ?thesis
  proof (cases "ready i n")
    case True
    then show ?thesis using ok step_begin [OF ok True, of "Snapshotting (lc_rid (ln_client n))"]
      by (simp add: Ensure_handshake begin_handshake_def Let_def)
  qed (use ok Ensure_handshake in simp)
next
  case (Turn_failed i sid t)
  show ?thesis
  proof (cases "ready i n")
    case True
    then have "ready i (n\<lparr>ln_stray := ln_stray n @ [t]\<rparr>)" by (simp add: ready_def)
    with True show ?thesis using step_begin_here [OF stray_ok [OF ok], of i "[t]" "FailingTurn sid t"]
      by (simp add: Turn_failed)
  qed (use ok Turn_failed in simp)
next
  case (Advance i f ta tv go)
  show ?thesis
  proof (cases "i < length (ln_threads n)")
    case True
    obtain pc n1 where l: "lease_thread f ta tv go (ln_threads n ! i) n = (pc, n1)" by fastforce
    then show ?thesis using step_advance [OF ok True _ l] legal True by (simp add: Advance)
  qed (use ok Advance in simp)
next
  case (Router_restart rid)
  then show ?thesis using step_restart [OF ok] legal by simp
next
  case (Router_op op)
  then show ?thesis using step_router_op [OF ok] legal own_epoch_ok [OF ok] by simp
qed

interpretation lease_net_machine: step_machine lease_net_step lease_net_legal "net_ok k" for k
  by unfold_locales (rule lease_net_step_ok)

definition lease_net_run :: "lease_net \<Rightarrow> lease_event list \<Rightarrow> lease_net" where
  "lease_net_run n evs = foldl lease_net_step n evs"

primrec lease_net_legal_run :: "lease_net \<Rightarrow> lease_event list \<Rightarrow> bool" where
  "lease_net_legal_run n [] = True"
| "lease_net_legal_run n (ev # evs) = (lease_net_legal n ev \<and> lease_net_legal_run (lease_net_step n ev) evs)"

text \<open>A generation that starts: empty tables, a client that knows its ids, resting threads, any router that holds nothing for it.\<close>

definition lease_net_init :: "string \<Rightarrow> string \<Rightarrow> nat \<Rightarrow> lease_service \<Rightarrow> lease_net" where
  "lease_net_init g e threads ls =
     \<lparr>ln_router = ls, ln_client = LeaseClient (Some g) (Some e), ln_tables = lease_tables_init g e,
      ln_threads = replicate threads Resting, ln_stray = []\<rparr>"

lemma lease_net_init_ok:
  assumes "held_tokens (g, e) ls = {}"
  shows "net_ok (g, e) (lease_net_init g e m ls)"
proof -
  have th: "thread_at (lease_net_init g e m ls) i = Resting" for i
    by (simp add: lease_net_init_def thread_at_def)
  have "\<not> owns (net_view (g, e) (lease_net_init g e m ls)) w t" for w t
    by (cases w) (simp_all add: th, simp_all add: lease_net_init_def lease_tables_init_def)
  then have "token_ok (net_view (g, e) (lease_net_init g e m ls)) t" for t
    using assms by (simp add: token_ok_def released_def staged_def needed_def th)
      (simp add: lease_net_init_def LeaseClient_def)
  then show ?thesis unfolding net_ok_def th
    by (simp add: lease_net_init_def LeaseClient_def lease_tables_init_def)
qed

lemma lease_net_run_ok:
  assumes "net_ok k n" "lease_net_legal_run n evs"
  shows "net_ok k (lease_net_run n evs)"
proof -
  have "lease_net_machine.run n evs = lease_net_run n evs" "lease_net_machine.legal_run n evs = lease_net_legal_run n evs" for n
    by (induction evs arbitrary: n) (simp_all add: lease_net_run_def)
  with lease_net_machine.run_inv [of k n evs] assms show ?thesis by simp
qed

section \<open>No lease is forgotten\<close>

definition table_tokens :: "lease_net \<Rightarrow> string set" where
  "table_tokens n = set (map snd (lt_active (ln_tables n)) @ map snd (lt_live (ln_tables n)))"

text \<open>Granted in a reply on its way or to a start or turn not yet in the tables; taken off the tables, its release not settled.\<close>

definition granted_in_transit :: "lease_net \<Rightarrow> string set" where
  "granted_in_transit n = \<Union> (th_owned ` set (ln_threads n))"

definition releasing :: "lease_net \<Rightarrow> string set" where
  "releasing n = set (lc_outbox (ln_client n)) \<union> \<Union> (th_staged ` set (ln_threads n))"

lemma dict_values:
  assumes "dict_ok d"
  shows "t \<in> set (map snd d) \<longleftrightarrow> (\<exists>s. map_of d s = Some t)"
  unfolding set_map image_iff map_of_eq_Some_iff [OF assms] by (metis prod.collapse snd_conv)

lemma tabled_tokens: "dict_ok (lt_active (ln_tables n)) \<Longrightarrow> dict_ok (lt_live (ln_tables n)) \<Longrightarrow>
    t \<in> table_tokens n \<longleftrightarrow> (\<exists>s. owns (net_view k n) (Active s) t) \<or> (\<exists>s. owns (net_view k n) (Live s) t)"
  unfolding table_tokens_def set_append Un_iff by (simp only: dict_values owns.simps net_view_simps)

lemma some_thread: "(\<forall>i. P (thread_at n i) \<longrightarrow> i < length (ln_threads n)) \<Longrightarrow> (\<exists>i. P (thread_at n i)) \<longleftrightarrow> (\<exists>pc\<in>set (ln_threads n). P pc)"
  by (metis in_set_conv_nth thread_at_def)

lemma transit_tokens: "t \<in> granted_in_transit n \<longleftrightarrow> (\<exists>i. owns (net_view k n) (Thread i) t)"
  using some_thread [of "\<lambda>pc. t \<in> th_owned pc" n] by (auto simp: granted_in_transit_def thread_at_def split: if_splits)

lemma releasing_tokens: "t \<in> releasing n \<longleftrightarrow> t \<in> set (lc_outbox (ln_client n)) \<or> staged (net_view k n) t"
  using some_thread [of "\<lambda>pc. t \<in> th_staged pc" n] by (auto simp: releasing_def staged_def thread_at_def split: if_splits)

lemma net_ok_sets:
  assumes "net_ok k n"
  shows "held_tokens k (ln_router n) \<subseteq> table_tokens n \<union> granted_in_transit n \<union> releasing n \<union> set (ln_stray n)"
    "(table_tokens n \<union> granted_in_transit n) \<inter> releasing n \<subseteq> set (ln_stray n)"
    "table_tokens n \<inter> granted_in_transit n \<subseteq> set (ln_stray n)"
proof -
  note d = net_ok_dicts [OF assms]
  note sets = tabled_tokens [OF conjunct1 [OF d] conjunct2 [OF d], of _ k] transit_tokens [of _ n k] releasing_tokens [of _ n k]
  have ok: "token_ok (net_view k n) t" if "t \<notin> set (ln_stray n)" for t using assms that by (simp add: net_ok_def)
  have held: "t \<in> held_tokens k (ln_router n) \<Longrightarrow> needed (net_view k n) t" for t by (simp add: needed_def)
  have own: "(\<exists>w. owns (net_view k n) w t) \<longleftrightarrow> t \<in> table_tokens n \<union> granted_in_transit n" for t
    unfolding Un_iff sets by (metis owner.exhaust)
  have rel: "t \<in> releasing n \<Longrightarrow> released (net_view k n) t" for t unfolding sets released_def by auto
  have "t \<in> table_tokens n \<union> granted_in_transit n \<union> releasing n"
    if "t \<in> held_tokens k (ln_router n)" "t \<notin> set (ln_stray n)" for t
    using ok [OF that(2)] held [OF that(1)] own [of t] unfolding token_ok_def known_def Un_iff releasing_tokens [of t n k] net_view_simps by blast
  then show "held_tokens k (ln_router n) \<subseteq> table_tokens n \<union> granted_in_transit n \<union> releasing n \<union> set (ln_stray n)" by blast
  have "t \<in> set (ln_stray n)" if "t \<in> table_tokens n \<union> granted_in_transit n" "t \<in> releasing n" for t
  proof (rule ccontr)
    assume "t \<notin> set (ln_stray n)"
    with ok own [of t] that rel [OF that(2)] show False unfolding token_ok_def by blast
  qed
  then show "(table_tokens n \<union> granted_in_transit n) \<inter> releasing n \<subseteq> set (ln_stray n)" by blast
  have "t \<in> set (ln_stray n)" if t: "t \<in> table_tokens n" "t \<in> granted_in_transit n" for t
  proof (rule ccontr)
    assume "t \<notin> set (ln_stray n)"
    then have uniq: "owns (net_view k n) w t \<Longrightarrow> owns (net_view k n) w' t \<Longrightarrow> w = w'" for w w'
      using ok unfolding token_ok_def by blast
    obtain i where i: "owns (net_view k n) (Thread i) t" using t(2) sets(2) by blast
    from t(1) obtain s where "owns (net_view k n) (Active s) t \<or> owns (net_view k n) (Live s) t" using sets(1) by blast
    then show False using uniq [OF i] by (metis owner.distinct(3,5))
  qed
  then show "table_tokens n \<inter> granted_in_transit n \<subseteq> set (ln_stray n)" by blast
qed

text \<open>
  C4: no lease is forgotten. Along every run of the protocol, with lost requests, lost replies,
  router restarts and any interleaving of the manager's threads, every token the router holds
  for the generation is in the manager's tables, granted to a thread that has not put it
  there yet, in the outbox or taken off the tables with its release under way, or one of the
  strays the model names (the grant of a lost reply, a repeated grant, the token of a turn
  that failed to send).
\<close>

theorem no_lease_leaks:
  assumes "held_tokens (g, e) ls = {}" "lease_net_legal_run (lease_net_init g e m ls) evs"
  defines "n \<equiv> lease_net_run (lease_net_init g e m ls) evs"
  shows "held_tokens (g, e) (ln_router n) \<subseteq> table_tokens n \<union> granted_in_transit n \<union> releasing n \<union> set (ln_stray n)"
  unfolding n_def by (rule net_ok_sets [OF lease_net_run_ok [OF lease_net_init_ok [OF assms(1)] assms(2)]])


section \<open>A client without ids\<close>





text \<open>What of the state no step takes back: leases held, releases that are pending.\<close>

definition keeps :: "epoch_key \<Rightarrow> lease_net \<Rightarrow> lease_net \<Rightarrow> bool" where
  "keeps k n n' \<longleftrightarrow> held_tokens k (ln_router n) \<subseteq> held_tokens k (ln_router n') \<and> releasing n - {[]} \<subseteq> releasing n'"











lemma keeps_refl [simp]: "keeps k n n"
  by (simp add: keeps_def)









section \<open>A run\<close>

text \<open>
  A start on a router that has just come up: the first acquire learns the router's id, a
  handshake reconciles, the second is granted and committed; then the session goes idle and the
  reply to its release is lost.
\<close>

definition demo_start :: "lease_event list" where
  "demo_start =
     (let go = Advance 0 Delivered ''t1'' ''t2'' True in
      [Acquire_leases 0 ''s'' ''0'' True, go, go, Ensure_handshake 0, go, go, go, go, Acquire_leases 0 ''s'' ''0'' True, go, go, go])"

definition demo_idle :: "fault \<Rightarrow> lease_event list" where
  "demo_idle f = [Session_idle 0 ''s'', Advance 0 f [] [] True, Advance 0 f [] [] True, Advance 0 f [] [] True]"


lemma demo_legal:
  "lease_net_legal_run (lease_net_init ''g'' ''e'' 1 (LeaseService 2 2 ''r'')) demo_start"
  "lease_net_legal_run (lease_net_init ''g'' ''e'' 1 (LeaseService 2 2 ''r'')) (demo_start @ demo_idle ReplyLost)"
  by code_simp+

theorem no_lease_leaks_witness:
  "''t2'' \<in> held_tokens (''g'', ''e'') (ln_router (lease_net_run (lease_net_init ''g'' ''e'' 1 (LeaseService 2 2 ''r'')) (demo_start @ demo_idle ReplyLost))) \<and>
   ''t2'' \<in> table_tokens (lease_net_run (lease_net_init ''g'' ''e'' 1 (LeaseService 2 2 ''r'')) (demo_start @ demo_idle ReplyLost))"
proof -
  let ?n0 = "lease_net_init ''g'' ''e'' 1 (LeaseService 2 2 ''r'')"
  let ?n = "lease_net_run ?n0 (demo_start @ demo_idle ReplyLost)"
  note legal = demo_legal(2)
  have held: "map fst (es_tokens (held (ln_router ?n) (''g'', ''e''))) = [''t2'']" by code_simp
  have rest: "ln_threads ?n = [Resting]" "lc_outbox (ln_client ?n) = [''t1'']" "ln_stray ?n = []" by code_simp+
  have "held_tokens (''g'', ''e'') (LeaseService 2 2 ''r'') = {}"
    by (simp add: held_tokens_def LeaseService_def held_eq EpochLeaseState_def)
  from no_lease_leaks [OF this legal] held rest show ?thesis
    by (auto simp: held_tokens_def dom_map_of_conv_image_fst granted_in_transit_def releasing_def simp flip: set_map)
qed



end
