(* ===== verification/Nelix_Supervisor.thy ===== *)
theory Nelix_Supervisor
  imports Nelix_Generations_Ops Nelix_Store_Frames
begin

text \<open>
  \<^verbatim>\<open>generation_supervisor.py\<close> as the registry uses it: who holds a generation's lock, what its
  daemon says of itself, adoption of a holder, reaping, spawning. Processes, the lock file and the
  sockets are a world that changes by itself: every probe asks it at the next instant. What a
  probe sees is an argument; what the code makes of it, and in which order it asks, is the model.
\<close>

section \<open>Actions\<close>

record incarnation =
  in_pid :: int
  in_fingerprint :: "string option"

text \<open>The lock holder's metadata: how to reach it when it named a unix socket, with its path if it gave one.\<close>

record lock_holder = incarnation +
  lh_unix :: "string option option"

datatype transport = Unix string | Tcp string int string

record active_generation =
  ag_incarnation :: incarnation
  ag_epoch :: string
  ag_generation_id :: string
  ag_transport :: transport
  ag_build_id :: "string option"

text \<open>
  The world: holder of a generation's lock at an instant, its state file, the daemons' answers,
  the outcome of a spawn, process liveness; freshly minted ids, the clock, the build the runtime
  says is active, the JSON text of an incarnation, the generation directories.
\<close>

datatype spawn_outcome = Spawned incarnation | Lost_race | Not_healthy

record world =
  w_holder :: "nat \<Rightarrow> string \<Rightarrow> lock_holder option"
  w_state :: "nat \<Rightarrow> string \<Rightarrow> (int \<times> transport) option"
  w_health :: "nat \<Rightarrow> transport \<Rightarrow> (string, pyval) dict option"
  w_compatible :: "nat \<Rightarrow> transport \<Rightarrow> bool"
  w_alive :: "nat \<Rightarrow> int \<Rightarrow> bool"
  w_spawn :: "nat \<Rightarrow> string \<Rightarrow> string \<Rightarrow> spawn_outcome"
  w_choice :: "nat \<Rightarrow> string \<Rightarrow> transport"
  w_sock :: "string \<Rightarrow> string"
  w_mint :: "nat \<Rightarrow> string"
  w_clock :: "nat \<Rightarrow> rat"
  w_runtime :: "nat \<Rightarrow> string option res"
  w_meta :: "incarnation \<Rightarrow> string"
  w_dirs :: "nat \<Rightarrow> string list"

text \<open>
  The registry with the store it shares, the instant, and (for the properties only) the processes
  the router has signalled.
\<close>

record registry =
  rg_db :: db
  rg_build_id :: "string option"
  rg_generation_id :: "string option"
  rg_active :: "active_generation option"
  rg_topology_revision :: int
  rg_health_retries :: nat
  rg_now :: nat
  rg_reaped :: "incarnation list"

type_synonym ('s, 'a) action = "'s \<Rightarrow> 'a res \<times> 's"

type_synonym 'a act = "(registry, 'a) action"

definition returns :: "'a \<Rightarrow> ('s, 'a) action" where
  "returns x r = (Inr x, r)"

definition raises :: "exn \<Rightarrow> ('s, 'a) action" where
  "raises e r = (Inl e, r)"

definition andthen :: "('s, 'a) action \<Rightarrow> ('a \<Rightarrow> ('s, 'b) action) \<Rightarrow> ('s, 'b) action" where
  "andthen m f r = (case m r of (Inl e, r1) \<Rightarrow> (Inl e, r1) | (Inr x, r1) \<Rightarrow> f x r1)"

definition catching :: "('s, 'a) action \<Rightarrow> (exn \<Rightarrow> ('s, 'a) action) \<Rightarrow> ('s, 'a) action" where
  "catching m h r = (case m r of (Inl e, r1) \<Rightarrow> h e r1 | (Inr x, r1) \<Rightarrow> (Inr x, r1))"

definition is_nelix :: "exn \<Rightarrow> bool" where
  "is_nelix e = (case e of NelixError c \<Rightarrow> True | _ \<Rightarrow> False)"

definition unavailable :: "('s, 'a) action" where
  "unavailable = raises (NelixError GENERATION_UNAVAILABLE)"

definition probe :: "(nat \<Rightarrow> 'a) \<Rightarrow> 'a act" where
  "probe f r = (Inr (f (rg_now r)), r\<lparr>rg_now := rg_now r + 1\<rparr>)"

definition reading :: "(db \<Rightarrow> 'a res) \<Rightarrow> 'a act" where
  "reading q r = (q (rg_db r), r)"

definition writing :: "(db \<Rightarrow> (db \<times> 'a) res) \<Rightarrow> 'a act" where
  "writing t r = (case t (rg_db r) of Inl e \<Rightarrow> (Inl e, r) | Inr (d, x) \<Rightarrow> (Inr x, r\<lparr>rg_db := d\<rparr>))"

definition changing :: "(registry \<Rightarrow> registry) \<Rightarrow> unit act" where
  "changing f r = (Inr (), f r)"

section \<open>Probes\<close>

definition live_lock_holder :: "world \<Rightarrow> string \<Rightarrow> lock_holder option act" where
  "live_lock_holder w g = probe (\<lambda>n. w_holder w n g)"

definition incarnation_of :: "lock_holder \<Rightarrow> incarnation" where
  "incarnation_of h = \<lparr>in_pid = in_pid h, in_fingerprint = in_fingerprint h\<rparr>"

definition same_holder :: "incarnation \<Rightarrow> lock_holder option \<Rightarrow> bool" where
  "same_holder inc h = (case h of None \<Rightarrow> False | Some x \<Rightarrow> incarnation_of x = inc)"

definition holder_transport :: "world \<Rightarrow> string \<Rightarrow> lock_holder \<Rightarrow> transport option" where
  "holder_transport w g h =
     (case lh_unix h of
        None \<Rightarrow> None
      | Some path \<Rightarrow> Some (Unix (case path of Some p \<Rightarrow> if p \<noteq> [] then p else w_sock w g | None \<Rightarrow> w_sock w g)))"

definition check_health :: "world \<Rightarrow> transport \<Rightarrow> bool act" where
  "check_health w t = probe (\<lambda>n. w_compatible w n t)"

text \<open>The three values of a \<open>/health\<close> answer, when all three keys are present.\<close>

definition identity_of :: "(string, pyval) dict option \<Rightarrow> (pyval \<times> pyval \<times> pyval) option" where
  "identity_of health =
     (case health of
        None \<Rightarrow> None
      | Some h \<Rightarrow>
          (case (map_of h ''generation_id'', map_of h ''generation_epoch'', map_of h ''build_id'') of
             (Some g, Some e, Some b) \<Rightarrow> Some (g, e, b)
           | _ \<Rightarrow> None))"

definition triple :: "string \<Rightarrow> string \<Rightarrow> string option \<Rightarrow> pyval \<times> pyval \<times> pyval" where
  "triple g e b = (VStr g, VStr e, opt_str b)"

definition health_identity :: "world \<Rightarrow> transport \<Rightarrow> (pyval \<times> pyval \<times> pyval) option act" where
  "health_identity w t = probe (\<lambda>n. identity_of (w_health w n t))"

definition check_health_strict :: "world \<Rightarrow> transport \<Rightarrow> string \<Rightarrow> string \<Rightarrow> string option \<Rightarrow> bool act" where
  "check_health_strict w t e g b = probe (\<lambda>n. identity_of (w_health w n t) = Some (triple g e b))"

text \<open>\<open>endpoint\<close>: the state file names the holder, and the daemon there says who it is.\<close>

definition endpoint :: "world \<Rightarrow> string \<Rightarrow> string option \<Rightarrow> string option \<Rightarrow> transport option act" where
  "endpoint w g b expected =
     andthen (live_lock_holder w g) (\<lambda>h.
     case h of None \<Rightarrow> returns None | Some h \<Rightarrow>
     andthen (probe (\<lambda>n. w_state w n g)) (\<lambda>st.
     case st of None \<Rightarrow> returns None | Some (pid, t) \<Rightarrow>
     if pid = 0 \<or> in_pid h \<noteq> pid then returns None
     else andthen (health_identity w t) (\<lambda>i.
     case i of None \<Rightarrow> returns None | Some (ig, ie, ib) \<Rightarrow>
     if ig \<noteq> VStr g \<or> ib \<noteq> opt_str b then returns None
     else if expected \<noteq> None \<and> ie \<noteq> opt_str expected then returns None
     else returns (Some t))))"

section \<open>Reaping\<close>

text \<open>
  \<open>reap_holder\<close>: only the recorded incarnation, only while it holds the lock, and true only on
  proof that it is gone.
\<close>

definition reap_daemon :: "incarnation \<Rightarrow> unit act" where
  "reap_daemon inc = changing (\<lambda>r. r\<lparr>rg_reaped := rg_reaped r @ [inc]\<rparr>)"

definition reap_holder :: "world \<Rightarrow> string \<Rightarrow> incarnation \<Rightarrow> bool act" where
  "reap_holder w g inc =
     (if in_pid inc = 0 \<or> in_fingerprint inc \<in> {None, Some []} then returns False
      else andthen (live_lock_holder w g) (\<lambda>h.
        case h of
          None \<Rightarrow> andthen (probe (\<lambda>n. w_alive w n (in_pid inc))) (\<lambda>alive. returns (\<not> alive))
        | Some x \<Rightarrow>
            if incarnation_of x \<noteq> inc then returns False
            else andthen (reap_daemon inc) (\<lambda>_.
                 andthen (probe (\<lambda>n. w_alive w n (in_pid inc))) (\<lambda>alive. returns (\<not> alive)))))"

section \<open>Adoption and spawning\<close>

definition capture_incarnation :: "world \<Rightarrow> string \<Rightarrow> incarnation option act" where
  "capture_incarnation w g = andthen (live_lock_holder w g) (\<lambda>h. returns (map_option incarnation_of h))"

definition epoch_matches :: "string option \<Rightarrow> pyval \<Rightarrow> bool" where
  "epoch_matches expected e \<longleftrightarrow> expected = None \<or> e = opt_str expected"

definition reconcile_lock_holder :: "world \<Rightarrow> string \<Rightarrow> string option \<Rightarrow> string option \<Rightarrow> transport option act" where
  "reconcile_lock_holder w g b expected =
     andthen (live_lock_holder w g) (\<lambda>h.
     case h of None \<Rightarrow> returns None | Some h \<Rightarrow>
     let reap = andthen (reap_holder w g (incarnation_of h)) (\<lambda>_. returns None) in
     case holder_transport w g h of
       None \<Rightarrow>
         andthen (endpoint w g b expected) (\<lambda>ep.
         case ep of None \<Rightarrow> reap | Some t \<Rightarrow>
         andthen (health_identity w t) (\<lambda>i.
         case i of None \<Rightarrow> reap | Some (ig, ie, ib) \<Rightarrow>
           if ig = VStr g \<and> ib = opt_str b \<and> epoch_matches expected ie then returns (Some t) else reap))
     | Some t \<Rightarrow>
         andthen (check_health w t) (\<lambda>ok.
         if \<not> ok then reap
         else andthen (health_identity w t) (\<lambda>i.
         case i of None \<Rightarrow> reap | Some (ig, ie, ib) \<Rightarrow>
           if ig = VStr g \<and> ib = opt_str b \<and> epoch_matches expected ie then returns (Some t) else reap)))"

text \<open>
  \<open>ensure_running\<close>. The loop that waits for the child's health and its lock is the outcome of the
  spawn. The incarnation is what \<open>_capture_incarnation\<close> finds, which may be nothing.
\<close>

definition ensure_running :: "world \<Rightarrow> string \<Rightarrow> string option \<Rightarrow> string \<Rightarrow> (incarnation option \<times> transport) act" where
  "ensure_running w g b epoch =
     (if epoch = [] then raises ValueError
      else andthen (endpoint w g b None) (\<lambda>existing.
        andthen (case existing of
                   None \<Rightarrow> returns None
                 | Some t \<Rightarrow> andthen (health_identity w t) (\<lambda>i.
                     returns (case i of Some (ig, ie, ib) \<Rightarrow> if ie = VStr epoch then Some t else None | None \<Rightarrow> None)))
          (\<lambda>same.
        case same of
          Some t \<Rightarrow> andthen (capture_incarnation w g) (\<lambda>inc. returns (inc, t))
        | None \<Rightarrow>
            andthen (reconcile_lock_holder w g b (Some epoch)) (\<lambda>adopted.
            case adopted of
              Some t \<Rightarrow> andthen (capture_incarnation w g) (\<lambda>inc. returns (inc, t))
            | None \<Rightarrow>
                andthen (live_lock_holder w g) (\<lambda>lingering.
                if lingering \<noteq> None then raises RuntimeError
                else andthen (probe (\<lambda>n. (w_choice w n g, w_spawn w n g epoch))) (\<lambda>(t, outcome).
                  case outcome of
                    Spawned inc \<Rightarrow> returns (Some inc, t)
                  | Not_healthy \<Rightarrow> raises RuntimeError
                  | Lost_race \<Rightarrow>
                      andthen (endpoint w g b None) (\<lambda>ep.
                      case ep of
                        None \<Rightarrow> raises RuntimeError
                      | Some t' \<Rightarrow> andthen (capture_incarnation w g) (\<lambda>inc. returns (inc, t')))))))))"

end
