(* ===== verification/Nelix_Registry.thy ===== *)
theory Nelix_Registry
  imports Nelix_Supervisor Nelix_Start
begin

text \<open>
  \<^verbatim>\<open>router/registry.py\<close>, constructed with a store and without the test supervisor, as
  \<^verbatim>\<open>router/app.py\<close> does: re-adoption at start, the active generation, minting, resolution of a
  session's generation, adoption by the operator, discovery. Each runs under the registry's lock.
\<close>

section \<open>Store calls\<close>

definition dead :: "string \<Rightarrow> string \<Rightarrow> unit act" where
  "dead g e = writing (reconcile_epoch_dead (VStr g) (VStr e))"

definition ignoring :: "(exn \<Rightarrow> bool) \<Rightarrow> ('s, unit) action \<Rightarrow> ('s, unit) action" where
  "ignoring p m = catching m (\<lambda>e. if p e then returns () else raises e)"

definition catching_nelix :: "('s, 'a) action \<Rightarrow> ('s, 'a) action \<Rightarrow> ('s, 'a) action" where
  "catching_nelix m h = catching m (\<lambda>e. if is_nelix e then h else raises e)"

definition set_active :: "active_generation \<Rightarrow> unit act" where
  "set_active a = changing (\<lambda>r. r\<lparr>rg_active := Some a\<rparr>)"

definition handle_of :: "active_generation \<Rightarrow> generation_handle" where
  "handle_of a = \<lparr>gh_generation_id = ag_generation_id a, gh_epoch = ag_epoch a\<rparr>"

text \<open>\<open>GenerationSupervisor(gid, ...)\<close> validates the id.\<close>

definition GenerationSupervisor :: "string \<Rightarrow> unit act" where
  "GenerationSupervisor g r = (case validate_generation_id (VStr g) of Inl e \<Rightarrow> (Inl e, r) | Inr _ \<Rightarrow> (Inr (), r))"

definition get_health_retries :: "nat act" where
  "get_health_retries r = (Inr (rg_health_retries r), r)"

definition get_active :: "active_generation option act" where
  "get_active r = (Inr (rg_active r), r)"

section \<open>Re-adoption\<close>

text \<open>Directories without a row: their holder is reaped, whatever goes wrong.\<close>

definition reap_orphan :: "world \<Rightarrow> string \<Rightarrow> unit act" where
  "reap_orphan w g =
     ignoring (\<lambda>_. True) (andthen (GenerationSupervisor g) (\<lambda>_.
       andthen (live_lock_holder w g) (\<lambda>h.
       case h of None \<Rightarrow> returns () | Some x \<Rightarrow> andthen (reap_holder w g (incarnation_of x)) (\<lambda>_. returns ()))))"

primrec reap_orphans :: "world \<Rightarrow> string list \<Rightarrow> string list \<Rightarrow> unit act" where
  "reap_orphans w known [] = returns ()"
| "reap_orphans w known (g # gs) =
     andthen (if g \<in> set known then returns () else reap_orphan w g) (\<lambda>_. reap_orphans w known gs)"

text \<open>
  One epoch of a generation without a current epoch: not served by the lock holder, served by a
  holder that changed while it was being asked, or served by this incarnation.
\<close>

datatype adoption = Not_served | Holder_changed | Served incarnation transport

definition probe_epoch :: "world \<Rightarrow> string \<Rightarrow> string option \<Rightarrow> string \<Rightarrow> adoption act" where
  "probe_epoch w g b e =
     andthen (live_lock_holder w g) (\<lambda>h.
     case h of None \<Rightarrow> returns Not_served | Some h \<Rightarrow>
     andthen (case holder_transport w g h of Some t \<Rightarrow> returns (Some t) | None \<Rightarrow> endpoint w g b (Some e)) (\<lambda>t.
     case t of None \<Rightarrow> returns Not_served | Some t \<Rightarrow>
     andthen (health_identity w t) (\<lambda>i.
     if i \<noteq> Some (triple g e b) then returns Not_served
     else andthen (live_lock_holder w g) (\<lambda>h2.
       if same_holder (incarnation_of h) h2 then returns (Served (incarnation_of h) t) else returns Holder_changed))))"

definition adopted :: "string \<Rightarrow> string option \<Rightarrow> string \<Rightarrow> incarnation \<Rightarrow> transport \<Rightarrow> active_generation" where
  "adopted g b e inc t =
     \<lparr>ag_incarnation = inc, ag_epoch = e, ag_generation_id = g, ag_transport = t, ag_build_id = b\<rparr>"

text \<open>Each loop stops at the first epoch it adopts; its answer is whether the constructor goes on.\<close>

primrec adopt_serving :: "world \<Rightarrow> string \<Rightarrow> string option \<Rightarrow> string list \<Rightarrow> bool act" where
  "adopt_serving w g b [] = returns True"
| "adopt_serving w g b (e # es) =
     andthen (probe_epoch w g b e) (\<lambda>p.
     case p of
       Not_served \<Rightarrow> adopt_serving w g b es
     | Holder_changed \<Rightarrow> returns False
     | Served inc t \<Rightarrow>
         andthen (writing (set_current_epoch (VStr g) (VStr e))) (\<lambda>_.
         andthen (set_active (adopted g b e inc t)) (\<lambda>_. returns True)))"

primrec adopt_starting :: "world \<Rightarrow> string \<Rightarrow> string option \<Rightarrow> string list \<Rightarrow> bool act" where
  "adopt_starting w g b [] = returns True"
| "adopt_starting w g b (e # es) =
     andthen (probe_epoch w g b e) (\<lambda>p.
     case p of
       Not_served \<Rightarrow> adopt_starting w g b es
     | Holder_changed \<Rightarrow> returns False
     | Served inc t \<Rightarrow>
         andthen (catching_nelix (andthen (writing (cas_epoch_serving (VStr g) (VStr e) None (VStr (w_meta w inc)))) (\<lambda>_. returns True))
                    (andthen (dead g e) (\<lambda>_. returns False))) (\<lambda>promoted.
         if promoted then andthen (set_active (adopted g b e inc t)) (\<lambda>_. returns True)
         else adopt_starting w g b es))"

primrec bury :: "(exn \<Rightarrow> bool) \<Rightarrow> string \<Rightarrow> string list \<Rightarrow> unit act" where
  "bury swallow g [] = returns ()"
| "bury swallow g (e # es) = andthen (ignoring swallow (dead g e)) (\<lambda>_. bury swallow g es)"

definition epochs_in :: "string \<Rightarrow> epoch_record list \<Rightarrow> string list" where
  "epochs_in state es = map er_generation_epoch (filter (\<lambda>e. er_process_state e = state) es)"

definition repair_null_epoch :: "world \<Rightarrow> string \<Rightarrow> string option \<Rightarrow> epoch_record list \<Rightarrow> unit act" where
  "repair_null_epoch w g b es =
     (let serving = epochs_in ''serving'' es; starting = epochs_in ''starting'' es in
      andthen (adopt_serving w g b serving) (\<lambda>go.
      if \<not> go then returns ()
      else andthen (adopt_starting w g b starting) (\<lambda>go.
      if \<not> go then returns ()
      else andthen get_active (\<lambda>a.
        case a of
          Some x \<Rightarrow> bury is_nelix g (filter (\<lambda>e. e \<noteq> ag_epoch x) starting)
        | None \<Rightarrow> bury is_nelix g (serving @ starting)))))"

text \<open>The bounded retry of the health check of an epoch that is still booting.\<close>

primrec await_identity :: "world \<Rightarrow> transport \<Rightarrow> nat \<Rightarrow> (pyval \<times> pyval \<times> pyval) option act" where
  "await_identity w t 0 = returns None"
| "await_identity w t (Suc k) =
     andthen (check_health w t) (\<lambda>ok.
     andthen (if ok then health_identity w t else returns None) (\<lambda>i.
     case i of Some x \<Rightarrow> returns (Some x) | None \<Rightarrow> await_identity w t k))"

definition state_of :: "string \<Rightarrow> epoch_record list \<Rightarrow> string option" where
  "state_of e es = map_option er_process_state (find (\<lambda>x. er_generation_epoch x = e) (rev es))"

text \<open>
  The current epoch's holder: true when the constructor is done (it adopted the epoch, or the
  holder changed under it), false when the epoch is to be buried.
\<close>

definition adopt_unix :: "world \<Rightarrow> string \<Rightarrow> string option \<Rightarrow> string \<Rightarrow> string option \<Rightarrow> incarnation \<Rightarrow> transport \<Rightarrow> bool act" where
  "adopt_unix w g b e state inc t =
     andthen get_health_retries (\<lambda>retries.
     andthen (await_identity w t (if state = Some ''starting'' then 1 + retries else 1)) (\<lambda>i.
     if i \<noteq> Some (triple g e b) then returns False
     else if state = Some ''serving'' then
       andthen (live_lock_holder w g) (\<lambda>h2.
       if \<not> same_holder inc h2 then returns True
       else andthen (set_active (adopted g b e inc t)) (\<lambda>_. returns True))
     else if state = Some ''starting'' then
       andthen (live_lock_holder w g) (\<lambda>h2.
       if \<not> same_holder inc h2 then returns True
       else andthen (catching_nelix (andthen (writing (cas_epoch_serving (VStr g) (VStr e) (Some e) (VStr (w_meta w inc)))) (\<lambda>_. returns True))
                       (andthen (dead g e) (\<lambda>_. returns False))) (\<lambda>promoted.
         if \<not> promoted then returns True
         else andthen (live_lock_holder w g) (\<lambda>h3.
           if \<not> same_holder inc h3 then andthen (dead g e) (\<lambda>_. returns True)
           else andthen (set_active (adopted g b e inc t)) (\<lambda>_. returns True))))
     else returns False))"

definition adopt_tcp :: "world \<Rightarrow> string \<Rightarrow> string option \<Rightarrow> string \<Rightarrow> string option \<Rightarrow> incarnation \<Rightarrow> bool act" where
  "adopt_tcp w g b e state inc =
     andthen (endpoint w g b (Some e)) (\<lambda>ep.
     case ep of
       None \<Rightarrow> returns False
     | Some t \<Rightarrow>
         if state \<noteq> Some ''serving'' then returns False
         else andthen (live_lock_holder w g) (\<lambda>h2.
           if \<not> same_holder inc h2 then returns True
           else andthen (set_active (adopted g b e inc t)) (\<lambda>_. returns True)))"

definition adopt_current :: "world \<Rightarrow> string \<Rightarrow> string option \<Rightarrow> string \<Rightarrow> epoch_record list \<Rightarrow> unit act" where
  "adopt_current w g b e es =
     andthen (live_lock_holder w g) (\<lambda>h.
     andthen (case h of
                None \<Rightarrow> returns False
              | Some x \<Rightarrow>
                  (case holder_transport w g x of
                     Some t \<Rightarrow> adopt_unix w g b e (state_of e es) (incarnation_of x) t
                   | None \<Rightarrow> adopt_tcp w g b e (state_of e es) (incarnation_of x))) (\<lambda>finished.
     if finished then returns ()
     else andthen (dead g e) (\<lambda>_. bury (\<lambda>_. False) g (filter (\<lambda>x. x \<noteq> e) (epochs_in ''starting'' es)))))"

definition active_rows :: "generation_record list \<Rightarrow> generation_record list" where
  "active_rows gens = filter (\<lambda>r. gr_lifecycle_state r = ''active'') gens"

definition eager_reconcile :: "world \<Rightarrow> unit act" where
  "eager_reconcile w =
     andthen (catching (reading list_generations) (\<lambda>_. unavailable)) (\<lambda>gens.
     case active_rows gens of
       _ # _ # _ \<Rightarrow> raises (NelixError IDEMPOTENCY_CONFLICT)
     | rows \<Rightarrow>
         andthen (probe (w_dirs w)) (\<lambda>dirs.
         andthen (reap_orphans w (map gr_generation_id gens) dirs) (\<lambda>_.
         case rows of
           [] \<Rightarrow> returns ()
         | row # _ \<Rightarrow>
             (let g = gr_generation_id row; b = gr_build_id row in
              andthen (changing (\<lambda>r. r\<lparr>rg_generation_id := Some g\<rparr>)) (\<lambda>_.
              andthen (GenerationSupervisor g) (\<lambda>_.
              andthen (catching (reading (list_epochs_strict (VStr g))) (\<lambda>_. unavailable)) (\<lambda>es.
              case gr_current_epoch row of
                None \<Rightarrow> repair_null_epoch w g b es
              | Some e \<Rightarrow> adopt_current w g b e es)))))))"

definition GenerationRegistry :: "world \<Rightarrow> db \<Rightarrow> string option \<Rightarrow> nat \<Rightarrow> nat \<Rightarrow> unit res \<times> registry" where
  "GenerationRegistry w d b retries now =
     eager_reconcile w
       \<lparr>rg_db = d, rg_build_id = b, rg_generation_id = None, rg_active = None, rg_topology_revision = 1,
        rg_health_retries = retries, rg_now = now, rg_reaped = []\<rparr>"

section \<open>active()\<close>

text \<open>What the store says of a generation whose active epoch is cached.\<close>

definition check_pointer :: "string \<Rightarrow> string \<Rightarrow> unit act" where
  "check_pointer g e =
     andthen (reading (get_generation (VStr g))) (\<lambda>gen.
     andthen (reading (list_epochs_strict (VStr g))) (\<lambda>es.
     case gr_current_epoch gen of
       None \<Rightarrow>
         if list_ex (\<lambda>x. er_generation_epoch x = e \<and> er_process_state x = ''serving'') es
         then writing (set_current_epoch (VStr g) (VStr e))
         else unavailable
     | Some c \<Rightarrow>
         if c \<noteq> e then unavailable
         else (case filter (\<lambda>x. er_generation_epoch x = e) es of
                 [] \<Rightarrow> unavailable
               | x # _ \<Rightarrow> if er_process_state x = ''serving'' then returns () else unavailable)))"

definition confirm_active :: "world \<Rightarrow> active_generation \<Rightarrow> incarnation \<Rightarrow> transport \<Rightarrow> generation_handle act" where
  "confirm_active w a inc t =
     (let g = ag_generation_id a; e = ag_epoch a in
      andthen (check_health_strict w t e g (ag_build_id a)) (\<lambda>ok.
      if \<not> ok then unavailable
      else if inc \<noteq> ag_incarnation a then unavailable
      else andthen (check_pointer g e) (\<lambda>_.
      andthen (live_lock_holder w g) (\<lambda>h.
      if \<not> same_holder inc h then unavailable
      else andthen (set_active (a\<lparr>ag_transport := t, ag_incarnation := inc\<rparr>)) (\<lambda>_. returns (handle_of a))))))"

definition refresh_active :: "world \<Rightarrow> active_generation \<Rightarrow> generation_handle act" where
  "refresh_active w a =
     (let g = ag_generation_id a in
      andthen (GenerationSupervisor g) (\<lambda>_.
      andthen (live_lock_holder w g) (\<lambda>h.
      case h of None \<Rightarrow> unavailable | Some h \<Rightarrow>
      andthen (case holder_transport w g h of
                 Some t \<Rightarrow> returns (Some t) | None \<Rightarrow> endpoint w g (ag_build_id a) (Some (ag_epoch a))) (\<lambda>t.
      case t of None \<Rightarrow> unavailable | Some t \<Rightarrow> confirm_active w a (incarnation_of h) t))))"

text \<open>A mint that fails after its epoch row was inserted buries the epoch, as far as the store lets it.\<close>

definition abandon :: "string \<Rightarrow> string \<Rightarrow> 'a act" where
  "abandon g e = andthen (ignoring (\<lambda>_. True) (dead g e)) (\<lambda>_. unavailable)"

definition reap_if :: "world \<Rightarrow> string \<Rightarrow> incarnation option \<Rightarrow> unit act" where
  "reap_if w g inc = (case inc of None \<Rightarrow> returns () | Some i \<Rightarrow> andthen (reap_holder w g i) (\<lambda>_. returns ()))"

definition persist_generation :: "world \<Rightarrow> string \<Rightarrow> string option \<Rightarrow> rat \<Rightarrow> unit act" where
  "persist_generation w g b now =
     catching (writing (create_generation (VStr g) (opt_str b) (VStr ''active'') VNone (VFloat (Fin now))))
       (\<lambda>x. if x = NelixError DUPLICATE_START then returns () else if is_nelix x then unavailable else raises x)"

definition promote :: "world \<Rightarrow> string \<Rightarrow> string option \<Rightarrow> string \<Rightarrow> incarnation \<Rightarrow> transport \<Rightarrow> generation_handle act" where
  "promote w g b e i t =
     andthen (catching_nelix (writing (cas_epoch_serving (VStr g) (VStr e) None (VStr (w_meta w i))))
                (andthen (reap_if w g (Some i)) (\<lambda>_. abandon g e))) (\<lambda>_.
     andthen (live_lock_holder w g) (\<lambda>h.
     if \<not> same_holder i h then abandon g e
     else andthen (set_active (adopted g b e i t)) (\<lambda>_.
          andthen (changing (\<lambda>r. r\<lparr>rg_topology_revision := rg_topology_revision r + 1\<rparr>)) (\<lambda>_.
          returns (handle_of (adopted g b e i t))))))"

definition install :: "world \<Rightarrow> string \<Rightarrow> string option \<Rightarrow> string \<Rightarrow> incarnation option \<times> transport \<Rightarrow> generation_handle act" where
  "install w g b e started =
     (let (inc, t) = started in
      andthen (check_health_strict w t e g b) (\<lambda>ok.
      if \<not> ok then andthen (reap_if w g inc) (\<lambda>_. abandon g e)
      else andthen (live_lock_holder w g) (\<lambda>h.
      case h of None \<Rightarrow> andthen (reap_if w g inc) (\<lambda>_. abandon g e) | Some h \<Rightarrow>
      case inc of None \<Rightarrow> raises TypeError | Some i \<Rightarrow>
      if incarnation_of h \<noteq> i then unavailable else promote w g b e i t)))"

definition mint_and_install :: "world \<Rightarrow> string \<Rightarrow> string option \<Rightarrow> generation_handle act" where
  "mint_and_install w g b =
     andthen (probe (w_clock w)) (\<lambda>now.
     andthen (persist_generation w g b now) (\<lambda>_.
     andthen (probe (w_mint w)) (\<lambda>e.
     andthen (catching_nelix (writing (insert_epoch (VStr e) (VStr g) VNone (VFloat (Fin now)))) unavailable) (\<lambda>_.
     andthen (GenerationSupervisor g) (\<lambda>_.
     andthen (catching (ensure_running w g b e) (\<lambda>_. abandon g e)) (\<lambda>started.
     install w g b e started))))))"

definition find_or_create :: "world \<Rightarrow> generation_handle act" where
  "find_or_create w =
     andthen (catching (reading list_generations) (\<lambda>_. unavailable)) (\<lambda>gens.
     case active_rows gens of
       _ # _ # _ \<Rightarrow> raises (NelixError IDEMPOTENCY_CONFLICT)
     | [row] \<Rightarrow>
         andthen (changing (\<lambda>r. r\<lparr>rg_generation_id := Some (gr_generation_id row)\<rparr>)) (\<lambda>_.
         mint_and_install w (gr_generation_id row) (gr_build_id row))
     | [] \<Rightarrow>
         andthen (\<lambda>r. (Inr (rg_build_id r), r)) (\<lambda>pinned.
         andthen (case pinned of Some b \<Rightarrow> returns (Some b)
                  | None \<Rightarrow> andthen (probe (w_runtime w)) (\<lambda>b r. (b, r))) (\<lambda>b.
         andthen (probe (w_mint w)) (\<lambda>g.
         andthen (changing (\<lambda>r. r\<lparr>rg_generation_id := Some g\<rparr>)) (\<lambda>_.
         mint_and_install w g b)))))"

definition active :: "world \<Rightarrow> generation_handle act" where
  "active w = andthen get_active (\<lambda>a. case a of Some x \<Rightarrow> refresh_active w x | None \<Rightarrow> find_or_create w)"

section \<open>Resolution, adoption, discovery\<close>

definition resolve_generation_state ::
  "world \<Rightarrow> string \<Rightarrow> string \<Rightarrow> (string \<times> string \<times> string option \<times> generation_handle option) act" where
  "resolve_generation_state w g e =
     andthen (reading (get_generation (VStr g))) (\<lambda>gen.
     andthen (reading (list_epochs (VStr g))) (\<lambda>es.
     case find (\<lambda>x. er_generation_epoch x = e) es of
       None \<Rightarrow> raises (NelixError UNKNOWN_SESSION)
     | Some x \<Rightarrow>
         andthen get_active (\<lambda>a.
         andthen (case a of
                    Some y \<Rightarrow>
                      if er_process_state x = ''serving'' \<and> ag_generation_id y = g \<and> ag_epoch y = e
                      then catching_nelix (andthen (refresh_active w y) (\<lambda>h. returns (Some h))) (returns None)
                      else returns None
                  | None \<Rightarrow> returns None) (\<lambda>h.
         returns (er_process_state x, gr_lifecycle_state gen, gr_capability_snapshot gen, h)))))"

definition adopt_generation :: "world \<Rightarrow> string \<Rightarrow> string \<Rightarrow> transport \<Rightarrow> string option \<Rightarrow> incarnation option \<Rightarrow> generation_handle act" where
  "adopt_generation w g e t b inc =
     andthen (case inc of
                Some i \<Rightarrow> returns i
              | None \<Rightarrow> andthen (GenerationSupervisor g) (\<lambda>_.
                  andthen (live_lock_holder w g) (\<lambda>h.
                  case h of None \<Rightarrow> unavailable | Some x \<Rightarrow> returns (incarnation_of x)))) (\<lambda>i.
     andthen (changing (\<lambda>r. r\<lparr>rg_generation_id := Some g, rg_active := Some (adopted g b e i t),
                              rg_topology_revision := rg_topology_revision r + 1\<rparr>)) (\<lambda>_.
     returns \<lparr>gh_generation_id = g, gh_epoch = e\<rparr>))"

text \<open>\<open>_discover_locked\<close>: a daemon that already holds the lock is adopted with the epoch it reports.\<close>

definition discover_row :: "string \<Rightarrow> string option \<Rightarrow> pyval \<Rightarrow> string \<Rightarrow> rat \<Rightarrow> bool act" where
  "discover_row g b e meta now =
     andthen (ignoring is_nelix (writing (create_generation (VStr g) (opt_str b) (VStr ''active'') VNone (VFloat (Fin now))))) (\<lambda>_.
     catching_nelix
       (andthen (writing (insert_epoch e (VStr g) (VStr meta) (VFloat (Fin now)))) (\<lambda>_.
        catching_nelix (andthen (writing (cas_epoch_serving (VStr g) e None (VStr meta))) (\<lambda>_. returns True))
          (andthen (ignoring (\<lambda>_. True) (writing (reconcile_epoch_dead (VStr g) e))) (\<lambda>_. returns False))))
       (returns False))"

definition discover :: "world \<Rightarrow> unit act" where
  "discover w =
     andthen (\<lambda>r. (Inr (rg_generation_id r, rg_build_id r), r)) (\<lambda>(g0, b).
     andthen (case g0 of
                Some g \<Rightarrow> returns (Some g)
              | None \<Rightarrow>
                  catching (andthen (reading list_generations) (\<lambda>gens.
                    case active_rows gens of
                      [] \<Rightarrow> returns None
                    | row # _ \<Rightarrow> andthen (changing (\<lambda>r. r\<lparr>rg_generation_id := Some (gr_generation_id row)\<rparr>)) (\<lambda>_.
                                 returns (Some (gr_generation_id row))))) (\<lambda>_. returns None)) (\<lambda>g.
     case g of None \<Rightarrow> returns () | Some g \<Rightarrow>
     andthen (GenerationSupervisor g) (\<lambda>_.
     andthen (live_lock_holder w g) (\<lambda>h.
     case h of None \<Rightarrow> returns () | Some h \<Rightarrow>
     case holder_transport w g h of None \<Rightarrow> returns () | Some t \<Rightarrow>
     andthen (health_identity w t) (\<lambda>i.
     case i of None \<Rightarrow> returns () | Some (ig, ie, ib) \<Rightarrow>
     if ig \<noteq> VStr g \<or> ib \<noteq> opt_str b then returns ()
     else if \<not> truthy ie then returns ()
     else andthen (probe (w_clock w)) (\<lambda>now.
       andthen (discover_row g b ie (w_meta w (incarnation_of h)) now) (\<lambda>promoted.
       case (promoted, ie) of
         (True, VStr e) \<Rightarrow> set_active (adopted g b e (incarnation_of h) t)
       | _ \<Rightarrow> returns ())))))))"

definition generations :: "world \<Rightarrow> bool \<Rightarrow> generation_handle list act" where
  "generations w disc =
     andthen get_active (\<lambda>a.
     andthen (if a = None \<and> disc then discover w else returns ()) (\<lambda>_.
     andthen get_active (\<lambda>a. returns (case a of None \<Rightarrow> [] | Some x \<Rightarrow> [handle_of x]))))"

end
