(* ===== verification/Nelix_Registry_Inv.thy ===== *)
theory Nelix_Registry_Inv
  imports Nelix_Registry
begin

text \<open>
  Reasoning about the registry's actions: how a sequence succeeds, which actions only ask the
  world, the store invariant along every action, and that only lock holders are signalled.
\<close>

section \<open>Sequences\<close>

lemma andthen_Inr: "andthen m f r = (Inr y, r') \<longleftrightarrow> (\<exists>x r1. m r = (Inr x, r1) \<and> f x r1 = (Inr y, r'))"
  by (auto simp: andthen_def split: prod.split sum.split)

lemma andthen_Inl: "andthen m f r = (Inl e, r') \<longleftrightarrow> m r = (Inl e, r') \<or> (\<exists>x r1. m r = (Inr x, r1) \<and> f x r1 = (Inl e, r'))"
  by (auto simp: andthen_def split: prod.split sum.split)

lemma catching_Inr: "catching m h r = (Inr y, r') \<longleftrightarrow> m r = (Inr y, r') \<or> (\<exists>e r1. m r = (Inl e, r1) \<and> h e r1 = (Inr y, r'))"
  by (auto simp: catching_def split: prod.split sum.split)

lemma catching_Inl: "catching m h r = (Inl e, r') \<longleftrightarrow> (\<exists>e1 r1. m r = (Inl e1, r1) \<and> h e1 r1 = (Inl e, r'))"
  by (auto simp: catching_def split: prod.split sum.split)

lemma catching_nelix_Inr:
  "catching_nelix m h r = (Inr y, r') \<longleftrightarrow> m r = (Inr y, r') \<or> (\<exists>e r1. m r = (Inl e, r1) \<and> is_nelix e \<and> h r1 = (Inr y, r'))"
  by (auto simp: catching_nelix_def catching_Inr raises_def split: if_splits)

lemma plain_acts [simp]:
  "returns x r = (Inr y, r') \<longleftrightarrow> y = x \<and> r' = r" "returns x r \<noteq> (Inl e, r')"
  "raises e r = (Inl e', r') \<longleftrightarrow> e' = e \<and> r' = r" "raises e r \<noteq> (Inr y, r')"
  "unavailable r = (Inl e', r') \<longleftrightarrow> e' = NelixError GENERATION_UNAVAILABLE \<and> r' = r" "unavailable r \<noteq> (Inr y, r')"
  by (auto simp: returns_def raises_def unavailable_def)

lemma registry_acts [simp]:
  "probe f r = (Inr y, r') \<longleftrightarrow> y = f (rg_now r) \<and> r' = r\<lparr>rg_now := rg_now r + 1\<rparr>" "probe f r \<noteq> (Inl e, r')"
  "changing g r = (Inr u, r') \<longleftrightarrow> r' = g r" "changing g r \<noteq> (Inl e, r')"
  "reading q r = (z, r') \<longleftrightarrow> q (rg_db r) = z \<and> r' = r"
  "get_active r = (Inr a, r') \<longleftrightarrow> a = rg_active r \<and> r' = r" "get_active r \<noteq> (Inl e, r')"
  "get_health_retries r = (Inr n, r') \<longleftrightarrow> n = rg_health_retries r \<and> r' = r" "get_health_retries r \<noteq> (Inl e, r')"
  by (auto simp: probe_def changing_def reading_def get_active_def get_health_retries_def)

lemma writing_Inr: "writing t r = (Inr x, r') \<longleftrightarrow> (\<exists>d. t (rg_db r) = Inr (d, x) \<and> r' = r\<lparr>rg_db := d\<rparr>)"
  by (auto simp: writing_def split: sum.split)

lemma writing_Inl: "writing t r = (Inl e, r') \<longleftrightarrow> t (rg_db r) = Inl e \<and> r' = r"
  by (auto simp: writing_def split: sum.split)

section \<open>Facts kept by every action\<close>

definition preserves :: "('s \<Rightarrow> bool) \<Rightarrow> ('s, 'a) action \<Rightarrow> bool" where
  "preserves P m \<longleftrightarrow> (\<forall>r. P r \<longrightarrow> P (snd (m r)))"

lemma preservesD: "preserves P m \<Longrightarrow> P r \<Longrightarrow> m r = (x, r') \<Longrightarrow> P r'"
  unfolding preserves_def by (metis snd_conv)

lemma preserves_andthen [inv_intros]:
  assumes "preserves P m" "\<And>x. preserves P (f x)"
  shows "preserves P (andthen m f)"
  using assms unfolding preserves_def andthen_def by (auto split: prod.split sum.split)

lemma preserves_catching [inv_intros]:
  assumes "preserves P m" "\<And>e. preserves P (h e)"
  shows "preserves P (catching m h)"
  using assms unfolding preserves_def catching_def by (auto split: prod.split sum.split)

lemma preserves_plain [inv_intros]:
  "preserves P (returns x)" "preserves P (raises e)" "preserves P unavailable"
  by (simp_all add: preserves_def returns_def raises_def unavailable_def)

lemma preserves_looks [inv_intros]:
  "preserves P (reading q)" "preserves P get_active" "preserves P get_health_retries" "preserves P (GenerationSupervisor g)"
  by (simp_all add: preserves_def reading_def get_active_def get_health_retries_def GenerationSupervisor_def split: sum.split)

lemma preserves_query [inv_intros]: "preserves P (\<lambda>r. (f r, r))"
  by (simp add: preserves_def)

lemma preserves_catching_nelix [inv_intros]: "preserves P m \<Longrightarrow> preserves P h \<Longrightarrow> preserves P (catching_nelix m h)"
  unfolding catching_nelix_def by (intro preserves_catching) (simp_all add: preserves_plain)

lemma preserves_ignoring [inv_intros]: "preserves P m \<Longrightarrow> preserves P (ignoring p m)"
  unfolding ignoring_def by (intro preserves_catching) (simp_all add: preserves_plain)

text \<open>The registry's transactions on epochs: all but the row of a generation.\<close>

inductive epoch_write :: "db \<Rightarrow> db \<Rightarrow> bool" where
  dead: "reconcile_epoch_dead g e d = Inr (d', u) \<Longrightarrow> epoch_write d d'"
| current: "set_current_epoch g e d = Inr (d', u) \<Longrightarrow> epoch_write d d'"
| serving: "cas_epoch_serving g e x m d = Inr (d', u) \<Longrightarrow> epoch_write d d'"
| fresh: "insert_epoch e g m c d = Inr (d', u) \<Longrightarrow> epoch_write d d'"

text \<open>
  A contract of actions: facts that the passing of time, a transaction on epochs, a change of the
  cached generation and a reaping keep are kept by everything the registry does with a generation
  it has; with the row of one generation, also by minting it; with any row and with a change of
  the registry's generation id, by everything it does.
\<close>

locale daemon_fact =
  fixes w :: world and P :: "registry \<Rightarrow> bool"
  assumes time: "P r \<Longrightarrow> P (r\<lparr>rg_now := rg_now r + 1\<rparr>)"
    and epochs: "P r \<Longrightarrow> db_ok (rg_db r) \<Longrightarrow> db_ok d \<Longrightarrow> epoch_write (rg_db r) d \<Longrightarrow> P (r\<lparr>rg_db := d\<rparr>)"
    and cache: "P r \<Longrightarrow> P (r\<lparr>rg_active := a\<rparr>)"
    and topology: "P r \<Longrightarrow> P (r\<lparr>rg_topology_revision := t\<rparr>)"
    and reap: "P r \<Longrightarrow> n < rg_now r \<Longrightarrow> w_holder w n gid = Some h \<Longrightarrow>
      P (r\<lparr>rg_reaped := rg_reaped r @ [incarnation_of h]\<rparr>)"
begin

abbreviation ok :: "'a act \<Rightarrow> bool" where
  "ok m \<equiv> preserves (\<lambda>r. P r \<and> db_ok (rg_db r)) m"

lemma ok_probe: "ok (probe f)"
  using time by (simp add: preserves_def probe_def)

lemma ok_writing:
  "(\<And>d d' x. db_ok d \<Longrightarrow> t d = Inr (d', x) \<Longrightarrow> db_ok d') \<Longrightarrow> (\<And>d d' x. t d = Inr (d', x) \<Longrightarrow> epoch_write d d') \<Longrightarrow> ok (writing t)"
  using epochs by (auto simp: preserves_def writing_def split: sum.split)

lemma ok_reconcile: "ok (writing (reconcile_epoch_dead g e))"
  by (rule ok_writing) (erule reconcile_epoch_dead_ok, assumption, erule epoch_write.dead)

lemma ok_current: "ok (writing (set_current_epoch g e))"
  by (rule ok_writing) (erule set_current_epoch_ok, assumption, erule epoch_write.current)

lemma ok_cas: "ok (writing (cas_epoch_serving g e x meta))"
  by (rule ok_writing) (erule cas_epoch_serving_ok, assumption, erule epoch_write.serving)

lemma ok_insert: "ok (writing (insert_epoch e g m c))"
  by (rule ok_writing) (erule insert_epoch_ok, assumption, erule epoch_write.fresh)

lemma ok_dead: "ok (dead g e)"
  unfolding dead_def by (rule ok_reconcile)

lemma ok_set_active: "ok (set_active a)"
  using cache by (simp add: preserves_def set_active_def changing_def)

lemmas ok_basic = ok_probe ok_dead ok_set_active ok_reconcile ok_current ok_cas ok_insert inv_intros

lemma ok_live: "ok (live_lock_holder w g)"
  unfolding live_lock_holder_def by (rule ok_probe)

lemma ok_health: "ok (check_health w t)" "ok (health_identity w t)" "ok (check_health_strict w t e g b)"
  unfolding check_health_def health_identity_def check_health_strict_def by (rule ok_probe)+

lemma ok_endpoint: "ok (endpoint w g b e)"
  unfolding endpoint_def by (intro ok_basic ok_live ok_health | split option.split prod.split if_split | intro conjI allI impI)+

lemma ok_reap_holder: "ok (reap_holder w g inc)"
  unfolding preserves_def
proof (intro allI impI)
  fix r assume r: "P r \<and> db_ok (rg_db r)"
  let ?r1 = "r\<lparr>rg_now := rg_now r + 1\<rparr>"
  have t: "P ?r1" using r time by simp
  then have t2: "P (?r1\<lparr>rg_now := rg_now ?r1 + 1\<rparr>)" by (rule time)
  have "P (?r1\<lparr>rg_reaped := rg_reaped ?r1 @ [incarnation_of h]\<rparr>)" if "w_holder w (rg_now r) g = Some h" for h
    using reap [OF t _ that] by simp
  then have t3: "P (r2\<lparr>rg_now := rg_now r2 + 1\<rparr>)"
    if "w_holder w (rg_now r) g = Some h" "r2 = ?r1\<lparr>rg_reaped := rg_reaped ?r1 @ [incarnation_of h]\<rparr>" for h r2
    unfolding that(2) by (intro time) (use that(1) in blast)
  show "P (snd (reap_holder w g inc r)) \<and> db_ok (rg_db (snd (reap_holder w g inc r)))"
    using r t t2 t3
    by (auto simp: reap_holder_def andthen_def live_lock_holder_def probe_def returns_def reap_daemon_def changing_def split: option.split)
qed

lemma ok_capture: "ok (capture_incarnation w g)"
  unfolding capture_incarnation_def by (intro ok_basic ok_live)

lemmas ok_sup = ok_basic ok_live ok_health ok_endpoint ok_reap_holder ok_capture

lemma ok_reconcile_lock_holder: "ok (reconcile_lock_holder w g b e)"
  unfolding reconcile_lock_holder_def Let_def
  by (intro ok_sup | split option.split prod.split if_split | intro conjI allI impI)+

lemma ok_ensure_running: "ok (ensure_running w g b e)"
  unfolding ensure_running_def
  by (intro ok_sup ok_reconcile_lock_holder | split option.split prod.split if_split spawn_outcome.split | intro conjI allI impI)+

lemmas ok_all = ok_sup ok_ensure_running

lemma ok_reap_orphans: "ok (reap_orphans w known gs)"
  by (induction gs)
    (simp_all add: reap_orphan_def, (intro ok_all | split option.split if_split | intro conjI allI impI | assumption)+)

lemma ok_probe_epoch: "ok (probe_epoch w g b e)"
  unfolding probe_epoch_def by (intro ok_all | split option.split if_split | intro conjI allI impI)+

lemma ok_adopt_serving: "ok (adopt_serving w g b es)"
  by (induction es)
    (simp_all, (intro ok_all ok_probe_epoch | split adoption.split | intro conjI allI impI | assumption)+)

lemma ok_adopt_starting: "ok (adopt_starting w g b es)"
  by (induction es)
    (simp_all, (intro ok_all ok_probe_epoch ok_cas | split adoption.split if_split | intro conjI allI impI | assumption)+)

lemma ok_bury: "ok (bury p g es)"
  by (induction es) (simp_all, (intro ok_all | assumption)+)

lemma ok_repair: "ok (repair_null_epoch w g b es)"
  unfolding repair_null_epoch_def Let_def
  by (intro ok_all ok_adopt_serving ok_adopt_starting ok_bury | split option.split if_split | intro conjI allI impI)+

lemma ok_await: "ok (await_identity w t k)"
  by (induction k) (simp_all, (intro ok_all | split option.split if_split | intro conjI allI impI | assumption)+)

lemma ok_adopt_current: "ok (adopt_current w g b e es)"
  unfolding adopt_current_def adopt_unix_def adopt_tcp_def
  by (intro ok_all ok_await ok_cas ok_bury | split option.split if_split | intro conjI allI impI)+

lemma ok_check_pointer: "ok (check_pointer g e)"
  unfolding check_pointer_def
  by (intro ok_all | split option.split list.split if_split | intro conjI allI impI)+

lemma ok_refresh: "ok (refresh_active w a)"
  unfolding refresh_active_def confirm_active_def Let_def
  by (intro ok_all ok_check_pointer | split option.split if_split | intro conjI allI impI)+

lemma ok_reap_if: "ok (reap_if w g inc)"
  unfolding reap_if_def by (intro ok_all | split option.split | intro conjI allI impI)+

lemma ok_abandon: "ok (abandon g e)"
  unfolding abandon_def by (intro ok_all)

lemma ok_bump: "ok (changing (\<lambda>r. r\<lparr>rg_topology_revision := rg_topology_revision r + 1\<rparr>))"
  using topology by (simp add: preserves_def changing_def)

lemma ok_install: "ok (install w g b e started)"
  unfolding install_def promote_def Let_def
  by (intro ok_all ok_reap_if ok_abandon ok_cas ok_bump | split option.split prod.split if_split | intro conjI allI impI)+

lemma ok_resolve: "ok (resolve_generation_state w g e)"
  unfolding resolve_generation_state_def
  by (intro ok_all ok_refresh | split option.split if_split | intro conjI allI impI)+

end

locale mint_fact = daemon_fact +
  fixes g :: string
  assumes create: "P r \<Longrightarrow> db_ok (rg_db r) \<Longrightarrow> create_generation (VStr g) b (VStr ''active'') VNone c (rg_db r) = Inr (d, u) \<Longrightarrow>
    P (r\<lparr>rg_db := d\<rparr>)"
begin

lemma ok_row: "ok (writing (create_generation (VStr g) b (VStr ''active'') VNone c))"
  using create create_generation_ok by (auto simp: preserves_def writing_def split: sum.split)

lemma ok_mint: "ok (mint_and_install w g b)"
  unfolding mint_and_install_def persist_generation_def
  by (intro ok_all ok_install ok_abandon ok_row | split if_split | intro conjI allI impI)+

lemma ok_discover_row: "ok (discover_row g b e m now)"
  unfolding discover_row_def
  by (intro ok_all ok_row | split if_split bool.split | intro conjI allI impI)+

end

locale registry_fact = daemon_fact +
  assumes ident: "P r \<Longrightarrow> P (r\<lparr>rg_generation_id := i\<rparr>)"
    and creates: "P r \<Longrightarrow> db_ok (rg_db r) \<Longrightarrow> create_generation (VStr g) b (VStr ''active'') VNone c (rg_db r) = Inr (d, u) \<Longrightarrow>
      P (r\<lparr>rg_db := d\<rparr>)"

sublocale registry_fact \<subseteq> minting: mint_fact w P g for g
  by unfold_locales (rule creates)

context registry_fact begin

lemma ok_ident: "ok (changing (\<lambda>r. r\<lparr>rg_generation_id := g\<rparr>))"
  using ident by (simp add: preserves_def changing_def)

lemma ok_eager: "ok (eager_reconcile w)"
  unfolding eager_reconcile_def Let_def
  by (intro ok_all ok_ident ok_reap_orphans ok_repair ok_adopt_current | split option.split list.split if_split | intro conjI allI impI)+

lemma ok_runtime: "ok (\<lambda>r. (b, r))"
  by (simp add: preserves_def)

lemma ok_find_or_create: "ok (find_or_create w)"
  unfolding find_or_create_def
  by (intro ok_all ok_ident minting.ok_mint ok_runtime | split option.split list.split if_split | intro conjI allI impI)+

lemma ok_active: "ok (active w)"
  unfolding active_def by (intro ok_all ok_refresh ok_find_or_create | split option.split | intro conjI allI impI)+

lemma ok_adopt_install: "ok (changing (\<lambda>r. r\<lparr>rg_generation_id := g, rg_active := a, rg_topology_revision := rg_topology_revision r + 1\<rparr>))"
  unfolding preserves_def changing_def using ident cache topology by simp

lemma ok_adopt_generation: "ok (adopt_generation w g e t b inc)"
  unfolding adopt_generation_def
  by (intro ok_all ok_adopt_install | split option.split | intro conjI allI impI)+

lemma ok_discover: "ok (discover w)"
  unfolding discover_def
  by (intro ok_all ok_ident minting.ok_discover_row
    | split option.split list.split prod.split if_split bool.split pyval.split | intro conjI allI impI)+

lemma ok_generations: "ok (generations w disc)"
  unfolding generations_def by (intro ok_all ok_discover | split option.split if_split | intro conjI allI impI)+

end

section \<open>What the store says of an epoch\<close>

definition pointed :: "db \<Rightarrow> string \<Rightarrow> string \<Rightarrow> bool" where
  "pointed d g e \<longleftrightarrow>
     (case (map_of (db_generations d) g, map_of (db_epochs d) e) of
        (Some gen, Some x) \<Rightarrow> gr_current_epoch gen = Some e \<and> er_process_state x = ''serving'' \<and> er_generation_id x = g
      | _ \<Rightarrow> False)"

lemma decode_epochs:
  "decode_all (map (\<lambda>r. epoch_from_dict (VDict (epoch_to_dict r))) rs) = Inr xs \<Longrightarrow> xs = rs"
  by (induction rs arbitrary: xs) (auto simp: epoch_from_to_dict decode_stored_def split: if_splits sum.splits exn.splits)

lemma list_epochs_strict_mem:
  assumes ok: "db_ok d" and l: "list_epochs_strict (VStr g) d = Inr es" and x: "x \<in> set es"
  shows "map_of (db_epochs d) (er_generation_epoch x) = Some x" "er_generation_id x = g"
proof -
  have de: "dict_ok (db_epochs d)" using db_okD(5) [OF ok] by (simp add: epochs_ok_def)
  have "es = epochs_of g d" using l decode_epochs by (auto simp: list_epochs_strict_def)
  then have "x \<in> set (map snd (db_epochs d))" "er_generation_id x = g" using x by (auto simp: epochs_of_def)
  then obtain k where k: "map_of (db_epochs d) k = Some x" by (auto simp: dict_set_conv [OF de])
  with epoch_row_ok(1) [OF ok k] show "map_of (db_epochs d) (er_generation_epoch x) = Some x" by simp
  show "er_generation_id x = g" by fact
qed

end
