(* ===== verification/Nelix_Readoption.thy ===== *)
theory Nelix_Readoption
  imports Nelix_Registry_Props
begin

text \<open>
  The constructor's re-adoption: what a router that comes up makes of the generation, the epochs
  and the daemon another router left behind.
\<close>

section \<open>Pointers\<close>

definition null_pointer :: "db \<Rightarrow> string \<Rightarrow> bool" where
  "null_pointer d g \<longleftrightarrow> (case map_of (db_generations d) g of None \<Rightarrow> False | Some gen \<Rightarrow> gr_current_epoch gen = None)"

lemma dead_effect:
  assumes "dead g e r = (Inr u, r')"
  shows "\<exists>d. r' = r\<lparr>rg_db := d\<rparr> \<and>
    (\<forall>g'. map_of (db_generations d) g' =
       (case map_of (db_generations (rg_db r)) g' of
          None \<Rightarrow> None
        | Some gen \<Rightarrow> Some (if g' = g \<and> gr_current_epoch gen = Some e then gen\<lparr>gr_current_epoch := None\<rparr> else gen))) \<and>
    (\<forall>e'. e' \<noteq> e \<longrightarrow> map_of (db_epochs d) e' = map_of (db_epochs (rg_db r)) e')"
proof -
  obtain d where d: "reconcile_epoch_dead (VStr g) (VStr e) (rg_db r) = Inr (d, u)" and r': "r' = r\<lparr>rg_db := d\<rparr>"
    using assms by (auto simp: dead_def writing_Inr)
  then obtain x where x: "map_of (db_epochs (rg_db r)) e = Some x" "er_generation_id x = g"
    by (auto simp: reconcile_epoch_dead_def split: option.splits if_splits)
  show ?thesis
    using d r' x by (intro exI [of _ d]) (auto simp: reconcile_epoch_dead_def Let_def split: option.splits if_splits)
qed

lemma dead_null:
  assumes "dead g e r = (Inr u, r')"
  shows "null_pointer (rg_db r) g' \<Longrightarrow> null_pointer (rg_db r') g'"
    "map_of (db_generations (rg_db r)) g = Some gen \<Longrightarrow> gr_current_epoch gen = Some e \<Longrightarrow> null_pointer (rg_db r') g"
    "e' \<noteq> e \<Longrightarrow> pointed (rg_db r) g' e' \<Longrightarrow> pointed (rg_db r') g' e'"
    "rg_active r' = rg_active r" "rg_now r' = rg_now r" "rg_health_retries r' = rg_health_retries r"
  using dead_effect [OF assms] by (auto simp: null_pointer_def pointed_def split: option.splits if_splits)

lemma ignoring_Inr: "ignoring p m r = (Inr u, r') \<longleftrightarrow> m r = (Inr u, r') \<or> (\<exists>e r1. m r = (Inl e, r1) \<and> p e \<and> r' = r1)"
  by (auto simp: ignoring_def catching_Inr split: if_splits)

lemma dead_Inl: "dead g e r = (Inl x, r') \<Longrightarrow> r' = r"
  by (auto simp: dead_def writing_Inl)

text \<open>A burial of other epochs keeps the pointer, and a pointer that is null stays null.\<close>

lemma bury_effect:
  assumes "bury p g es r = (Inr u, r')"
  shows "rg_active r' = rg_active r \<and> rg_now r' = rg_now r \<and> (null_pointer (rg_db r) g' \<longrightarrow> null_pointer (rg_db r') g') \<and>
    (e' \<notin> set es \<longrightarrow> pointed (rg_db r) g' e' \<longrightarrow> pointed (rg_db r') g' e')"
  using assms
proof (induction es arbitrary: r)
  case (Cons e es)
  then obtain r1 where r1: "ignoring p (dead g e) r = (Inr (), r1)" and rest: "bury p g es r1 = (Inr u, r')"
    by (auto simp: andthen_Inr)
  then consider "dead g e r = (Inr (), r1)" | "r1 = r" using dead_Inl by (auto simp: ignoring_Inr)
  then show ?case
  proof cases
    case 1
    with Cons.IH [OF rest] dead_null [OF 1] show ?thesis by auto
  qed (use Cons.IH [OF rest] in auto)
qed simp

section \<open>What the constructor may conclude\<close>

definition vouched :: "world \<Rightarrow> nat \<Rightarrow> nat \<Rightarrow> active_generation \<Rightarrow> bool" where
  "vouched w n0 n1 a \<longleftrightarrow>
     (\<exists>n m. n0 \<le> n \<and> n < m \<and> m < n1 \<and>
        identity_of (w_health w n (ag_transport a)) = Some (triple (ag_generation_id a) (ag_epoch a) (ag_build_id a)) \<and>
        same_holder (ag_incarnation a) (w_holder w m (ag_generation_id a)))"

definition holder_changed :: "world \<Rightarrow> nat \<Rightarrow> nat \<Rightarrow> string \<Rightarrow> bool" where
  "holder_changed w n0 n1 g \<longleftrightarrow> (\<exists>n m. n0 \<le> n \<and> n < m \<and> m < n1 \<and> w_holder w n g \<noteq> w_holder w m g)"

definition concluded :: "world \<Rightarrow> nat \<Rightarrow> string \<Rightarrow> registry \<Rightarrow> bool" where
  "concluded w n0 g r \<longleftrightarrow>
     (case rg_active r of
        Some a \<Rightarrow> ag_generation_id a = g \<and> pointed (rg_db r) g (ag_epoch a) \<and> vouched w n0 (rg_now r) a
      | None \<Rightarrow> null_pointer (rg_db r) g \<or> holder_changed w n0 (rg_now r) g)"

lemma endpoint_vouches:
  assumes "endpoint w g b (Some e) r = (Inr (Some t), r')"
  shows "\<exists>n. rg_now r \<le> n \<and> n < rg_now r' \<and> identity_of (w_health w n t) = Some (triple g e b)"
proof -
  obtain h pid where "w_holder w (rg_now r) g = Some h" "w_state w (rg_now r + 1) g = Some (pid, t)"
    "identity_of (w_health w (rg_now r + 2) t) = Some (triple g e b)" "rg_now r' = rg_now r + 3"
    using assms
    by (auto simp: endpoint_def andthen_Inr live_eq health_identity_def triple_def opt_str_def split: option.splits if_splits prod.splits)
  then show ?thesis by (intro exI [of _ "rg_now r + 2"]) simp
qed

lemma await_vouches:
  assumes "await_identity w t k r = (Inr (Some i), r')"
  shows "\<exists>n. rg_now r \<le> n \<and> n < rg_now r' \<and> identity_of (w_health w n t) = Some i"
  using assms
proof (induction k arbitrary: r)
  case (Suc k)
  obtain ok r1 where r1: "check_health w t r = (Inr ok, r1)" "rg_now r1 = rg_now r + 1"
    and a: "andthen (if ok then health_identity w t else returns None) (\<lambda>i. case i of Some x \<Rightarrow> returns (Some x) | None \<Rightarrow> await_identity w t k) r1 =
      (Inr (Some i), r')"
    using Suc.prems by (auto simp: andthen_Inr check_health_def)
  obtain j r2 where j: "(if ok then health_identity w t else returns None) r1 = (Inr j, r2)"
    and rest: "(case j of Some x \<Rightarrow> returns (Some x) | None \<Rightarrow> await_identity w t k) r2 = (Inr (Some i), r')"
    using a by (auto simp: andthen_Inr)
  have le: "rg_now r1 \<le> rg_now r2" using j by (auto simp: health_identity_def split: if_splits)
  show ?case
  proof (cases j)
    case None
    then obtain n where "rg_now r2 \<le> n \<and> n < rg_now r' \<and> identity_of (w_health w n t) = Some i" using Suc.IH rest by auto
    then show ?thesis using le r1(2) by (intro exI [of _ n]) simp
  next
    case (Some x)
    then have "x = i" "r' = r2" using rest by auto
    then show ?thesis using j Some r1(2) by (intro exI [of _ "rg_now r1"]) (auto simp: health_identity_def split: if_splits)
  qed
qed simp

lemma holder_differs:
  assumes h: "w_holder w n g = Some x" and differs: "\<not> same_holder (incarnation_of x) (w_holder w m g)"
  shows "w_holder w n g \<noteq> w_holder w m g"
proof
  assume "w_holder w n g = w_holder w m g"
  then have "w_holder w m g = Some x" using h by simp
  then show False using differs by (simp add: same_holder_def)
qed

lemma probe_epoch_facts:
  assumes "probe_epoch w g b e r = (Inr p, r')"
  shows "same_registry r r'" "p = Holder_changed \<Longrightarrow> holder_changed w (rg_now r) (rg_now r') g"
    "p = Served inc t \<Longrightarrow> vouched w (rg_now r) (rg_now r') (adopted g b e inc t)"
proof -
  have "same_registry r r' \<and> (p = Holder_changed \<longrightarrow> holder_changed w (rg_now r) (rg_now r') g) \<and>
    (p = Served inc t \<longrightarrow> vouched w (rg_now r) (rg_now r') (adopted g b e inc t))"
  proof (cases "w_holder w (rg_now r) g")
    case None
    then show ?thesis using assms by (auto simp: probe_epoch_def andthen_Inr live_eq same_registry_def)
  next
    case (Some h)
    let ?r1 = "r\<lparr>rg_now := rg_now r + 1\<rparr>"
    obtain tr r2 where f: "(case holder_transport w g h of Some t \<Rightarrow> returns (Some t) | None \<Rightarrow> endpoint w g b (Some e)) ?r1 = (Inr tr, r2)"
      and rest: "(case tr of None \<Rightarrow> returns Not_served | Some t \<Rightarrow>
        andthen (health_identity w t) (\<lambda>i.
        if i \<noteq> Some (triple g e b) then returns Not_served
        else andthen (live_lock_holder w g) (\<lambda>h2.
          if same_holder (incarnation_of h) h2 then returns (Served (incarnation_of h) t) else returns Holder_changed))) r2 = (Inr p, r')"
      using assms Some by (auto simp: probe_epoch_def andthen_Inr live_eq)
    have s2: "same_registry ?r1 r2" using f asksD [OF asks_endpoint] by (cases "holder_transport w g h") auto
    show ?thesis
    proof (cases tr)
      case None
      then show ?thesis using rest s2 by (auto simp: same_registry_def)
    next
      case (Some t1)
      note h = \<open>w_holder w (rg_now r) g = Some h\<close>
      show ?thesis
      proof (cases "identity_of (w_health w (rg_now r2) t1) = Some (triple g e b)")
        case False
        then show ?thesis using rest s2 Some by (auto simp: andthen_Inr health_identity_def same_registry_def)
      next
        case True
        have r': "r' = r2\<lparr>rg_now := rg_now r2 + 1 + 1\<rparr>"
          and p: "p = (if same_holder (incarnation_of h) (w_holder w (rg_now r2 + 1) g) then Served (incarnation_of h) t1 else Holder_changed)"
          using rest Some True by (auto simp: andthen_Inr health_identity_def live_eq split: if_splits)
        have n: "rg_now r < rg_now r2" using s2 by (simp add: same_registry_def)
        have "holder_changed w (rg_now r) (rg_now r') g" if "p = Holder_changed"
          unfolding holder_changed_def using holder_differs [OF h, of "rg_now r2 + 1"] that p r' n
          by (intro exI [of _ "rg_now r"] exI [of _ "rg_now r2 + 1"]) (simp split: if_splits)
        moreover have "vouched w (rg_now r) (rg_now r') (adopted g b e inc t)" if "p = Served inc t"
          unfolding vouched_def using that p r' n True
          by (intro exI [of _ "rg_now r2"] exI [of _ "rg_now r2 + 1"]) (auto simp: adopted_def split: if_splits)
        ultimately show ?thesis using s2 r' by (auto simp: same_registry_def)
      qed
    qed
  qed
  then show "same_registry r r'" "p = Holder_changed \<Longrightarrow> holder_changed w (rg_now r) (rg_now r') g"
    "p = Served inc t \<Longrightarrow> vouched w (rg_now r) (rg_now r') (adopted g b e inc t)" by blast+
qed

lemma vouched_mono: "vouched w n0 n1 a \<Longrightarrow> m0 \<le> n0 \<Longrightarrow> n1 \<le> m1 \<Longrightarrow> vouched w m0 m1 a"
  unfolding vouched_def by (metis le_trans less_le_trans)

lemma changed_mono: "holder_changed w n0 n1 g \<Longrightarrow> m0 \<le> n0 \<Longrightarrow> n1 \<le> m1 \<Longrightarrow> holder_changed w m0 m1 g"
  unfolding holder_changed_def by (metis le_trans less_le_trans)

lemma concluded_later:
  "concluded w n0 g r \<Longrightarrow> rg_db r' = rg_db r \<Longrightarrow> rg_active r' = rg_active r \<Longrightarrow> rg_now r \<le> rg_now r' \<Longrightarrow> concluded w n0 g r'"
  unfolding concluded_def using vouched_mono changed_mono by (auto split: option.splits)

lemma concluded_same: "concluded w n0 g r \<Longrightarrow> same_registry r r' \<Longrightarrow> concluded w n0 g r'"
  using concluded_later by (simp add: same_registry_def)

section \<open>A generation without a current epoch\<close>

text \<open>The epoch a cached generation has is not among those that are still to be decided.\<close>

definition spares :: "string list \<Rightarrow> registry \<Rightarrow> bool" where
  "spares es r \<longleftrightarrow> (case rg_active r of Some a \<Rightarrow> ag_epoch a \<notin> set es | None \<Rightarrow> True)"

definition serves :: "db \<Rightarrow> string \<Rightarrow> string \<Rightarrow> bool" where
  "serves d g e \<longleftrightarrow> (case map_of (db_epochs d) e of Some x \<Rightarrow> er_process_state x = ''serving'' \<and> er_generation_id x = g | None \<Rightarrow> False)"

lemma adopt_serving_concludes:
  assumes "adopt_serving w g b es r = (Inr go, r')" "rg_active r = None" "null_pointer (rg_db r) g" "n0 \<le> rg_now r"
    and "\<And>e. e \<in> set es \<Longrightarrow> serves (rg_db r) g e"
  shows "concluded w n0 g r' \<and> (go \<longrightarrow> rg_active r' = None \<longrightarrow> null_pointer (rg_db r') g) \<and>
    (\<forall>a. rg_active r' = Some a \<longrightarrow> ag_epoch a \<in> set es)"
  using assms
proof (induction es arbitrary: r)
  case Nil
  then show ?case by (simp add: concluded_def)
next
  case (Cons e es)
  obtain p r1 where p: "probe_epoch w g b e r = (Inr p, r1)"
    and rest: "(case p of
         Not_served \<Rightarrow> adopt_serving w g b es
       | Holder_changed \<Rightarrow> returns False
       | Served inc t \<Rightarrow>
           andthen (writing (set_current_epoch (VStr g) (VStr e))) (\<lambda>_.
           andthen (set_active (adopted g b e inc t)) (\<lambda>_. returns True))) r1 = (Inr go, r')"
    using Cons.prems(1) by (auto simp: andthen_Inr)
  note f = probe_epoch_facts [OF p]
  have s: "rg_db r1 = rg_db r" "rg_active r1 = None" "rg_now r \<le> rg_now r1" using f(1) Cons.prems(2) by (simp_all add: same_registry_def)
  show ?case
  proof (cases p)
    case Not_served
    then show ?thesis using Cons.IH [of r1] rest s Cons.prems by auto
  next
    case Holder_changed
    then show ?thesis using rest s f(2) changed_mono Cons.prems(4) by (auto simp: concluded_def)
  next
    case (Served inc t)
    then obtain d where d: "set_current_epoch (VStr g) (VStr e) (rg_db r) = Inr (d, ())" and go: go
      and r': "r' = r1\<lparr>rg_db := d, rg_active := Some (adopted g b e inc t)\<rparr>"
      using rest s by (auto simp: andthen_Inr writing_Inr set_active_eq)
    have "serves (rg_db r) g e" using Cons.prems(5) by simp
    then have "pointed d g e" using d
      by (auto simp: set_current_epoch_def update_generation_def constraint_failed_def pointed_def serves_def split: if_splits option.splits)
    moreover have "vouched w n0 (rg_now r1) (adopted g b e inc t)" using f(3) [OF Served] Cons.prems(4) by (rule vouched_mono) simp
    ultimately show ?thesis using r' go by (simp add: concluded_def adopted_def)
  qed
qed

lemma adopt_starting_concludes:
  assumes "adopt_starting w g b es r = (Inr go, r')" "concluded w n0 g r" "spares es r" "n0 \<le> rg_now r"
    "rg_active r = None \<Longrightarrow> null_pointer (rg_db r) g"
  shows "concluded w n0 g r' \<and> (go \<longrightarrow> rg_active r' = None \<longrightarrow> null_pointer (rg_db r') g)"
  using assms
proof (induction es arbitrary: r)
  case Nil
  then show ?case by simp
next
  case (Cons e es)
  obtain p r1 where p: "probe_epoch w g b e r = (Inr p, r1)"
    and rest: "(case p of
       Not_served \<Rightarrow> adopt_starting w g b es
     | Holder_changed \<Rightarrow> returns False
     | Served inc t \<Rightarrow>
         andthen (catching_nelix (andthen (writing (cas_epoch_serving (VStr g) (VStr e) None (VStr (w_meta w inc)))) (\<lambda>_. returns True))
                    (andthen (dead g e) (\<lambda>_. returns False))) (\<lambda>promoted.
         if promoted then andthen (set_active (adopted g b e inc t)) (\<lambda>_. returns True)
         else adopt_starting w g b es)) r1 = (Inr go, r')"
    using Cons.prems(1) by (auto simp: andthen_Inr)
  note f = probe_epoch_facts [OF p]
  have s: "rg_db r1 = rg_db r" "rg_active r1 = rg_active r" "n0 \<le> rg_now r1" using f(1) Cons.prems(4) by (simp_all add: same_registry_def)
  have c1: "concluded w n0 g r1" by (rule concluded_same [OF Cons.prems(2) f(1)])
  have sp: "spares es r1" using Cons.prems(3) s(2) by (auto simp: spares_def split: option.splits)
  show ?case
  proof (cases p)
    case Not_served
    then show ?thesis using Cons.IH [of r1] rest s c1 sp Cons.prems(5) by auto
  next
    case Holder_changed
    then show ?thesis using rest c1 by auto
  next
    case (Served inc t)
    then obtain promoted r2 where t: "catching_nelix (andthen (writing (cas_epoch_serving (VStr g) (VStr e) None (VStr (w_meta w inc)))) (\<lambda>_. returns True))
                    (andthen (dead g e) (\<lambda>_. returns False)) r1 = (Inr promoted, r2)"
      and rest2: "(if promoted then andthen (set_active (adopted g b e inc t)) (\<lambda>_. returns True) else adopt_starting w g b es) r2 = (Inr go, r')"
      using rest by (auto simp: andthen_Inr)
    from t consider d where "promoted" "cas_epoch_serving (VStr g) (VStr e) None (VStr (w_meta w inc)) (rg_db r1) = Inr (d, ())" "r2 = r1\<lparr>rg_db := d\<rparr>"
      | "\<not> promoted" "dead g e r1 = (Inr (), r2)"
      by (auto simp: catching_nelix_Inr andthen_Inr andthen_Inl writing_Inr writing_Inl)
    then show ?thesis
    proof cases
      case 1
      then have r': "r' = r2\<lparr>rg_active := Some (adopted g b e inc t)\<rparr>" and go using rest2 by (auto simp: andthen_Inr set_active_eq)
      have "vouched w n0 (rg_now r1) (adopted g b e inc t)" using f(3) [OF Served] Cons.prems(4) by (rule vouched_mono) simp
      then show ?thesis using r' cas_pointed [OF 1(2)] 1(3) by (simp add: concluded_def adopted_def)
    next
      case 2
      note dn = dead_null [OF 2(2)]
      have null: "rg_active r2 = None \<Longrightarrow> null_pointer (rg_db r2) g" using dn(1,4) s Cons.prems(5) by simp
      have "concluded w n0 g r2"
      proof (cases "rg_active r")
        case None
        then show ?thesis using null dn(4) s(2) by (simp add: concluded_def)
      next
        case (Some a)
        then have "ag_epoch a \<noteq> e" using Cons.prems(3) by (simp add: spares_def)
        then show ?thesis using c1 dn(3-5) Some s(2) by (simp add: concluded_def)
      qed
      then show ?thesis using Cons.IH [of r2] rest2 2(1) null dn(4,5) s sp by (simp add: spares_def)
    qed
  qed
qed

lemma bury_concludes:
  assumes "bury p g es r = (Inr u, r')" "concluded w n0 g r" "spares es r"
    "rg_active r = None \<Longrightarrow> null_pointer (rg_db r) g"
  shows "concluded w n0 g r'"
proof (cases "rg_active r")
  case None
  then show ?thesis using bury_effect [OF assms(1), of g] assms(4) by (simp add: concluded_def)
next
  case (Some a)
  then show ?thesis using bury_effect [OF assms(1), of g "ag_epoch a"] assms(2,3) by (simp add: concluded_def spares_def)
qed

lemma repair_concludes:
  assumes ok: "db_ok (rg_db r)" and a: "repair_null_epoch w g b es r = (Inr u, r')"
    and r: "rg_active r = None" "null_pointer (rg_db r) g" "n0 \<le> rg_now r" and l: "list_epochs_strict (VStr g) (rg_db r) = Inr es"
  shows "concluded w n0 g r'"
proof -
  let ?serving = "epochs_in ''serving'' es" and ?starting = "epochs_in ''starting'' es"
  note mem = list_epochs_strict_mem [OF ok l]
  have serving: "serves (rg_db r) g e" if e: "e \<in> set ?serving" for e
  proof -
    from e obtain x where x: "x \<in> set es" "er_process_state x = ''serving''" "e = er_generation_epoch x" by (auto simp: epochs_in_def)
    then show ?thesis using mem [OF x(1)] by (simp add: serves_def)
  qed
  have disjoint: "e \<notin> set ?starting" if "e \<in> set ?serving" for e
  proof
    assume "e \<in> set ?starting"
    then obtain y where y: "y \<in> set es" "er_process_state y = ''starting''" "e = er_generation_epoch y" by (auto simp: epochs_in_def)
    with mem(1) [OF y(1)] serving [OF that] show False by (simp add: serves_def)
  qed
  obtain go1 r1 where s1: "adopt_serving w g b ?serving r = (Inr go1, r1)"
    and rest1: "(if \<not> go1 then returns () else andthen (adopt_starting w g b ?starting) (\<lambda>go.
      if \<not> go then returns ()
      else andthen get_active (\<lambda>a.
        case a of
          Some x \<Rightarrow> bury is_nelix g (filter (\<lambda>e. e \<noteq> ag_epoch x) ?starting)
        | None \<Rightarrow> bury is_nelix g (?serving @ ?starting)))) r1 = (Inr u, r')"
    using a by (auto simp: repair_null_epoch_def Let_def andthen_Inr)
  note c1 = adopt_serving_concludes [OF s1 r serving]
  show ?thesis
  proof (cases go1)
    case False
    then show ?thesis using rest1 c1 by simp
  next
    case True
    then obtain go2 r2 where s2: "adopt_starting w g b ?starting r1 = (Inr go2, r2)"
      and rest2: "(if \<not> go2 then returns ()
      else andthen get_active (\<lambda>a.
        case a of
          Some x \<Rightarrow> bury is_nelix g (filter (\<lambda>e. e \<noteq> ag_epoch x) ?starting)
        | None \<Rightarrow> bury is_nelix g (?serving @ ?starting))) r2 = (Inr u, r')"
      using rest1 by (auto simp: andthen_Inr)
    have "spares ?starting r1" using c1 disjoint by (auto simp: spares_def split: option.splits)
    moreover have "preserves (\<lambda>s. n0 \<le> rg_now s \<and> db_ok (rg_db s)) (adopt_serving w g b ?serving)" by (rule later.ok_adopt_serving)
    from preservesD [OF this _ s1] have "n0 \<le> rg_now r1" using r(3) ok by blast
    ultimately have c2: "concluded w n0 g r2 \<and> (go2 \<longrightarrow> rg_active r2 = None \<longrightarrow> null_pointer (rg_db r2) g)"
      using adopt_starting_concludes [OF s2, of n0] c1 True by blast
    show ?thesis
    proof (cases go2)
      case False
      then show ?thesis using rest2 c2 by simp
    next
      case True
      obtain ys where b: "bury is_nelix g ys r2 = (Inr u, r')" and sp: "spares ys r2"
        using rest2 True by (cases "rg_active r2") (auto simp: andthen_Inr spares_def)
      show ?thesis by (rule bury_concludes [OF b _ sp]) (use c2 True in blast)+
    qed
  qed
qed

section \<open>A generation with a current epoch\<close>

definition current :: "db \<Rightarrow> string \<Rightarrow> string \<Rightarrow> bool" where
  "current d g e \<longleftrightarrow> (case map_of (db_generations d) g of Some gen \<Rightarrow> gr_current_epoch gen = Some e | None \<Rightarrow> False)"

lemma dead_current: "current (rg_db r) g e \<Longrightarrow> dead g e r = (Inr u, r') \<Longrightarrow> null_pointer (rg_db r') g"
  using dead_null(2) by (auto simp: current_def split: option.splits)

lemma state_of_mem: "state_of e es = Some s \<Longrightarrow> \<exists>x\<in>set es. er_generation_epoch x = e \<and> er_process_state x = s"
  by (auto simp: state_of_def find_Some_iff)  (metis nth_mem set_rev length_rev)

text \<open>
  Either the constructor is done and its conclusion is right, or nothing has happened yet but
  questions.
\<close>

definition settled :: "world \<Rightarrow> nat \<Rightarrow> string \<Rightarrow> registry \<Rightarrow> bool \<Rightarrow> registry \<Rightarrow> bool" where
  "settled w n0 g r fin r' \<longleftrightarrow> (if fin then concluded w n0 g r' else same_registry r r')"

lemma adopt_unix_settles:
  assumes a: "adopt_unix w g b e state inc t r = (Inr fin, r')" and act: "rg_active r = None"
    and cur: "current (rg_db r) g e" and state: "state = Some ''serving'' \<Longrightarrow> serves (rg_db r) g e"
    and h: "w_holder w n0 g = Some x" "inc = incarnation_of x" "n0 < rg_now r"
  shows "settled w n0 g r fin r'"
proof -
  obtain i r1 where i: "await_identity w t (if state = Some ''starting'' then 1 + rg_health_retries r else 1) r = (Inr i, r1)"
    and rest: "(if i \<noteq> Some (triple g e b) then returns False
     else if state = Some ''serving'' then
       andthen (live_lock_holder w g) (\<lambda>h2.
       if \<not> same_holder inc h2 then returns True
       else andthen (set_active (adopted g b e inc t)) (\<lambda>_. returns True))
     else if state = Some ''starting'' then
       andthen (live_lock_holder w g) (\<lambda>h2.
       if \<not> same_holder inc h2 then returns True
       else andthen (catching_nelix (andthen (writing (cas_epoch_serving (VStr g) (VStr e) (Some e) (VStr (w_meta w inc)))) (\<lambda>_. returns True))
                       (andthen (dead g e) (\<lambda>_. returns False))) (\<lambda>promoted.
         if \<not> promoted then returns True
         else andthen (live_lock_holder w g) (\<lambda>h3.
           if \<not> same_holder inc h3 then andthen (dead g e) (\<lambda>_. returns True)
           else andthen (set_active (adopted g b e inc t)) (\<lambda>_. returns True))))
     else returns False) r1 = (Inr fin, r')"
    using a by (auto simp: adopt_unix_def andthen_Inr)
  note s1 = asksD [OF asks_await i]
  have s: "rg_db r1 = rg_db r" "rg_active r1 = None" "n0 < rg_now r1" using s1 act h(3) by (simp_all add: same_registry_def)
  have changed: "holder_changed w n0 n1 g" if "\<not> same_holder inc (w_holder w m g)" "n0 < m" "m < n1" for m n1
    unfolding holder_changed_def using holder_differs [OF h(1), of m] that h(2)
    by (intro exI [of _ n0] exI [of _ m]) simp
  show ?thesis
  proof (cases "i = Some (triple g e b)")
    case False
    then show ?thesis using rest s1 by (simp add: settled_def)
  next
    case True
    then obtain n where n: "rg_now r \<le> n" "n < rg_now r1" "identity_of (w_health w n t) = Some (triple g e b)"
      using await_vouches i by blast
    have vouched: "vouched w n0 n1 (adopted g b e inc t)" if "same_holder inc (w_holder w m g)" "rg_now r1 \<le> m" "m < n1" for m n1
      unfolding vouched_def using n h(3) that by (intro exI [of _ n] exI [of _ m]) (simp add: adopted_def)
    show ?thesis
    proof (cases "state = Some ''serving''")
      case serving: True
      have "pointed (rg_db r1) g e" using state [OF serving] cur s(1)
        by (auto simp: pointed_def serves_def current_def split: option.splits)
      then show ?thesis using rest True serving s changed [of "rg_now r1" "rg_now r'"] vouched [of "rg_now r1" "rg_now r'"]
        by (auto simp: andthen_Inr live_eq set_active_eq settled_def concluded_def adopted_def split: if_splits)
    next
      case False
      show ?thesis
      proof (cases "state = Some ''starting''")
        case starting: True
        let ?r2 = "r1\<lparr>rg_now := rg_now r1 + 1\<rparr>"
        show ?thesis
        proof (cases "same_holder inc (w_holder w (rg_now r1) g)")
          case differs: False
          then have "fin" "r' = ?r2" using rest True starting by (auto simp: andthen_Inr live_eq split: if_splits)
          then show ?thesis using changed [OF differs s(3), of "rg_now r'"] s by (simp add: settled_def concluded_def)
        next
          case same: True
          then obtain promoted r3 where c: "catching_nelix (andthen (writing (cas_epoch_serving (VStr g) (VStr e) (Some e) (VStr (w_meta w inc)))) (\<lambda>_. returns True))
                       (andthen (dead g e) (\<lambda>_. returns False)) ?r2 = (Inr promoted, r3)"
            and rest2: "(if \<not> promoted then returns True
               else andthen (live_lock_holder w g) (\<lambda>h3.
                 if \<not> same_holder inc h3 then andthen (dead g e) (\<lambda>_. returns True)
                 else andthen (set_active (adopted g b e inc t)) (\<lambda>_. returns True))) r3 = (Inr fin, r')"
            using rest True starting by (auto simp: andthen_Inr live_eq split: if_splits)
          from c consider d where "promoted" "cas_epoch_serving (VStr g) (VStr e) (Some e) (VStr (w_meta w inc)) (rg_db ?r2) = Inr (d, ())"
              "r3 = ?r2\<lparr>rg_db := d\<rparr>"
            | "\<not> promoted" "dead g e ?r2 = (Inr (), r3)"
            by (auto simp: catching_nelix_Inr andthen_Inr andthen_Inl writing_Inr writing_Inl)
          then show ?thesis
          proof cases
            case 1
            show ?thesis
            proof (cases "same_holder inc (w_holder w (rg_now r3) g)")
              case differs: False
              then obtain r4 where d4: "dead g e (r3\<lparr>rg_now := rg_now r3 + 1\<rparr>) = (Inr (), r4)" and "fin" "r' = r4"
                using rest2 1(1) by (auto simp: andthen_Inr live_eq split: if_splits)
              then show ?thesis using changed [OF differs, of "rg_now r'"] dead_null(4,5) [OF d4] 1(3) s
                by (simp add: settled_def concluded_def)
            next
              case same3: True
              then have "fin" "r' = r3\<lparr>rg_now := rg_now r3 + 1, rg_active := Some (adopted g b e inc t)\<rparr>"
                using rest2 1(1) by (auto simp: andthen_Inr live_eq set_active_eq split: if_splits)
              then show ?thesis using vouched [OF same3, of "rg_now r'"] cas_pointed [OF 1(2)] 1(3)
                by (simp add: settled_def concluded_def adopted_def)
            qed
          next
            case 2
            then have "fin" "r' = r3" using rest2 by auto
            moreover have "null_pointer (rg_db r3) g" by (rule dead_current [OF _ 2(2)]) (use cur s(1) in simp)
            ultimately show ?thesis using dead_null(4) [OF 2(2)] s(2) by (simp add: settled_def concluded_def)
          qed
        qed
      next
        case neither: False
        then show ?thesis using rest True False s1 by (simp add: settled_def)
      qed
    qed
  qed
qed

lemma adopt_tcp_settles:
  assumes a: "adopt_tcp w g b e state inc r = (Inr fin, r')" and act: "rg_active r = None"
    and cur: "current (rg_db r) g e" and state: "state = Some ''serving'' \<Longrightarrow> serves (rg_db r) g e"
    and h: "w_holder w n0 g = Some x" "inc = incarnation_of x" "n0 < rg_now r"
  shows "settled w n0 g r fin r'"
proof -
  obtain ep r1 where ep: "endpoint w g b (Some e) r = (Inr ep, r1)"
    and rest: "(case ep of
       None \<Rightarrow> returns False
     | Some t \<Rightarrow>
         if state \<noteq> Some ''serving'' then returns False
         else andthen (live_lock_holder w g) (\<lambda>h2.
           if \<not> same_holder inc h2 then returns True
           else andthen (set_active (adopted g b e inc t)) (\<lambda>_. returns True))) r1 = (Inr fin, r')"
    using a by (auto simp: adopt_tcp_def andthen_Inr)
  note s1 = asksD [OF asks_endpoint ep]
  have s: "rg_db r1 = rg_db r" "rg_active r1 = None" "n0 < rg_now r1" using s1 act h(3) by (simp_all add: same_registry_def)
  show ?thesis
  proof (cases "ep = None \<or> state \<noteq> Some ''serving''")
    case True
    then show ?thesis using rest s1 by (auto simp: settled_def split: option.splits if_splits)
  next
    case False
    then obtain t where t: "ep = Some t" and serving: "state = Some ''serving''" by auto
    obtain n where n: "rg_now r \<le> n" "n < rg_now r1" "identity_of (w_health w n t) = Some (triple g e b)"
      using endpoint_vouches ep t by blast
    have "pointed (rg_db r1) g e" using state [OF serving] cur s(1)
      by (auto simp: pointed_def serves_def current_def split: option.splits)
    moreover have "vouched w n0 (rg_now r1 + 1) (adopted g b e inc t)" if "same_holder inc (w_holder w (rg_now r1) g)"
      unfolding vouched_def using n h(3) that by (intro exI [of _ n] exI [of _ "rg_now r1"]) (simp add: adopted_def)
    moreover have "holder_changed w n0 (rg_now r1 + 1) g" if "\<not> same_holder inc (w_holder w (rg_now r1) g)"
      unfolding holder_changed_def using holder_differs [OF h(1), of "rg_now r1"] that h(2) s(3)
      by (intro exI [of _ n0] exI [of _ "rg_now r1"]) simp
    ultimately show ?thesis using rest t serving s
      by (auto simp: andthen_Inr live_eq set_active_eq settled_def concluded_def adopted_def split: if_splits)
  qed
qed

lemma adopt_current_concludes:
  assumes ok: "db_ok (rg_db r)" and a: "adopt_current w g b e es r = (Inr u, r')"
    and r: "rg_active r = None" "n0 \<le> rg_now r" and cur: "current (rg_db r) g e"
    and l: "list_epochs_strict (VStr g) (rg_db r) = Inr es"
  shows "concluded w n0 g r'"
proof -
  let ?r1 = "r\<lparr>rg_now := rg_now r + 1\<rparr>" and ?h = "w_holder w (rg_now r) g"
  have serving: "serves (rg_db ?r1) g e" if st: "state_of e es = Some ''serving''"
  proof -
    from state_of_mem [OF st] obtain x where x: "x \<in> set es" "er_generation_epoch x = e" "er_process_state x = ''serving''" by blast
    then show ?thesis using list_epochs_strict_mem [OF ok l x(1)] by (simp add: serves_def)
  qed
  obtain fin r2 where f: "(case ?h of
                None \<Rightarrow> returns False
              | Some x \<Rightarrow>
                  (case holder_transport w g x of
                     Some t \<Rightarrow> adopt_unix w g b e (state_of e es) (incarnation_of x) t
                   | None \<Rightarrow> adopt_tcp w g b e (state_of e es) (incarnation_of x))) ?r1 = (Inr fin, r2)"
    and rest: "(if fin then returns ()
       else andthen (dead g e) (\<lambda>_. bury (\<lambda>_. False) g (filter (\<lambda>x. x \<noteq> e) (epochs_in ''starting'' es)))) r2 = (Inr u, r')"
    using a by (auto simp: adopt_current_def andthen_Inr live_eq)
  have cur1: "current (rg_db ?r1) g e" and act1: "rg_active ?r1 = None" and n1: "rg_now r < rg_now ?r1" using cur r(1) by simp_all
  have st: "settled w (rg_now r) g ?r1 fin r2"
  proof (cases ?h)
    case None
    then show ?thesis using f by (simp add: settled_def)
  next
    case (Some x)
    show ?thesis
    proof (cases "holder_transport w g x")
      case None
      then show ?thesis using f Some adopt_tcp_settles [OF _ act1 cur1 serving Some refl n1] by simp
    next
      case (Some t)
      then show ?thesis using f \<open>?h = Some x\<close> adopt_unix_settles [OF _ act1 cur1 serving \<open>?h = Some x\<close> refl n1] by simp
    qed
  qed
  show ?thesis
  proof (cases fin)
    case True
    then have c: "concluded w (rg_now r) g r'" using st rest by (simp add: settled_def)
    then show ?thesis using r(2) vouched_mono changed_mono unfolding concluded_def by (auto split: option.splits)
  next
    case False
    then obtain r3 where d: "dead g e r2 = (Inr (), r3)"
      and b: "bury (\<lambda>_. False) g (filter (\<lambda>x. x \<noteq> e) (epochs_in ''starting'' es)) r3 = (Inr u, r')"
      using rest by (auto simp: andthen_Inr)
    have s: "rg_db r2 = rg_db r" "rg_active r2 = None" using st False act1 by (simp_all add: settled_def same_registry_def)
    have "null_pointer (rg_db r3) g" by (rule dead_current [OF _ d]) (use cur s in simp)
    then show ?thesis using bury_effect [OF b, of g] dead_null(4) [OF d] s(2) by (simp add: concluded_def)
  qed
qed

section \<open>The constructor\<close>

lemma asks_catching:
  assumes "asks m" "\<And>e. asks (h e)"
  shows "asks (catching m h)"
  unfolding asks_def
proof
  fix r
  show "same_registry r (snd (catching m h r))"
    using assms unfolding asks_def catching_def
    by (auto split: prod.split sum.split) (metis same_registry_trans snd_conv)+
qed

lemma asks_reap_orphans: "asks (reap_orphans w known gs)"
  by (induction gs)
    (simp_all add: asks_plain reap_orphan_def ignoring_def,
     (intro asks_andthen asks_catching asks_plain asks_probes asks_reap_holder
      | split option.split if_split | intro conjI allI impI | assumption)+)

text \<open>
  C8: re-adoption trusts nothing. When a router comes up over a store with an active generation
  and its constructor returns, either the generation is adopted, and then the store points at the
  adopted epoch, that epoch serves, and the daemon reported the exact identity and held the lock
  after that; or it is not, and then the generation is left without a current epoch, unless the
  lock holder changed while the router was looking, in which case it touched nothing it could not
  vouch for.
\<close>

theorem readoption_is_sound:
  assumes ok: "db_ok d" and r: "GenerationRegistry w d b retries now = (Inr (), r)"
    and gen: "map_of (db_generations d) g = Some gen" "gr_lifecycle_state gen = ''active''"
  shows "concluded w now g r"
proof -
  define r0 where "r0 = \<lparr>rg_db = d, rg_build_id = b, rg_generation_id = None, rg_active = None, rg_topology_revision = 1,
        rg_health_retries = retries, rg_now = now, rg_reaped = []\<rparr>"
  have e: "eager_reconcile w r0 = (Inr (), r)" using r by (simp add: GenerationRegistry_def r0_def)
  obtain gens where gens: "list_generations d = Inr gens"
    and rest: "(case active_rows gens of
       _ # _ # _ \<Rightarrow> raises (NelixError IDEMPOTENCY_CONFLICT)
     | rows \<Rightarrow>
         andthen (probe (w_dirs w)) (\<lambda>dirs.
         andthen (reap_orphans w (map gr_generation_id gens) dirs) (\<lambda>_.
         case rows of
           [] \<Rightarrow> returns ()
         | row # _ \<Rightarrow>
             (let g = gr_generation_id row; b = gr_build_id row in
              andthen (changing (\<lambda>r. r\<lparr>rg_generation_id := Some g\<rparr>)) (\<lambda>_.
              andthen (GenerationSupervisor g) (\<lambda>_.
              andthen (catching (reading (list_epochs_strict (VStr g))) (\<lambda>_. unavailable)) (\<lambda>es.
              case gr_current_epoch row of
                None \<Rightarrow> repair_null_epoch w g b es
              | Some e \<Rightarrow> adopt_current w g b e es))))))) r0 = (Inr (), r)"
    using e by (auto simp: eager_reconcile_def andthen_Inr catching_Inr r0_def)
  have "gens = sort_key (\<lambda>r. (gr_created_at r, gr_generation_id r)) (map snd (db_generations d))"
    by (rule decode_generations [OF gens [unfolded list_generations_def]])
  moreover have "gen \<in> snd ` set (db_generations d)" using map_of_SomeD [OF gen(1)] by force
  ultimately have "gen \<in> set (active_rows gens)" using gen(2) by (simp add: active_rows_def)
  then have rows: "active_rows gens = [gen]"
    using rest by (cases "active_rows gens"; cases "tl (active_rows gens)") auto
  have gid: "gr_generation_id gen = g" by (rule generation_row_ok(1) [OF ok gen(1)])
  obtain dirs r1 where r1: "reap_orphans w (map gr_generation_id gens) dirs (r0\<lparr>rg_now := now + 1\<rparr>) = (Inr (), r1)"
    and rest1: "andthen (changing (\<lambda>r. r\<lparr>rg_generation_id := Some g\<rparr>)) (\<lambda>_.
              andthen (GenerationSupervisor g) (\<lambda>_.
              andthen (catching (reading (list_epochs_strict (VStr g))) (\<lambda>_. unavailable)) (\<lambda>es.
              case gr_current_epoch gen of
                None \<Rightarrow> repair_null_epoch w g (gr_build_id gen) es
              | Some e \<Rightarrow> adopt_current w g (gr_build_id gen) e es))) r1 = (Inr (), r)"
    using rest unfolding rows by (auto simp: andthen_Inr gid Let_def r0_def)
  let ?r2 = "r1\<lparr>rg_generation_id := Some g\<rparr>"
  have s: "rg_db ?r2 = d" "rg_active ?r2 = None" "now \<le> rg_now ?r2"
    using asksD [OF asks_reap_orphans r1] by (simp_all add: same_registry_def r0_def)
  obtain es where es: "list_epochs_strict (VStr g) (rg_db ?r2) = Inr es"
    and rest2: "(case gr_current_epoch gen of
                None \<Rightarrow> repair_null_epoch w g (gr_build_id gen) es
              | Some e \<Rightarrow> adopt_current w g (gr_build_id gen) e es) ?r2 = (Inr (), r)"
    using rest1 by (auto simp: andthen_Inr catching_Inr GenerationSupervisor_def split: sum.splits)
  have ok2: "db_ok (rg_db ?r2)" using ok s(1) by simp
  show ?thesis
  proof (cases "gr_current_epoch gen")
    case None
    then have "null_pointer (rg_db ?r2) g" unfolding s(1) using gen(1) by (simp add: null_pointer_def)
    then show ?thesis using rest2 None repair_concludes [OF ok2 _ s(2) _ s(3) es] by simp
  next
    case (Some e)
    then have "current (rg_db ?r2) g e" unfolding s(1) using gen(1) by (simp add: current_def)
    then show ?thesis using rest2 Some adopt_current_concludes [OF ok2 _ s(2,3) _ es] by simp
  qed
qed

section \<open>A mint that fails\<close>

definition serving_epochs :: "db \<Rightarrow> string set" where
  "serving_epochs d = {e. case map_of (db_epochs d) e of Some x \<Rightarrow> er_process_state x = ''serving'' | None \<Rightarrow> False}"

definition calm :: "registry \<Rightarrow> registry \<Rightarrow> bool" where
  "calm r r' \<longleftrightarrow> rg_active r' = rg_active r \<and> rg_topology_revision r' = rg_topology_revision r \<and>
     serving_epochs (rg_db r') \<subseteq> serving_epochs (rg_db r)"

lemma calm_refl [simp]: "calm r r" and calm_trans: "calm r s \<Longrightarrow> calm s t \<Longrightarrow> calm r t"
  by (auto simp: calm_def)

lemma calm_same: "same_registry r r' \<Longrightarrow> calm r r'"
  by (simp add: calm_def same_registry_def)

text \<open>Actions that promote nothing, and actions that promote nothing when they fail.\<close>

definition calms :: "'a act \<Rightarrow> bool" where
  "calms m \<longleftrightarrow> (\<forall>r. calm r (snd (m r)))"

definition fails_calmly :: "'a act \<Rightarrow> bool" where
  "fails_calmly m \<longleftrightarrow> (\<forall>r e r'. m r = (Inl e, r') \<longrightarrow> calm r r')"

lemma calms_asks: "asks m \<Longrightarrow> calms m"
  using calm_same by (auto simp: asks_def calms_def)

lemma calms_fails: "calms m \<Longrightarrow> fails_calmly m"
  unfolding calms_def fails_calmly_def by (metis snd_conv)

lemma calmsD: "calms m \<Longrightarrow> m r = (x, r') \<Longrightarrow> calm r r'"
  unfolding calms_def by (metis snd_conv)

lemma calms_andthen: "calms m \<Longrightarrow> (\<And>x. calms (f x)) \<Longrightarrow> calms (andthen m f)"
  unfolding calms_def andthen_def by (auto split: prod.split sum.split) (metis calm_trans snd_conv)+

lemma calms_catching: "calms m \<Longrightarrow> (\<And>e. calms (h e)) \<Longrightarrow> calms (catching m h)"
  unfolding calms_def catching_def by (auto split: prod.split sum.split) (metis calm_trans snd_conv)+

lemma fails_andthen: "calms m \<Longrightarrow> (\<And>x. fails_calmly (f x)) \<Longrightarrow> fails_calmly (andthen m f)"
  unfolding fails_calmly_def andthen_Inl using calmsD calm_trans by blast

lemma calms_dead: "calms (dead g e)"
proof -
  have "serving_epochs d \<subseteq> serving_epochs (rg_db r)" if "reconcile_epoch_dead (VStr g) (VStr e) (rg_db r) = Inr (d, u)" for d r u
    using that by (auto simp: reconcile_epoch_dead_def serving_epochs_def Let_def split: option.splits if_splits)
  then show ?thesis unfolding calms_def dead_def writing_def by (auto simp: calm_def split: sum.split)
qed

lemma calms_changing: "calms (changing (\<lambda>r. r\<lparr>rg_generation_id := g\<rparr>))"
  by (simp add: calms_def changing_def calm_def)

lemma calms_create: "calms (writing (create_generation a b c d e))"
proof -
  have epochs: "db_epochs d' = db_epochs (rg_db r)" if "create_generation a b c d e (rg_db r) = Inr (d', u)" for r d' u
    using that by (cases rule: create_generation_cases) simp
  have "serving_epochs d' = serving_epochs (rg_db r)" if "create_generation a b c d e (rg_db r) = Inr (d', u)" for r d' u
    unfolding serving_epochs_def epochs [OF that] by simp
  then show ?thesis unfolding calms_def writing_def by (auto simp: calm_def split: sum.split)
qed

lemma calms_insert: "calms (writing (insert_epoch a b c d))"
proof -
  have "serving_epochs d' \<subseteq> serving_epochs (rg_db r)" if "insert_epoch a b c d (rg_db r) = Inr (d', u)" for r d' u
    using that by (cases rule: insert_epoch_cases) (auto simp: serving_epochs_def split: if_splits)
  then show ?thesis unfolding calms_def writing_def by (auto simp: calm_def split: sum.split)
qed

lemmas calms_plain = asks_plain [THEN calms_asks] asks_probes [THEN calms_asks]
  asks_reap_holder [THEN calms_asks] asks_ensure_running [THEN calms_asks]

lemma calms_nelix: "calms m \<Longrightarrow> calms h \<Longrightarrow> calms (catching_nelix m h)"
  unfolding catching_nelix_def by (intro calms_catching) (simp_all add: calms_plain)

lemma calms_abandon: "calms (abandon g e)"
  unfolding abandon_def ignoring_def
  by (intro calms_andthen calms_catching calms_dead calms_plain | split if_split | intro conjI impI)+

lemma calms_reap_if: "calms (reap_if w g inc)"
  unfolding reap_if_def by (intro calms_andthen calms_plain | split option.split | intro conjI allI impI)+

text \<open>A promotion that is taken back leaves the epoch dead.\<close>

lemma promote_fails: "fails_calmly (promote w g b e i t)"
  unfolding fails_calmly_def
proof (intro allI impI)
  fix r x r'
  assume a: "promote w g b e i t r = (Inl x, r')"
  have retreat: "calms (andthen (reap_if w g (Some i)) (\<lambda>_. abandon g e) :: unit act)"
    by (intro calms_andthen calms_reap_if calms_abandon)
  show "calm r r'"
  proof (cases "cas_epoch_serving (VStr g) (VStr e) None (VStr (w_meta w i)) (rg_db r)")
    case (Inl y)
    have k: "catching_nelix (writing (cas_epoch_serving (VStr g) (VStr e) None (VStr (w_meta w i))))
        (andthen (reap_if w g (Some i)) (\<lambda>_. abandon g e)) r =
      (if is_nelix y then andthen (reap_if w g (Some i)) (\<lambda>_. abandon g e) r else (Inl y, r))"
      by (simp add: catching_nelix_def catching_def writing_def Inl raises_def)
    have "\<not> (\<exists>u s. andthen (reap_if w g (Some i)) (\<lambda>_. abandon g e) r = (Inr (u::unit), s))"
      by (auto simp: andthen_Inr abandon_raises)
    then have "(if is_nelix y then andthen (reap_if w g (Some i)) (\<lambda>_. abandon g e) r else (Inl y, r)) = (Inl x :: unit res, r')"
      using a unfolding promote_def andthen_Inl k by (auto split: if_splits)
    then show ?thesis using calmsD [OF retreat] by (auto split: if_splits)
  next
    case (Inr z)
    obtain d where d: "cas_epoch_serving (VStr g) (VStr e) None (VStr (w_meta w i)) (rg_db r) = Inr (d, ())"
      using Inr by (cases z) auto
    have ab: "abandon g e (r\<lparr>rg_db := d, rg_now := rg_now r + 1\<rparr>) = (Inl x :: generation_handle res, r')"
      using a d by (auto simp: promote_def andthen_Inl andthen_Inr catching_nelix_def catching_def writing_def live_eq set_active_eq
          split: if_splits) (simp_all add: live_lock_holder_def set_active_def)
    have g: "g \<noteq> []" using d by (auto simp: cas_epoch_serving_def nonempty_text_def)
    from d show ?thesis
    proof (cases rule: cas_epoch_serving_cases)
      case (1 g' ep gen y m)
      have "\<exists>d2. reconcile_epoch_dead (VStr g) (VStr e) d = Inr (d2, ()) \<and>
          serving_epochs d2 \<subseteq> serving_epochs (rg_db r)"
        using 1 g by (auto simp: reconcile_epoch_dead_def Let_def serving_epochs_def split: option.splits if_splits)
      then obtain d2 where d2: "reconcile_epoch_dead (VStr g) (VStr e) d = Inr (d2, ())"
        and sub: "serving_epochs d2 \<subseteq> serving_epochs (rg_db r)" by blast
      have "r' = r\<lparr>rg_db := d2, rg_now := rg_now r + 1\<rparr>"
        using ab d2 by (auto simp: abandon_def ignoring_def andthen_def catching_def dead_def writing_def unavailable_def raises_def)
      then show ?thesis using sub by (simp add: calm_def)
    qed
  qed
qed

lemma install_fails: "fails_calmly (install w g b e started)"
proof -
  have quiet: "fails_calmly (andthen (reap_if w g inc) (\<lambda>_. abandon g e) :: generation_handle act)" for inc
    by (intro calms_fails calms_andthen calms_reap_if calms_abandon)
  have plain: "fails_calmly (unavailable :: generation_handle act)" "fails_calmly (raises x :: generation_handle act)" for x
    by (intro calms_fails calms_plain)+
  show ?thesis unfolding install_def Let_def
    by (intro fails_andthen promote_fails quiet plain calms_plain
      | split option.split prod.split if_split | intro conjI allI impI)+
qed

lemma calms_start: "calms (catching (ensure_running w g b e) (\<lambda>_. abandon g e))"
  by (intro calms_catching calms_plain calms_abandon)

lemma calms_persist: "calms (persist_generation w g b now)"
  unfolding persist_generation_def
  by (intro calms_catching calms_create calms_plain | split if_split | intro conjI impI)+

lemma mint_fails: "fails_calmly (mint_and_install w g b)"
  unfolding mint_and_install_def
  by (intro fails_andthen install_fails calms_start calms_persist calms_nelix calms_insert calms_plain)

lemma calms_query: "calms (\<lambda>r. (f r, r))"
  by (simp add: calms_def)

lemma find_or_create_fails: "fails_calmly (find_or_create w)"
proof -
  have build: "calms (case pinned of Some b \<Rightarrow> returns (Some b) | None \<Rightarrow> andthen (probe (w_runtime w)) (\<lambda>b r. (b, r)))" for pinned
    by (intro calms_andthen calms_plain calms_query | split option.split | intro conjI allI impI)+
  have plain: "fails_calmly (raises x :: generation_handle act)" for x by (intro calms_fails calms_plain)
  show ?thesis unfolding find_or_create_def
    by (intro fails_andthen mint_fails plain build calms_catching calms_plain calms_changing calms_query
      | split list.split | intro conjI allI impI)+
qed

text \<open>
  C10: a start that fails leaves nothing half started. When there is no active generation and the
  request for one raises, at whatever step, the registry still has none and its topology revision
  is unchanged, and no epoch serves in the store that did not before: an epoch that had already
  been promoted when its daemon lost the lock is dead again.
\<close>

theorem failed_mint_serves_nothing:
  assumes "rg_active r = None" "active w r = (Inl x, r')"
  shows "rg_active r' = None \<and> rg_topology_revision r' = rg_topology_revision r \<and>
    serving_epochs (rg_db r') \<subseteq> serving_epochs (rg_db r)"
proof -
  have "find_or_create w r = (Inl x, r')" using assms by (simp add: active_def andthen_def get_active_def)
  then have "calm r r'" using find_or_create_fails by (simp add: fails_calmly_def)
  then show ?thesis using assms(1) by (simp add: calm_def)
qed

section \<open>A demonstration\<close>

definition demo_store :: db where
  "demo_store = rg_db (snd (demo_minted 100))"

lemma demo_store_ok: "db_ok demo_store"
proof -
  have "preserves (\<lambda>s. 0 \<le> rg_now s \<and> db_ok (rg_db s)) (active (demo_world 100))" by (rule later.ok_active)
  from preservesD [OF this, of demo_registry "fst (demo_minted 100)" "snd (demo_minted 100)"]
  show ?thesis by (simp add: demo_store_def demo_minted_def demo_registry_def db_ok_empty)
qed

lemma demo_restart:
  "fst (GenerationRegistry (demo_world 100) demo_store (Some ''b'') 2 10) = Inr ()"
  "map_option gr_lifecycle_state (map_of (db_generations demo_store) demo_gid) = Some ''active''"
  by code_simp+

theorem readoption_is_sound_witness:
  "concluded (demo_world 100) 10 demo_gid (snd (GenerationRegistry (demo_world 100) demo_store (Some ''b'') 2 10))"
proof -
  obtain gen where gen: "map_of (db_generations demo_store) demo_gid = Some gen" "gr_lifecycle_state gen = ''active''"
    using demo_restart(2) by auto
  have "GenerationRegistry (demo_world 100) demo_store (Some ''b'') 2 10 =
      (Inr (), snd (GenerationRegistry (demo_world 100) demo_store (Some ''b'') 2 10))"
    using demo_restart(1) by (metis prod.collapse)
  from readoption_is_sound [OF demo_store_ok this gen] show ?thesis .
qed

text \<open>The holder of the lock changes just after the promotion: the mint is undone.\<close>

lemma demo_lost: "fst (demo_minted 9) = Inl (NelixError GENERATION_UNAVAILABLE)" by code_simp

theorem failed_mint_serves_nothing_witness:
  "rg_active (snd (demo_minted 9)) = None \<and> serving_epochs (rg_db (snd (demo_minted 9))) \<subseteq> serving_epochs empty_db"
proof -
  have a: "active (demo_world 9) demo_registry = (Inl (NelixError GENERATION_UNAVAILABLE), snd (demo_minted 9))"
    using demo_lost unfolding demo_minted_def by (metis prod.collapse)
  from failed_mint_serves_nothing [OF _ a] show ?thesis by (simp add: demo_registry_def)
qed

end
