(* ===== verification/Nelix_Operator.thy ===== *)
theory Nelix_Operator
  imports Nelix_Registry Nelix_Retirement Nelix_Leases Nelix_Lifecycle
begin

text \<open>
  \<^verbatim>\<open>router/operator.py\<close> with a store: activating a build and retiring a generation, and
  the three operator requests of the daemon (\<^verbatim>\<open>daemon/manager.py\<close>,
  \<^verbatim>\<open>daemon/rpc_server.py\<close>) it sends for that. Process groups, the record of a session's child,
  the installed runtimes and the daemon's tables are the world.
\<close>

section \<open>The outside\<close>

datatype rpc_fate = Rpc_lost | Rpc_reply_lost | Rpc_answered

datatype kill_result = Signalled | No_such_group | Not_permitted | Kill_failed

text \<open>What \<open>read_child_raw\<close> finds.\<close>

datatype child_file = Child_absent | Child_malformed | Child_record "(string \<times> pyval) list"

text \<open>The tables of the daemon that matter for quiescence.\<close>

record daemon_view =
  dv_epoch :: string
  dv_sessions :: nat
  dv_obligations :: nat
  dv_terminal_pending :: "(int option \<times> string) list"
  dv_pending_acquire :: nat
  dv_reserved :: nat

record op_world =
  ow_world :: world
  ow_installed :: "nat \<Rightarrow> string \<Rightarrow> bool"
  ow_activate :: "nat \<Rightarrow> string \<Rightarrow> bool"
  ow_lock_free :: "nat \<Rightarrow> bool"
  ow_rpc :: "nat \<Rightarrow> transport \<Rightarrow> rpc_fate"
  ow_daemon :: "nat \<Rightarrow> transport \<Rightarrow> daemon_view"
  ow_child :: "nat \<Rightarrow> string \<Rightarrow> child_file"
  ow_fingerprint :: "nat \<Rightarrow> int \<Rightarrow> string option"
  ow_killpg :: "nat \<Rightarrow> int \<Rightarrow> int \<Rightarrow> kill_result"
  ow_json :: "string \<Rightarrow> pyval option"

text \<open>The lease service is the operator's other collaborator; only retirement touches it.\<close>

record operator =
  op_registry :: registry
  op_leases :: "lease_service option"

definition on_registry :: "'a act \<Rightarrow> (operator, 'a) action" where
  "on_registry m s = (case m (op_registry s) of (x, r) \<Rightarrow> (x, s\<lparr>op_registry := r\<rparr>))"

section \<open>The daemon's side\<close>

definition begin_quiescence :: "daemon_view \<Rightarrow> db \<Rightarrow> unit \<times> db" where
  "begin_quiescence v d =
     (case set_epoch_retirement (VStr (dv_epoch v)) (VStr ''quiescing'') None VNone d of
        Inl e \<Rightarrow> ((), d) | Inr (d', _) \<Rightarrow> ((), d'))"

definition drop_confirmed_pending :: "db \<Rightarrow> (int option \<times> string) list \<Rightarrow> (int option \<times> string) list" where
  "drop_confirmed_pending d pend =
     filter (\<lambda>(tseq, epoch).
       case tseq of
         None \<Rightarrow> True
       | Some n \<Rightarrow> epoch \<noteq> [] \<and>
           (case get_generation_confirmed_high_water (VStr epoch) d of Inl e \<Rightarrow> True | Inr chw \<Rightarrow> chw < n)) pend"

record quiescence =
  q_live :: nat
  q_obligations :: nat
  q_pending :: nat
  q_in_flight :: nat

definition quiescence_status :: "daemon_view \<Rightarrow> db \<Rightarrow> quiescence \<times> db" where
  "quiescence_status v d =
     (\<lparr>q_live = dv_sessions v, q_obligations = dv_obligations v,
       q_pending = length (drop_confirmed_pending d (dv_terminal_pending v)),
       q_in_flight = dv_pending_acquire v + dv_reserved v\<rparr>, d)"

definition certify_epoch :: "string \<Rightarrow> string \<Rightarrow> daemon_view \<Rightarrow> db \<Rightarrow> bool \<times> db" where
  "certify_epoch expected_epoch certificate v d =
     (if expected_epoch \<noteq> dv_epoch v \<or> dv_obligations v > 0 \<or> dv_sessions v > 0 \<or> dv_pending_acquire v > 0 \<or> dv_reserved v > 0
      then (False, d)
      else (case rbind (get_generation_persisted_high_water (VStr (dv_epoch v)) d) (\<lambda>hw.
                   set_epoch_retirement (VStr (dv_epoch v)) (VStr ''certified'') (Some certificate) (VInt hw) d) of
              Inl e \<Rightarrow> (False, d) | Inr (d', _) \<Rightarrow> (True, d')))"

text \<open>\<open>_daemon_rpc\<close>: only the registry's own generation can be reached; nothing came back is \<open>None\<close>.\<close>

definition daemon_rpc :: "op_world \<Rightarrow> string \<Rightarrow> (daemon_view \<Rightarrow> db \<Rightarrow> 'a \<times> db) \<Rightarrow> 'a option act" where
  "daemon_rpc w g handler r =
     (case rg_active r of
        None \<Rightarrow> (Inr None, r)
      | Some a \<Rightarrow>
          if ag_generation_id a \<noteq> g then (Inr None, r)
          else (let n = rg_now r; (y, d) = handler (ow_daemon w n (ag_transport a)) (rg_db r) in
            case ow_rpc w n (ag_transport a) of
              Rpc_lost \<Rightarrow> (Inr None, r\<lparr>rg_now := n + 1\<rparr>)
            | Rpc_reply_lost \<Rightarrow> (Inr None, r\<lparr>rg_db := d, rg_now := n + 1\<rparr>)
            | Rpc_answered \<Rightarrow> (Inr (Some y), r\<lparr>rg_db := d, rg_now := n + 1\<rparr>)))"

section \<open>Activation\<close>

datatype activate_reply = Already_active string | Activated string string bool

primrec health_check :: "world \<Rightarrow> transport \<Rightarrow> string \<Rightarrow> string \<Rightarrow> string option \<Rightarrow> nat \<Rightarrow> bool act" where
  "health_check w t e g b 0 = returns False"
| "health_check w t e g b (Suc k) =
     andthen (check_health_strict w t e g b) (\<lambda>ok. if ok then returns True else health_check w t e g b k)"

definition ACTIVATE_HEALTH_RETRIES :: nat where
  "ACTIVATE_HEALTH_RETRIES = 3"

text \<open>The build is what the registry already runs; an unavailable generation does not matter here.\<close>

definition already_active :: "world \<Rightarrow> string \<Rightarrow> generation_handle option act" where
  "already_active w b =
     catching_nelix
       (andthen (active w) (\<lambda>h.
        andthen get_active (\<lambda>a.
        returns (case a of Some x \<Rightarrow> if ag_build_id x = Some b then Some h else None | None \<Rightarrow> None))))
       (returns None)"

text \<open>The atomic flip: the old generation drains and the new one is active, or the new one alone.\<close>

definition flip :: "generation_record option \<Rightarrow> string \<Rightarrow> unit act" where
  "flip old new =
     (case old of
        Some g \<Rightarrow>
          andthen (reading (\<lambda>_. validate_transition (gr_lifecycle_state g) ''draining'')) (\<lambda>_.
          writing (set_generation_lifecycle_state_atomic (VStr (gr_generation_id g)) (VStr new) ''draining'' ''active'' ''ready''))
      | None \<Rightarrow>
          andthen (reading (\<lambda>_. validate_transition ''ready'' ''active'')) (\<lambda>_.
          writing (set_generation_lifecycle_state_atomic (VStr new) (VStr new) ''active'' ''ready'' ''ready'')))"

definition promote_build :: "op_world \<Rightarrow> string \<Rightarrow> string \<Rightarrow> string \<Rightarrow> generation_record option
    \<Rightarrow> incarnation option \<times> transport \<Rightarrow> activate_reply act" where
  "promote_build w g e b old started =
     (let (inc, t) = started; ww = ow_world w in
      andthen (health_check ww t e g (Some b) ACTIVATE_HEALTH_RETRIES) (\<lambda>ok.
      if \<not> ok then andthen (reap_if ww g inc) (\<lambda>_. andthen (dead g e) (\<lambda>_. unavailable))
      else andthen (live_lock_holder ww g) (\<lambda>h.
      case h of None \<Rightarrow> andthen (reap_if ww g inc) (\<lambda>_. andthen (dead g e) (\<lambda>_. unavailable)) | Some h \<Rightarrow>
      let i = incarnation_of h in
      andthen (catching (writing (cas_epoch_serving (VStr g) (VStr e) None (VStr (w_meta ww i))))
                 (\<lambda>x. if is_nelix x then andthen (reap_if ww g (Some i)) (\<lambda>_. andthen (dead g e) (\<lambda>_. raises x)) else raises x)) (\<lambda>_.
      andthen (flip old g) (\<lambda>_.
      andthen (probe (\<lambda>n. ow_activate w n b)) (\<lambda>updated.
      andthen (adopt_generation ww g e t (Some b) (Some i)) (\<lambda>_.
      returns (Activated g e updated))))))))"

definition activate_build :: "op_world \<Rightarrow> string \<Rightarrow> activate_reply act" where
  "activate_build w b =
     (let ww = ow_world w in
      andthen (probe (w_clock ww)) (\<lambda>now.
      andthen (catching_nelix (reading (\<lambda>d. rbind (list_generations d) (\<lambda>gs. Inr (List.find (\<lambda>g. gr_lifecycle_state g = ''active'') gs))))
                 (returns None)) (\<lambda>old.
      andthen (probe (w_mint ww)) (\<lambda>g.
      andthen (writing (create_generation (VStr g) (VStr b) (VStr ''ready'') VNone (VFloat (Fin now)))) (\<lambda>_.
      andthen (probe (w_mint ww)) (\<lambda>e.
      andthen (writing (insert_epoch (VStr e) (VStr g) VNone (VFloat (Fin now)))) (\<lambda>_.
      andthen (GenerationSupervisor g) (\<lambda>_.
      andthen (catching (ensure_running ww g (Some b) e) (\<lambda>_. andthen (dead g e) (\<lambda>_. unavailable))) (\<lambda>started.
      promote_build w g e b old started)))))))))"

definition activate_locked :: "op_world \<Rightarrow> string \<Rightarrow> activate_reply act" where
  "activate_locked w b =
     andthen (probe (\<lambda>n. ow_installed w n b)) (\<lambda>installed.
     if \<not> installed then raises (NelixError INVALID_REQUEST)
     else andthen (already_active (ow_world w) b) (\<lambda>cur.
       case cur of
         Some h \<Rightarrow> returns (Already_active (gh_generation_id h))
       | None \<Rightarrow> activate_build w b))"

definition generations_lock :: "op_world \<Rightarrow> unit act" where
  "generations_lock w =
     andthen (probe (ow_lock_free w)) (\<lambda>free. if free then returns () else raises (NelixError IDEMPOTENCY_CONFLICT))"

definition activate :: "op_world \<Rightarrow> pyval \<Rightarrow> activate_reply act" where
  "activate w build_id =
     (case build_id of
        VStr b \<Rightarrow> if b = [] then raises (NelixError INVALID_REQUEST)
                 else andthen (generations_lock w) (\<lambda>_. activate_locked w b)
      | _ \<Rightarrow> raises (NelixError INVALID_REQUEST))"

section \<open>Retirement\<close>

datatype crash_blocker =
    Epoch_not_found | Epoch_not_dead | Missing_incarnation_meta | Malformed_incarnation_meta | Invalid_incarnation_pid
  | Daemon_still_alive | List_starts_failed | Generation_lost_failed string
  | Child_record_missing string | Child_record_malformed string | Child_sid_mismatch string | Incomplete_child_record string
  | Child_missing_pgid string | Child_null_fingerprint string | Invalid_child_pid string | Invalid_child_pgid string
  | Child_fingerprint_mismatch string | Child_group_still_alive | Killpg_sigterm_failed int | Killpg_sigkill_failed int
  | Child_group_verify_failed

datatype retire_blocker =
    Crash_reconcile_failed string crash_blocker | Resolve_failed | Not_quiesced | Certify_failed | Confirmed_below_final
  | Reap_refused_or_failed | Lease_service_required | Oracle "oracle_blocker list"

datatype retire_reply = Already_retired | Blocked string retire_blocker | Retire_ok string

text \<open>
  The watermark of an epoch: the end of the run of sequence numbers that starts at one. What the
  store or the daemon cannot give is logged with keyword arguments the logger does not take, so
  the handler of the exception raises one itself.
\<close>

lemma length_filter_le_filter: "(\<And>x. P x \<Longrightarrow> Q x) \<Longrightarrow> length (filter P xs) \<le> length (filter Q xs)"
  by (induction xs) (auto simp: le_SucI)

lemma length_filter_less_filter:
  "(\<And>x. P x \<Longrightarrow> Q x) \<Longrightarrow> y \<in> set xs \<Longrightarrow> Q y \<Longrightarrow> \<not> P y \<Longrightarrow> length (filter P xs) < length (filter Q xs)"
  by (induction xs) (auto simp: less_Suc_eq_le intro: length_filter_le_filter)

function contiguous :: "int \<Rightarrow> int list \<Rightarrow> int" where
  "contiguous hw seqs = (if hw + 1 \<in> set seqs then contiguous (hw + 1) seqs else hw)"
  by auto

termination
proof (relation "measure (\<lambda>(hw, seqs). length (filter (\<lambda>x. hw < x) seqs))")
  fix hw :: int and seqs :: "int list"
  assume "hw + 1 \<in> set seqs"
  then have "length (filter (\<lambda>x. hw + 1 < x) seqs) < length (filter (\<lambda>x. hw < x) seqs)"
    by (intro length_filter_less_filter [of _ _ "hw + 1"]) auto
  then show "((hw + 1, seqs), (hw, seqs)) \<in> measure (\<lambda>(hw, seqs). length (filter (\<lambda>x. hw < x) seqs))" by simp
qed simp

declare contiguous.simps [simp del]

definition resolve_confirmed :: "string \<Rightarrow> bool act" where
  "resolve_confirmed epoch r =
     (case list_terminal_for_epoch epoch (rg_db r) of
        Inl e \<Rightarrow> (Inl TypeError, r)
      | Inr ts \<Rightarrow>
          (let hw = contiguous 0 (map tr_terminal_seq ts) in
           if ts = [] then (Inr True, r)
           else if hw > 0 then
             (case set_generation_confirmed_high_water (VStr epoch) (VInt hw) (rg_db r) of
                (Inl e, d) \<Rightarrow> (Inl TypeError, r\<lparr>rg_db := d\<rparr>)
              | (Inr _, d) \<Rightarrow> (Inr True, r\<lparr>rg_db := d\<rparr>))
           else (Inr True, r)))"

text \<open>\<open>reap_holder\<close> of a parsed incarnation; a process id that is no int matches no holder.\<close>

definition reap_recorded :: "world \<Rightarrow> string \<Rightarrow> pyval \<Rightarrow> bool act" where
  "reap_recorded w g meta =
     (case meta of
        VDict kv \<Rightarrow>
          (let pid = Nelix_Start.dict_get kv ''pid''; fp = Nelix_Start.dict_get kv ''start_fingerprint'' in
           if \<not> truthy pid \<or> \<not> truthy fp then returns False
           else (case (pid, fp) of
                   (VInt p, VStr f) \<Rightarrow> reap_holder w g \<lparr>in_pid = p, in_fingerprint = Some f\<rparr>
                 | _ \<Rightarrow> returns False))
      | _ \<Rightarrow> raises AttributeError)"

definition reap_generation :: "op_world \<Rightarrow> string \<Rightarrow> string \<Rightarrow> bool act" where
  "reap_generation w g epoch =
     catching
       (andthen (reading (get_generation (VStr g))) (\<lambda>gen.
        andthen (reading (list_epochs_strict (VStr g))) (\<lambda>es.
        case find (\<lambda>x. er_generation_epoch x = epoch \<and> er_incarnation_meta x \<notin> {None, Some []}) es of
          None \<Rightarrow> returns False
        | Some x \<Rightarrow>
            (case ow_json w (the (er_incarnation_meta x)) of
               None \<Rightarrow> raises ValueError
             | Some meta \<Rightarrow> andthen (GenerationSupervisor g) (\<lambda>_. reap_recorded (ow_world w) g meta)))))
       (\<lambda>_. raises TypeError)"

text \<open>One outstanding session: its record must be sound, and after the kill its group must be gone.\<close>

definition kill_child_group :: "op_world \<Rightarrow> int \<Rightarrow> crash_blocker option act" where
  "kill_child_group w pgid =
     andthen (probe (\<lambda>n. ow_killpg w n pgid 15)) (\<lambda>k1.
     case k1 of Not_permitted \<Rightarrow> returns (Some Child_group_still_alive) | Kill_failed \<Rightarrow> returns (Some (Killpg_sigterm_failed pgid)) | _ \<Rightarrow>
     andthen (probe (\<lambda>n. ow_killpg w n pgid 9)) (\<lambda>k2.
     case k2 of Not_permitted \<Rightarrow> returns (Some Child_group_still_alive) | Kill_failed \<Rightarrow> returns (Some (Killpg_sigkill_failed pgid)) | _ \<Rightarrow>
     andthen (probe (\<lambda>n. ow_killpg w n pgid 0)) (\<lambda>k3.
     returns (case k3 of
                No_such_group \<Rightarrow> None
              | Not_permitted \<Rightarrow> Some Child_group_still_alive
              | Kill_failed \<Rightarrow> Some Child_group_verify_failed
              | Signalled \<Rightarrow> Some Child_group_still_alive))))"

fun positive_int :: "pyval \<Rightarrow> int option" where
  "positive_int (VInt i) = (if i > 0 then Some i else None)"
| "positive_int _ = None"

definition child_identity :: "string \<Rightarrow> (string \<times> pyval) list \<Rightarrow> crash_blocker + int \<times> int \<times> pyval" where
  "child_identity sid kv =
     (let pid = Nelix_Start.dict_get kv ''pid''; pgid = Nelix_Start.dict_get kv ''pgid''; fp = Nelix_Start.dict_get kv ''child_fingerprint'' in
      if Nelix_Start.dict_get kv ''sid'' \<noteq> VStr sid then Inl (Child_sid_mismatch sid)
      else if \<not> truthy pid then Inl (Incomplete_child_record sid)
      else if \<not> truthy pgid then Inl (Child_missing_pgid sid)
      else if \<not> truthy fp then Inl (Child_null_fingerprint sid)
      else case (positive_int pid, positive_int pgid) of
             (None, _) \<Rightarrow> Inl (Invalid_child_pid sid)
           | (Some p, None) \<Rightarrow> Inl (Invalid_child_pgid sid)
           | (Some p, Some pg) \<Rightarrow> Inr (p, pg, fp))"

definition reap_child :: "op_world \<Rightarrow> string \<Rightarrow> crash_blocker option act" where
  "reap_child w sid =
     andthen (probe (\<lambda>n. ow_child w n sid)) (\<lambda>file.
     case file of
       Child_absent \<Rightarrow> returns (Some (Child_record_missing sid))
     | Child_malformed \<Rightarrow> returns (Some (Child_record_malformed sid))
     | Child_record kv \<Rightarrow>
         (case child_identity sid kv of
            Inl b \<Rightarrow> returns (Some b)
          | Inr (p, pg, fp) \<Rightarrow>
              andthen (probe (\<lambda>n. ow_fingerprint w n p)) (\<lambda>actual.
              if actual \<noteq> None \<and> opt_str actual \<noteq> fp then returns (Some (Child_fingerprint_mismatch sid))
              else kill_child_group w pg)))"

primrec reap_children :: "op_world \<Rightarrow> (string \<times> start_row) list \<Rightarrow> crash_blocker option act" where
  "reap_children w [] = returns None"
| "reap_children w (row # rows) =
     andthen (reap_child w (fst row)) (\<lambda>b. case b of Some x \<Rightarrow> returns (Some x) | None \<Rightarrow> reap_children w rows)"

definition starts_or_blocked :: "string \<Rightarrow> ((string \<times> start_row) list \<Rightarrow> crash_blocker option act) \<Rightarrow> crash_blocker option act" where
  "starts_or_blocked epoch f =
     andthen (catching (andthen (reading (list_starts_for_epoch (VStr epoch))) (\<lambda>rows. returns (Some rows))) (\<lambda>_. returns None)) (\<lambda>rows.
     case rows of None \<Rightarrow> returns (Some List_starts_failed) | Some rows \<Rightarrow> f rows)"

primrec lose_sessions :: "world \<Rightarrow> (string \<times> start_row) list \<Rightarrow> crash_blocker option act" where
  "lose_sessions w [] = returns None"
| "lose_sessions w (row # rows) =
     andthen (probe (w_clock w)) (\<lambda>ended.
     andthen (probe (w_clock w)) (\<lambda>now.
     andthen (catching (andthen (writing (put_terminal (fst row) (VStr ''generation_lost'') (VStr ''generation lost (daemon crashed)'')
                                   (VFloat (Fin ended)) (VFloat (Fin now)))) (\<lambda>_. returns True)) (\<lambda>_. returns False)) (\<lambda>ok.
     if \<not> ok then returns (Some (Generation_lost_failed (fst row))) else lose_sessions w rows)))"

definition crash_certificate :: "string \<Rightarrow> string \<Rightarrow> string" where
  "crash_certificate g e = ''crash-reconcile:'' @ g @ '':'' @ e"

definition crash_pid :: "op_world \<Rightarrow> string option \<Rightarrow> crash_blocker + int" where
  "crash_pid w meta =
     (case meta of
        None \<Rightarrow> Inl Missing_incarnation_meta
      | Some m \<Rightarrow>
          if m = [] then Inl Missing_incarnation_meta
          else (case ow_json w m of
                  Some (VDict kv) \<Rightarrow>
                    (case positive_int (Nelix_Start.dict_get kv ''pid'') of None \<Rightarrow> Inl Invalid_incarnation_pid | Some p \<Rightarrow> Inr p)
                | _ \<Rightarrow> Inl Malformed_incarnation_meta))"

definition crash_reconcile_epoch :: "op_world \<Rightarrow> string \<Rightarrow> string \<Rightarrow> crash_blocker option act" where
  "crash_reconcile_epoch w g e =
     andthen (reading (list_epochs_strict (VStr g))) (\<lambda>es.
     case find (\<lambda>x. er_generation_epoch x = e) es of
       None \<Rightarrow> returns (Some Epoch_not_found)
     | Some x \<Rightarrow>
         if er_process_state x \<noteq> ''dead'' then returns (Some Epoch_not_dead)
         else case crash_pid w (er_incarnation_meta x) of Inl b \<Rightarrow> returns (Some b) | Inr pid \<Rightarrow>
         andthen (probe (\<lambda>n. w_alive (ow_world w) n pid)) (\<lambda>alive.
         if alive then returns (Some Daemon_still_alive)
         else andthen (if er_retirement_state x = ''open'' then writing (set_epoch_retirement (VStr e) (VStr ''quiescing'') None VNone) else returns ()) (\<lambda>_.
         andthen (starts_or_blocked e (reap_children w)) (\<lambda>b.
         case b of Some y \<Rightarrow> returns (Some y) | None \<Rightarrow>
         andthen (starts_or_blocked e (lose_sessions (ow_world w))) (\<lambda>b.
         case b of Some y \<Rightarrow> returns (Some y) | None \<Rightarrow>
         andthen (reading (get_generation_persisted_high_water (VStr e))) (\<lambda>hw.
         andthen (writing (set_epoch_retirement (VStr e) (VStr ''certified'') (Some (crash_certificate g e)) (VInt hw))) (\<lambda>_.
         returns None)))))))"

text \<open>Phase one, the clean path: the current epoch of a daemon that can still be asked.\<close>

definition retire_certificate :: "string \<Rightarrow> string \<Rightarrow> string" where
  "retire_certificate g e = ''retire:'' @ g @ '':'' @ e"

definition is_quiesced :: "quiescence option \<Rightarrow> bool" where
  "is_quiesced q = (case q of None \<Rightarrow> False | Some q \<Rightarrow>
     q_live q = 0 \<and> q_obligations q = 0 \<and> q_pending q = 0 \<and> q_in_flight q = 0)"

definition final_of :: "string \<Rightarrow> epoch_record list \<Rightarrow> int" where
  "final_of e es = (case find (\<lambda>x. er_generation_epoch x = e) es of None \<Rightarrow> 0 | Some x \<Rightarrow> final_or_zero (er_final_high_water x))"

definition certify_current :: "op_world \<Rightarrow> string \<Rightarrow> epoch_record \<Rightarrow> retire_blocker option act" where
  "certify_current w g ep =
     (let e = er_generation_epoch ep in
      andthen (if er_retirement_state ep = ''open'' then writing (set_epoch_retirement (VStr e) (VStr ''quiescing'') None VNone) else returns ()) (\<lambda>_.
      andthen (daemon_rpc w g begin_quiescence) (\<lambda>_.
      andthen (resolve_confirmed e) (\<lambda>ok.
      if \<not> ok then returns (Some Resolve_failed)
      else andthen (daemon_rpc w g quiescence_status) (\<lambda>q.
      if \<not> is_quiesced q then returns (Some Not_quiesced)
      else andthen (daemon_rpc w g (certify_epoch e (retire_certificate g e))) (\<lambda>_.
      andthen (reading (get_epoch_retirement_state (VStr e))) (\<lambda>st.
      if st \<noteq> ''certified'' then returns (Some Certify_failed)
      else andthen (resolve_confirmed e) (\<lambda>ok.
      if \<not> ok then returns (Some Confirmed_below_final)
      else andthen (reading (list_epochs (VStr g))) (\<lambda>es.
      andthen (reading (get_generation_confirmed_high_water (VStr e))) (\<lambda>chw.
      returns (if chw < final_of e es then Some Confirmed_below_final else None)))))))))))"

definition certify_one :: "op_world \<Rightarrow> string \<Rightarrow> string option \<Rightarrow> epoch_record \<Rightarrow> retire_blocker option act" where
  "certify_one w g cur ep =
     (if er_retirement_state ep = ''certified'' then returns None
      else if er_process_state ep = ''dead'' then
        andthen (crash_reconcile_epoch w g (er_generation_epoch ep)) (\<lambda>b.
        returns (map_option (Crash_reconcile_failed (er_generation_epoch ep)) b))
      else if cur = Some (er_generation_epoch ep) then certify_current w g ep
      else returns None)"

primrec certify_epochs :: "op_world \<Rightarrow> string \<Rightarrow> string option \<Rightarrow> epoch_record list \<Rightarrow> retire_blocker option act" where
  "certify_epochs w g cur [] = returns None"
| "certify_epochs w g cur (ep # eps) =
     andthen (certify_one w g cur ep) (\<lambda>b.
     case b of Some x \<Rightarrow> returns (Some x) | None \<Rightarrow> certify_epochs w g cur eps)"

text \<open>Phase two: every incarnation gone, the leases released, the watermarks resolved, the oracle clear.\<close>

primrec reap_epochs :: "op_world \<Rightarrow> string \<Rightarrow> epoch_record list \<Rightarrow> retire_blocker option act" where
  "reap_epochs w g [] = returns None"
| "reap_epochs w g (ep # eps) =
     (if er_incarnation_meta ep \<in> {None, Some []} \<or> er_process_state ep = ''dead'' then reap_epochs w g eps
      else andthen (reap_generation w g (er_generation_epoch ep)) (\<lambda>ok.
        if ok then reap_epochs w g eps else returns (Some Reap_refused_or_failed)))"

definition release_leases :: "string \<Rightarrow> (operator, retire_blocker option) action" where
  "release_leases g =
     andthen (on_registry (reading (list_epochs (VStr g)))) (\<lambda>es s.
       case op_leases s of
         Some ls \<Rightarrow> (Inr None, s\<lparr>op_leases := Some (foldl (\<lambda>ls ep. release_epoch g (er_generation_epoch ep) ls) ls es)\<rparr>)
       | None \<Rightarrow>
           (Inr (if list_ex (\<lambda>ep. er_incarnation_meta ep \<notin> {None, Some []} \<or> er_retirement_state ep = ''certified'') es
                 then Some Lease_service_required else None), s))"

primrec resolve_epochs :: "epoch_record list \<Rightarrow> unit act" where
  "resolve_epochs [] = returns ()"
| "resolve_epochs (ep # eps) = andthen (resolve_confirmed (er_generation_epoch ep)) (\<lambda>_. resolve_epochs eps)"

definition ask_oracle :: "string \<Rightarrow> oracle_blocker list act" where
  "ask_oracle g = reading (\<lambda>d. store_oracle d g)"

text \<open>Phase three.\<close>

definition advance_lifecycle :: "string \<Rightarrow> string \<Rightarrow> string \<Rightarrow> unit act" where
  "advance_lifecycle g before after =
     andthen (reading (get_generation (VStr g))) (\<lambda>gen.
     if gr_lifecycle_state gen \<noteq> before then returns ()
     else andthen (reading (\<lambda>_. validate_transition before after)) (\<lambda>_.
          writing (set_generation_lifecycle_state (VStr g) (VStr after))))"

definition finalize :: "string \<Rightarrow> retire_reply act" where
  "finalize g =
     andthen (reading (get_generation (VStr g))) (\<lambda>gen.
     andthen (if gr_current_epoch gen \<noteq> None then writing (clear_current_epoch (VStr g)) else returns ()) (\<lambda>_.
     andthen (advance_lifecycle g ''active'' ''draining'') (\<lambda>_.
     andthen (advance_lifecycle g ''draining'' ''retiring'') (\<lambda>_.
     andthen (advance_lifecycle g ''retiring'' ''retired'') (\<lambda>_.
     andthen (reading (get_generation (VStr g))) (\<lambda>gen.
     returns (Retire_ok (gr_lifecycle_state gen))))))))"

definition stop_if :: "string \<Rightarrow> retire_blocker option \<Rightarrow> (operator, retire_reply) action \<Rightarrow> (operator, retire_reply) action" where
  "stop_if state b m = (case b of Some x \<Rightarrow> returns (Blocked state x) | None \<Rightarrow> m)"

definition retire_gates :: "op_world \<Rightarrow> string \<Rightarrow> string \<Rightarrow> (operator, retire_reply) action" where
  "retire_gates w g state =
     andthen (on_registry (andthen (reading (list_epochs (VStr g))) (reap_epochs w g))) (\<lambda>b. stop_if state b (
     andthen (release_leases g) (\<lambda>b. stop_if state b (
     andthen (on_registry (andthen (reading (list_epochs (VStr g))) resolve_epochs)) (\<lambda>_.
     andthen (on_registry (ask_oracle g)) (\<lambda>bs.
     if bs \<noteq> [] \<and> (HasCurrentEpoch \<notin> set bs \<or> filter (\<lambda>b. b \<noteq> HasCurrentEpoch) bs \<noteq> [])
     then returns (Blocked state (Oracle bs))
     else on_registry (finalize g)))))))"

definition retire :: "op_world \<Rightarrow> pyval \<Rightarrow> (operator, retire_reply) action" where
  "retire w generation_id =
     (case generation_id of
        VStr g \<Rightarrow>
          if g = [] then raises (NelixError INVALID_REQUEST)
          else andthen (catching (on_registry (reading (get_generation (VStr g))))
                          (\<lambda>x. raises (if x = NelixError UNKNOWN_SESSION then NelixError INVALID_REQUEST else x))) (\<lambda>gen.
            let state = gr_lifecycle_state gen in
            if state = ''retired'' then returns Already_retired
            else if state \<notin> {''retiring'', ''draining'', ''active''} then raises (NelixError INVALID_REQUEST)
            else andthen (on_registry (reading (list_epochs (VStr g)))) (\<lambda>es.
              if es = [] then raises (NelixError INVALID_REQUEST)
              else andthen (on_registry (generations_lock w)) (\<lambda>_.
                andthen (on_registry (certify_epochs w g (gr_current_epoch gen) es)) (\<lambda>b. stop_if state b (
                retire_gates w g state)))))
      | _ \<Rightarrow> raises (NelixError INVALID_REQUEST))"

end
