(* ===== verification/Nelix_Retire_Inv.thy ===== *)
theory Nelix_Retire_Inv
  imports Nelix_Operator Nelix_Registry_Props
begin

text \<open>
  Reasoning about retirement: which epochs the listings show, which of its parts only ask, and a
  contract for facts that certification keeps.
\<close>

section \<open>Sequences over the operator's state\<close>

lemma on_registry_Inr: "on_registry m s = (Inr x, s') \<longleftrightarrow> (\<exists>r. m (op_registry s) = (Inr x, r) \<and> s' = s\<lparr>op_registry := r\<rparr>)"
  by (auto simp: on_registry_def split: prod.split)

lemma on_registry_Inl: "on_registry m s = (Inl e, s') \<longleftrightarrow> (\<exists>r. m (op_registry s) = (Inl e, r) \<and> s' = s\<lparr>op_registry := r\<rparr>)"
  by (auto simp: on_registry_def split: prod.split)

lemma on_registry_preserves:
  "preserves P m \<Longrightarrow> preserves (\<lambda>s. P (op_registry s)) (on_registry m)"
  by (auto simp: preserves_def on_registry_def split: prod.split)

section \<open>The epochs a listing shows\<close>

definition readable :: "epoch_record \<Rightarrow> bool" where
  "readable r \<longleftrightarrow> er_certificate r \<noteq> Some [] \<and> er_incarnation_meta r \<noteq> Some [] \<and> (\<forall>n. er_final_high_water r = Some n \<longrightarrow> 0 \<le> n)"

lemma read_epochs: "read_rows (map (\<lambda>r. epoch_from_dict (VDict (epoch_to_dict r))) rs) = Inr (filter readable rs)"
  by (induction rs) (auto simp: epoch_from_to_dict readable_def not_le decode_stored_def split: if_splits)

lemma list_epochs_eq: "g \<noteq> [] \<Longrightarrow> list_epochs (VStr g) d = Inr (filter readable (epochs_of g d))"
  by (simp add: list_epochs_def read_epochs nonempty_text_def)

lemma list_epochs_Inr: "list_epochs (VStr g) d = Inr es \<longleftrightarrow> g \<noteq> [] \<and> es = filter readable (epochs_of g d)"
  by (cases "g = []") (auto simp: list_epochs_def nonempty_text_def read_epochs)

lemma epochs_of_mem:
  assumes ok: "db_ok d"
  shows "x \<in> set (epochs_of g d) \<longleftrightarrow> map_of (db_epochs d) (er_generation_epoch x) = Some x \<and> er_generation_id x = g"
proof -
  have de: "dict_ok (db_epochs d)" using db_okD(5) [OF ok] by (simp add: epochs_ok_def)
  show ?thesis
  proof
    assume "x \<in> set (epochs_of g d)"
    then obtain k where k: "map_of (db_epochs d) k = Some x" and g: "er_generation_id x = g"
      by (auto simp: epochs_of_def dict_set_conv [OF de])
    then show "map_of (db_epochs d) (er_generation_epoch x) = Some x \<and> er_generation_id x = g"
      using epoch_row_ok(1) [OF ok k] by simp
  next
    assume "map_of (db_epochs d) (er_generation_epoch x) = Some x \<and> er_generation_id x = g"
    then show "x \<in> set (epochs_of g d)" by (auto simp: epochs_of_def dest: map_of_SomeD intro: image_eqI [of _ snd "(_, x)"])
  qed
qed

lemma find_unique:
  assumes "x \<in> set xs" "P x" and unique: "\<And>y. y \<in> set xs \<Longrightarrow> P y \<Longrightarrow> y = x"
  shows "find P xs = Some x"
proof -
  obtain y where y: "find P xs = Some y" using assms(1,2) by (cases "find P xs") (auto simp: find_None_iff)
  then have "y \<in> set xs" "P y" by (auto simp: find_Some_iff)
  then show ?thesis using y unique by simp
qed

text \<open>The strict listing finds the epoch's own row.\<close>

lemma find_epoch:
  assumes ok: "db_ok d" and es: "list_epochs_strict (VStr g) d = Inr es" and x: "map_of (db_epochs d) e = Some x" "er_generation_id x = g"
  shows "find (\<lambda>y. er_generation_epoch y = e) es = Some x"
proof -
  have e: "er_generation_epoch x = e" by (rule epoch_row_ok(1) [OF ok x(1)])
  have es': "es = epochs_of g d" using es decode_epochs by (auto simp: list_epochs_strict_def)
  have "x \<in> set es" unfolding es' by (simp add: epochs_of_mem [OF ok] x e)
  moreover have "y = x" if "y \<in> set es" "er_generation_epoch y = e" for y
    using that epochs_of_mem [OF ok, of y g] x(1) unfolding es' by simp
  ultimately show ?thesis using e by (intro find_unique)
qed

section \<open>What only asks\<close>

lemma asks_kill_group: "asks (kill_child_group w pg)"
  unfolding kill_child_group_def by (intro asks_andthen asks_plain | split kill_result.split | intro conjI impI)+

lemma asks_reap_child: "asks (reap_child w sid)"
  unfolding reap_child_def
  by (intro asks_andthen asks_plain asks_kill_group | split child_file.split sum.split prod.split if_split | intro conjI allI impI)+

lemma asks_reap_children: "asks (reap_children w rows)"
  by (induction rows) (simp_all add: asks_plain,
    (intro asks_andthen asks_plain asks_reap_child | split option.split | intro conjI allI impI | assumption)+)

lemma asks_catch:
  assumes "asks m" "\<And>e. asks (h e)"
  shows "asks (catching m h)"
  unfolding asks_def
proof
  fix r
  show "same_registry r (snd (catching m h r))"
    using assms unfolding asks_def catching_def
    by (auto split: prod.split sum.split) (metis same_registry_trans snd_conv)+
qed

lemma asks_reap_recorded: "asks (reap_recorded w g meta)"
  unfolding reap_recorded_def Let_def prod.case
  by (intro asks_plain asks_reap_holder | split pyval.split | split if_split | intro conjI allI impI)+

lemma asks_reap_generation: "asks (reap_generation w g e)"
  unfolding reap_generation_def
  by (intro asks_catch asks_andthen asks_plain asks_reap_recorded | split option.split | intro conjI allI impI)+

lemma asks_reap_epochs: "asks (reap_epochs w g es)"
  by (induction es) (simp_all add: asks_plain,
    (intro asks_andthen asks_plain asks_reap_generation | split if_split | intro conjI allI impI | assumption)+)

section \<open>Facts certification keeps\<close>

locale certify_fact =
  fixes P :: "registry \<Rightarrow> bool"
  assumes time: "P r \<Longrightarrow> rg_now r \<le> n \<Longrightarrow> P (r\<lparr>rg_now := n\<rparr>)"
    and retirement: "P r \<Longrightarrow> set_epoch_retirement e st c f (rg_db r) = Inr (d, u) \<Longrightarrow> P (r\<lparr>rg_db := d\<rparr>)"
    and terminal: "P r \<Longrightarrow> put_terminal sid k sm ended now (rg_db r) = Inr (d, u) \<Longrightarrow> P (r\<lparr>rg_db := d\<rparr>)"
    and watermark: "P r \<Longrightarrow> set_generation_confirmed_high_water e' m (rg_db r) = (x, d) \<Longrightarrow> P (r\<lparr>rg_db := d\<rparr>)"
begin

lemma keeps_probe: "preserves P (probe f)"
  using time by (simp add: preserves_def probe_def)

lemma keeps_retirement: "preserves P (writing (set_epoch_retirement e st c f))"
  using retirement by (auto simp: preserves_def writing_def split: sum.split)

lemma keeps_terminal: "preserves P (writing (put_terminal sid k sm ended now))"
  using terminal by (auto simp: preserves_def writing_def split: sum.split)

lemmas keeps_basic = keeps_probe keeps_retirement keeps_terminal inv_intros

lemma keeps_resolve: "preserves P (resolve_confirmed e)"
  using watermark unfolding preserves_def resolve_confirmed_def
  by (auto simp: Let_def split: sum.split prod.split)

lemma keeps_kill_group: "preserves P (kill_child_group w pg)"
  unfolding kill_child_group_def by (intro keeps_basic | split kill_result.split | intro conjI impI)+

lemma keeps_reap_child: "preserves P (reap_child w sid)"
  unfolding reap_child_def
  by (intro keeps_basic keeps_kill_group | split child_file.split sum.split prod.split if_split | intro conjI allI impI)+

lemma keeps_reap_children: "preserves P (reap_children w rows)"
  by (induction rows) (simp_all,
    (intro keeps_basic keeps_reap_child | split option.split | intro conjI allI impI | assumption)+)

lemma keeps_lose_sessions: "preserves P (lose_sessions w rows)"
  by (induction rows) (simp_all, (intro keeps_basic | split if_split | intro conjI impI | assumption)+)

lemma keeps_crash: "preserves P (crash_reconcile_epoch w g e)"
  unfolding crash_reconcile_epoch_def starts_or_blocked_def
  by (intro keeps_basic keeps_reap_children keeps_lose_sessions
    | split option.split sum.split if_split | intro conjI allI impI)+

lemma keeps_rpc:
  assumes "\<And>r v y d. P r \<Longrightarrow> h v (rg_db r) = (y, d) \<Longrightarrow> P (r\<lparr>rg_db := d\<rparr>)"
  shows "preserves P (daemon_rpc w g h)"
  unfolding preserves_def
proof (intro allI impI)
  fix r assume r: "P r"
  have d: "P (r\<lparr>rg_db := d, rg_now := Suc (rg_now r)\<rparr>)" if "h v (rg_db r) = (y, d)" for v y d
    using time [OF assms [OF r that], of "Suc (rg_now r)"] by simp
  show "P (snd (daemon_rpc w g h r))"
    using r d time by (auto simp: daemon_rpc_def Let_def split: option.split prod.split rpc_fate.split)
qed

lemma keeps_handlers:
  "P r \<Longrightarrow> begin_quiescence v (rg_db r) = (y, d) \<Longrightarrow> P (r\<lparr>rg_db := d\<rparr>)"
  "P r \<Longrightarrow> quiescence_status v (rg_db r) = (y', d) \<Longrightarrow> P (r\<lparr>rg_db := d\<rparr>)"
  "P r \<Longrightarrow> certify_epoch e c v (rg_db r) = (y'', d) \<Longrightarrow> P (r\<lparr>rg_db := d\<rparr>)"
  using retirement
  by (auto simp: begin_quiescence_def quiescence_status_def certify_epoch_def split: sum.splits if_splits)

lemma keeps_certify_current: "preserves P (certify_current w g ep)"
  unfolding certify_current_def Let_def
  by (intro keeps_basic keeps_resolve keeps_rpc [OF keeps_handlers(1)] keeps_rpc [OF keeps_handlers(2)] keeps_rpc [OF keeps_handlers(3)]
    | split if_split | intro conjI impI | assumption)+

lemma keeps_certify_one: "preserves P (certify_one w g cur ep)"
  unfolding certify_one_def
  by (intro keeps_basic keeps_crash keeps_certify_current | split if_split | intro conjI impI)+

lemma keeps_certify_epochs: "preserves P (certify_epochs w g cur es)"
  by (induction es) (simp_all,
    (intro keeps_basic keeps_certify_one | split option.split | intro conjI allI impI | assumption)+)

end

end
