(* ===== verification/Nelix_Retire_Props.thy ===== *)
theory Nelix_Retire_Props
  imports Nelix_Retire_Inv
begin

text \<open>
  What retirement promises, and where it cannot succeed: a generation that is retired earned it,
  the watermark is the run of persisted outcomes, and neither a generation that once failed to
  spawn nor one that another has replaced can be retired.
\<close>

section \<open>What certification keeps\<close>

text \<open>Generations, the router's own generation and the facts that an epoch is born with stay.\<close>

definition epoch_facts :: "db \<Rightarrow> string \<Rightarrow> (string \<times> string option \<times> string) option" where
  "epoch_facts d e = map_option (\<lambda>x. (er_process_state x, er_incarnation_meta x, er_generation_id x)) (map_of (db_epochs d) e)"

definition same_outline :: "registry \<Rightarrow> registry \<Rightarrow> bool" where
  "same_outline r s \<longleftrightarrow> db_generations (rg_db s) = db_generations (rg_db r) \<and> rg_active s = rg_active r \<and>
     epoch_facts (rg_db s) = epoch_facts (rg_db r)"

lemma put_terminal_frame:
  "put_terminal sid k sm ended now d = Inr (d', u) \<Longrightarrow> db_generations d' = db_generations d \<and> db_epochs d' = db_epochs d"
  by (erule put_terminal_cases) (auto simp: bump_board_seq_def)

lemma retirement_frame:
  "set_epoch_retirement e st c f d = Inr (d', u) \<Longrightarrow> db_generations d' = db_generations d \<and> epoch_facts d' = epoch_facts d"
  by (erule set_epoch_retirement_cases) (auto simp: epoch_facts_def fun_eq_iff)

interpretation outline: certify_fact "same_outline r0" for r0
proof
  fix r e' m x d
  assume "same_outline r0 r" "set_generation_confirmed_high_water e' m (rg_db r) = (x, d)"
  then show "same_outline r0 (r\<lparr>rg_db := d\<rparr>)"
    using confirm_other_tables(4,5) [of e' m "rg_db r"] by (simp add: same_outline_def epoch_facts_def fun_eq_iff)
qed (auto simp: same_outline_def epoch_facts_def fun_eq_iff dest!: put_terminal_frame retirement_frame)

interpretation sound: certify_fact "\<lambda>r. db_ok (rg_db r)"
proof
  fix r e' m x d
  assume "db_ok (rg_db r)" "set_generation_confirmed_high_water e' m (rg_db r) = (x, d)"
  then show "db_ok (rg_db (r\<lparr>rg_db := d\<rparr>))" using confirm_ok [of "rg_db r" e' m] by simp
qed (auto intro: set_epoch_retirement_ok put_terminal_ok)

interpretation clock: certify_fact "\<lambda>r. n0 \<le> rg_now r" for n0
  by unfold_locales simp_all

section \<open>The watermark\<close>

lemma contiguous_greatest:
  "hw \<le> contiguous hw seqs \<and> {hw + 1..contiguous hw seqs} \<subseteq> set seqs \<and> contiguous hw seqs + 1 \<notin> set seqs"
proof (induction hw seqs rule: contiguous.induct)
  case (1 hw seqs)
  show ?case
  proof (cases "hw + 1 \<in> set seqs")
    case True
    then have eq: "contiguous hw seqs = contiguous (hw + 1) seqs" by (subst contiguous.simps) simp
    have "{hw + 1..contiguous (hw + 1) seqs} \<subseteq> insert (hw + 1) {hw + 1 + 1..contiguous (hw + 1) seqs}" by auto
    then show ?thesis using 1 [OF True] True unfolding eq by auto
  next
    case False
    then have "contiguous hw seqs = hw" by (subst contiguous.simps) simp
    then show ?thesis using False by simp
  qed
qed

text \<open>
  C15: the confirmed watermark of an epoch is what it says. When resolving an epoch returns, it
  answers true, and the watermark is the larger of what it was and the greatest number up to which
  every terminal sequence number is persisted: one missing number below (a start whose outcome was
  deleted again) stops it there for good, whatever was published after it. Nothing else changes.
\<close>

theorem resolve_confirms_prefix:
  assumes ok: "db_ok (rg_db r)" and a: "resolve_confirmed e r = (Inr success, r')"
  shows "\<exists>ts H. list_terminal_for_epoch e (rg_db r) = Inr ts \<and> 0 \<le> H \<and>
    {1..H} \<subseteq> tr_terminal_seq ` set ts \<and> H + 1 \<notin> tr_terminal_seq ` set ts \<and> success \<and>
    pr_confirmed_high_water (progress_of (rg_db r') e) = max (pr_confirmed_high_water (progress_of (rg_db r) e)) H \<and>
    (\<forall>x. x \<noteq> e \<longrightarrow> progress_of (rg_db r') x = progress_of (rg_db r) x) \<and>
    db_terminal (rg_db r') = db_terminal (rg_db r) \<and> same_outline r r'"
proof -
  obtain ts where ts: "list_terminal_for_epoch e (rg_db r) = Inr ts"
    using a by (auto simp: resolve_confirmed_def split: sum.splits)
  let ?H = "contiguous 0 (map tr_terminal_seq ts)"
  note g = contiguous_greatest [of 0 "map tr_terminal_seq ts"]
  have p0: "0 \<le> pr_confirmed_high_water (progress_of (rg_db r) e)" by (rule progress_of_ok(2) [OF db_okD(4) [OF ok]])
  have o: "same_outline r r'"
    using preservesD [OF outline.keeps_resolve [of r e] _ a] by (simp add: same_outline_def)
  have "success \<and> pr_confirmed_high_water (progress_of (rg_db r') e) = max (pr_confirmed_high_water (progress_of (rg_db r) e)) ?H \<and>
      (\<forall>x. x \<noteq> e \<longrightarrow> progress_of (rg_db r') x = progress_of (rg_db r) x) \<and> db_terminal (rg_db r') = db_terminal (rg_db r)"
  proof (cases "ts = [] \<or> ?H = 0")
    case True
    have "contiguous 0 [] = 0" by (subst contiguous.simps) simp
    then have "?H = 0" using True by auto
    then show ?thesis using a ts True p0 by (auto simp: resolve_confirmed_def Let_def split: if_splits)
  next
    case False
    then have pos: "?H > 0" "ts \<noteq> []" using g by auto
    let ?c = "set_generation_confirmed_high_water (VStr e) (VInt ?H) (rg_db r)"
    have eq: "resolve_confirmed e r = (case ?c of (Inl x, d) \<Rightarrow> (Inl TypeError, r\<lparr>rg_db := d\<rparr>) | (Inr _, d) \<Rightarrow> (Inr True, r\<lparr>rg_db := d\<rparr>))"
      using pos by (simp add: resolve_confirmed_def ts Let_def)
    have c: "fst ?c = Inr ()" "r' = r\<lparr>rg_db := snd ?c\<rparr>" "success"
      using a unfolding eq by (auto split: prod.splits sum.splits)
    then have "bindable (VInt ?H)" "e \<noteq> []"
      by (auto simp: set_generation_confirmed_high_water_def Let_def nonempty_text_def split: sum.splits if_splits)
    then show ?thesis using c pos by (simp add: confirm_progress nonempty_text_def count_field_def)
  qed
  then show ?thesis using ts g o by (intro exI [of _ ts] exI [of _ ?H]) auto
qed

section \<open>The gates\<close>

lemma get_generation_row: "get_generation (VStr g) d = Inr gen \<Longrightarrow> map_of (db_generations d) g = Some gen"
  by (auto simp: get_generation_def decode_stored_def generation_from_to_dict split: option.splits if_splits)

lemma epochs_blockers_current: "epochs_blockers hw es = Inr bs \<Longrightarrow> HasCurrentEpoch \<notin> set bs"
  by (induction es arbitrary: bs) (auto simp: epoch_blockers_def split: if_splits)

definition open_gate :: "oracle_blocker list \<Rightarrow> bool" where
  "open_gate bs \<longleftrightarrow> \<not> (bs \<noteq> [] \<and> (HasCurrentEpoch \<notin> set bs \<or> filter (\<lambda>b. b \<noteq> HasCurrentEpoch) bs \<noteq> []))"

lemma oracle_open:
  assumes o: "store_oracle d g = Inr bs" and c: "open_gate bs"
  shows "g \<noteq> []" "filter readable (epochs_of g d) \<noteq> []"
    "ep \<in> set (filter readable (epochs_of g d)) \<Longrightarrow>
       er_retirement_state ep = ''certified'' \<and>
       final_or_zero (er_final_high_water ep) \<le> pr_confirmed_high_water (progress_of d (er_generation_epoch ep))"
proof -
  obtain gen es where gen: "get_generation (VStr g) d = Inr gen" and es: "list_epochs (VStr g) d = Inr es"
    and rest: "(let cur = (if gr_current_epoch gen \<noteq> None then [HasCurrentEpoch] else []) in
       if es = [] then Inr (cur @ [NoEpochs])
       else rbind (epochs_blockers (\<lambda>e. get_generation_confirmed_high_water (VStr e) d) es) (\<lambda>bs. Inr (cur @ bs))) = Inr bs"
    using o by (auto simp: store_oracle_def generation_retirement_oracle_blockers_def)
  show "g \<noteq> []" using es by (simp add: list_epochs_Inr)
  have eq: "es = filter readable (epochs_of g d)" using es by (simp add: list_epochs_Inr)
  have ne: "es \<noteq> []" using rest c by (auto simp: open_gate_def Let_def split: if_splits)
  then show "filter readable (epochs_of g d) \<noteq> []" unfolding eq .
  obtain bs' where b: "epochs_blockers (\<lambda>e. get_generation_confirmed_high_water (VStr e) d) es = Inr bs'"
    and bs: "bs = (if gr_current_epoch gen \<noteq> None then [HasCurrentEpoch] else []) @ bs'" using rest ne by (auto simp: Let_def)
  have "bs' = []" using epochs_blockers_current [OF b] c unfolding bs open_gate_def
    by (cases bs') (auto split: if_splits)
  then have clear: "\<forall>ep\<in>set es. epoch_clear (\<lambda>e. get_generation_confirmed_high_water (VStr e) d) ep"
    using b epochs_blockers_Nil_iff by simp
  show "er_retirement_state ep = ''certified'' \<and>
       final_or_zero (er_final_high_water ep) \<le> pr_confirmed_high_water (progress_of d (er_generation_epoch ep))"
    if "ep \<in> set (filter readable (epochs_of g d))"
    using clear that unfolding eq [symmetric]
    by (auto simp: epoch_clear_def get_generation_confirmed_high_water_def nonempty_text_def split: if_splits)
qed

text \<open>The last phase rewrites one generation row.\<close>

definition regen :: "string \<Rightarrow> generation_record \<Rightarrow> registry \<Rightarrow> registry \<Rightarrow> bool" where
  "regen g gen r r' \<longleftrightarrow> (\<exists>gens. r' = r\<lparr>rg_db := (rg_db r)\<lparr>db_generations := gens\<rparr>\<rparr> \<and>
     map_of gens = (map_of (db_generations (rg_db r)))(g \<mapsto> gen))"

lemma regen_trans: "regen g a r s \<Longrightarrow> regen g b s t \<Longrightarrow> regen g b r t"
  unfolding regen_def by fastforce

lemma regen_row: "regen g a r s \<Longrightarrow> map_of (db_generations (rg_db s)) g = Some a"
  by (auto simp: regen_def)

lemma regen_same: "map_of (db_generations (rg_db r)) g = Some gen \<Longrightarrow> regen g gen r r"
  unfolding regen_def by (intro exI [of _ "db_generations (rg_db r)"]) (auto simp: fun_upd_idem)

lemma regen_put:
  "map_of (db_generations (rg_db r)) g = Some gen \<Longrightarrow>
   regen g gen' r (r\<lparr>rg_db := (rg_db r)\<lparr>db_generations := AList.update g gen' (db_generations (rg_db r))\<rparr>\<rparr>)"
  unfolding regen_def by (intro exI conjI, rule refl) (simp add: update_conv')

lemma advance_regen:
  assumes gen: "map_of (db_generations (rg_db r)) g = Some gen" and a: "advance_lifecycle g before after r = (Inr u, r')"
  shows "regen g (if gr_lifecycle_state gen = before then gen\<lparr>gr_lifecycle_state := after\<rparr> else gen) r r'"
proof -
  have "get_generation (VStr g) (rg_db r) = Inr gen"
    using a gen get_generation_row by (fastforce simp: advance_lifecycle_def andthen_Inr)
  then show ?thesis
    using a gen regen_same [OF gen] regen_put [OF gen]
    by (auto simp: advance_lifecycle_def andthen_Inr writing_Inr set_generation_lifecycle_state_def update_generation_def
        nonempty_text_def split: if_splits)
qed

lemma finalize_regen:
  assumes f: "finalize g r = (Inr (Retire_ok st), r')"
  obtains gen where "map_of (db_generations (rg_db r)) g = Some gen"
    "regen g (gen\<lparr>gr_current_epoch := None, gr_lifecycle_state := st\<rparr>) r r'"
    "gr_lifecycle_state gen \<in> {''active'', ''draining'', ''retiring''} \<Longrightarrow> st = ''retired''"
proof -
  obtain gen r1 r2 r3 gen' where gen: "get_generation (VStr g) (rg_db r) = Inr gen"
    and c: "(if gr_current_epoch gen \<noteq> None then writing (clear_current_epoch (VStr g)) else returns ()) r = (Inr (), r1)"
    and a1: "advance_lifecycle g ''active'' ''draining'' r1 = (Inr (), r2)"
    and a2: "advance_lifecycle g ''draining'' ''retiring'' r2 = (Inr (), r3)"
    and a3: "advance_lifecycle g ''retiring'' ''retired'' r3 = (Inr (), r')"
    and gen': "get_generation (VStr g) (rg_db r') = Inr gen'" "st = gr_lifecycle_state gen'"
    using f by (auto simp: finalize_def andthen_Inr)
  note row = get_generation_row [OF gen]
  have c1: "regen g (gen\<lparr>gr_current_epoch := None\<rparr>) r r1"
  proof (cases "gr_current_epoch gen")
    case None
    then have eq: "gen\<lparr>gr_current_epoch := None\<rparr> = gen" by simp
    show ?thesis unfolding eq using c None regen_same [OF row] by simp
  next
    case (Some e)
    then show ?thesis using c row regen_put [OF row]
      by (auto simp: writing_Inr clear_current_epoch_def update_generation_def nonempty_text_def split: if_splits)
  qed
  note s1 = advance_regen [OF regen_row [OF c1] a1]
  note s2 = advance_regen [OF regen_row [OF s1] a2]
  note s3 = advance_regen [OF regen_row [OF s2] a3]
  have fin: "regen g gen' r r'"
    using regen_trans [OF c1 regen_trans [OF s1 regen_trans [OF s2 s3]]] regen_row [OF s3] get_generation_row [OF gen'(1)] by simp
  show thesis
  proof (rule that [OF row])
    have e: "gen' = gen\<lparr>gr_current_epoch := None, gr_lifecycle_state := st\<rparr>"
      using regen_row [OF s3] get_generation_row [OF gen'(1)] gen'(2) by (auto split: if_splits)
    show "regen g (gen\<lparr>gr_current_epoch := None, gr_lifecycle_state := st\<rparr>) r r'" using fin unfolding e .
    show "st = ''retired''" if "gr_lifecycle_state gen \<in> {''active'', ''draining'', ''retiring''}"
      using regen_row [OF s3] get_generation_row [OF gen'(1)] gen'(2) that by (auto split: if_splits)
  qed
qed

section \<open>A proof of death\<close>

definition proved_dead :: "op_world \<Rightarrow> nat \<Rightarrow> nat \<Rightarrow> epoch_record \<Rightarrow> bool" where
  "proved_dead w n0 n1 ep \<longleftrightarrow>
     (\<exists>m kv p n. er_incarnation_meta ep = Some m \<and> ow_json w m = Some (VDict kv) \<and> Nelix_Start.dict_get kv ''pid'' = VInt p \<and>
        n0 \<le> n \<and> n < n1 \<and> \<not> w_alive (ow_world w) n p)"

lemma proved_dead_mono: "proved_dead w n0 n1 ep \<Longrightarrow> m0 \<le> n0 \<Longrightarrow> n1 \<le> m1 \<Longrightarrow> proved_dead w m0 m1 ep"
  unfolding proved_dead_def by (meson le_trans less_le_trans)

lemma reap_holder_True:
  assumes "reap_holder w g inc r = (Inr True, r')"
  shows "\<exists>n. rg_now r \<le> n \<and> n < rg_now r' \<and> \<not> w_alive w n (in_pid inc)"
  using assms
  by (auto simp: reap_holder_def andthen_Inr live_eq reap_daemon_def split: if_splits option.splits
      intro: exI [of _ "rg_now r + 1"])

lemma reap_recorded_True:
  assumes "reap_recorded w g meta r = (Inr True, r')"
  shows "\<exists>kv p n. meta = VDict kv \<and> Nelix_Start.dict_get kv ''pid'' = VInt p \<and> rg_now r \<le> n \<and> n < rg_now r' \<and> \<not> w_alive w n p"
proof -
  obtain kv where m: "meta = VDict kv" using assms by (cases meta) (simp_all add: reap_recorded_def)
  let ?pid = "Nelix_Start.dict_get kv ''pid''" and ?fp = "Nelix_Start.dict_get kv ''start_fingerprint''"
  obtain p f where pf: "?pid = VInt p" "?fp = VStr f"
    using assms unfolding m by (cases ?pid; cases ?fp) (simp_all add: reap_recorded_def Let_def split: if_splits)
  then have "reap_holder w g \<lparr>in_pid = p, in_fingerprint = Some f\<rparr> r = (Inr True, r')"
    using assms unfolding m by (auto simp: reap_recorded_def Let_def split: if_splits)
  from reap_holder_True [OF this] show ?thesis using m pf by auto
qed

lemma reap_generation_True:
  assumes ok: "db_ok (rg_db r)" and ep: "map_of (db_epochs (rg_db r)) e = Some ep" "er_generation_id ep = g"
    and a: "reap_generation w g e r = (Inr True, r')"
  shows "proved_dead w (rg_now r) (rg_now r') ep"
proof -
  obtain gen es where gen: "get_generation (VStr g) (rg_db r) = Inr gen" and es: "list_epochs_strict (VStr g) (rg_db r) = Inr es"
    and rest: "(case find (\<lambda>x. er_generation_epoch x = e \<and> er_incarnation_meta x \<notin> {None, Some []}) es of
          None \<Rightarrow> returns False
        | Some x \<Rightarrow>
            (case ow_json w (the (er_incarnation_meta x)) of
               None \<Rightarrow> raises ValueError
             | Some meta \<Rightarrow> andthen (GenerationSupervisor g) (\<lambda>_. reap_recorded (ow_world w) g meta))) r = (Inr True, r')"
    using a by (auto simp: reap_generation_def catching_Inr andthen_Inr)
  obtain x where x: "find (\<lambda>x. er_generation_epoch x = e \<and> er_incarnation_meta x \<notin> {None, Some []}) es = Some x"
    using rest by (cases "find (\<lambda>x. er_generation_epoch x = e \<and> er_incarnation_meta x \<notin> {None, Some []}) es") auto
  then have xm: "x \<in> set es" "er_generation_epoch x = e" "er_incarnation_meta x \<notin> {None, Some []}" by (auto simp: find_Some_iff)
  then have xe: "x = ep" using list_epochs_strict_mem [OF ok es xm(1)] ep(1) by simp
  obtain meta where meta: "ow_json w (the (er_incarnation_meta ep)) = Some meta"
    and rr: "andthen (GenerationSupervisor g) (\<lambda>_. reap_recorded (ow_world w) g meta) r = (Inr True, r')"
    using rest x unfolding xe by (auto split: option.splits)
  have "reap_recorded (ow_world w) g meta r = (Inr True, r')"
    using rr by (auto simp: andthen_Inr GenerationSupervisor_def split: sum.splits)
  from reap_recorded_True [OF this] meta xm(3) show ?thesis unfolding xe proved_dead_def by auto
qed

lemma reap_epochs_None:
  assumes "db_ok (rg_db r)" "reap_epochs w g es r = (Inr None, r')"
    and "\<And>ep. ep \<in> set es \<Longrightarrow> map_of (db_epochs (rg_db r)) (er_generation_epoch ep) = Some ep \<and> er_generation_id ep = g"
    and "ep \<in> set es" "er_process_state ep \<noteq> ''dead''" "er_incarnation_meta ep \<notin> {None, Some []}"
  shows "proved_dead w (rg_now r) (rg_now r') ep"
  using assms
proof (induction es arbitrary: r)
  case (Cons y es)
  show ?case
  proof (cases "er_incarnation_meta y \<in> {None, Some []} \<or> er_process_state y = ''dead''")
    case True
    then show ?thesis using Cons.prems Cons.IH [of r] by auto
  next
    case False
    then obtain r1 where r1: "reap_generation w g (er_generation_epoch y) r = (Inr True, r1)"
      and rest: "reap_epochs w g es r1 = (Inr None, r')"
      using Cons.prems(2) by (auto simp: andthen_Inr split: if_splits)
    have s: "rg_db r1 = rg_db r" "rg_now r \<le> rg_now r1" "rg_now r1 \<le> rg_now r'"
      using asksD [OF asks_reap_generation r1] asksD [OF asks_reap_epochs rest] by (simp_all add: same_registry_def)
    show ?thesis
    proof (cases "ep = y")
      case True
      have "map_of (db_epochs (rg_db r)) (er_generation_epoch ep) = Some ep" "er_generation_id ep = g"
        using Cons.prems(3,4) by blast+
      from reap_generation_True [OF Cons.prems(1) this r1 [folded True]] show ?thesis using proved_dead_mono s(3) by blast
    next
      case False
      then have "ep \<in> set es" using Cons.prems(4) by simp
      from Cons.IH [OF _ rest _ this Cons.prems(5,6)] Cons.prems(1,3) s(1)
      have "proved_dead w (rg_now r1) (rg_now r') ep" by simp
      then show ?thesis using proved_dead_mono s(2) by blast
    qed
  qed
qed simp

section \<open>Leases\<close>

definition no_tokens :: "lease_service \<Rightarrow> string \<times> string \<Rightarrow> bool" where
  "no_tokens ls k \<longleftrightarrow> (case map_of (ls_epochs ls) k of None \<Rightarrow> True | Some es \<Rightarrow> es_tokens es = [])"

lemma release_all_epochs: "ls_epochs (snd (release_all ps st)) = ls_epochs (snd st)"
  by (induction ps arbitrary: st) (simp_all add: ls_bump_def)

lemma release_epoch_no_tokens: "no_tokens (release_epoch g e ls) k \<longleftrightarrow> k = (g, e) \<or> no_tokens ls k"
proof (cases "map_of (ls_epochs ls) (g, e)")
  case None
  then show ?thesis by (auto simp: release_epoch_def no_tokens_def)
next
  case (Some es)
  obtain es' ls' where r: "release_all (es_tokens es) (es, ls) = (es', ls')" by fastforce
  then have "ls_epochs ls' = ls_epochs ls" using release_all_epochs [of "es_tokens es" "(es, ls)"] by simp
  then show ?thesis using Some r by (auto simp: release_epoch_def no_tokens_def put_epoch_def update_conv')
qed

lemma release_epochs_no_tokens:
  "no_tokens (foldl (\<lambda>ls ep. release_epoch g (er_generation_epoch ep) ls) ls es) k \<longleftrightarrow>
     (\<exists>ep\<in>set es. k = (g, er_generation_epoch ep)) \<or> no_tokens ls k"
  by (induction es arbitrary: ls) (auto simp: release_epoch_no_tokens)

section \<open>Retirement is earned\<close>

definition only_progress :: "registry \<Rightarrow> registry \<Rightarrow> bool" where
  "only_progress r r' \<longleftrightarrow> rg_now r' = rg_now r \<and> rg_active r' = rg_active r \<and>
     db_epochs (rg_db r') = db_epochs (rg_db r) \<and> db_generations (rg_db r') = db_generations (rg_db r)"

lemma confirm_frame:
  "set_generation_confirmed_high_water e m d = (x, d') \<Longrightarrow> db_epochs d' = db_epochs d \<and> db_generations d' = db_generations d"
  using confirm_other_tables(4,5) [of e m d] by simp

lemma resolve_only_progress: "resolve_confirmed e r = (x, r') \<Longrightarrow> only_progress r r'"
  by (auto simp: resolve_confirmed_def only_progress_def Let_def dest!: confirm_frame split: sum.splits prod.splits if_splits)

lemma resolve_epochs_only_progress: "resolve_epochs es r = (x, r') \<Longrightarrow> only_progress r r'"
proof (induction es arbitrary: r)
  case (Cons e es)
  show ?case
  proof (cases "resolve_confirmed (er_generation_epoch e) r")
    case (Pair y r1)
    then show ?thesis using Cons resolve_only_progress [OF Pair]
      by (cases y) (auto simp: andthen_def only_progress_def)
  qed
qed (simp add: only_progress_def returns_def)

lemma gates_Ok:
  assumes a: "retire_gates w g state s = (Inr (Retire_ok st), s')" and g: "g \<noteq> []"
  defines "es \<equiv> filter readable (epochs_of g (rg_db (op_registry s)))"
  obtains r1 r2 bs where "reap_epochs w g es (op_registry s) = (Inr None, r1)" "same_registry (op_registry s) r1"
    "only_progress r1 r2" "store_oracle (rg_db r2) g = Inr bs" "open_gate bs"
    "finalize g r2 = (Inr (Retire_ok st), op_registry s')"
    "op_leases s' = None \<longrightarrow> (\<forall>ep\<in>set es. er_retirement_state ep \<noteq> ''certified'')"
    "\<And>ls ep. op_leases s' = Some ls \<Longrightarrow> ep \<in> set es \<Longrightarrow> no_tokens ls (g, er_generation_epoch ep)"
proof -
  let ?r = "op_registry s"
  have es: "list_epochs (VStr g) (rg_db ?r) = Inr es" using g by (simp add: list_epochs_Inr es_def)
  obtain b s1 where reap: "on_registry (andthen (reading (list_epochs (VStr g))) (reap_epochs w g)) s = (Inr b, s1)"
    and rest: "stop_if state b (
       andthen (release_leases g) (\<lambda>b. stop_if state b (
       andthen (on_registry (andthen (reading (list_epochs (VStr g))) resolve_epochs)) (\<lambda>_.
       andthen (on_registry (ask_oracle g)) (\<lambda>bs.
       if bs \<noteq> [] \<and> (HasCurrentEpoch \<notin> set bs \<or> filter (\<lambda>b. b \<noteq> HasCurrentEpoch) bs \<noteq> [])
       then returns (Blocked state (Oracle bs))
       else on_registry (finalize g)))))) s1 = (Inr (Retire_ok st), s')"
    using a by (auto simp: retire_gates_def andthen_Inr)
  have b: "b = None" using rest by (cases b) (auto simp: stop_if_def)
  obtain r1 where r1: "reap_epochs w g es ?r = (Inr None, r1)" and s1: "s1 = s\<lparr>op_registry := r1\<rparr>"
    using reap b es by (auto simp: on_registry_Inr andthen_Inr)
  have same: "same_registry ?r r1" by (rule asksD [OF asks_reap_epochs r1])
  have es1: "list_epochs (VStr g) (rg_db r1) = Inr es" using es same by (simp add: same_registry_def)
  obtain b2 s2 where leases: "release_leases g s1 = (Inr b2, s2)"
    and rest2: "stop_if state b2 (
       andthen (on_registry (andthen (reading (list_epochs (VStr g))) resolve_epochs)) (\<lambda>_.
       andthen (on_registry (ask_oracle g)) (\<lambda>bs.
       if bs \<noteq> [] \<and> (HasCurrentEpoch \<notin> set bs \<or> filter (\<lambda>b. b \<noteq> HasCurrentEpoch) bs \<noteq> [])
       then returns (Blocked state (Oracle bs))
       else on_registry (finalize g)))) s2 = (Inr (Retire_ok st), s')"
    using rest b by (auto simp: stop_if_def andthen_Inr)
  have b2: "b2 = None" using rest2 by (cases b2) (auto simp: stop_if_def)
  have ls: "release_leases g s1 =
      (case op_leases s1 of
         Some ls \<Rightarrow> (Inr None, s1\<lparr>op_leases := Some (foldl (\<lambda>ls ep. release_epoch g (er_generation_epoch ep) ls) ls es)\<rparr>)
       | None \<Rightarrow>
           (Inr (if list_ex (\<lambda>ep. er_incarnation_meta ep \<notin> {None, Some []} \<or> er_retirement_state ep = ''certified'') es
                 then Some Lease_service_required else None), s1))"
    using es1 by (simp add: release_leases_def andthen_def on_registry_def reading_def s1 split: option.split)
  have s2: "op_registry s2 = r1"
    using leases s1 unfolding ls by (auto split: option.splits)
  have l1: "op_leases s2 = None \<longrightarrow> (\<forall>ep\<in>set es. er_retirement_state ep \<noteq> ''certified'')"
    using leases b2 unfolding ls by (auto simp: list_ex_iff split: option.splits if_splits)
  have l2: "no_tokens ls' (g, er_generation_epoch ep)" if "op_leases s2 = Some ls'" "ep \<in> set es" for ls' ep
    using leases that unfolding ls by (fastforce simp: release_epochs_no_tokens split: option.splits)
  obtain r2 where r2: "resolve_epochs es r1 = (Inr (), r2)"
    and rest3: "andthen (on_registry (ask_oracle g)) (\<lambda>bs.
       if bs \<noteq> [] \<and> (HasCurrentEpoch \<notin> set bs \<or> filter (\<lambda>b. b \<noteq> HasCurrentEpoch) bs \<noteq> [])
       then returns (Blocked state (Oracle bs))
       else on_registry (finalize g)) (s2\<lparr>op_registry := r2\<rparr>) = (Inr (Retire_ok st), s')"
    using rest2 b2 es1 s2 by (auto simp: stop_if_def andthen_Inr on_registry_Inr)
  obtain bs where bs: "store_oracle (rg_db r2) g = Inr bs"
    and rest4: "(if bs \<noteq> [] \<and> (HasCurrentEpoch \<notin> set bs \<or> filter (\<lambda>b. b \<noteq> HasCurrentEpoch) bs \<noteq> [])
       then returns (Blocked state (Oracle bs))
       else on_registry (finalize g)) (s2\<lparr>op_registry := r2\<rparr>) = (Inr (Retire_ok st), s')"
    using rest3 by (auto simp: andthen_Inr on_registry_Inr ask_oracle_def)
  have gate: "open_gate bs" using rest4 by (auto simp: open_gate_def split: if_splits)
  then have "on_registry (finalize g) (s2\<lparr>op_registry := r2\<rparr>) = (Inr (Retire_ok st), s')"
    using rest4 by (auto simp: open_gate_def split: if_splits)
  then obtain r3 where fin: "finalize g r2 = (Inr (Retire_ok st), r3)" and s': "s' = s2\<lparr>op_registry := r3\<rparr>"
    by (auto simp: on_registry_Inr)
  show thesis
    by (rule that [OF r1 same resolve_epochs_only_progress [OF r2] bs gate]) (use fin s' l1 l2 in auto)
qed

text \<open>How far a retirement gets: it stops before certifying, in it, or it reaches the gates.\<close>

lemma retire_stages:
  assumes a: "retire w (VStr g) s = (x, s')"
  obtains (early) "same_registry (op_registry s) (op_registry s')" "\<forall>st. x \<noteq> Inr (Retire_ok st)"
  | (certifying) cur es r1 y r2 where "g \<noteq> []" "list_epochs (VStr g) (rg_db (op_registry s)) = Inr es"
      "same_registry (op_registry s) r1" "certify_epochs w g cur es r1 = (y, r2)"
      "op_registry s' = r2" "\<forall>st. x \<noteq> Inr (Retire_ok st)"
  | (gates) gen es r1 r2 where "g \<noteq> []" "get_generation (VStr g) (rg_db (op_registry s)) = Inr gen"
      "gr_lifecycle_state gen \<in> {''retiring'', ''draining'', ''active''}"
      "list_epochs (VStr g) (rg_db (op_registry s)) = Inr es"
      "same_registry (op_registry s) r1" "certify_epochs w g (gr_current_epoch gen) es r1 = (Inr None, r2)"
      "retire_gates w g (gr_lifecycle_state gen) (s\<lparr>op_registry := r2\<rparr>) = (x, s')"
proof (cases "g = []")
  case True
  then show thesis using a by (intro early) (auto simp: retire_def raises_def)
next
  case g: False
  let ?r = "op_registry s"
  have same: "s\<lparr>op_registry := ?r\<rparr> = s" by simp
  show thesis
  proof (cases "get_generation (VStr g) (rg_db ?r)")
    case (Inl y)
    then show thesis using a g same
      by (intro early) (auto simp: retire_def andthen_def catching_def on_registry_def reading_def raises_def)
  next
    case (Inr gen)
    let ?st = "gr_lifecycle_state gen"
    let ?rest = "if ?st = ''retired'' then returns Already_retired
            else if ?st \<notin> {''retiring'', ''draining'', ''active''} then raises (NelixError INVALID_REQUEST)
            else andthen (on_registry (reading (list_epochs (VStr g)))) (\<lambda>es.
              if es = [] then raises (NelixError INVALID_REQUEST)
              else andthen (on_registry (generations_lock w)) (\<lambda>_.
                andthen (on_registry (certify_epochs w g (gr_current_epoch gen) es)) (\<lambda>b. stop_if ?st b (
                retire_gates w g ?st))))"
    have eq: "?rest s = (x, s')"
      using a g Inr same by (simp add: retire_def andthen_def catching_def on_registry_def reading_def Let_def del: insert_iff)
    show thesis
    proof (cases "?st = ''retired'' \<or> ?st \<notin> {''retiring'', ''draining'', ''active''} \<or> filter readable (epochs_of g (rg_db ?r)) = []")
      case True
      then show thesis using eq same list_epochs_eq [OF g]
        by (intro early) (auto simp: returns_def raises_def andthen_def on_registry_def reading_def split: if_splits)
    next
      case False
      let ?es = "filter readable (epochs_of g (rg_db ?r))"
      have es: "list_epochs (VStr g) (rg_db ?r) = Inr ?es" by (rule list_epochs_eq [OF g])
      have eq2: "andthen (on_registry (generations_lock w)) (\<lambda>_.
                andthen (on_registry (certify_epochs w g (gr_current_epoch gen) ?es)) (\<lambda>b. stop_if ?st b (
                retire_gates w g ?st))) s = (x, s')"
        using eq False same es by (auto simp: andthen_def on_registry_def reading_def split: if_splits)
      show thesis
      proof (cases "ow_lock_free w (rg_now ?r)")
        case False
        then show thesis using eq2
          by (intro early) (auto simp: generations_lock_def andthen_def on_registry_def probe_def raises_def same_registry_def)
      next
        case True
        let ?r1 = "?r\<lparr>rg_now := rg_now ?r + 1\<rparr>"
        have s1: "same_registry ?r ?r1" by (simp add: same_registry_def)
        obtain y r2 where c: "certify_epochs w g (gr_current_epoch gen) ?es ?r1 = (y, r2)" by fastforce
        have eq3: "(case y of Inl e \<Rightarrow> (Inl e, s\<lparr>op_registry := r2\<rparr>)
            | Inr b \<Rightarrow> stop_if ?st b (retire_gates w g ?st) (s\<lparr>op_registry := r2\<rparr>)) = (x, s')"
          using eq2 True c by (simp add: generations_lock_def andthen_def on_registry_def probe_def returns_def)
        show thesis
        proof (cases "y = Inr None")
          case True
          show thesis by (rule gates [OF g Inr _ es s1 c [unfolded True]]) (use False eq3 True in \<open>auto simp: stop_if_def\<close>)
        next
          case yn: False
          show thesis by (rule certifying [OF g es s1 c])
            (use yn eq3 in \<open>auto simp: stop_if_def returns_def split: sum.splits option.splits\<close>)
        qed
      qed
    qed
  qed
qed

lemma retire_Ok:
  assumes ok: "db_ok (rg_db (op_registry s))" and a: "retire w (VStr g) s = (Inr (Retire_ok st), s')"
  shows "st = ''retired'' \<and>
    (\<exists>gen. map_of (db_generations (rg_db (op_registry s'))) g = Some gen \<and> gr_lifecycle_state gen = ''retired'' \<and> gr_current_epoch gen = None) \<and>
    filter readable (epochs_of g (rg_db (op_registry s'))) \<noteq> [] \<and>
    (\<forall>ep\<in>set (filter readable (epochs_of g (rg_db (op_registry s')))).
       er_retirement_state ep = ''certified'' \<and>
       final_or_zero (er_final_high_water ep) \<le> pr_confirmed_high_water (progress_of (rg_db (op_registry s')) (er_generation_epoch ep)) \<and>
       (\<exists>ls. op_leases s' = Some ls \<and> no_tokens ls (g, er_generation_epoch ep)) \<and>
       (er_process_state ep = ''dead'' \<or> er_incarnation_meta ep = None \<or>
        proved_dead w (rg_now (op_registry s)) (rg_now (op_registry s')) ep))"
proof -
  let ?r = "op_registry s" and ?d' = "rg_db (op_registry s')"
  obtain gen es s1 r2 where g: "g \<noteq> []" and gen: "get_generation (VStr g) (rg_db ?r) = Inr gen"
    and state: "gr_lifecycle_state gen \<in> {''retiring'', ''draining'', ''active''}"
    and s1: "same_registry ?r s1" and c: "certify_epochs w g (gr_current_epoch gen) es s1 = (Inr None, r2)"
    and gates: "retire_gates w g (gr_lifecycle_state gen) (s\<lparr>op_registry := r2\<rparr>) = (Inr (Retire_ok st), s')"
    using a by (cases rule: retire_stages) auto
  have ok1: "db_ok (rg_db s1)" using ok s1 by (simp add: same_registry_def)
  have ok2: "db_ok (rg_db r2)" by (rule preservesD [OF sound.keeps_certify_epochs _ c]) (use ok1 in simp)
  have out: "same_outline s1 r2" by (rule preservesD [OF outline.keeps_certify_epochs _ c]) (simp add: same_outline_def)
  have le: "rg_now s1 \<le> rg_now r2"
    by (rule preservesD [OF clock.keeps_certify_epochs _ c]) simp
  have "\<exists>r1 r3 bs. reap_epochs w g (filter readable (epochs_of g (rg_db r2))) r2 = (Inr None, r1) \<and> same_registry r2 r1 \<and>
    only_progress r1 r3 \<and> store_oracle (rg_db r3) g = Inr bs \<and> open_gate bs \<and>
    finalize g r3 = (Inr (Retire_ok st), op_registry s') \<and>
    (op_leases s' = None \<longrightarrow> (\<forall>ep\<in>set (filter readable (epochs_of g (rg_db r2))). er_retirement_state ep \<noteq> ''certified'')) \<and>
    (\<forall>ls ep. op_leases s' = Some ls \<longrightarrow> ep \<in> set (filter readable (epochs_of g (rg_db r2))) \<longrightarrow> no_tokens ls (g, er_generation_epoch ep))"
    by (rule gates_Ok [OF gates g]) (simp, blast)
  then obtain r3 r4 bs where reap: "reap_epochs w g (filter readable (epochs_of g (rg_db r2))) r2 = (Inr None, r3)"
    and s3: "same_registry r2 r3" and s4: "only_progress r3 r4" and bs: "store_oracle (rg_db r4) g = Inr bs" "open_gate bs"
    and fin: "finalize g r4 = (Inr (Retire_ok st), op_registry s')"
    and l1: "op_leases s' = None \<longrightarrow> (\<forall>ep\<in>set (filter readable (epochs_of g (rg_db r2))). er_retirement_state ep \<noteq> ''certified'')"
    and l2: "\<forall>ls ep. op_leases s' = Some ls \<longrightarrow> ep \<in> set (filter readable (epochs_of g (rg_db r2))) \<longrightarrow> no_tokens ls (g, er_generation_epoch ep)"
    by (elim exE conjE) (rule that)
  obtain gen4 where gen4: "map_of (db_generations (rg_db r4)) g = Some gen4"
    and re: "regen g (gen4\<lparr>gr_current_epoch := None, gr_lifecycle_state := st\<rparr>) r4 (op_registry s')"
    and last: "gr_lifecycle_state gen4 \<in> {''active'', ''draining'', ''retiring''} \<Longrightarrow> st = ''retired''"
    using finalize_regen [OF fin] by blast
  have "db_generations (rg_db r4) = db_generations (rg_db ?r)" using s1 out s3 s4
    by (simp add: same_registry_def same_outline_def only_progress_def)
  then have "gen4 = gen" using gen4 get_generation_row [OF gen] by simp
  then have st: "st = ''retired''" using last state by auto
  have epochs: "db_epochs ?d' = db_epochs (rg_db r2)" and epochs4: "db_epochs (rg_db r4) = db_epochs (rg_db r2)"
    and progress: "db_progress ?d' = db_progress (rg_db r4)"
    using re s3 s4 by (auto simp: regen_def same_registry_def only_progress_def)
  have list: "epochs_of g ?d' = epochs_of g (rg_db r2)" "epochs_of g (rg_db r4) = epochs_of g (rg_db r2)"
    using epochs epochs4 by (simp_all add: epochs_of_def)
  have prog: "progress_of ?d' e = progress_of (rg_db r4) e" for e using progress by (simp add: progress_of_def)
  have now: "rg_now (op_registry s') = rg_now r3" using re s4 by (auto simp: regen_def only_progress_def)
  note clear = oracle_open [OF bs]
  have each: "er_retirement_state ep = ''certified'' \<and>
       final_or_zero (er_final_high_water ep) \<le> pr_confirmed_high_water (progress_of ?d' (er_generation_epoch ep)) \<and>
       (\<exists>ls. op_leases s' = Some ls \<and> no_tokens ls (g, er_generation_epoch ep)) \<and>
       (er_process_state ep = ''dead'' \<or> er_incarnation_meta ep = None \<or>
        proved_dead w (rg_now ?r) (rg_now (op_registry s')) ep)"
    if ep: "ep \<in> set (filter readable (epochs_of g ?d'))" for ep
  proof -
    have ep2: "ep \<in> set (filter readable (epochs_of g (rg_db r2)))" using ep list by simp
    have cert: "er_retirement_state ep = ''certified''"
      "final_or_zero (er_final_high_water ep) \<le> pr_confirmed_high_water (progress_of ?d' (er_generation_epoch ep))"
      using clear(3) [of ep] ep2 list prog by simp_all
    have lease: "\<exists>ls. op_leases s' = Some ls \<and> no_tokens ls (g, er_generation_epoch ep)"
      using l1 l2 ep2 cert(1) by (cases "op_leases s'") blast+
    have "proved_dead w (rg_now ?r) (rg_now (op_registry s')) ep"
      if "er_process_state ep \<noteq> ''dead''" "er_incarnation_meta ep \<noteq> None"
    proof -
      have "er_incarnation_meta ep \<notin> {None, Some []}" using that ep by (simp add: readable_def)
      from reap_epochs_None [OF ok2 reap _ ep2 that(1) this] epochs_of_mem [OF ok2]
      have "proved_dead w (rg_now r2) (rg_now r3) ep" by auto
      then show ?thesis by (rule proved_dead_mono) (use s1 le now in \<open>simp_all add: same_registry_def\<close>)
    qed
    then show ?thesis using cert lease by blast
  qed
  show ?thesis using st clear(2) list each regen_row [OF re] by auto
qed


section \<open>Epochs that cannot be certified\<close>

text \<open>An epoch whose row the store can read, in a fixed process state and with fixed metadata, not certified.\<close>

definition unfit :: "db \<Rightarrow> string \<Rightarrow> string \<Rightarrow> string \<Rightarrow> string option \<Rightarrow> bool" where
  "unfit d g e ps m \<longleftrightarrow>
     (\<exists>x. map_of (db_epochs d) e = Some x \<and> er_generation_id x = g \<and> readable x \<and> er_retirement_state x \<noteq> ''certified'' \<and>
        er_process_state x = ps \<and> er_incarnation_meta x = m)"

definition unreachable :: "string \<Rightarrow> registry \<Rightarrow> bool" where
  "unreachable g r \<longleftrightarrow> (case rg_active r of None \<Rightarrow> True | Some a \<Rightarrow> ag_generation_id a \<noteq> g)"

lemma unfit_shut: "db_ok d \<Longrightarrow> unfit d g e ps m \<Longrightarrow> store_oracle d g = Inr bs \<Longrightarrow> \<not> open_gate bs"
  using oracle_open(3) epochs_of_mem epoch_row_ok(1) by (fastforce simp: unfit_def)

lemma unfit_epochs: "db_epochs d' = db_epochs d \<Longrightarrow> unfit d g e ps m \<Longrightarrow> unfit d' g e ps m"
  by (simp add: unfit_def)

lemma unfit_retirement:
  assumes "unfit d g e ps m" "set_epoch_retirement (VStr e') st c f d = Inr (d', u)" "e' = e \<Longrightarrow> st \<noteq> VStr ''certified''"
  shows "unfit d' g e ps m"
  using assms(2)
proof (cases rule: set_epoch_retirement_cases)
  case (1 ep st' r fin)
  then show ?thesis using assms(1,3) by (auto simp: unfit_def readable_def update_conv')
qed

abbreviation keeps_unfit :: "string \<Rightarrow> string \<Rightarrow> string \<Rightarrow> string option \<Rightarrow> (registry, 'a) action \<Rightarrow> bool" where
  "keeps_unfit g e ps m \<equiv> preserves (\<lambda>r. unfit (rg_db r) g e ps m)"

lemma keeps_asks: "asks a \<Longrightarrow> keeps_unfit g e ps m a"
  by (auto simp: asks_def preserves_def same_registry_def)

lemma keeps_write: "(\<And>d d' u. t d = Inr (d', u) \<Longrightarrow> db_epochs d' = db_epochs d) \<Longrightarrow> keeps_unfit g e ps m (writing t)"
  by (auto simp: preserves_def writing_def split: sum.split intro: unfit_epochs)

lemma keeps_retire_write:
  "(e' = e \<Longrightarrow> st \<noteq> VStr ''certified'') \<Longrightarrow> keeps_unfit g e ps m (writing (set_epoch_retirement (VStr e') st c f))"
  by (auto simp: preserves_def writing_def split: sum.split dest: unfit_retirement)

lemma keeps_resolved: "keeps_unfit g e ps m (resolve_confirmed e')"
proof -
  have "only_progress r (snd (resolve_confirmed e' r))" for r
    by (rule resolve_only_progress [OF prod.collapse [symmetric]])
  then show ?thesis by (simp add: preserves_def only_progress_def unfit_def)
qed

lemma keeps_put_terminal: "keeps_unfit g e ps m (writing (put_terminal sid k sm ended now))"
  by (rule keeps_write) (use put_terminal_frame in blast)

lemma keeps_lose: "keeps_unfit g e ps m (lose_sessions w rows)"
  by (induction rows) (simp_all add: preserves_plain,
    (intro inv_intros keeps_asks [OF asks_plain(4)] keeps_put_terminal | split if_split | intro conjI impI | assumption)+)

lemma keeps_quiescing: "keeps_unfit g e ps m (if b then writing (set_epoch_retirement (VStr e') (VStr ''quiescing'') None VNone) else returns ())"
  by (cases b) (auto intro!: keeps_retire_write inv_intros)

lemma crash_other: "e' \<noteq> e \<Longrightarrow> keeps_unfit g e ps m (crash_reconcile_epoch w g' e')"
  unfolding crash_reconcile_epoch_def starts_or_blocked_def
  by (intro inv_intros keeps_asks [OF asks_plain(4)] keeps_quiescing keeps_retire_write keeps_lose keeps_asks [OF asks_reap_children]
    | split option.split sum.split if_split | intro conjI allI impI | simp)+

lemma rpc_unfit:
  assumes "\<And>v d y d'. unfit d g e ps m \<Longrightarrow> h v d = (y, d') \<Longrightarrow> unfit d' g e ps m"
  shows "keeps_unfit g e ps m (daemon_rpc w g' h)"
  using assms unfolding preserves_def daemon_rpc_def
  by (auto simp: Let_def split: option.split prod.split rpc_fate.split)

lemma handlers_unfit:
  "unfit d g e ps m \<Longrightarrow> begin_quiescence v d = (y, d') \<Longrightarrow> unfit d' g e ps m"
  "unfit d g e ps m \<Longrightarrow> quiescence_status v d = (q, d') \<Longrightarrow> unfit d' g e ps m"
  "unfit d g e ps m \<Longrightarrow> e' \<noteq> e \<Longrightarrow> certify_epoch e' c v d = (z, d') \<Longrightarrow> unfit d' g e ps m"
  by (auto simp: begin_quiescence_def quiescence_status_def certify_epoch_def split: sum.splits if_splits dest: unfit_retirement)

lemma current_other: "er_generation_epoch ep \<noteq> e \<Longrightarrow> keeps_unfit g e ps m (certify_current w g' ep)"
  unfolding certify_current_def Let_def
  by (intro inv_intros keeps_quiescing keeps_resolved rpc_unfit | erule (1) handlers_unfit(1) handlers_unfit(2) | erule (2) handlers_unfit(3)
    | split if_split | intro conjI impI)+

lemma one_other: "er_generation_epoch ep \<noteq> e \<Longrightarrow> keeps_unfit g e ps m (certify_one w g' cur ep)"
  unfolding certify_one_def
  by (intro inv_intros crash_other current_other | split if_split | intro conjI impI | assumption)+

lemma crash_stillborn:
  assumes ok: "db_ok (rg_db r)" and u: "unfit (rg_db r) g e ''dead'' None" and c: "crash_reconcile_epoch w g e r = (x, r')"
  shows "r' = r \<and> x \<noteq> Inr None"
proof (cases "list_epochs_strict (VStr g) (rg_db r)")
  case (Inl y)
  then show ?thesis using c by (auto simp: crash_reconcile_epoch_def andthen_def reading_def)
next
  case (Inr es)
  obtain z where z: "map_of (db_epochs (rg_db r)) e = Some z" "er_generation_id z = g" "er_process_state z = ''dead''" "er_incarnation_meta z = None"
    using u by (auto simp: unfit_def)
  then show ?thesis using c find_epoch [OF ok Inr z(1,2)] Inr
    by (auto simp: crash_reconcile_epoch_def andthen_def reading_def crash_pid_def returns_def)
qed

lemma rpc_unreachable: "unreachable g r \<Longrightarrow> daemon_rpc w g h r = (Inr None, r)"
  by (auto simp: unreachable_def daemon_rpc_def split: option.splits)

lemma current_unreachable:
  assumes "unreachable g r" "certify_current w g ep r = (x, r')"
  shows "x \<noteq> Inr None"
proof
  assume x: "x = Inr None"
  let ?e = "er_generation_epoch ep"
  obtain r1 where w1: "(if er_retirement_state ep = ''open'' then writing (set_epoch_retirement (VStr ?e) (VStr ''quiescing'') None VNone) else returns ()) r = (Inr (), r1)"
    and rest: "andthen (daemon_rpc w g begin_quiescence) (\<lambda>_.
      andthen (resolve_confirmed ?e) (\<lambda>ok.
      if \<not> ok then returns (Some Resolve_failed)
      else andthen (daemon_rpc w g quiescence_status) (\<lambda>q.
      if \<not> is_quiesced q then returns (Some Not_quiesced)
      else andthen (daemon_rpc w g (certify_epoch ?e (retire_certificate g ?e))) (\<lambda>_.
      andthen (reading (get_epoch_retirement_state (VStr ?e))) (\<lambda>st.
      if st \<noteq> ''certified'' then returns (Some Certify_failed)
      else andthen (resolve_confirmed ?e) (\<lambda>ok.
      if \<not> ok then returns (Some Confirmed_below_final)
      else andthen (reading (list_epochs (VStr g))) (\<lambda>es.
      andthen (reading (get_generation_confirmed_high_water (VStr ?e))) (\<lambda>chw.
      returns (if chw < final_of ?e es then Some Confirmed_below_final else None))))))))) r1 = (Inr None, r')"
    using assms(2) x by (auto simp: certify_current_def Let_def andthen_Inr)
  have u1: "unreachable g r1" using w1 assms(1) by (auto simp: writing_Inr unreachable_def split: if_splits)
  obtain ok r2 where r2: "resolve_confirmed ?e r1 = (Inr ok, r2)"
    and rest2: "(if \<not> ok then returns (Some Resolve_failed)
      else andthen (daemon_rpc w g quiescence_status) (\<lambda>q.
      if \<not> is_quiesced q then returns (Some Not_quiesced)
      else andthen (daemon_rpc w g (certify_epoch ?e (retire_certificate g ?e))) (\<lambda>_.
      andthen (reading (get_epoch_retirement_state (VStr ?e))) (\<lambda>st.
      if st \<noteq> ''certified'' then returns (Some Certify_failed)
      else andthen (resolve_confirmed ?e) (\<lambda>ok.
      if \<not> ok then returns (Some Confirmed_below_final)
      else andthen (reading (list_epochs (VStr g))) (\<lambda>es.
      andthen (reading (get_generation_confirmed_high_water (VStr ?e))) (\<lambda>chw.
      returns (if chw < final_of ?e es then Some Confirmed_below_final else None)))))))) r2 = (Inr None, r')"
    using rest by (simp add: andthen_Inr rpc_unreachable [OF u1]) blast
  have u2: "unreachable g r2" using u1 resolve_only_progress [OF r2] by (simp add: unreachable_def only_progress_def)
  show False using rest2 by (cases ok) (simp_all add: andthen_Inr rpc_unreachable [OF u2] is_quiesced_def)
qed

lemma current_unreachable_unfit:
  assumes u: "unreachable g r" "unfit (rg_db r) g e ps m" and c: "certify_current w g ep r = (x, r')"
  shows "unfit (rg_db r') g e ps m"
proof -
  let ?P = "\<lambda>r. unreachable g r \<and> unfit (rg_db r) g e ps m"
  let ?e = "er_generation_epoch ep"
  have rpc: "preserves ?P (daemon_rpc w g h)" for h :: "daemon_view \<Rightarrow> db \<Rightarrow> 'b \<times> db"
    by (auto simp: preserves_def rpc_unreachable)
  have act: "preserves ?P m'" if "keeps_unfit g e ps m m'" "\<And>r. rg_active (snd (m' r)) = rg_active r" for m' :: "(registry, 'c) action"
    using that by (auto simp: preserves_def unreachable_def)
  have res: "preserves ?P (resolve_confirmed ?e)"
    by (rule act [OF keeps_resolved]) (use resolve_only_progress [OF prod.collapse [symmetric]] in \<open>simp add: only_progress_def\<close>)
  have q: "preserves ?P (if b then writing (set_epoch_retirement (VStr ?e) (VStr ''quiescing'') None VNone) else returns ())" for b
    by (rule act [OF keeps_quiescing]) (auto simp: writing_def returns_def split: sum.split)
  have "preserves ?P (certify_current w g ep)"
    unfolding certify_current_def Let_def
    by (intro inv_intros res q rpc | split if_split | intro conjI impI)+
  from preservesD [OF this _ c] u show ?thesis by blast
qed

lemma certify_one_unfit:
  assumes ok: "db_ok (rg_db r)" and u: "unfit (rg_db r) g e ps m"
    and c: "ps = ''dead'' \<and> m = None \<or> ps \<noteq> ''dead'' \<and> unreachable g r"
    and y: "er_generation_epoch ep = e \<Longrightarrow> er_process_state ep = ps \<and> er_retirement_state ep \<noteq> ''certified''"
    and a: "certify_one w g cur ep r = (x, r')"
  shows "unfit (rg_db r') g e ps m \<and> (er_generation_epoch ep = e \<longrightarrow> ps = ''dead'' \<longrightarrow> x \<noteq> Inr None)"
proof (cases "er_generation_epoch ep = e")
  case False
  from preservesD [OF one_other [OF this] u a] False show ?thesis by blast
next
  case True
  show ?thesis
  proof (cases "ps = ''dead''")
    case True
    then have "andthen (crash_reconcile_epoch w g e) (\<lambda>b. returns (map_option (Crash_reconcile_failed e) b)) r = (x, r')"
      using a y \<open>er_generation_epoch ep = e\<close> by (simp add: certify_one_def)
    moreover obtain z r1 where z: "crash_reconcile_epoch w g e r = (z, r1)" by fastforce
    ultimately show ?thesis using crash_stillborn [OF ok _ z] u c True
      by (cases z) (auto simp: andthen_def returns_def)
  next
    case False
    then have "unreachable g r" using c by simp
    then show ?thesis using a y True False u current_unreachable_unfit by (auto simp: certify_one_def returns_def split: if_splits)
  qed
qed

lemma certify_unfit:
  assumes "db_ok (rg_db r)" "unfit (rg_db r) g e ps m" "ps = ''dead'' \<and> m = None \<or> ps \<noteq> ''dead'' \<and> unreachable g r"
    and "\<And>y. y \<in> set es \<Longrightarrow> er_generation_epoch y = e \<Longrightarrow> er_process_state y = ps \<and> er_retirement_state y \<noteq> ''certified''"
    and "certify_epochs w g cur es r = (x, r')"
  shows "unfit (rg_db r') g e ps m \<and> (ps = ''dead'' \<longrightarrow> e \<in> er_generation_epoch ` set es \<longrightarrow> x \<noteq> Inr None)"
  using assms
proof (induction es arbitrary: r)
  case (Cons y es)
  obtain z r1 where z: "certify_one w g cur y r = (z, r1)" by fastforce
  have y: "er_process_state y = ps \<and> er_retirement_state y \<noteq> ''certified''" if "er_generation_epoch y = e"
    using Cons.prems(4) [of y] that by simp
  note one = certify_one_unfit [OF Cons.prems(1,2,3) y z]
  have rest: "certify_epochs w g cur es r1 = (x, r')" if "z = Inr None"
    using Cons.prems(5) z that by (simp add: andthen_def)
  have same: "same_outline r r1" by (rule preservesD [OF outline.keeps_certify_one _ z]) (simp add: same_outline_def)
  have ok1: "db_ok (rg_db r1)" by (rule preservesD [OF sound.keeps_certify_one _ z]) (use Cons.prems(1) in simp)
  have c1: "ps = ''dead'' \<and> m = None \<or> ps \<noteq> ''dead'' \<and> unreachable g r1"
    using Cons.prems(3) same by (simp add: unreachable_def same_outline_def)
  show ?case
  proof (cases "z = Inr None")
    case True
    have "unfit (rg_db r') g e ps m \<and> (ps = ''dead'' \<longrightarrow> e \<in> er_generation_epoch ` set es \<longrightarrow> x \<noteq> Inr None)"
      by (rule Cons.IH [OF ok1 _ c1 _ rest [OF True]]) (use one Cons.prems(4) in auto)
    then show ?thesis using one True by auto
  next
    case False
    then have "r' = r1 \<and> x \<noteq> Inr None" using Cons.prems(5) z
      by (cases z) (auto simp: andthen_def returns_def split: option.splits)
    then show ?thesis using one by simp
  qed
qed (simp add: returns_def)

section \<open>Retirements that cannot succeed\<close>

definition kept :: "string \<Rightarrow> string \<Rightarrow> string \<Rightarrow> string option \<Rightarrow> active_generation option \<Rightarrow> registry \<Rightarrow> bool" where
  "kept g e ps m a r \<longleftrightarrow> db_ok (rg_db r) \<and> unfit (rg_db r) g e ps m \<and> rg_active r = a"

lemma kept_asks: "asks x \<Longrightarrow> preserves (kept g e ps m a) x"
  by (auto simp: asks_def preserves_def same_registry_def kept_def)

lemma kept_write:
  "(\<And>d d' u. t d = Inr (d', u) \<Longrightarrow> db_epochs d' = db_epochs d) \<Longrightarrow> (\<And>d d' u. db_ok d \<Longrightarrow> t d = Inr (d', u) \<Longrightarrow> db_ok d')
    \<Longrightarrow> preserves (kept g e ps m a) (writing t)"
  by (auto simp: preserves_def writing_def kept_def split: sum.split intro: unfit_epochs)

lemma generation_write_epochs:
  "clear_current_epoch x d = Inr (d', u) \<Longrightarrow> db_epochs d' = db_epochs d"
  "set_generation_lifecycle_state x y d = Inr (d', u) \<Longrightarrow> db_epochs d' = db_epochs d"
  by (auto simp: clear_current_epoch_def set_generation_lifecycle_state_def elim: update_generation_cases)

lemma kept_advance: "preserves (kept g e ps m a) (advance_lifecycle g' b c)"
  unfolding advance_lifecycle_def
  by (intro inv_intros kept_write | erule generation_write_epochs | erule (1) set_generation_lifecycle_state_ok
    | split if_split | intro conjI impI)+

lemma kept_clear: "preserves (kept g e ps m a) (if b then writing (clear_current_epoch (VStr g')) else returns ())"
proof -
  have "preserves (kept g e ps m a) (writing (clear_current_epoch (VStr g')))"
    by (rule kept_write) (fact generation_write_epochs(1), fact clear_current_epoch_ok)
  then show ?thesis by (cases b) (simp_all add: preserves_plain)
qed

lemma kept_finalize: "preserves (kept g e ps m a) (finalize g')"
  unfolding finalize_def by (intro inv_intros kept_advance kept_clear)

lemma kept_resolve: "preserves (kept g e ps m a) (resolve_confirmed e')"
  unfolding preserves_def
proof (intro allI impI)
  fix r assume k: "kept g e ps m a r"
  have o: "only_progress r (snd (resolve_confirmed e' r))" by (rule resolve_only_progress [OF prod.collapse [symmetric]])
  have "db_ok (rg_db (snd (resolve_confirmed e' r)))" using sound.keeps_resolve k by (simp add: preserves_def kept_def)
  then show "kept g e ps m a (snd (resolve_confirmed e' r))" using k o by (simp add: kept_def only_progress_def unfit_def)
qed

lemma kept_resolve_epochs: "preserves (kept g e ps m a) (resolve_epochs es)"
  by (induction es) (simp_all, (intro inv_intros kept_resolve | assumption)+)

lemma kept_leases: "preserves (\<lambda>s. kept g e ps m a (op_registry s)) (release_leases g')"
  unfolding release_leases_def
  by (intro preserves_andthen on_registry_preserves inv_intros) (auto simp: preserves_def split: option.split)

lemma kept_gates: "preserves (\<lambda>s. kept g e ps m a (op_registry s)) (retire_gates w g' st)"
  unfolding retire_gates_def stop_if_def ask_oracle_def
  by (intro preserves_andthen on_registry_preserves kept_leases kept_finalize kept_resolve_epochs kept_asks [OF asks_reap_epochs] inv_intros
    | split option.split if_split | intro conjI allI impI)+

lemma retire_kept:
  assumes ok: "db_ok (rg_db (op_registry s))" and u: "unfit (rg_db (op_registry s)) g e ps m"
    and c: "ps = ''dead'' \<and> m = None \<or> ps \<noteq> ''dead'' \<and> unreachable g (op_registry s)"
    and a: "retire w (VStr g) s = (x, s')"
  shows "kept g e ps m (rg_active (op_registry s)) (op_registry s')"
proof -
  let ?r = "op_registry s"
  have snap: "er_process_state y = ps \<and> er_retirement_state y \<noteq> ''certified''"
    if l: "list_epochs (VStr g) (rg_db ?r) = Inr es" and y: "y \<in> set es" "er_generation_epoch y = e" for es y
  proof -
    have "map_of (db_epochs (rg_db ?r)) e = Some y" using l y epochs_of_mem [OF ok] by (auto simp: list_epochs_Inr)
    then show ?thesis using u by (auto simp: unfit_def)
  qed
  have step: "kept g e ps m (rg_active ?r) r2"
    if l: "list_epochs (VStr g) (rg_db ?r) = Inr es" and s1: "same_registry ?r r1" and z: "certify_epochs w g cur es r1 = (y, r2)" for es r1 cur y r2
  proof -
    have r1: "db_ok (rg_db r1)" "unfit (rg_db r1) g e ps m" "ps = ''dead'' \<and> m = None \<or> ps \<noteq> ''dead'' \<and> unreachable g r1"
      using ok u c s1 by (simp_all add: same_registry_def unreachable_def)
    have "unfit (rg_db r2) g e ps m" using certify_unfit [OF r1 snap [OF l] z] by blast
    moreover have "same_outline r1 r2" by (rule preservesD [OF outline.keeps_certify_epochs _ z]) (simp add: same_outline_def)
    moreover have "db_ok (rg_db r2)" by (rule preservesD [OF sound.keeps_certify_epochs _ z]) (rule r1(1))
    ultimately show ?thesis using s1 by (simp add: kept_def same_outline_def same_registry_def)
  qed
  from a show ?thesis
  proof (cases rule: retire_stages)
    case early
    then show ?thesis using ok u by (simp add: kept_def same_registry_def)
  next
    case (certifying cur es r1 y r2)
    then show ?thesis using step by simp
  next
    case (gates gen es r1 r2)
    from preservesD [OF kept_gates _ gates(7)] step [OF gates(4-6)] show ?thesis by simp
  qed
qed

lemma retire_not_Ok:
  assumes ok: "db_ok (rg_db (op_registry s))" and u: "unfit (rg_db (op_registry s)) g e ps m"
    and c: "ps = ''dead'' \<and> m = None \<or> ps \<noteq> ''dead'' \<and> unreachable g (op_registry s)"
  shows "fst (retire w (VStr g) s) \<noteq> Inr (Retire_ok st)"
proof
  assume "fst (retire w (VStr g) s) = Inr (Retire_ok st)"
  then obtain s' where a: "retire w (VStr g) s = (Inr (Retire_ok st), s')" by (metis prod.collapse)
  from retire_kept [OF ok u c a] have k: "db_ok (rg_db (op_registry s'))" "unfit (rg_db (op_registry s')) g e ps m"
    by (simp_all add: kept_def)
  then obtain y where y: "map_of (db_epochs (rg_db (op_registry s'))) e = Some y" "er_generation_id y = g" "readable y"
    "er_retirement_state y \<noteq> ''certified''" by (auto simp: unfit_def)
  then have "y \<in> set (filter readable (epochs_of g (rg_db (op_registry s'))))"
    using epochs_of_mem [OF k(1)] epoch_row_ok(1) [OF k(1) y(1)] by simp
  then show False using retire_Ok [OF ok a] y(4) by blast
qed

definition retire_all :: "op_world list \<Rightarrow> string \<Rightarrow> operator \<Rightarrow> operator" where
  "retire_all ws g s = foldl (\<lambda>s w. snd (retire w (VStr g) s)) s ws"

lemma retire_all_kept:
  assumes "kept g e ps m a (op_registry s)" "ps = ''dead'' \<and> m = None \<or> ps \<noteq> ''dead'' \<and> unreachable g (op_registry s)"
  shows "kept g e ps m a (op_registry (retire_all ws g s))"
  using assms
proof (induction ws arbitrary: s)
  case (Cons w ws)
  obtain x s1 where x: "retire w (VStr g) s = (x, s1)" by fastforce
  have "db_ok (rg_db (op_registry s))" "unfit (rg_db (op_registry s)) g e ps m" "rg_active (op_registry s) = a"
    using Cons.prems(1) by (simp_all add: kept_def)
  from retire_kept [OF this(1,2) Cons.prems(2) x] this(3) have k: "kept g e ps m a (op_registry s1)" by simp
  then have "kept g e ps m a (op_registry (retire_all ws g s1))"
    by (rule Cons.IH) (use Cons.prems k in \<open>simp add: unreachable_def kept_def\<close>)
  then show ?case using x by (simp add: retire_all_def)
qed (simp add: retire_all_def)

text \<open>
  C14: a generation that once failed to spawn is never retired. A spawn that fails leaves its epoch
  dead and without the metadata of an incarnation, which only a promotion records; the crash path
  needs that metadata. So however often and in whatever world the operator retires the generation
  from then on, the request never succeeds, and the epoch stays as it is.
\<close>

theorem failed_spawn_blocks_retirement:
  assumes "db_ok (rg_db (op_registry s))" "unfit (rg_db (op_registry s)) g e ''dead'' None"
  shows "fst (retire w (VStr g) (retire_all ws g s)) \<noteq> Inr (Retire_ok st) \<and>
    unfit (rg_db (op_registry (retire_all ws g s))) g e ''dead'' None"
proof -
  have "kept g e ''dead'' None (rg_active (op_registry s)) (op_registry (retire_all ws g s))"
    by (rule retire_all_kept) (use assms in \<open>simp_all add: kept_def\<close>)
  then have k: "db_ok (rg_db (op_registry (retire_all ws g s)))" "unfit (rg_db (op_registry (retire_all ws g s))) g e ''dead'' None"
    by (simp_all add: kept_def)
  from retire_not_Ok [OF this] this(2) show ?thesis by simp
qed

text \<open>
  C13: a generation that was replaced is never retired. The operator asks a daemon only through the
  registry, which knows its own active generation and no other. A generation the registry does not
  have, as every draining one, with an epoch that is not certified and not dead in the store,
  therefore cannot be certified: no retirement of it ever succeeds, dead daemon or not.
\<close>

theorem draining_generation_never_retires:
  assumes "db_ok (rg_db (op_registry s))" "unreachable g (op_registry s)"
    and "unfit (rg_db (op_registry s)) g e ps m" "ps \<noteq> ''dead''"
  shows "fst (retire w (VStr g) (retire_all ws g s)) \<noteq> Inr (Retire_ok st) \<and>
    unfit (rg_db (op_registry (retire_all ws g s))) g e ps m"
proof -
  have k: "kept g e ps m (rg_active (op_registry s)) (op_registry (retire_all ws g s))"
    by (rule retire_all_kept) (use assms in \<open>simp_all add: kept_def\<close>)
  have "unreachable g (op_registry (retire_all ws g s))" using k assms(2) by (simp add: kept_def unreachable_def)
  moreover have k2: "db_ok (rg_db (op_registry (retire_all ws g s)))" "unfit (rg_db (op_registry (retire_all ws g s))) g e ps m"
    using k by (simp_all add: kept_def)
  ultimately show ?thesis using retire_not_Ok [OF k2] assms(4) by simp
qed

section \<open>A demonstration\<close>

definition demo_op_world :: "world \<Rightarrow> op_world" where
  "demo_op_world w =
     \<lparr>ow_world = w, ow_installed = (\<lambda>n b. True), ow_activate = (\<lambda>n b. True), ow_lock_free = (\<lambda>n. True),
      ow_rpc = (\<lambda>n t. Rpc_answered),
      ow_daemon = (\<lambda>n t. \<lparr>dv_epoch = ''e'', dv_sessions = 0, dv_obligations = 0, dv_terminal_pending = [], dv_pending_acquire = 0, dv_reserved = 0\<rparr>),
      ow_child = (\<lambda>n sid. Child_absent), ow_fingerprint = (\<lambda>n p. None), ow_killpg = (\<lambda>n pg sig. No_such_group),
      ow_json = (\<lambda>m. Some (VDict [(''pid'', VInt 7), (''start_fingerprint'', VStr ''f'')]))\<rparr>"

definition demo_operator :: "registry \<Rightarrow> operator" where
  "demo_operator r = \<lparr>op_registry = r, op_leases = Some (LeaseService 2 2 ''rid'')\<rparr>"

lemma active_keeps_ok: "db_ok (rg_db (snd (active w demo_registry)))"
proof -
  have "preserves (\<lambda>s. 0 \<le> rg_now s \<and> db_ok (rg_db s)) (active w)" by (rule later.ok_active)
  then show ?thesis by (simp add: preserves_def demo_registry_def db_ok_empty)
qed


theorem resolve_confirms_prefix_witness:
  "pr_confirmed_high_water (progress_of (rg_db (snd (resolve_confirmed ''e'' (snd (demo_minted 100))))) ''e'') =
     pr_confirmed_high_water (progress_of (rg_db (snd (demo_minted 100))) ''e'')"
proof -
  have l: "list_terminal_for_epoch ''e'' (rg_db (snd (demo_minted 100))) = Inr []" by code_simp
  have "resolve_confirmed ''e'' (snd (demo_minted 100)) = (Inr True, snd (resolve_confirmed ''e'' (snd (demo_minted 100))))"
    using l by (simp add: resolve_confirmed_def)
  from resolve_confirms_prefix [OF _ this] active_keeps_ok obtain ts H where
    h: "list_terminal_for_epoch ''e'' (rg_db (snd (demo_minted 100))) = Inr ts" "0 \<le> H" "{1..H} \<subseteq> tr_terminal_seq ` set ts"
      "pr_confirmed_high_water (progress_of (rg_db (snd (resolve_confirmed ''e'' (snd (demo_minted 100))))) ''e'') =
        max (pr_confirmed_high_water (progress_of (rg_db (snd (demo_minted 100))) ''e'')) H"
    unfolding demo_minted_def by blast
  have "ts = []" using h(1) l by simp
  then have "H = 0" using h(2,3) by (cases "H = 0") auto
  moreover have "0 \<le> pr_confirmed_high_water (progress_of (rg_db (snd (demo_minted 100))) ''e'')"
    using progress_of_ok(2) [OF db_okD(4) [OF active_keeps_ok]] by (simp add: demo_minted_def)
  ultimately show ?thesis using h(4) by simp
qed


text \<open>A daemon that does not become healthy, and a router that came up without adopting its daemon.\<close>

definition demo_sick :: world where
  "demo_sick = (demo_world 100)\<lparr>w_spawn := \<lambda>n g e. Not_healthy, w_holder := \<lambda>n g. None\<rparr>"

lemma demo_stillborn: "unfit (rg_db (snd (active demo_sick demo_registry))) demo_gid ''e'' ''dead'' None"
proof -
  have "map_option (\<lambda>x. (er_generation_id x, er_certificate x, er_final_high_water x, er_retirement_state x, er_process_state x, er_incarnation_meta x))
     (map_of (db_epochs (rg_db (snd (active demo_sick demo_registry)))) ''e'') = Some (demo_gid, None, None, ''open'', ''dead'', None)"
    by code_simp
  then show ?thesis by (auto simp: unfit_def readable_def)
qed

lemma demo_serving: "unfit (rg_db (snd (demo_minted 100))) demo_gid ''e'' ''serving'' (Some ''meta'')"
proof -
  have "map_option (\<lambda>x. (er_generation_id x, er_certificate x, er_final_high_water x, er_retirement_state x, er_process_state x, er_incarnation_meta x))
     (map_of (db_epochs (rg_db (snd (demo_minted 100)))) ''e'') = Some (demo_gid, None, None, ''open'', ''serving'', Some ''meta'')"
    by code_simp
  then show ?thesis by (auto simp: unfit_def readable_def)
qed

theorem failed_spawn_blocks_retirement_witness:
  "fst (retire (demo_op_world (demo_world 100)) (VStr demo_gid)
     (retire_all [demo_op_world demo_sick] demo_gid (demo_operator (snd (active demo_sick demo_registry))))) \<noteq> Inr (Retire_ok ''retired'')"
  using failed_spawn_blocks_retirement [of "demo_operator (snd (active demo_sick demo_registry))" demo_gid "''e''"]
    active_keeps_ok demo_stillborn by (simp add: demo_operator_def)

theorem draining_generation_never_retires_witness:
  "fst (retire (demo_op_world (demo_world 100)) (VStr demo_gid)
     (retire_all [demo_op_world demo_sick] demo_gid (demo_operator ((snd (demo_minted 100))\<lparr>rg_active := None\<rparr>)))) \<noteq> Inr (Retire_ok ''retired'')"
  using draining_generation_never_retires [of "demo_operator ((snd (demo_minted 100))\<lparr>rg_active := None\<rparr>)" demo_gid "''e''" "''serving''" "Some ''meta''"]
    active_keeps_ok [of "demo_world 100"] demo_serving
  by (simp add: demo_operator_def demo_minted_def unreachable_def)

end
