(* ===== verification/Nelix_Runtime.thy ===== *)
theory Nelix_Runtime
  imports Nelix_Generations
begin

text \<open>
  \<^verbatim>\<open>runtime.py\<close> and \<^verbatim>\<open>nelix_store/gc.py\<close>: the directory of installed runtimes. An
  installer is a process that takes the install lock, builds the runtime in place, commits it
  by writing its manifest and lets the lock go; it may be killed between any two of these, and
  several may run. What is left out: the wheel, the interpreter and the virtual environment (an
  installation has a build id and succeeds or not), and the directory of an entry that is no
  runtime.
\<close>

section \<open>The directory of runtimes\<close>

text \<open>
  Of each runtime whether its manifest is there; the text in \<^verbatim>\<open>.install.lock\<close> and which
  process holds the \<open>flock\<close> on it. The text stays when the lock is let go.
\<close>

record runtimes =
  rt_root :: bool
  rt_dirs :: "(string, bool) dict"
  rt_meta :: "(int \<times> string) option"
  rt_flock :: "int option"
  rt_current :: "string option"

definition is_installed :: "string \<Rightarrow> runtimes \<Rightarrow> bool" where
  "is_installed b rt \<longleftrightarrow> map_of (rt_dirs rt) b = Some True"

definition installed :: "runtimes \<Rightarrow> string list" where
  "installed rt = (if rt_root rt then sort (filter (\<lambda>b. is_installed b rt) (keys (rt_dirs rt))) else [])"

section \<open>Installing\<close>

text \<open>Where an installer stands: the lock taken and its text cut off, the text written, building, about to let go.\<close>

datatype installer = Away | Took string | Holding string | Building string | Closing "string res" | Returned "string res"

definition install_runtime :: "int \<Rightarrow> string \<Rightarrow> runtimes \<Rightarrow> runtimes \<times> installer" where
  "install_runtime p b rt =
     (if is_installed b rt then (rt, Returned (Inr b))
      else if rt_flock rt \<noteq> None then (rt\<lparr>rt_root := True\<rparr>, Returned (Inl RuntimeError))
      else (rt\<lparr>rt_root := True, rt_flock := Some p, rt_meta := None\<rparr>, Took b))"

fun build_at :: "string \<Rightarrow> bool \<Rightarrow> runtimes \<Rightarrow> runtimes \<times> installer" where
  "build_at b True rt = (rt\<lparr>rt_dirs := AList.update b True (rt_dirs rt)\<rparr>, Closing (Inr b))"
| "build_at b False rt = (rt\<lparr>rt_dirs := AList.delete b (rt_dirs rt)\<rparr>, Closing (Inl RuntimeError))"

fun installer_step :: "int \<Rightarrow> bool \<Rightarrow> runtimes \<Rightarrow> installer \<Rightarrow> runtimes \<times> installer" where
  "installer_step p ok rt (Took b) = (rt\<lparr>rt_meta := Some (p, b)\<rparr>, Holding b)"
| "installer_step p ok rt (Holding b) =
     (if is_installed b rt then (rt, Closing (Inr b))
      else (rt\<lparr>rt_dirs := AList.update b False (rt_dirs rt)\<rparr>, Building b))"
| "installer_step p ok rt (Building b) = build_at b ok rt"
| "installer_step p ok rt (Closing r) = (rt\<lparr>rt_flock := None\<rparr>, Returned r)"
| "installer_step p ok rt i = (rt, i)"

section \<open>Selecting\<close>

definition runtime_activate :: "string \<Rightarrow> runtimes \<Rightarrow> (runtimes \<times> unit) res" where
  "runtime_activate b rt =
     (if is_installed b rt then Inr (rt\<lparr>rt_current := Some b\<rparr>, ()) else Inl RuntimeError)"

text \<open>The build new daemons start from: what \<open>$NELIX_RUNTIME\<close> names, else the current one, if it is committed.\<close>

definition runtime_active :: "string \<Rightarrow> runtimes \<Rightarrow> string option res" where
  "runtime_active env rt =
     (if env \<noteq> [] then (if is_installed env rt then Inr (Some env) else Inl RuntimeError)
      else (case rt_current rt of
              Some b \<Rightarrow> Inr (if is_installed b rt then Some b else None)
            | None \<Rightarrow> Inr None))"

section \<open>Collecting\<close>

record gc_dirs =
  dirs_deleted :: nat
  dirs_skipped :: "string list"

text \<open>The entries that are directories: the runtimes, and the link when it leads to one.\<close>

definition dir_entries :: "runtimes \<Rightarrow> string list" where
  "dir_entries rt =
     sort (keys (rt_dirs rt) @
       (case rt_current rt of Some b \<Rightarrow> if map_of (rt_dirs rt) b \<noteq> None then [''current''] else [] | None \<Rightarrow> []))"

primrec retirement_confirmed :: "db \<Rightarrow> generation_record list \<Rightarrow> bool res" where
  "retirement_confirmed d [] = Inr True"
| "retirement_confirmed d (g # gs) =
     rbind (store_oracle d (gr_generation_id g)) (\<lambda>blockers.
       if blockers \<noteq> [] then Inr False else retirement_confirmed d gs)"

definition collectable_dir :: "db \<Rightarrow> generation_record list \<Rightarrow> string \<Rightarrow> bool res" where
  "collectable_dir d gens b =
     (let refs = filter (\<lambda>g. gr_build_id g = Some b) gens in
      if list_ex (\<lambda>g. gr_lifecycle_state g \<noteq> ''retired'') refs then Inr False
      else if refs = [] then Inr False
      else retirement_confirmed d refs)"

text \<open>\<open>shutil.rmtree(d, ignore_errors=True)\<close> counts whether it removed anything or not.\<close>

primrec collect_dirs :: "db \<Rightarrow> generation_record list \<Rightarrow> string list \<Rightarrow> runtimes \<times> nat \<Rightarrow> runtimes \<times> nat res" where
  "collect_dirs d gens [] s = (fst s, Inr (snd s))"
| "collect_dirs d gens (b # bs) s =
     (case collectable_dir d gens b of
        Inl e \<Rightarrow> (fst s, Inl e)
      | Inr ok \<Rightarrow>
          collect_dirs d gens bs
            (if ok then ((fst s)\<lparr>rt_dirs := AList.delete b (rt_dirs (fst s))\<rparr>, snd s + 1) else s))"

definition gc_runtime_dirs :: "db \<Rightarrow> runtimes \<Rightarrow> runtimes \<times> gc_dirs res" where
  "gc_runtime_dirs d rt =
     (if \<not> rt_root rt then (rt, Inr \<lparr>dirs_deleted = 0, dirs_skipped = []\<rparr>)
      else (case list_generations d of
              Inl e \<Rightarrow> (rt, Inl e)
            | Inr gens \<Rightarrow>
                if rt_meta rt \<noteq> None then (rt, Inr \<lparr>dirs_deleted = 0, dirs_skipped = dir_entries rt\<rparr>)
                else (case collect_dirs d gens (dir_entries rt) (rt, 0) of
                        (rt', Inl e) \<Rightarrow> (rt', Inl e)
                      | (rt', Inr n) \<Rightarrow> (rt', Inr \<lparr>dirs_deleted = n, dirs_skipped = []\<rparr>))))"

section \<open>Installers and collectors together\<close>

datatype runtime_event =
    Install int string
  | Advance int bool
  | Killed int
  | Point string
  | Collect db

type_synonym runtime_state = "runtimes \<times> (int \<Rightarrow> installer)"

fun runtime_step :: "runtime_state \<Rightarrow> runtime_event \<Rightarrow> runtime_state" where
  "runtime_step (rt, pcs) (Install p b) = (case install_runtime p b rt of (rt', i) \<Rightarrow> (rt', pcs(p := i)))"
| "runtime_step (rt, pcs) (Advance p ok) = (case installer_step p ok rt (pcs p) of (rt', i) \<Rightarrow> (rt', pcs(p := i)))"
| "runtime_step (rt, pcs) (Killed p) =
     (rt\<lparr>rt_flock := if rt_flock rt = Some p then None else rt_flock rt\<rparr>, pcs(p := Away))"
| "runtime_step (rt, pcs) (Point b) =
     ((case runtime_activate b rt of Inr (rt', _) \<Rightarrow> rt' | Inl e \<Rightarrow> rt), pcs)"
| "runtime_step (rt, pcs) (Collect d) = (fst (gc_runtime_dirs d rt), pcs)"

definition no_runtimes :: runtime_state where
  "no_runtimes =
     (\<lparr>rt_root = False, rt_dirs = [], rt_meta = None, rt_flock = None, rt_current = None\<rparr>, \<lambda>_. Away)"

text \<open>
  A process installs one runtime at a time. The lock's text is empty for an instant, from taking
  the lock to writing it: \<open>undisturbed\<close> events do not kill an installer, nor run the collector, in it.
\<close>

fun one_install :: "runtime_state \<Rightarrow> runtime_event \<Rightarrow> bool" where
  "one_install (rt, pcs) (Install p b) = (case pcs p of Away \<Rightarrow> True | Returned r \<Rightarrow> True | _ \<Rightarrow> False)"
| "one_install s e = True"

definition taking :: "runtime_state \<Rightarrow> bool" where
  "taking s \<longleftrightarrow> (case rt_flock (fst s) of None \<Rightarrow> False | Some p \<Rightarrow> (case snd s p of Took b \<Rightarrow> True | _ \<Rightarrow> False))"

fun undisturbed :: "runtime_state \<Rightarrow> runtime_event \<Rightarrow> bool" where
  "undisturbed (rt, pcs) (Killed p) = (case pcs p of Took b \<Rightarrow> False | _ \<Rightarrow> True)"
| "undisturbed s (Collect d) = (\<not> taking s)"
| "undisturbed s e = one_install s e"

end
