(* ===== verification/Nelix_Reaper.thy ===== *)
theory Nelix_Reaper
  imports Nelix_Registry_Inv
begin

text \<open>
  \<^verbatim>\<open>daemon/reaper.py\<close>: at its start a daemon kills the process groups that earlier daemons
  left behind, by the record each session keeps of its child. Processes are a world that changes
  by itself, asked at every instant; the records are files that are removed or set aside. A loop
  waits for a group's leader to die; not returning from it is \<open>None\<close>.
\<close>

section \<open>Processes and records\<close>

record processes =
  ps_alive :: "nat \<Rightarrow> int \<Rightarrow> bool"
  ps_fingerprint :: "nat \<Rightarrow> pyval \<Rightarrow> string option"
  ps_pgid :: "nat \<Rightarrow> int \<Rightarrow> int option"
  ps_clock :: "nat \<Rightarrow> rat"
  ps_replace :: "nat \<Rightarrow> string \<Rightarrow> bool"
  ps_unlink :: "nat \<Rightarrow> string \<Rightarrow> bool"

text \<open>What is in a session's \<^verbatim>\<open>child.json\<close>, when it exists.\<close>

datatype child_json = Unreadable | Not_json | Json pyval

datatype signal = SIGTERM | SIGKILL

record reaper_context =
  rc_pid :: int
  rc_fingerprint :: "string option"
  rc_grace :: rat

record reaper =
  ra_now :: nat
  ra_files :: "(string, child_json) dict"
  ra_signals :: "(int \<times> signal) list"
  ra_reaped :: "string list"

definition look :: "(nat \<Rightarrow> 'a) \<Rightarrow> (reaper, 'a) action" where
  "look f st = (Inr (f (ra_now st)), st\<lparr>ra_now := ra_now st + 1\<rparr>)"

text \<open>What \<open>os.kill\<close> takes for a process: an int, a bool among them, of the size of a C int.\<close>

fun as_pid :: "pyval \<Rightarrow> int res" where
  "as_pid (VInt i) = (if \<bar>i\<bar> < 2 ^ 31 then Inr i else Inl OverflowError)"
| "as_pid (VBool b) = Inr (if b then 1 else 0)"
| "as_pid v = Inl TypeError"

definition is_alive :: "processes \<Rightarrow> pyval \<Rightarrow> (reaper, bool) action" where
  "is_alive w v = (case as_pid v of Inl e \<Rightarrow> raises e | Inr p \<Rightarrow> look (\<lambda>n. ps_alive w n p))"

definition start_fingerprint :: "processes \<Rightarrow> pyval \<Rightarrow> (reaper, string option) action" where
  "start_fingerprint w v = look (\<lambda>n. ps_fingerprint w n v)"

definition pgid_of :: "processes \<Rightarrow> pyval \<Rightarrow> (reaper, int option) action" where
  "pgid_of w v = (case as_pid v of Inl e \<Rightarrow> raises e | Inr p \<Rightarrow> look (\<lambda>n. ps_pgid w n p))"

text \<open>Python's equality of what the system says and what the record says.\<close>

fun equals_int :: "pyval \<Rightarrow> int option \<Rightarrow> bool" where
  "equals_int (VInt j) i = (i = Some j)"
| "equals_int (VBool b) i = (i = Some (if b then 1 else 0))"
| "equals_int (VFloat (Fin q)) i = (case i of Some j \<Rightarrow> of_int j = q | None \<Rightarrow> False)"
| "equals_int VNone i = (i = None)"
| "equals_int v i = False"

definition equals_text :: "pyval \<Rightarrow> string option \<Rightarrow> bool" where
  "equals_text v s \<longleftrightarrow> v = opt_str s"

section \<open>Whom to reap\<close>

type_synonym child = "(string, pyval) dict"

abbreviation field :: "child \<Rightarrow> string \<Rightarrow> pyval" where
  "field \<equiv> Nelix_Start.dict_get"

definition is_own :: "reaper_context \<Rightarrow> child \<Rightarrow> bool" where
  "is_own c rec \<longleftrightarrow>
     equals_int (field rec ''daemon_pid'') (Some (rc_pid c)) \<and> equals_text (field rec ''daemon_fingerprint'') (rc_fingerprint c)"

definition is_owner_dead :: "processes \<Rightarrow> child \<Rightarrow> (reaper, bool) action" where
  "is_owner_dead w rec =
     (let dpid = field rec ''daemon_pid'' in
      if dpid = VNone then returns True
      else andthen (is_alive w dpid) (\<lambda>alive.
        if \<not> alive then returns True
        else andthen (start_fingerprint w dpid) (\<lambda>fp.
          returns (\<not> equals_text (field rec ''daemon_fingerprint'') fp))))"

definition should_reap :: "processes \<Rightarrow> reaper_context \<Rightarrow> child \<Rightarrow> (reaper, bool) action" where
  "should_reap w c rec =
     (let pid = field rec ''pid'' in
      if is_own c rec then returns False
      else andthen (is_owner_dead w rec) (\<lambda>owner_dead.
        if \<not> owner_dead then returns False
        else if pid = VNone then returns False
        else andthen (is_alive w pid) (\<lambda>alive.
          if \<not> alive then returns False
          else andthen (start_fingerprint w pid) (\<lambda>fp.
            if \<not> equals_text (field rec ''child_fingerprint'') fp then returns False
            else andthen (pgid_of w pid) (\<lambda>g.
              returns (equals_int (field rec ''pgid'') g))))))"

section \<open>Killing a group\<close>

partial_function (option) await_leader :: "processes \<Rightarrow> int \<Rightarrow> rat \<Rightarrow> nat \<Rightarrow> (bool \<times> nat) option" where
  "await_leader w leader deadline n =
     (if deadline \<le> ps_clock w n then Some (False, n + 1)
      else if \<not> ps_alive w (n + 1) leader then Some (True, n + 2)
      else await_leader w leader deadline (n + 2))"

definition send :: "int \<Rightarrow> signal \<Rightarrow> reaper \<Rightarrow> reaper" where
  "send g sig st = st\<lparr>ra_signals := ra_signals st @ [(g, sig)]\<rparr>"

definition kill_group :: "processes \<Rightarrow> int \<Rightarrow> pyval \<Rightarrow> rat \<Rightarrow> reaper \<Rightarrow> (bool res \<times> reaper) option" where
  "kill_group w leader pgid grace st =
     (if pgid = VNone then Some (Inr False, st)
      else (case as_pid pgid of
              Inl e \<Rightarrow> Some (Inl e, st)
            | Inr g \<Rightarrow>
                (let st1 = send g SIGTERM st; n = ra_now st1 in
                 case await_leader w leader (ps_clock w n + grace) (n + 1) of
                   None \<Rightarrow> None
                 | Some (True, m) \<Rightarrow> Some (Inr True, st1\<lparr>ra_now := m\<rparr>)
                 | Some (False, m) \<Rightarrow>
                     (let st2 = st1\<lparr>ra_now := m + 1\<rparr> in
                      Some (Inr True, if ps_alive w m leader then send g SIGKILL st2 else st2)))))"

section \<open>The scan\<close>

datatype verdict = Leave | Set_aside | Drop | Reap int pyval

definition examine :: "processes \<Rightarrow> reaper_context \<Rightarrow> string \<Rightarrow> (reaper, verdict) action" where
  "examine w c sd st =
     (case map_of (ra_files st) sd of
        None \<Rightarrow> (Inr Leave, st)
      | Some Unreadable \<Rightarrow> (Inr Leave, st)
      | Some Not_json \<Rightarrow> (Inr Set_aside, st)
      | Some (Json (VDict rec)) \<Rightarrow>
          (let pid = field rec ''pid'' in
           if field rec ''sid'' \<noteq> VStr sd then (Inr Set_aside, st)
           else andthen (should_reap w c rec) (\<lambda>reap.
             if reap then (case as_pid pid of Inl e \<Rightarrow> raises e | Inr p \<Rightarrow> returns (Reap p (field rec ''pgid'')))
             else if pid = VNone then returns Leave
             else andthen (is_alive w pid) (\<lambda>alive. returns (if alive then Leave else Drop))) st)
      | Some (Json VNone) \<Rightarrow> (Inr Leave, st)
      | Some (Json v) \<Rightarrow> (Inl AttributeError, st))"

definition remove_file :: "(nat \<Rightarrow> string \<Rightarrow> bool) \<Rightarrow> string \<Rightarrow> reaper \<Rightarrow> reaper" where
  "remove_file works sd st =
     st\<lparr>ra_now := ra_now st + 1, ra_files := if works (ra_now st) sd then AList.delete sd (ra_files st) else ra_files st\<rparr>"

text \<open>One record; whatever is raised over it ends with it.\<close>

definition reconcile_record :: "processes \<Rightarrow> reaper_context \<Rightarrow> string \<Rightarrow> reaper \<Rightarrow> reaper option" where
  "reconcile_record w c sd st =
     (case examine w c sd st of
        (Inl e, st1) \<Rightarrow> Some st1
      | (Inr Leave, st1) \<Rightarrow> Some st1
      | (Inr Set_aside, st1) \<Rightarrow> Some (remove_file (ps_replace w) sd st1)
      | (Inr Drop, st1) \<Rightarrow> Some (remove_file (ps_unlink w) sd st1)
      | (Inr (Reap leader pgid), st1) \<Rightarrow>
          (case kill_group w leader pgid (rc_grace c) st1 of
             None \<Rightarrow> None
           | Some (Inl e, st2) \<Rightarrow> Some st2
           | Some (Inr _, st2) \<Rightarrow>
               Some (remove_file (ps_unlink w) sd (st2\<lparr>ra_reaped := ra_reaped st2 @ [sd]\<rparr>))))"

primrec reconcile_orphans :: "processes \<Rightarrow> reaper_context \<Rightarrow> string list \<Rightarrow> reaper \<Rightarrow> reaper option" where
  "reconcile_orphans w c [] st = Some st"
| "reconcile_orphans w c (sd # sds) st =
     (case reconcile_record w c sd st of None \<Rightarrow> None | Some st1 \<Rightarrow> reconcile_orphans w c sds st1)"

end
