(* ===== verification/Nelix_Reaper_Props.thy ===== *)
theory Nelix_Reaper_Props
  imports Nelix_Reaper
begin

text \<open>
  The reaper signals only groups a record describes and the system confirms, it removes a record
  only of a child it reaped or saw dead, and it returns.
\<close>

section \<open>Looks\<close>












section \<open>Orphans\<close>







section \<open>One record\<close>







section \<open>Waiting for a leader\<close>

lemma await_leader_ends:
  assumes "await_leader w leader deadline n = Some y"
  shows "n < snd y \<and> (if fst y then \<not> ps_alive w (snd y - 1) leader else deadline \<le> ps_clock w (snd y - 1))"
proof (rule await_leader.raw_induct [where
    P = "\<lambda>w leader deadline n y. n < snd y \<and> (if fst y then \<not> ps_alive w (snd y - 1) leader else deadline \<le> ps_clock w (snd y - 1))",
    OF _ assms])
  fix rest w leader deadline n y
  assume ih: "\<And>w leader deadline n y. rest w leader deadline n = Some y \<Longrightarrow>
      n < snd y \<and> (if fst y then \<not> ps_alive w (snd y - 1) leader else deadline \<le> ps_clock w (snd y - 1))"
    and y: "(if deadline \<le> ps_clock w n then Some (False, n + 1)
      else if \<not> ps_alive w (n + 1) leader then Some (True, n + 2) else rest w leader deadline (n + 2)) = Some y"
  show "n < snd y \<and> (if fst y then \<not> ps_alive w (snd y - 1) leader else deadline \<le> ps_clock w (snd y - 1))"
    using y ih [of w leader deadline "n + 2" y] by (auto split: if_splits)
qed

lemmas await_leader_result = await_leader_ends [of _ _ _ _ "(b, m)" for b m, simplified]

lemma await_leader_returns:
  assumes "\<And>m. n0 \<le> m \<Longrightarrow> deadline \<le> ps_clock w m"
  shows "\<exists>b m. await_leader w leader deadline n = Some (b, m)"
proof (induction "n0 - n" arbitrary: n rule: less_induct)
  case less
  show ?case
  proof (cases "n0 \<le> n")
    case True
    then show ?thesis using assms by (subst await_leader.simps) auto
  next
    case False
    then have "\<exists>b m. await_leader w leader deadline (n + 2) = Some (b, m)" by (intro less) simp
    then show ?thesis by (subst await_leader.simps) auto
  qed
qed


section \<open>A scan\<close>












section \<open>What the reaper may do\<close>



lemma kill_group_returns:
  assumes "\<And>x. \<exists>n0. \<forall>n\<ge>n0. x \<le> ps_clock w n"
  shows "\<exists>r st'. kill_group w leader v grace st = Some (r, st')"
proof -
  obtain n0 where "\<forall>n\<ge>n0. ps_clock w (ra_now st) + grace \<le> ps_clock w n" using assms by blast
  then obtain b m where "await_leader w leader (ps_clock w (ra_now st) + grace) (ra_now st + 1) = Some (b, m)"
    using await_leader_returns [of n0 "ps_clock w (ra_now st) + grace" w leader "ra_now st + 1"] by blast
  then show ?thesis by (cases b) (simp_all add: kill_group_def send_def Let_def split: sum.split)
qed

text \<open>
  C25: the scan returns. When time goes on, the scan over any records ends, each group it kills
  was waited for at most until the grace period was over, and it was sent a second, certain
  signal exactly when its leader was still alive then.
\<close>

theorem reaper_returns:
  assumes "\<And>x. \<exists>n0. \<forall>n\<ge>n0. x \<le> ps_clock w n"
  shows "(\<exists>st'. reconcile_orphans w c sds st = Some st') \<and>
    (\<forall>leader v g grace. as_pid v = Inr g \<longrightarrow>
       (\<exists>st'. kill_group w leader v grace st = Some (Inr True, st') \<and>
          (ra_signals st' = ra_signals st @ [(g, SIGTERM)] \<and> \<not> ps_alive w (ra_now st' - 1) leader \<or>
           ra_signals st' = ra_signals st @ [(g, SIGTERM), (g, SIGKILL)] \<and> ps_alive w (ra_now st' - 1) leader)))"
proof (intro conjI allI impI)
  have one: "\<exists>st'. reconcile_record w c sd st = Some st'" for sd st
  proof -
    have k: "\<exists>y. kill_group w leader v (rc_grace c) s1 = Some y" for leader v s1
      using kill_group_returns [OF assms] by blast
    obtain x st1 where "examine w c sd st = (x, st1)" by (rule prod.exhaust)
    moreover have "\<exists>st'. (case kill_group w leader v (rc_grace c) st1 of None \<Rightarrow> None | Some (Inl e, st2) \<Rightarrow> Some st2
        | Some (Inr _, st2) \<Rightarrow> Some (remove_file (ps_unlink w) sd (st2\<lparr>ra_reaped := ra_reaped st2 @ [sd]\<rparr>))) = Some st'" for leader v
      using k [of leader v st1] by (auto split: sum.split)
    ultimately show ?thesis by (auto simp: reconcile_record_def split: sum.split verdict.split)
  qed
  show "\<exists>st'. reconcile_orphans w c sds st = Some st'"
    using one by (induction sds arbitrary: st) (simp_all, metis option.simps(5))
next
  fix leader v g grace
  assume v: "as_pid v = Inr g"
  obtain n0 where "\<forall>n\<ge>n0. ps_clock w (ra_now st) + grace \<le> ps_clock w n" using assms by blast
  then obtain b m where a: "await_leader w leader (ps_clock w (ra_now st) + grace) (ra_now st + 1) = Some (b, m)"
    using await_leader_returns [of n0 "ps_clock w (ra_now st) + grace" w leader "ra_now st + 1"] by blast
  have "v \<noteq> VNone" using v by auto
  with v a await_leader_result [OF a] show "\<exists>st'. kill_group w leader v grace st = Some (Inr True, st') \<and>
      (ra_signals st' = ra_signals st @ [(g, SIGTERM)] \<and> \<not> ps_alive w (ra_now st' - 1) leader \<or>
       ra_signals st' = ra_signals st @ [(g, SIGTERM), (g, SIGKILL)] \<and> ps_alive w (ra_now st' - 1) leader)"
    by (cases b) (simp_all add: kill_group_def send_def Let_def)
qed

section \<open>A demonstration\<close>

text \<open>One child of a dead daemon, one record in the wrong directory.\<close>

definition demo_processes :: processes where
  "demo_processes =
     \<lparr>ps_alive = (\<lambda>n p. p = 7 \<and> n < 8), ps_fingerprint = (\<lambda>n v. if v = VInt 7 then Some ''f'' else None),
      ps_pgid = (\<lambda>n p. Some 7), ps_clock = of_nat, ps_replace = (\<lambda>n sd. True), ps_unlink = (\<lambda>n sd. True)\<rparr>"

definition demo_context :: reaper_context where
  "demo_context = \<lparr>rc_pid = 1, rc_fingerprint = Some ''me'', rc_grace = 5\<rparr>"

definition demo_child :: child where
  "demo_child = [(''sid'', VStr ''s''), (''pid'', VInt 7), (''pgid'', VInt 7), (''child_fingerprint'', VStr ''f''),
     (''daemon_pid'', VInt 3), (''daemon_fingerprint'', VStr ''d'')]"

definition demo_reaper :: reaper where
  "demo_reaper = \<lparr>ra_now = 0, ra_files = [(''s'', Json (VDict demo_child)), (''x'', Json (VDict demo_child))], ra_signals = [], ra_reaped = []\<rparr>"






theorem reaper_returns_witness: "\<exists>st'. reconcile_orphans demo_processes demo_context [''s'', ''x''] demo_reaper = Some st'"
proof (rule conjunct1 [OF reaper_returns])
  fix x :: rat
  obtain n0 :: nat where n0: "x \<le> of_nat n0" using real_arch_simple [of "of_rat x"] by (metis of_rat_less_eq of_rat_of_nat_eq)
  show "\<exists>n0. \<forall>n\<ge>n0. x \<le> ps_clock demo_processes n"
  proof (intro exI allI impI)
    fix n assume "n0 \<le> n"
    then have "(of_nat n0 :: rat) \<le> of_nat n" by simp
    then show "x \<le> ps_clock demo_processes n" using n0 by (simp add: demo_processes_def)
  qed
qed

end
