(* ===== verification/Nelix_Dialog.thy ===== *)
theory Nelix_Dialog
  imports Nelix_Prelude
begin

text \<open>
  \<^verbatim>\<open>daemon/dialog.py\<close>: the transcript of a session as single-line records, its paging by
  character offsets, its copy on disk, and the raw spool that keeps the last bytes. Text is a list
  of code points. The capture sidecar beside the spool is not modelled.
\<close>

section \<open>Text\<close>

type_synonym chars = "nat list"

abbreviation newline :: nat where
  "newline \<equiv> 10"

primrec split_lines :: "chars \<Rightarrow> chars list" where
  "split_lines [] = [[]]"
| "split_lines (c # cs) =
     (if c = newline then [] # split_lines cs
      else (case split_lines cs of [] \<Rightarrow> [[c]] | l # ls \<Rightarrow> (c # l) # ls))"

fun join_lines :: "chars list \<Rightarrow> chars" where
  "join_lines [] = []"
| "join_lines [l] = l"
| "join_lines (l # ls) = l @ newline # join_lines ls"

text \<open>The markers: a guillemet and a space before a user's line, and the word agent in angle quotes.\<close>

definition user_mark :: chars where
  "user_mark = [0xBB, 32]"

definition agent_mark :: chars where
  "agent_mark = [0x2039, 97, 103, 101, 110, 116, 0x203A]"

section \<open>Records\<close>

datatype speaker = Agent | User

datatype record_kind = Marker | Line

record dialog_record =
  dr_idx :: nat
  dr_kind :: record_kind
  dr_speaker :: speaker
  dr_text :: chars

text \<open>The bytes of the spool are numbers; a record of \<^verbatim>\<open>transcript.jsonl\<close> may have been cut off by a crash.\<close>

datatype jsonl = Written dialog_record | Torn

record dialog =
  dg_records :: "dialog_record list"
  dg_flat_len :: nat
  dg_speaker :: "speaker option"
  dg_user_offset :: nat
  dg_marker_offset :: nat
  dg_file :: "jsonl list"
  dg_spool_max :: nat
  dg_raw :: "nat list"
  dg_raw_len :: nat
  dg_raw_total :: nat
  dg_raw_base :: nat

definition Dialog :: "nat \<Rightarrow> nat list \<Rightarrow> dialog" where
  "Dialog spool_max raw =
     \<lparr>dg_records = [], dg_flat_len = 0, dg_speaker = None, dg_user_offset = 0, dg_marker_offset = 0, dg_file = [],
      dg_spool_max = spool_max, dg_raw = raw, dg_raw_len = length raw, dg_raw_total = length raw, dg_raw_base = 0\<rparr>"

text \<open>\<open>data[-n:]\<close>: the last \<open>n\<close> bytes, and for zero all of them.\<close>

definition last_bytes :: "nat \<Rightarrow> nat list \<Rightarrow> nat list" where
  "last_bytes n bs = (if n = 0 then bs else drop (length bs - n) bs)"

definition append_raw :: "nat list \<Rightarrow> dialog \<Rightarrow> dialog" where
  "append_raw chunk d =
     (let d1 = d\<lparr>dg_raw := dg_raw d @ chunk, dg_raw_len := dg_raw_len d + length chunk,
                dg_raw_total := dg_raw_total d + length chunk\<rparr> in
      if dg_spool_max d1 < dg_raw_len d1 then
        (let kept = last_bytes (dg_spool_max d1) (dg_raw d1) in
         d1\<lparr>dg_raw := kept, dg_raw_len := length kept, dg_raw_base := dg_raw_total d1 - length kept\<rparr>)
      else d1)"

section \<open>Writing\<close>

definition next_offset :: "dialog \<Rightarrow> nat" where
  "next_offset d = (if dg_records d \<noteq> [] then dg_flat_len d + 1 else 0)"

definition put_line :: "record_kind \<Rightarrow> speaker \<Rightarrow> chars \<Rightarrow> dialog \<Rightarrow> dialog" where
  "put_line kind who line d =
     (let rec = \<lparr>dr_idx = length (dg_records d), dr_kind = kind, dr_speaker = who, dr_text = line\<rparr> in
      d\<lparr>dg_records := dg_records d @ [rec], dg_flat_len := next_offset d + length line, dg_file := dg_file d @ [Written rec]\<rparr>)"

primrec put_lines :: "record_kind \<Rightarrow> speaker \<Rightarrow> chars list \<Rightarrow> dialog \<Rightarrow> dialog" where
  "put_lines kind who [] d = d"
| "put_lines kind who (l # ls) d = put_lines Line who ls (put_line kind who l d)"

text \<open>The offset is where the first of the lines starts.\<close>

definition append_record :: "record_kind \<Rightarrow> speaker \<Rightarrow> chars \<Rightarrow> dialog \<Rightarrow> dialog \<times> nat" where
  "append_record kind who t d = (put_lines kind who (split_lines t) d, next_offset d)"

definition append_user_input :: "chars \<Rightarrow> dialog \<Rightarrow> dialog \<times> nat" where
  "append_user_input t d =
     (let ls = split_lines t; (d1, offset) = append_record Marker User (user_mark @ hd ls) d;
          d2 = fold (\<lambda>l d. fst (append_record Line User l d)) (tl ls) d1
      in (d2\<lparr>dg_speaker := Some User, dg_user_offset := offset\<rparr>, offset))"

definition add_agent_line :: "chars \<Rightarrow> dialog \<Rightarrow> dialog" where
  "add_agent_line t d =
     (let d1 = (if dg_speaker d \<noteq> Some Agent
                then (let (d', offset) = append_record Marker Agent agent_mark d
                      in d'\<lparr>dg_speaker := Some Agent, dg_marker_offset := offset\<rparr>)
                else d)
      in fst (append_record Line Agent t d1))"

section \<open>Reading\<close>

definition flat_text :: "dialog_record list \<Rightarrow> chars" where
  "flat_text rs = join_lines (map dr_text rs)"

primrec speaker_from :: "speaker \<Rightarrow> nat \<Rightarrow> dialog_record list \<Rightarrow> nat \<Rightarrow> speaker" where
  "speaker_from who pos [] offset = who"
| "speaker_from who pos (r # rs) offset =
     (if offset < pos then who else speaker_from (dr_speaker r) (pos + length (dr_text r) + 1) rs offset)"

definition speaker_at :: "dialog_record list \<Rightarrow> nat \<Rightarrow> speaker" where
  "speaker_at rs offset = (case rs of [] \<Rightarrow> Agent | r # _ \<Rightarrow> speaker_from (dr_speaker r) 0 rs offset)"

definition is_at_record_boundary :: "chars \<Rightarrow> nat \<Rightarrow> bool" where
  "is_at_record_boundary t offset \<longleftrightarrow> offset = 0 \<or> offset \<le> length t \<and> t ! (offset - 1) = newline"

text \<open>\<open>rfind\<close> of a newline. The product \<open>0.6 * limit\<close> is cut to the integer below, exact for limits below $2^{50}$.\<close>

primrec last_newline :: "chars \<Rightarrow> nat option" where
  "last_newline [] = None"
| "last_newline (c # cs) =
     (case last_newline cs of Some i \<Rightarrow> Some (Suc i) | None \<Rightarrow> if c = newline then Some 0 else None)"

definition snap_page :: "chars \<Rightarrow> nat \<Rightarrow> nat \<Rightarrow> chars \<times> nat" where
  "snap_page chunk offset limit =
     (case last_newline (take limit chunk) of
        None \<Rightarrow> (take limit chunk, offset + limit)
      | Some at_nl \<Rightarrow>
          if at_nl < 3 * limit div 5 then (take limit chunk, offset + limit)
          else (take (at_nl + 1) chunk, offset + at_nl + 1))"

record page =
  pg_text :: chars
  pg_start_offset :: nat
  pg_next_offset :: nat
  pg_speaker_at_start :: speaker
  pg_continued :: bool
  pg_total_len :: nat

definition page :: "dialog_record list \<Rightarrow> int \<Rightarrow> int option \<Rightarrow> bool \<Rightarrow> page res" where
  "page rs offset limit snap =
     (if offset < 0 then Inl ValueError
      else if (case limit of None \<Rightarrow> False | Some n \<Rightarrow> n \<le> 0) then Inl ValueError
      else
        (let t = flat_text rs; start = nat offset; chunk = drop start t;
             at_page = (\<lambda>txt nxt. \<lparr>pg_text = txt, pg_start_offset = start, pg_next_offset = nxt, pg_speaker_at_start = speaker_at rs start,
                            pg_continued = \<not> is_at_record_boundary t start, pg_total_len = length t\<rparr>)
         in if length t \<le> start then Inr (at_page [] (length t))
            else (case limit of
                    None \<Rightarrow> Inr (at_page chunk (length t))
                  | Some n \<Rightarrow>
                      if length chunk \<le> nat n then Inr (at_page chunk (length t))
                      else if snap then (let (txt, nxt) = snap_page chunk start (nat n) in Inr (at_page txt nxt))
                      else Inr (at_page (take (nat n) chunk) (start + nat n)))))"

text \<open>\<open>tail\<close>: the last characters, from the start of a line when one starts among them.\<close>

primrec find_newline :: "chars \<Rightarrow> nat option" where
  "find_newline [] = None"
| "find_newline (c # cs) = (if c = newline then Some 0 else map_option Suc (find_newline cs))"

record tail_page =
  tp_text :: chars
  tp_speaker_at_start :: speaker
  tp_start_offset :: nat
  tp_total_len :: nat

definition tail_of :: "dialog_record list \<Rightarrow> nat option \<Rightarrow> tail_page" where
  "tail_of rs max_chars =
     (let t = flat_text rs;
          start = (case max_chars of
                     None \<Rightarrow> 0
                   | Some m \<Rightarrow> if length t \<le> m then 0
                       else (let raw = length t - m in
                             case find_newline (drop raw t) of Some i \<Rightarrow> raw + i + 1 | None \<Rightarrow> raw))
      in \<lparr>tp_text = drop start t, tp_speaker_at_start = speaker_at rs start, tp_start_offset = start, tp_total_len = length t\<rparr>)"

section \<open>The reader on disk\<close>

text \<open>
  Of a session that is no longer live: a file that is missing or that does not parse to its end
  is an unavailable transcript.
\<close>

fun read_jsonl :: "jsonl list \<Rightarrow> dialog_record list option" where
  "read_jsonl [] = Some []"
| "read_jsonl (Written r # ls) = map_option (Cons r) (read_jsonl ls)"
| "read_jsonl (Torn # ls) = None"

definition DialogReader :: "jsonl list option \<Rightarrow> dialog_record list option" where
  "DialogReader file = (case file of None \<Rightarrow> None | Some ls \<Rightarrow> read_jsonl ls)"

end
