(* ===== verification/Nelix_Dialog_Props.thy ===== *)
theory Nelix_Dialog_Props
  imports Nelix_Dialog
begin

text \<open>
  Paging reads the whole transcript, once and in order; offsets point at the records they were
  given for; what is on disk is what is in memory; the spool holds the last bytes appended.
\<close>

section \<open>Pages\<close>

lemma last_newline_less: "last_newline t = Some i \<Longrightarrow> i < length t \<and> t ! i = newline"
  by (induction t arbitrary: i) (auto split: option.splits if_splits)

lemma snap_page_slice:
  assumes "snap_page chunk offset limit = (out, nxt)" "0 < limit" "limit < length chunk"
  shows "out = take (nxt - offset) chunk \<and> offset < nxt \<and> nxt \<le> offset + limit"
  using assms last_newline_less [of "take limit chunk"]
  by (auto simp: snap_page_def split: option.splits if_splits)

text \<open>
  A page is a slice. A page that does not raise holds exactly the characters between its
  start and its next offset (or none beyond the end), it is never longer than the limit, and
  unless the end was reached it makes progress and does not pass the end.
\<close>

theorem page_is_a_slice:
  assumes "page rs (int start) limit snap = Inr p"
  shows "pg_text p = take (pg_next_offset p - start) (drop start (flat_text rs)) \<and> pg_start_offset p = start \<and>
    pg_total_len p = length (flat_text rs) \<and>
    (case limit of None \<Rightarrow> True | Some n \<Rightarrow> int (length (pg_text p)) \<le> n) \<and>
    (if length (flat_text rs) \<le> start then pg_next_offset p = length (flat_text rs)
     else start < pg_next_offset p \<and> pg_next_offset p \<le> length (flat_text rs))"
proof -
  define t where "t = flat_text rs"
  define at_page where "at_page = (\<lambda>out nxt. \<lparr>pg_text = out, pg_start_offset = start, pg_next_offset = nxt, pg_speaker_at_start = speaker_at rs start,
                            pg_continued = \<not> is_at_record_boundary t start, pg_total_len = length t\<rparr>)"
  have lim: "0 < n" if "limit = Some n" for n using assms that by (simp add: page_def split: if_splits)
  consider (past) "length t \<le> start" "p = at_page [] (length t)"
    | (rest) "start < length t" "limit = None \<or> (\<exists>n. limit = Some n \<and> length (drop start t) \<le> nat n)" "p = at_page (drop start t) (length t)"
    | (snapped) n out nxt where "start < length t" "limit = Some n" "nat n < length (drop start t)"
        "snap_page (drop start t) start (nat n) = (out, nxt)" "p = at_page out nxt"
    | (hard) n where "start < length t" "limit = Some n" "nat n < length (drop start t)"
        "p = at_page (take (nat n) (drop start t)) (start + nat n)"
    using assms by (cases limit; cases "snap_page (drop start t) start (nat (the limit))")
      (auto simp: page_def t_def at_page_def Let_def not_le split: if_splits)
  then show ?thesis
  proof cases
    case past
    then show ?thesis using lim by (auto simp: at_page_def t_def split: option.split)
  next
    case rest
    then show ?thesis using lim by (auto simp: at_page_def t_def split: option.split)
  next
    case (snapped n out nxt)
    have "0 < n" using lim snapped(2) .
    then have "out = take (nxt - start) (drop start t)" "start < nxt" "nxt \<le> start + nat n"
      using snap_page_slice [OF snapped(4) _ snapped(3)] by auto
    then show ?thesis using snapped \<open>0 < n\<close> by (auto simp: at_page_def t_def)
  next
    case (hard n)
    then show ?thesis using lim [OF hard(2)] by (auto simp: at_page_def t_def)
  qed
qed

section \<open>Following a transcript\<close>

lemma flat_Nil [simp]: "flat_text [] = []"
  by (simp add: flat_text_def)

lemma flat_snoc: "flat_text (rs @ [r]) = flat_text rs @ (if rs = [] then dr_text r else newline # dr_text r)"
proof -
  have "join_lines (ls @ [l]) = join_lines ls @ (if ls = [] then l else newline # l)" for ls l
    by (induction ls rule: join_lines.induct) auto
  then show ?thesis by (simp add: flat_text_def)
qed

lemma flat_grows: "\<exists>more. flat_text (rs @ rs') = flat_text rs @ more"
proof (induction rs' rule: rev_induct)
  case (snoc r rs')
  then show ?case using flat_snoc [of "rs @ rs'" r] by auto
qed simp

text \<open>
  A reader that asks for one page after the other, each from where the last one ended, while the
  session goes on writing: before each page some records are added.
\<close>

primrec follow :: "(dialog_record list \<times> int) list \<Rightarrow> dialog_record list \<Rightarrow> nat \<Rightarrow> chars \<times> nat" where
  "follow [] rs start = ([], start)"
| "follow (x # xs) rs start =
     (case page (rs @ fst x) (int start) (Some (snd x)) True of
        Inl e \<Rightarrow> follow xs (rs @ fst x) start
      | Inr p \<Rightarrow> (let (more, end) = follow xs (rs @ fst x) (pg_next_offset p) in (pg_text p @ more, end)))"

lemma page_total: "0 < n \<Longrightarrow> \<exists>p. page rs (int start) (Some n) snap = Inr p"
  by (auto simp: page_def Let_def split: prod.split)

lemma follow_slice:
  assumes "list_all (\<lambda>x. 0 < snd x) xs" "start \<le> length (flat_text rs)" "follow xs rs start = (out, stop)"
  shows "out = take (stop - start) (drop start (flat_text (rs @ concat (map fst xs)))) \<and> start \<le> stop \<and>
    stop \<le> length (flat_text (rs @ concat (map fst xs))) \<and>
    min (start + length xs) (length (flat_text rs)) \<le> stop"
  using assms
proof (induction xs arbitrary: rs start out)
  case (Cons x xs)
  let ?rs = "rs @ fst x" and ?all = "rs @ fst x @ concat (map fst xs)"
  obtain p where p: "page ?rs (int start) (Some (snd x)) True = Inr p" using page_total Cons.prems(1) by fastforce
  obtain more where out: "follow xs ?rs (pg_next_offset p) = (more, stop)" "out = pg_text p @ more"
    using Cons.prems(3) p by (auto split: prod.splits)
  obtain g1 where g1: "flat_text ?rs = flat_text rs @ g1" using flat_grows by blast
  obtain g2 where g2: "flat_text ?all = flat_text ?rs @ g2" using flat_grows [of ?rs "concat (map fst xs)"] by auto
  have s: "pg_text p = take (pg_next_offset p - start) (drop start (flat_text ?rs))"
    "start \<le> pg_next_offset p" "pg_next_offset p \<le> length (flat_text ?rs)"
    "start < length (flat_text ?rs) \<Longrightarrow> start < pg_next_offset p"
    using page_is_a_slice [OF p] Cons.prems(2) g1 by (auto split: if_splits)
  have ih: "more = take (stop - pg_next_offset p) (drop (pg_next_offset p) (flat_text ?all))" "pg_next_offset p \<le> stop"
    "stop \<le> length (flat_text ?all)" "min (pg_next_offset p + length xs) (length (flat_text ?rs)) \<le> stop"
    using Cons.IH [OF _ s(3) out(1)] Cons.prems(1) by simp_all
  have "pg_text p = take (pg_next_offset p - start) (drop start (flat_text ?all))" using s g2 by simp
  then have "out = take (stop - start) (drop start (flat_text ?all))"
    using out(2) ih(1,2) s(2) take_add [of "pg_next_offset p - start" "stop - pg_next_offset p" "drop start (flat_text ?all)"]
    by (simp add: drop_drop [symmetric] add.commute)
  moreover have "min (start + length (x # xs)) (length (flat_text rs)) \<le> stop"
  proof (cases "start < length (flat_text ?rs)")
    case True
    then show ?thesis using ih(4) s(4) g1 by auto
  next
    case False
    then show ?thesis using s(2,3) ih(2) g1 by auto
  qed
  ultimately show ?case using ih s by simp
qed simp

text \<open>
  C19: paging reads everything once. A reader that starts at zero and follows the next offsets, with
  any limits, while any records are written in between, has read at each moment exactly the first
  characters of the transcript, none twice and none left out; and with as many pages as the
  transcript had characters at the start it has at least all of these.
\<close>

definition all_records :: "(dialog_record list \<times> int) list \<Rightarrow> dialog_record list \<Rightarrow> dialog_record list" where
  "all_records xs rs = rs @ concat (map fst xs)"

theorem paging_reads_everything_once:
  assumes "list_all (\<lambda>x. 0 < snd x) xs" "follow xs rs 0 = (out, stop)"
  shows "out = take stop (flat_text (all_records xs rs)) \<and> stop \<le> length (flat_text (all_records xs rs)) \<and>
    (length (flat_text rs) \<le> length xs \<longrightarrow> length (flat_text rs) \<le> stop)"
  using follow_slice [OF assms(1) _ assms(2)] by (auto simp: all_records_def)

section \<open>Writing\<close>

definition dialog_ok :: "dialog \<Rightarrow> bool" where
  "dialog_ok d \<longleftrightarrow>
     dg_flat_len d = length (flat_text (dg_records d)) \<and> dg_file d = map Written (dg_records d) \<and>
     list_all (\<lambda>r. newline \<notin> set (dr_text r)) (dg_records d) \<and>
     map dr_idx (dg_records d) = [0..<length (dg_records d)]"

lemma split_lines_plain: "l \<in> set (split_lines t) \<Longrightarrow> newline \<notin> set l"
  by (induction t arbitrary: l) (auto split: list.splits if_splits)

lemma split_lines_ne [simp]: "split_lines t \<noteq> []"
  by (induction t) (auto split: list.split)

lemma join_split [simp]: "join_lines (split_lines t) = t"
proof (induction t)
  case (Cons c t)
  then show ?case by (cases "split_lines t" rule: join_lines.cases) auto
qed simp

lemma split_plain: "newline \<notin> set l \<Longrightarrow> split_lines l = [l]"
  by (induction l) auto

definition separator :: "dialog \<Rightarrow> chars" where
  "separator d = (if dg_records d = [] then [] else [newline])"

lemma put_line_facts:
  assumes "dialog_ok d" "newline \<notin> set l"
  shows "dialog_ok (put_line k w l d)"
    "flat_text (dg_records (put_line k w l d)) = flat_text (dg_records d) @ separator d @ l"
    "dg_records (put_line k w l d) \<noteq> []"
  using assms by (auto simp: dialog_ok_def put_line_def Let_def flat_snoc next_offset_def separator_def)

lemma next_offset_eq: "dialog_ok d \<Longrightarrow> next_offset d = length (flat_text (dg_records d) @ separator d)"
  by (simp add: next_offset_def dialog_ok_def separator_def)

lemma put_lines_facts:
  assumes "dialog_ok d" "\<And>l. l \<in> set ls \<Longrightarrow> newline \<notin> set l" "ls \<noteq> []"
  shows "dialog_ok (put_lines k w ls d) \<and> dg_records (put_lines k w ls d) \<noteq> [] \<and>
    flat_text (dg_records (put_lines k w ls d)) = flat_text (dg_records d) @ separator d @ join_lines ls \<and>
    (\<exists>new. dg_records (put_lines k w ls d) = dg_records d @ new \<and> new \<noteq> [] \<and> list_all (\<lambda>r. dr_speaker r = w) new)"
  using assms
proof (induction ls arbitrary: d k)
  case (Cons l ls)
  note f = put_line_facts [OF Cons.prems(1) Cons.prems(2) [of l], of k w]
  have p: "dg_records (put_line k w l d) = dg_records d @ [\<lparr>dr_idx = length (dg_records d), dr_kind = k, dr_speaker = w, dr_text = l\<rparr>]"
    by (simp add: put_line_def Let_def)
  show ?case
  proof (cases "ls = []")
    case True
    then show ?thesis using f p by simp
  next
    case False
    then obtain m ms where ls: "ls = m # ms" by (cases ls) auto
    have "separator (put_line k w l d) = [newline]" using f(3) by (simp add: separator_def)
    then show ?thesis using Cons.IH [of "put_line k w l d" Line] Cons.prems(2) f p False ls by auto
  qed
qed simp

lemma append_plain: "newline \<notin> set l \<Longrightarrow> append_record k w l d = (put_line k w l d, next_offset d)"
  by (simp add: append_record_def split_plain)

lemma fold_append_lines:
  "(\<And>l. l \<in> set ls \<Longrightarrow> newline \<notin> set l) \<Longrightarrow> fold (\<lambda>l d. fst (append_record Line w l d)) ls d = put_lines Line w ls d"
  by (induction ls arbitrary: d) (simp_all add: append_plain)

lemma append_user_input_eq:
  "append_user_input t d =
     ((put_lines Marker User ((user_mark @ hd (split_lines t)) # tl (split_lines t)) d)
        \<lparr>dg_speaker := Some User, dg_user_offset := next_offset d\<rparr>, next_offset d)"
proof -
  have hd: "newline \<notin> set (user_mark @ hd (split_lines t))"
    using split_lines_plain [of "hd (split_lines t)" t] by (simp add: user_mark_def)
  have tl: "newline \<notin> set l" if "l \<in> set (tl (split_lines t))" for l
    using split_lines_plain [of l t] that list.set_sel(2) [OF split_lines_ne] by blast
  show ?thesis
    using fold_append_lines [of "tl (split_lines t)" User] tl by (simp add: append_user_input_def Let_def append_plain [OF hd])
qed

lemma user_input_facts:
  assumes "dialog_ok d" "append_user_input t d = (d', offset)"
  shows "dialog_ok d'" "offset = length (flat_text (dg_records d) @ separator d)"
    "flat_text (dg_records d') = flat_text (dg_records d) @ separator d @ user_mark @ t"
    "\<exists>new. dg_records d' = dg_records d @ new \<and> new \<noteq> [] \<and> list_all (\<lambda>r. dr_speaker r = User) new"
proof -
  let ?ls = "(user_mark @ hd (split_lines t)) # tl (split_lines t)"
  have plain: "newline \<notin> set l" if "l \<in> set ?ls" for l
    using that split_lines_plain [of _ t] list.set_sel [OF split_lines_ne] by (auto simp: user_mark_def)
  have "join_lines ?ls = user_mark @ join_lines (split_lines t)"
    by (cases "split_lines t" rule: join_lines.cases) simp_all
  then have j: "join_lines ?ls = user_mark @ t" by simp
  define d1 where "d1 = put_lines Marker User ?ls d"
  have f: "dialog_ok d1 \<and> dg_records d1 \<noteq> [] \<and>
      flat_text (dg_records d1) = flat_text (dg_records d) @ separator d @ user_mark @ t \<and>
      (\<exists>new. dg_records d1 = dg_records d @ new \<and> new \<noteq> [] \<and> list_all (\<lambda>r. dr_speaker r = User) new)"
    using put_lines_facts [of d ?ls Marker User, OF assms(1) plain] unfolding d1_def [symmetric] j by blast
  have e: "d' = d1\<lparr>dg_speaker := Some User, dg_user_offset := next_offset d\<rparr>" "offset = next_offset d"
    using assms(2) unfolding append_user_input_eq d1_def [symmetric] by auto
  show "dialog_ok d'" using f e(1) by (simp add: dialog_ok_def)
  show "offset = length (flat_text (dg_records d) @ separator d)" using e(2) next_offset_eq [OF assms(1)] by simp
  show "flat_text (dg_records d') = flat_text (dg_records d) @ separator d @ user_mark @ t"
    "\<exists>new. dg_records d' = dg_records d @ new \<and> new \<noteq> [] \<and> list_all (\<lambda>r. dr_speaker r = User) new"
    using f e(1) by simp_all
qed

lemma agent_line_facts:
  assumes "dialog_ok d"
  shows "dialog_ok (add_agent_line t d)"
    "\<exists>more. flat_text (dg_records (add_agent_line t d)) = flat_text (dg_records d) @ more @ t"
proof -
  define d1 where "d1 = (if dg_speaker d \<noteq> Some Agent
      then (put_line Marker Agent agent_mark d)\<lparr>dg_speaker := Some Agent, dg_marker_offset := next_offset d\<rparr> else d)"
  have m: "newline \<notin> set agent_mark" by (simp add: agent_mark_def)
  have e: "add_agent_line t d = put_lines Line Agent (split_lines t) d1"
    by (simp add: add_agent_line_def d1_def append_plain [OF m]) (simp add: append_record_def)
  have ok: "dialog_ok d1" and more: "\<exists>more. flat_text (dg_records d1) = flat_text (dg_records d) @ more"
    using put_line_facts [OF assms m, of Marker Agent] assms by (auto simp: d1_def dialog_ok_def)
  note f = put_lines_facts [where k = Line and w = Agent, OF ok split_lines_plain]
  show "dialog_ok (add_agent_line t d)" using f e by simp
  show "\<exists>more. flat_text (dg_records (add_agent_line t d)) = flat_text (dg_records d) @ more @ t"
    using f e more by auto
qed

datatype dialog_op = User_input chars | Agent_line chars | Raw "nat list"

fun dialog_step :: "dialog \<Rightarrow> dialog_op \<Rightarrow> dialog" where
  "dialog_step d (User_input t) = fst (append_user_input t d)"
| "dialog_step d (Agent_line t) = add_agent_line t d"
| "dialog_step d (Raw bs) = append_raw bs d"

lemma append_raw_keeps [simp]:
  "dg_records (append_raw bs d) = dg_records d" "dg_flat_len (append_raw bs d) = dg_flat_len d" "dg_file (append_raw bs d) = dg_file d"
  by (simp_all add: append_raw_def Let_def)

interpretation transcript: step_machine dialog_step "\<lambda>d op. True" dialog_ok
proof
  fix d op
  assume "dialog_ok d"
  then show "dialog_ok (dialog_step d op)"
  proof (cases op)
    case (User_input t)
    then show ?thesis using user_input_facts(1) [OF \<open>dialog_ok d\<close>, of t] by (cases "append_user_input t d") simp
  next
    case (Agent_line t)
    then show ?thesis using agent_line_facts(1) [OF \<open>dialog_ok d\<close>] by simp
  next
    case (Raw bs)
    then show ?thesis using \<open>dialog_ok d\<close> by (simp add: dialog_ok_def)
  qed
qed

lemma dialog_ok_start: "dialog_ok (Dialog spool raw)"
  by (simp add: dialog_ok_def Dialog_def)

lemma dialog_run_ok: "dialog_ok (transcript.run (Dialog spool raw) ops)"
proof (rule transcript.run_inv [OF dialog_ok_start])
  show "transcript.legal_run d ops" for d by (induction ops arbitrary: d) simp_all
qed






section \<open>The copy on disk\<close>

lemma read_written: "read_jsonl (map Written rs) = Some rs"
  by (induction rs) simp_all

lemma read_torn: "read_jsonl (map Written rs @ [Torn]) = None"
  by (induction rs) simp_all

text \<open>
  C21: the disk has what the memory has. At every moment the reader of the file finds the very
  records of the live transcript, so every page and every tail it serves is the same; and when the
  daemon dies in the middle of writing the next record, the reader finds nothing at all.
\<close>

theorem disk_transcript_is_the_live_one:
  assumes "d = transcript.run (Dialog spool raw) ops"
  shows "DialogReader (Some (dg_file d)) = Some (dg_records d) \<and>
    map_option (\<lambda>rs. page rs start limit snap) (DialogReader (Some (dg_file d))) = Some (page (dg_records d) start limit snap) \<and>
    DialogReader (Some (dg_file d @ [Torn])) = None"
  using dialog_run_ok [of spool raw ops] assms by (simp add: DialogReader_def dialog_ok_def read_written read_torn)

section \<open>The spool\<close>

primrec appended :: "dialog_op list \<Rightarrow> nat list" where
  "appended [] = []"
| "appended (op # ops) = (case op of Raw bs \<Rightarrow> bs | _ \<Rightarrow> []) @ appended ops"

definition spool_ok :: "nat list \<Rightarrow> dialog \<Rightarrow> bool" where
  "spool_ok all d \<longleftrightarrow>
     dg_raw d = (if dg_spool_max d = 0 then all else drop (length all - dg_spool_max d) all) \<and>
     dg_raw_len d = length (dg_raw d) \<and> dg_raw_total d = length all \<and> dg_raw_base d + length (dg_raw d) = length all"

lemma append_raw_ok: "spool_ok all d \<Longrightarrow> spool_ok (all @ bs) (append_raw bs d)"
proof -
  assume s: "spool_ok all d"
  let ?n = "dg_spool_max d" and ?m = "if dg_spool_max d = 0 then 0 else length all - dg_spool_max d"
  have raw: "dg_raw d @ bs = drop ?m (all @ bs)" using s by (simp add: spool_ok_def)
  have len: "dg_raw_len d + length bs = length (drop ?m (all @ bs))" using s by (simp add: spool_ok_def)
  have base: "dg_raw_base d = length all - length (drop ?m all)" "length (drop ?m all) \<le> length all" using s by (auto simp: spool_ok_def)
  show ?thesis
  proof (cases "?n < length (drop ?m (all @ bs))")
    case True
    have "last_bytes ?n (drop ?m (all @ bs)) = (if ?n = 0 then all @ bs else drop (length (all @ bs) - ?n) (all @ bs))"
      using True by (simp add: last_bytes_def del: drop_append)
    then show ?thesis using s True raw len by (simp add: spool_ok_def append_raw_def Let_def del: drop_append)
  next
    case False
    then have "drop ?m (all @ bs) = (if ?n = 0 then all @ bs else drop (length (all @ bs) - ?n) (all @ bs))"
    proof (cases "?n = 0")
      case pos: False
      then have "length all - ?n = length (all @ bs) - ?n" using False by simp
      then show ?thesis using pos by presburger
    qed simp
    moreover have "append_raw bs d = d\<lparr>dg_raw := drop ?m (all @ bs), dg_raw_len := length (drop ?m (all @ bs)),
        dg_raw_total := length (all @ bs)\<rparr>"
      using s False raw len by (simp add: append_raw_def Let_def spool_ok_def del: drop_append)
    moreover have "dg_raw_base d + length (drop ?m (all @ bs)) = length (all @ bs)" using base by auto
    ultimately show ?thesis by (simp add: spool_ok_def del: drop_append length_append length_drop)
  qed
qed

lemma put_line_raw [simp]:
  "dg_raw (put_line k w l d) = dg_raw d" "dg_raw_len (put_line k w l d) = dg_raw_len d"
  "dg_raw_total (put_line k w l d) = dg_raw_total d" "dg_raw_base (put_line k w l d) = dg_raw_base d"
  "dg_spool_max (put_line k w l d) = dg_spool_max d"
  by (simp_all add: put_line_def Let_def)

lemma put_lines_raw [simp]:
  "dg_raw (put_lines k w ls d) = dg_raw d" "dg_raw_len (put_lines k w ls d) = dg_raw_len d"
  "dg_raw_total (put_lines k w ls d) = dg_raw_total d" "dg_raw_base (put_lines k w ls d) = dg_raw_base d"
  "dg_spool_max (put_lines k w ls d) = dg_spool_max d"
  by (induction ls arbitrary: k d) simp_all

lemma step_spool:
  assumes "spool_ok all d"
  shows "spool_ok (all @ (case op of Raw bs \<Rightarrow> bs | _ \<Rightarrow> [])) (dialog_step d op)"
proof (cases op)
  case (Raw bs)
  then show ?thesis using append_raw_ok [OF assms] by simp
next
  case (User_input t)
  have "spool_ok all (fst (append_user_input t d)) \<longleftrightarrow> spool_ok all d"
    unfolding append_user_input_eq spool_ok_def by simp
  then show ?thesis using assms User_input by simp
next
  case (Agent_line t)
  have "spool_ok all (add_agent_line t d) \<longleftrightarrow> spool_ok all d"
    by (simp add: add_agent_line_def append_record_def spool_ok_def Let_def)
  then show ?thesis using assms Agent_line by simp
qed

text \<open>
  C22: the spool holds the last bytes. After any use, with a positive bound, the spool is the
  longest end of all the bytes ever appended that fits the bound, and its base offset and length
  add up to their number. With a bound of zero it is never cut.
\<close>

theorem spool_is_the_last_bytes:
  assumes "length raw \<le> spool \<or> spool = 0" "d = transcript.run (Dialog spool raw) ops"
  shows "dg_raw d = (if spool = 0 then raw @ appended ops else drop (length (raw @ appended ops) - spool) (raw @ appended ops)) \<and>
    (0 < spool \<longrightarrow> length (dg_raw d) \<le> spool) \<and> dg_raw_base d + length (dg_raw d) = length (raw @ appended ops)"
proof -
  have run: "spool_ok (all @ appended ops) (transcript.run d0 ops) \<and> dg_spool_max (transcript.run d0 ops) = dg_spool_max d0"
    if "spool_ok all d0" for all d0
    using that
  proof (induction ops arbitrary: all d0)
    case (Cons op ops)
    have "dg_spool_max (dialog_step d0 op) = dg_spool_max d0"
      by (cases op) (simp_all add: append_user_input_eq add_agent_line_def append_record_def append_raw_def Let_def)
    then show ?case using Cons.IH [OF step_spool [OF Cons.prems, of op]] by simp
  qed simp
  have "spool_ok raw (Dialog spool raw)" using assms(1) by (auto simp: spool_ok_def Dialog_def)
  from run [OF this] have "spool_ok (raw @ appended ops) d" "dg_spool_max d = spool" using assms(2) by (simp_all add: Dialog_def)
  then show ?thesis by (auto simp: spool_ok_def simp del: drop_append length_append)
qed

section \<open>A demonstration\<close>

definition demo_records :: "dialog_record list" where
  "demo_records = [\<lparr>dr_idx = 0, dr_kind = Line, dr_speaker = Agent, dr_text = [1, 2, 3]\<rparr>, \<lparr>dr_idx = 1, dr_kind = Line, dr_speaker = Agent, dr_text = [4]\<rparr>]"

theorem page_is_a_slice_witness: "\<exists>p. page demo_records (int 0) (Some 4) True = Inr p \<and> pg_text p = [1, 2, 3, 10] \<and> pg_next_offset p = 4"
proof -
  obtain p where p: "page demo_records (int 0) (Some 4) True = Inr p" "pg_next_offset p = 4"
  proof -
    have "(case page demo_records (int 0) (Some 4) True of Inr p \<Rightarrow> pg_next_offset p = 4 | Inl e \<Rightarrow> False)" by code_simp
    then show thesis using that by (auto split: sum.splits)
  qed
  have "flat_text demo_records = [1, 2, 3, 10, 4]" by code_simp
  with page_is_a_slice [OF p(1)] p show ?thesis by simp
qed

theorem paging_reads_everything_once_witness:
  "fst (follow [([], 4), ([], 4)] demo_records 0) = take 5 (flat_text (all_records [([], 4), ([], 4)] demo_records))"
proof -
  have "follow [([], 4), ([], 4)] demo_records 0 = (fst (follow [([], 4), ([], 4)] demo_records 0), 5)" by code_simp
  from paging_reads_everything_once [OF _ this] show ?thesis by simp
qed


theorem disk_transcript_is_the_live_one_witness:
  "DialogReader (Some (dg_file (transcript.run (Dialog 9 []) [Agent_line [1], User_input [2]]))) \<noteq> None"
  using disk_transcript_is_the_live_one [OF refl, of 9 "[]" "[Agent_line [1], User_input [2]]"] by simp

theorem spool_is_the_last_bytes_witness: "dg_raw (transcript.run (Dialog 2 []) [Raw [1], Raw [2, 3]]) = [2, 3]"
  using spool_is_the_last_bytes [OF _ refl, of "[]" 2 "[Raw [1], Raw [2, 3]]"] by (simp add: numeral_2_eq_2)

end
