(* ===== verification/Nelix_Route.thy ===== *)
theory Nelix_Route
  imports Nelix_Board Nelix_Registry Nelix_Dialog
begin

text \<open>
  \<^verbatim>\<open>router/session_forward.py\<close> with a ledger and a store: where a request for a session
  goes. The generation's answer to a forward, and a session's transcript on disk, are the world;
  the request's other fields travel unread and are left out, except where the archive reads them.
\<close>

section \<open>Requests\<close>

datatype operation = Status | Dialog pyval pyval | Screen | Respond | Stop | Restart

record route_world =
  ro_world :: world
  ro_answer :: "nat \<Rightarrow> generation_handle \<Rightarrow> raw_outcome"
  ro_transcript :: "nat \<Rightarrow> string \<Rightarrow> jsonl list option"

text \<open>What comes back: a generation's own answer, with the generation it came from, or the archive's.\<close>

datatype route_reply =
    Relayed generation_handle int pyval
  | Archived_status string string string
  | Archived_dialog page bool

definition forward_handle :: "route_world \<Rightarrow> generation_handle \<Rightarrow> route_reply act" where
  "forward_handle w h =
     andthen (probe (\<lambda>n. relay (ro_answer w n h))) (\<lambda>r.
     case r of Inl e \<Rightarrow> raises e | Inr (status, body) \<Rightarrow> returns (Relayed h status body))"

definition unsupported :: "'a act" where
  "unsupported = raises (NelixError UNSUPPORTED_BY_GENERATION)"

section \<open>The archive\<close>

text \<open>
  The limits a page takes are numbers, but they arrive as the text of a query, and comparing text
  with a number raises; whatever is raised over a transcript makes it unsupported.
\<close>

fun page_argument :: "pyval \<Rightarrow> int option res" where
  "page_argument VNone = Inr None"
| "page_argument (VInt n) = Inr (Some n)"
| "page_argument v = Inl TypeError"

definition archived_page :: "dialog_record list \<Rightarrow> pyval \<Rightarrow> pyval \<Rightarrow> page res" where
  "archived_page rs offset limit =
     rbind (page_argument offset) (\<lambda>from_offset.
     rbind (page_argument limit) (\<lambda>l.
       page rs (case from_offset of None \<Rightarrow> 0 | Some n \<Rightarrow> n) l True))"

definition route_archived :: "route_world \<Rightarrow> string \<Rightarrow> string \<Rightarrow> operation \<Rightarrow> route_reply act" where
  "route_archived w sid owner op =
     (case op of
        Status \<Rightarrow>
          catching_nelix (andthen (reading (get_terminal sid owner)) (\<lambda>t.
            returns (Archived_status sid (tr_terminal_kind t) (tr_summary t)))) unsupported
      | Dialog offset limit \<Rightarrow>
          andthen (probe (\<lambda>n. ro_transcript w n sid)) (\<lambda>file.
          case DialogReader file of
            None \<Rightarrow> unsupported
          | Some rs \<Rightarrow>
              (case archived_page rs offset limit of
                 Inl e \<Rightarrow> unsupported
               | Inr p \<Rightarrow> returns (Archived_dialog p (pg_total_len p \<le> pg_next_offset p))))
      | _ \<Rightarrow> unsupported)"

section \<open>Routing\<close>

text \<open>What the ledger and the registry know of a session; nothing when either fails.\<close>

definition resolve_session :: "route_world \<Rightarrow> string \<Rightarrow> (string \<times> string \<times> generation_handle option) option act" where
  "resolve_session w sid =
     catching_nelix
       (andthen (reading (get_session_generation (VStr sid))) (\<lambda>(g, e).
        case e of
          None \<Rightarrow> andthen (reading (get_generation (VStr g))) (\<lambda>_. andthen (reading (list_epochs (VStr g))) (\<lambda>_. raises (NelixError UNKNOWN_SESSION)))
        | Some e \<Rightarrow> andthen (resolve_generation_state (ro_world w) g e) (\<lambda>(ps, lc, cap, h). returns (Some (ps, lc, h)))))
       (returns None)"

definition forward_active :: "route_world \<Rightarrow> route_reply act" where
  "forward_active w = andthen (active (ro_world w)) (forward_handle w)"

definition resolve_and_forward :: "route_world \<Rightarrow> string \<Rightarrow> string \<Rightarrow> operation \<Rightarrow> route_reply act" where
  "resolve_and_forward w owner sid op =
     andthen (resolve_session w sid) (\<lambda>known.
     case known of
       None \<Rightarrow> forward_active w
     | Some (ps, lc, h) \<Rightarrow>
         if op = Restart \<and> lc = ''draining'' \<and> ps = ''serving'' then unavailable
         else if ps \<noteq> ''serving'' then route_archived w sid owner op
         else (case h of Some h \<Rightarrow> forward_handle w h | None \<Rightarrow> forward_active w))"

text \<open>The owner's routes validate the shape of both ids first.\<close>

definition session_request :: "route_world \<Rightarrow> pyval \<Rightarrow> pyval \<Rightarrow> operation \<Rightarrow> route_reply act" where
  "session_request w owner_id session_id op =
     (case invalid_id_as_request (validate_owner_id owner_id) of
        Inl e \<Rightarrow> raises e
      | Inr owner \<Rightarrow>
          if session_id = VNone then raises (NelixError INVALID_REQUEST)
          else (case invalid_id_as_request (validate_session_id session_id) of
                  Inl e \<Rightarrow> raises e
                | Inr sid \<Rightarrow> resolve_and_forward w owner sid op))"

section \<open>The executor's plane\<close>

text \<open>
  \<open>forward_secret\<close>, for the path of a hook or a message: a handle is used whatever the state of
  the epoch, and only a session that is known not to be served is refused.
\<close>

definition forward_secret :: "route_world \<Rightarrow> pyval \<Rightarrow> route_reply act" where
  "forward_secret w session_id =
     (case invalid_id_as_request (validate_session_id session_id) of
        Inl e \<Rightarrow> raises e
      | Inr sid \<Rightarrow>
          andthen (resolve_session w sid) (\<lambda>known.
          case known of
            Some (ps, lc, Some h) \<Rightarrow> forward_handle w h
          | Some (ps, lc, None) \<Rightarrow> if ps \<noteq> ''serving'' then unsupported else forward_active w
          | None \<Rightarrow> forward_active w))"

end
