(* ===== verification/Nelix_Route_Props.thy ===== *)
theory Nelix_Route_Props
  imports Nelix_Route Nelix_Registry_Props Nelix_Start_Props
begin

text \<open>
  Where a session's requests go: a session that is over is answered from the archive, a session
  that runs reaches a generation, its own exactly when that is the one the registry has.
\<close>

section \<open>The cached generation\<close>

definition cached :: "string \<times> string \<Rightarrow> registry \<Rightarrow> bool" where
  "cached k r \<longleftrightarrow> (\<exists>a. rg_active r = Some a \<and> (ag_generation_id a, ag_epoch a) = k)"

lemma cached_asks: "asks m \<Longrightarrow> preserves (cached k) m"
  by (simp add: asks_def preserves_def cached_def same_registry_def)

lemmas cached_looks = asks_probes [THEN cached_asks] asks_endpoint [THEN cached_asks]

lemma cached_writing: "preserves (cached k) (writing t)"
  by (simp add: preserves_def cached_def writing_def split: sum.split)

lemma cached_check_pointer: "preserves (cached k) (check_pointer g e)"
  unfolding check_pointer_def
  by (intro inv_intros cached_writing | split option.split list.split if_split | intro conjI allI impI)+

lemma cached_refresh:
  assumes "(ag_generation_id a, ag_epoch a) = k"
  shows "preserves (cached k) (refresh_active w a)"
proof -
  have set: "preserves (cached k) (set_active (a\<lparr>ag_transport := t, ag_incarnation := inc\<rparr>))" for t inc
    using assms by (simp add: preserves_def cached_def set_active_def changing_def)
  show ?thesis
    unfolding refresh_active_def confirm_active_def Let_def
    by (intro inv_intros cached_check_pointer set cached_looks
      | split option.split if_split | intro conjI allI impI)+
qed

lemma refresh_handle: "refresh_active w a r = (Inr h, r') \<Longrightarrow> h = handle_of a"
  by (auto simp: refresh_active_def confirm_active_def Let_def andthen_Inr split: option.splits if_splits)

lemma cached_active:
  assumes "cached k r"
  shows "cached k (snd (active w r))" and "active w r = (Inr h, r') \<Longrightarrow> (gh_generation_id h, gh_epoch h) = k"
proof -
  obtain a where a: "rg_active r = Some a" "(ag_generation_id a, ag_epoch a) = k" using assms by (auto simp: cached_def)
  have e: "active w r = refresh_active w a r" using a(1) by (simp add: active_def andthen_def get_active_def)
  show "cached k (snd (active w r))" using cached_refresh [OF a(2), of w] assms e by (simp add: preserves_def)
  show "active w r = (Inr h, r') \<Longrightarrow> (gh_generation_id h, gh_epoch h) = k"
    using refresh_handle [of w a r h r'] a(2) e by (auto simp: handle_of_def)
qed

section \<open>What is known of a session\<close>

definition known_epoch :: "db \<Rightarrow> string \<Rightarrow> string \<Rightarrow> string \<Rightarrow> string \<Rightarrow> string \<Rightarrow> bool" where
  "known_epoch d sid g e ps lc \<longleftrightarrow>
     get_session_generation (VStr sid) d = Inr (g, Some e) \<and>
     (case (get_generation (VStr g) d, list_epochs (VStr g) d) of
        (Inr gen, Inr es) \<Rightarrow>
          gr_lifecycle_state gen = lc \<and>
          (case find (\<lambda>x. er_generation_epoch x = e) es of Some x \<Rightarrow> er_process_state x = ps | None \<Rightarrow> False)
      | _ \<Rightarrow> False)"

lemma resolve_session_via:
  assumes "get_session_generation (VStr sid) (rg_db r) = Inr (g, Some e)"
    and "resolve_generation_state (ro_world w) g e r = andthen m (\<lambda>h. returns (ps, lc, cap, h)) r"
  shows "resolve_session w sid r = catching_nelix (andthen m (\<lambda>h. returns (Some (ps, lc, h)))) (returns None) r"
proof -
  obtain y r' where y: "m r = (y, r')" by (rule prod.exhaust)
  show ?thesis
    by (cases y) (simp_all add: resolve_session_def catching_nelix_def catching_def andthen_def reading_def assms y returns_def)
qed

lemma resolve_known:
  assumes "known_epoch (rg_db r) sid g e ps lc"
  shows "resolve_session w sid r = catching_nelix (andthen (case rg_active r of
      Some y \<Rightarrow> if ps = ''serving'' \<and> ag_generation_id y = g \<and> ag_epoch y = e
                then catching_nelix (andthen (refresh_active (ro_world w) y) (\<lambda>h. returns (Some h))) (returns None) else returns None
    | None \<Rightarrow> returns None) (\<lambda>h. returns (Some (ps, lc, h)))) (returns None) r"
proof -
  obtain gen es x where k: "get_session_generation (VStr sid) (rg_db r) = Inr (g, Some e)" "get_generation (VStr g) (rg_db r) = Inr gen"
    "list_epochs (VStr g) (rg_db r) = Inr es" "find (\<lambda>x. er_generation_epoch x = e) es = Some x" "er_process_state x = ps"
    "gr_lifecycle_state gen = lc" using assms by (auto simp: known_epoch_def split: sum.splits option.splits)
  show ?thesis
    by (rule resolve_session_via [OF k(1), where cap = "gr_capability_snapshot gen"])
      (use k in \<open>cases "rg_active r"; simp add: resolve_generation_state_def andthen_def get_active_def reading_def\<close>)
qed

lemma resolve_dead:
  assumes "known_epoch (rg_db r) sid g e ps lc" "ps \<noteq> ''serving''"
  shows "resolve_session w sid r = (Inr (Some (ps, lc, None)), r)"
  unfolding resolve_known [OF assms(1)] using assms(2)
  by (cases "rg_active r") (simp_all add: catching_nelix_def catching_def andthen_def returns_def)

lemma resolve_serving:
  assumes k: "known_epoch (rg_db r) sid g e ''serving'' lc" and c: "cached key r" and y: "resolve_session w sid r = (Inr y, r')"
  shows "cached key r'" "y = None \<or> (\<exists>h. y = Some (''serving'', lc, h) \<and> (\<forall>x. h = Some x \<longrightarrow> (gh_generation_id x, gh_epoch x) = key))"
proof -
  obtain a where a: "rg_active r = Some a" "(ag_generation_id a, ag_epoch a) = key" using c by (auto simp: cached_def)
  let ?ask = "if ag_generation_id a = g \<and> ag_epoch a = e
     then catching_nelix (andthen (refresh_active (ro_world w) a) (\<lambda>h. returns (Some h))) (returns None) else returns None"
  have s: "resolve_session w sid r = catching_nelix (andthen ?ask (\<lambda>h. returns (Some (''serving'', lc, h)))) (returns None) r"
    unfolding resolve_known [OF k] by (simp add: a(1))
  have p: "preserves (cached key) (catching_nelix (andthen ?ask (\<lambda>h. returns (Some (''serving'', lc, h)))) (returns None))"
    by (intro inv_intros cached_refresh [OF a(2)] | split if_split | intro conjI allI impI)+
  show "cached key r'" by (rule preservesD [OF p c y [unfolded s]])
  have "(gh_generation_id x, gh_epoch x) = key" if "?ask r = (Inr (Some x), r1)" for x r1
    using that a(2) by (auto simp: catching_nelix_Inr andthen_Inr handle_of_def dest!: refresh_handle split: if_splits)
  then show "y = None \<or> (\<exists>h. y = Some (''serving'', lc, h) \<and> (\<forall>x. h = Some x \<longrightarrow> (gh_generation_id x, gh_epoch x) = key))"
    using y unfolding s by (auto simp: catching_nelix_Inr [of "andthen _ _"] andthen_Inr)
qed

lemma forward_handle_Inr: "forward_handle w h r = (Inr reply, r') \<Longrightarrow> \<exists>s b. reply = Relayed h s b"
  by (auto simp: forward_handle_def andthen_Inr split: sum.splits)

lemma session_request_eq:
  assumes "match_owner owner" "match_hex_id (CHR ''s'') sid"
  shows "session_request w (VStr owner) (VStr sid) op = resolve_and_forward w owner sid op"
  using assms by (simp add: session_request_def validate_id_defs)

section \<open>Sessions that run\<close>

text \<open>
  C16: a request reaches the generation the registry has. For a session whose epoch is serving,
  every answer that comes back was relayed from the one generation the router has cached, by
  whatever path it was reached; so it comes from the session's own generation exactly when that
  is the cached one. A session of a draining generation is forwarded to the new one, which does
  not know it.
\<close>

theorem requests_reach_the_cached_generation:
  assumes "match_owner owner" "match_hex_id (CHR ''s'') sid" "known_epoch (rg_db r) sid g e ''serving'' lc" "rg_active r = Some a"
    and "session_request w (VStr owner) (VStr sid) op r = (Inr reply, r')"
  shows "\<exists>h s b. reply = Relayed h s b \<and> gh_generation_id h = ag_generation_id a \<and> gh_epoch h = ag_epoch a \<and>
    (gh_generation_id h = g \<and> gh_epoch h = e \<longleftrightarrow> ag_generation_id a = g \<and> ag_epoch a = e)"
proof -
  let ?k = "(ag_generation_id a, ag_epoch a)"
  have c: "cached ?k r" using assms(4) by (simp add: cached_def)
  obtain y r1 where y: "resolve_session w sid r = (Inr y, r1)"
    and rest: "(case y of None \<Rightarrow> forward_active w
     | Some (ps, lc, h) \<Rightarrow>
         if op = Restart \<and> lc = ''draining'' \<and> ps = ''serving'' then unavailable
         else if ps \<noteq> ''serving'' then route_archived w sid owner op
         else (case h of Some h \<Rightarrow> forward_handle w h | None \<Rightarrow> forward_active w)) r1 = (Inr reply, r')"
    using assms(5) unfolding session_request_eq [OF assms(1,2)] resolve_and_forward_def andthen_Inr by blast
  note s = resolve_serving [OF assms(3) c y]
  have fwd: "\<exists>h st b. reply = Relayed h st b \<and> (gh_generation_id h, gh_epoch h) = ?k" if "forward_active w r1 = (Inr reply, r')"
    using that cached_active(2) [OF s(1)] forward_handle_Inr unfolding forward_active_def andthen_Inr by blast
  have "\<exists>h st b. reply = Relayed h st b \<and> (gh_generation_id h, gh_epoch h) = ?k"
    using s(2)
  proof (elim disjE exE conjE)
    assume "y = None"
    then show ?thesis using rest fwd by simp
  next
    fix h
    assume "y = Some (''serving'', lc, h)" "\<forall>x. h = Some x \<longrightarrow> (gh_generation_id x, gh_epoch x) = ?k"
    then show ?thesis using rest fwd forward_handle_Inr by (cases h) (fastforce split: if_splits)+
  qed
  then show ?thesis by auto
qed

section \<open>Sessions that are over\<close>

text \<open>
  C17: a session that is over is never forwarded. When the store says that its epoch no longer
  serves, no generation is asked and the registry is not consulted: its state is the archive's,
  and only its owner gets it; its transcript is the one on disk; everything else is refused with
  the one code that says so.
\<close>

theorem finished_sessions_stay_in_the_archive:
  assumes "match_owner owner" "match_hex_id (CHR ''s'') sid" "known_epoch (rg_db r) sid g e ps lc" "ps \<noteq> ''serving''"
    and "session_request w (VStr owner) (VStr sid) op r = (reply, r')"
  shows "rg_db r' = rg_db r \<and> rg_active r' = rg_active r \<and>
    (case reply of
       Inl x \<Rightarrow> is_nelix x \<longrightarrow> x = NelixError UNSUPPORTED_BY_GENERATION
     | Inr (Relayed h s b) \<Rightarrow> False
     | Inr (Archived_status i k t) \<Rightarrow> op = Status \<and> i = sid \<and> (\<exists>st. start_of (rg_db r) sid = Some st \<and> st_owner_id st = owner)
     | Inr (Archived_dialog p at_end) \<Rightarrow> \<exists>a b. op = Dialog a b)"
proof -
  have e: "route_archived w sid owner op r = (reply, r')"
    using assms(5) resolve_dead [OF assms(3,4), of w] assms(4)
    by (simp add: session_request_eq [OF assms(1,2)] resolve_and_forward_def andthen_def)
  show ?thesis
  proof (cases op)
    case Status
    then show ?thesis using e
      by (auto simp: route_archived_def catching_nelix_def catching_def andthen_def reading_def unsupported_def raises_def returns_def
        get_terminal_def is_nelix_def split: sum.splits option.splits if_splits exn.splits)
  next
    case (Dialog a b)
    then show ?thesis using e
      by (auto simp: route_archived_def andthen_def probe_def unsupported_def raises_def returns_def split: sum.splits option.splits)
  qed (use e in \<open>auto simp: route_archived_def unsupported_def raises_def\<close>)
qed

text \<open>
  C18: the archive's transcripts have no owner. The transcript of a session that is over is read
  from disk without the question whose it is, which the session's generation would have asked:
  every caller with a well-formed id gets the same, and without limits it is all of it. With
  an offset, which a query can only give as text, nobody gets anything.
\<close>

theorem archived_transcripts_have_no_owner:
  assumes "match_owner owner" "match_owner other" "match_hex_id (CHR ''s'') sid" "known_epoch (rg_db r) sid g e ps lc" "ps \<noteq> ''serving''"
  shows "session_request w (VStr owner) (VStr sid) (Dialog a b) r = session_request w (VStr other) (VStr sid) (Dialog a b) r \<and>
    (\<forall>rs. DialogReader (ro_transcript w (rg_now r) sid) = Some rs \<longrightarrow>
       (\<exists>p. fst (session_request w (VStr owner) (VStr sid) (Dialog VNone VNone) r) = Inr (Archived_dialog p True) \<and> pg_text p = flat_text rs)) \<and>
    fst (session_request w (VStr owner) (VStr sid) (Dialog (VStr q) b) r) = Inl (NelixError UNSUPPORTED_BY_GENERATION)"
proof -
  have e: "session_request w (VStr who) (VStr sid) (Dialog a b) r = route_archived w sid who (Dialog a b) r" if "match_owner who" for who a b
    using resolve_dead [OF assms(4,5), of w] assms(5)
    by (simp add: session_request_eq [OF that assms(3)] resolve_and_forward_def andthen_def)
  have whole: "\<exists>p. archived_page rs VNone VNone = Inr p \<and> pg_text p = flat_text rs \<and> pg_total_len p \<le> pg_next_offset p" for rs
    by (auto simp: archived_page_def page_def Let_def)
  show ?thesis
  proof (intro conjI allI impI)
    show "session_request w (VStr owner) (VStr sid) (Dialog a b) r = session_request w (VStr other) (VStr sid) (Dialog a b) r"
      by (simp add: e assms(1,2) route_archived_def)
    show "fst (session_request w (VStr owner) (VStr sid) (Dialog (VStr q) b) r) = Inl (NelixError UNSUPPORTED_BY_GENERATION)"
      by (simp add: e [OF assms(1)] route_archived_def archived_page_def andthen_def probe_def unsupported_def raises_def split: option.split)
    fix rs
    assume "DialogReader (ro_transcript w (rg_now r) sid) = Some rs"
    then show "\<exists>p. fst (session_request w (VStr owner) (VStr sid) (Dialog VNone VNone) r) = Inr (Archived_dialog p True) \<and> pg_text p = flat_text rs"
      using whole [of rs] by (auto simp: e [OF assms(1)] route_archived_def andthen_def probe_def returns_def)
  qed
qed

section \<open>A demonstration\<close>

text \<open>A session started on the generation that the router has; later its epoch is over.\<close>

definition demo_session :: registry where
  "demo_session = \<lparr>rg_db = fst demo_handled, rg_build_id = Some ''b'', rg_generation_id = Some demo_gid,
     rg_active = Some (adopted demo_gid (Some ''b'') demo_epoch (incarnation_of (demo_lock 7)) (Unix ''sock'')),
     rg_topology_revision = 1, rg_health_retries = 2, rg_now = 10, rg_reaped = []\<rparr>"

definition demo_finished :: registry where
  "demo_finished = demo_session\<lparr>rg_db := store_step (fst demo_handled) (ReconcileEpochDead (VStr demo_gid) (VStr demo_epoch))\<rparr>"

definition demo_route_world :: route_world where
  "demo_route_world =
     \<lparr>ro_world = (demo_world 100)\<lparr>w_health := (\<lambda>n t. Some [(''generation_id'', VStr demo_gid), (''generation_epoch'', VStr demo_epoch),
        (''build_id'', VStr ''b'')])\<rparr>,
      ro_answer = (\<lambda>n h. Answer 200 VNone), ro_transcript = (\<lambda>n sid. Some [])\<rparr>"

lemma demo_known: "known_epoch (rg_db demo_session) demo_sid demo_gid demo_epoch ''serving'' ''active''"
  "known_epoch (rg_db demo_finished) demo_sid demo_gid demo_epoch ''dead'' ''active''"
  "match_owner ''alice''" "match_owner ''bob''" "match_hex_id (CHR ''s'') demo_sid"
  by code_simp+

lemma demo_relays: "fst (session_request demo_route_world (VStr ''alice'') (VStr demo_sid) Screen demo_session) =
    Inr (Relayed \<lparr>gh_generation_id = demo_gid, gh_epoch = demo_epoch\<rparr> 200 VNone)"
  by code_simp

theorem requests_reach_the_cached_generation_witness:
  "\<exists>h s b. fst (session_request demo_route_world (VStr ''alice'') (VStr demo_sid) Screen demo_session) = Inr (Relayed h s b) \<and>
     gh_generation_id h = demo_gid \<and> gh_epoch h = demo_epoch"
proof -
  obtain r' where s: "session_request demo_route_world (VStr ''alice'') (VStr demo_sid) Screen demo_session =
      (Inr (Relayed \<lparr>gh_generation_id = demo_gid, gh_epoch = demo_epoch\<rparr> 200 VNone), r')"
    using demo_relays by (metis prod.collapse)
  have a: "rg_active demo_session = Some (adopted demo_gid (Some ''b'') demo_epoch (incarnation_of (demo_lock 7)) (Unix ''sock''))"
    by (simp add: demo_session_def)
  from requests_reach_the_cached_generation [OF demo_known(3,5,1) a s] show ?thesis
    by (auto simp: s adopted_def)
qed

theorem finished_sessions_stay_in_the_archive_witness:
  "rg_active (snd (session_request demo_route_world (VStr ''alice'') (VStr demo_sid) Stop demo_finished)) = rg_active demo_finished"
  using finished_sessions_stay_in_the_archive [OF demo_known(3,5,2) _ prod.collapse [symmetric], of demo_route_world Stop]
  by simp

theorem archived_transcripts_have_no_owner_witness:
  "session_request demo_route_world (VStr ''alice'') (VStr demo_sid) (Dialog VNone VNone) demo_finished =
   session_request demo_route_world (VStr ''bob'') (VStr demo_sid) (Dialog VNone VNone) demo_finished"
  using archived_transcripts_have_no_owner [OF demo_known(3,4,5,2), of demo_route_world VNone VNone] by simp

end
