(* ===== verification/Spec2Isabelle.thy ===== *)
theory Spec2Isabelle
  imports Nelix_Contract_Props Nelix_Events_Props Nelix_Leases_Props Nelix_Retention_Props Nelix_Bootstrap_Props
    Nelix_Belief_Props Nelix_Start_Props Nelix_Wait_Props Nelix_Lease_Net_Props Nelix_Readoption
    Nelix_Retire_Props Nelix_Runtime_Props Nelix_Reaper_Props Nelix_Dialog_Props Nelix_Route_Props
begin

text \<open>
  nelix runs coding agents for other agents. One \<^bold>\<open>router\<close> per machine (\<^verbatim>\<open>src/router\<close>)
  accepts requests over a socket; one or more \<^bold>\<open>generations\<close> (a daemon process each,
  \<^verbatim>\<open>src/daemon\<close>) own the terminals of the sessions; both share one SQLite \<^bold>\<open>store\<close>
  (\<^verbatim>\<open>src/packages/nelix_store\<close>) and one vocabulary of identifiers, errors, records and
  cursors, the \<^bold>\<open>contracts\<close> (\<^verbatim>\<open>src/packages/nelix_contracts\<close>). A start is reserved in the
  store's ledger under an idempotency key, bound to a generation and forwarded once; the
  generation's belief engine reads screen and hooks and publishes decisions to its event
  queue; a finished session leaves a terminal record on its owner's board until it is
  acknowledged, expires or is collected; callers read the fan-out board and long-poll with
  a vector cursor; capacity is granted as leases the router counts.

  \<^bold>\<open>How code becomes definitions.\<close> A class is a record of its attributes, a method a function
  on it that returns the new state with its result; a raise is a value of
  \<^typ>\<open>exn\<close> on the left of a sum (\<open>Nelix_Prelude\<close>), and an error path that has already
  changed the state returns that state. A dynamically typed argument is a \<open>pyval\<close>. Python
  integers are \<open>int\<close>, floats exact rationals, strings character lists, dictionaries association
  lists in insertion order. A method under a lock, and a transaction, is one step; where the
  code drops its lock or may be killed (request threads, the bootstrap, the lease protocol) the
  method is split at those points and the steps of different threads interleave freely. Clocks,
  fresh random ids, digests, the JSON text layer and what another process answered are
  arguments.

  \<^bold>\<open>Contracts.\<close> \<open>Nelix_Ids\<close> (\<^verbatim>\<open>ids.py\<close>), \<open>Nelix_Lifecycle\<close> (\<^verbatim>\<open>lifecycle.py\<close>,
  \<^verbatim>\<open>routing.py\<close>), \<open>Nelix_Records\<close> (\<^verbatim>\<open>records.py\<close>), \<open>Nelix_Retirement\<close>
  (\<^verbatim>\<open>retirement.py\<close>), \<open>Nelix_Cursor\<close> (\<^verbatim>\<open>cursor.py\<close>); \<open>Nelix_Contract_Props\<close> has the round trips and
  the cursor's monotonicity.

  \<^bold>\<open>Store.\<close> \<open>Nelix_Db\<close> holds the tables with their constraints (\<^verbatim>\<open>db.py\<close>'s schema),
  \<open>Nelix_Store\<close>, \<open>Nelix_Generations\<close> and \<open>Nelix_Ledger\<close> the methods of \<^verbatim>\<open>store.py\<close> and
  \<^verbatim>\<open>ledger.py\<close>, \<open>Nelix_Bootstrap\<close> the opening of the file as durable steps a crash may
  interrupt. \<open>Nelix_Store_Inv\<close> states consistency, \<open>Nelix_Store_Ops\<close>,
  \<open>Nelix_Generations_Ops\<close>, \<open>Nelix_Store_Machine\<close> prove that every operation keeps it,
  \<open>Nelix_Store_Frames\<close> and \<open>Nelix_Store_Evolution\<close> say what an operation or a run may change;
  \<open>Nelix_Store_Props\<close>, \<open>Nelix_Board_Props\<close>, \<open>Nelix_Retention_Props\<close>, \<open>Nelix_Bootstrap_Props\<close>
  hold the properties.

  \<^bold>\<open>Generation.\<close> \<open>Nelix_Events\<close> is \<^verbatim>\<open>daemon/events.py\<close> (log, indices, eviction, waits), with
  \<open>Nelix_Events_Inv\<close>, \<open>Nelix_Events_Runs\<close> and \<open>Nelix_Events_Props\<close>; \<open>Nelix_Hooks\<close> and
  \<open>Nelix_Belief\<close> are \<^verbatim>\<open>hooks.py\<close>, \<^verbatim>\<open>observation.py\<close>, \<^verbatim>\<open>belief.py\<close>, with
  \<open>Nelix_Belief_Inv\<close> and \<open>Nelix_Belief_Props\<close>; \<open>Nelix_Lease_Client\<close> is \<^verbatim>\<open>lease_client.py\<close> with the
  router's lease routes, \<open>Nelix_Lease_Net\<close> the token tables of \<^verbatim>\<open>manager.py\<close> and the lease protocol
  between its threads, a lossy network and a router that restarts. \<open>Nelix_Dialog\<close> is
  \<^verbatim>\<open>dialog.py\<close> (the transcript of a session, its paging and its copy on disk, \<open>Nelix_Dialog_Props\<close>),
  \<open>Nelix_Reaper\<close> is \<^verbatim>\<open>reaper.py\<close> (what a new daemon kills of those before it, \<open>Nelix_Reaper_Props\<close>).

  \<^bold>\<open>Router.\<close> \<open>Nelix_Start\<close> is \<^verbatim>\<open>start.py\<close> as code and as interleavable steps (\<open>Nelix_Start_Props\<close>);
  \<open>Nelix_Leases\<close> is \<^verbatim>\<open>leases.py\<close> (\<open>Nelix_Leases_Inv\<close>, \<open>Nelix_Leases_Props\<close>); \<open>Nelix_Board\<close> is
  \<^verbatim>\<open>board.py\<close> (\<open>Nelix_Board_Merge\<close>), \<open>Nelix_Wait\<close> is \<^verbatim>\<open>wait.py\<close> (\<open>Nelix_Wait_Props\<close>);
  \<open>Nelix_Route\<close> is \<^verbatim>\<open>session_forward.py\<close> (\<open>Nelix_Route_Props\<close>).

  \<^bold>\<open>Runtimes.\<close> \<open>Nelix_Runtime\<close> is the directory of installed runtimes: the installers of
  \<^verbatim>\<open>runtime.py\<close>, which may be killed anywhere, and the collector of
  \<^verbatim>\<open>nelix_store/gc.py\<close> (\<open>Nelix_Runtime_Props\<close>).

  \<^bold>\<open>Generations and their daemons.\<close> \<open>Nelix_Supervisor\<close> is the part of
  \<^verbatim>\<open>generation_supervisor.py\<close> the router uses (the holder of a generation's lock, the identity
  its daemon reports, reaping, spawning), \<open>Nelix_Registry\<close> is \<^verbatim>\<open>registry.py\<close> (re-adoption at
  start, the active generation, minting, discovery), \<open>Nelix_Operator\<close> is \<^verbatim>\<open>operator.py\<close>
  (activation, retirement) with the daemon's three operator handlers of \<^verbatim>\<open>manager.py\<close>. They are
  programs over one action type: a state with the database, the cached generation and a clock
  that ticks at every question to the outside. The outside itself (who holds a lock, what a
  daemon answers, whether a process dies) is a record of functions of that clock, so it may
  change between any two looks; the theorems hold for every such world.
  \<open>Nelix_Registry_Inv\<close> and \<open>Nelix_Retire_Inv\<close> have the rules for such programs (what a program
  keeps, what it only asks), \<open>Nelix_Registry_Props\<close>, \<open>Nelix_Readoption\<close>, \<open>Nelix_Retire_Props\<close>
  the properties.

  \<^bold>\<open>Loops.\<close> The bootstrap lock, the long-poll and the reaper's wait for a process may run
  forever when the clock stands still: they are partial functions, and it is proved that they
  return when some iteration finds the deadline over. Every other loop is structural or has a measure.

  \<^bold>\<open>Not modelled.\<close> Terminals, processes, sockets, HTTP parsing, log lines and the human-readable
  text of errors; SQLite itself beyond its transactions, constraints and error classes; the
  rounding of floats; \<open>NaN\<close> as a dictionary key. The session object (\<^verbatim>\<open>session.py\<close>) drives a
  terminal from timers and reader threads, and is left to its parts that are modelled (belief,
  events, leases, transcript); the registry's test supervisor, an operator without a store, the
  building of wheels and virtual environments, and the command line are left out.
\<close>

end
